(* ===== verification/Prelude.thy ===== *)
theory Prelude
  imports Main "HOL-Library.AList" "HOL-Library.Multiset" "HOL-Library.Sublist"
    "HOL-Library.Char_ord" "HOL-Library.List_Lexorder"
begin

text \<open>
  Shared vocabulary of the development: Go maps as association lists, the arbitrary order
  in which Go ranges over a map, early exit from a range loop, and the locale for "every
  operation keeps an invariant" that the components interpret.
\<close>

section \<open>Collections of facts\<close>

named_theorems go_defs \<open>definitions of the small Go library functions\<close>
named_theorems inv_intros \<open>invariants kept by the operations of a component\<close>

section \<open>Go maps\<close>

text \<open>
  A Go map is an association list without repeated keys: \<open>map_of\<close> is the comma-ok lookup,
  \<open>AList.update\<close> the assignment \<open>m[k] = v\<close>, \<open>AList.delete\<close> the builtin \<open>delete(m, k)\<close>
  and \<open>length\<close> the builtin \<open>len\<close>.
\<close>

type_synonym ('k, 'v) gomap = "('k \<times> 'v) list"

abbreviation mkeys :: "('k, 'v) gomap \<Rightarrow> 'k list" where
  "mkeys m \<equiv> map fst m"

abbreviation mwf :: "('k, 'v) gomap \<Rightarrow> bool" where
  "mwf m \<equiv> distinct (map fst m)"

abbreviation mput :: "'k \<Rightarrow> 'v \<Rightarrow> ('k, 'v) gomap \<Rightarrow> ('k, 'v) gomap" where
  "mput \<equiv> AList.update"

abbreviation mdel :: "'k \<Rightarrow> ('k, 'v) gomap \<Rightarrow> ('k, 'v) gomap" where
  "mdel \<equiv> AList.delete"

lemma map_of_mput: "map_of (mput k v m) x = (if x = k then Some v else map_of m x)"
  by (simp add: update_conv')

lemma map_of_mdel: "map_of (mdel k m) x = (if x = k then None else map_of m x)"
  by (simp add: delete_conv')

lemmas gomap_simps = map_of_mput map_of_mdel

lemma mwf_mput [inv_intros]: "mwf m \<Longrightarrow> mwf (mput k v m)"
  by (rule distinct_update)

lemma mwf_mdel [inv_intros]: "mwf m \<Longrightarrow> mwf (mdel k m)"
  by (rule distinct_delete)

lemma mkeys_mput: "set (mkeys (mput k v m)) = insert k (set (mkeys m))"
  by (simp add: dom_update)

lemma mkeys_mdel: "set (mkeys (mdel k m)) = set (mkeys m) - {k}"
  by (simp add: delete_keys del: set_map)

lemma mem_mput_D: "(a, b) \<in> set (mput k v m) \<Longrightarrow> (a, b) = (k, v) \<or> (a, b) \<in> set m"
  by (induction m) (auto split: if_splits)

lemma mem_mput_mwf:
  "mwf m \<Longrightarrow> (a, b) \<in> set (mput k v m) \<longleftrightarrow> (a = k \<and> b = v) \<or> (a \<noteq> k \<and> (a, b) \<in> set m)"
  by (induction m) (auto split: if_splits simp: rev_image_eqI)

lemma mem_mdel: "(a, b) \<in> set (mdel k m) \<longleftrightarrow> a \<noteq> k \<and> (a, b) \<in> set m"
  by (induction m) auto

lemma mget_mem: "mwf m \<Longrightarrow> map_of m k = Some v \<longleftrightarrow> (k, v) \<in> set m"
  by simp

lemma mget_None: "map_of m k = None \<longleftrightarrow> k \<notin> set (mkeys m)"
  by (simp add: map_of_eq_None_iff)

lemma mget_filter_keys:
  "map_of (filter (\<lambda>(k, v). P k) m) x = (if P x then map_of m x else None)"
  by (induction m) auto

lemma mget_filter:
  "mwf m \<Longrightarrow> map_of (filter (\<lambda>(k, v). P k v) m) x =
    (case map_of m x of None \<Rightarrow> None | Some v \<Rightarrow> if P x v then Some v else None)"
  by (induction m) (auto split: option.splits simp: map_of_eq_None_iff rev_image_eqI)

lemma mwf_filter [inv_intros]: "mwf m \<Longrightarrow> mwf (filter P m)"
  by (simp add: distinct_map_filter)

lemma mkeys_map [simp]: "map (fst \<circ> (\<lambda>(k, v). (k, f v))) m = mkeys m"
  by (induction m) auto

lemma mget_map: "map_of (map (\<lambda>(k, v). (k, f v)) m) x = map_option f (map_of m x)"
  by (induction m) auto

lemma mkeys_filter_subset: "set (mkeys (filter P m)) \<subseteq> set (mkeys m)"
  by auto

section \<open>Ranging over a map\<close>

text \<open>
  Go ranges over a map in an unspecified order. A loop over a map takes the order as an
  argument, a function \<open>ord\<close> from the stored list of keys to the visited list; all that is
  known of it is that it permutes its argument.
\<close>

definition order_ok :: "('a list \<Rightarrow> 'a list) \<Rightarrow> bool" where
  "order_ok ord \<longleftrightarrow> (\<forall>xs. mset (ord xs) = mset xs)"

lemma order_ok_set: "order_ok ord \<Longrightarrow> set (ord xs) = set xs"
  unfolding order_ok_def by (metis set_mset_mset)

lemma order_ok_distinct: "order_ok ord \<Longrightarrow> distinct xs \<Longrightarrow> distinct (ord xs)"
  unfolding order_ok_def by (metis mset_eq_imp_distinct_iff)

lemma order_ok_length: "order_ok ord \<Longrightarrow> length (ord xs) = length xs"
  unfolding order_ok_def by (metis mset_eq_length)

lemma order_ok_id: "order_ok id" and order_ok_rev: "order_ok rev"
  by (simp_all add: order_ok_def)

text \<open>
  \<open>UserManager.Range\<close> and similar loops stop as soon as the callback returns false; the
  callback's answer is \<open>True\<close> here when the loop should stop.
\<close>

fun range_until :: "('a \<Rightarrow> bool) \<Rightarrow> 'a list \<Rightarrow> bool" where
  "range_until stop [] = False"
| "range_until stop (x # xs) = (if stop x then True else range_until stop xs)"

lemma range_until_iff: "range_until stop xs \<longleftrightarrow> (\<exists>x\<in>set xs. stop x)"
  by (induction xs) auto

section \<open>Machines and their invariants\<close>

text \<open>
  Every stateful component is a step function over the operations its mutex serialises.
  The locale asks for the one-step obligation and gives the property of whole runs.
\<close>

locale machine =
  fixes step :: "'op \<Rightarrow> 's \<Rightarrow> 's"
    and inv :: "'s \<Rightarrow> bool"
  assumes step_inv: "inv s \<Longrightarrow> inv (step x s)"
begin

lemma run_inv: "inv s \<Longrightarrow> inv (fold step xs s)"
  by (induction xs arbitrary: s) (simp_all add: step_inv)

lemma run_prefix_inv: "inv s \<Longrightarrow> prefix ys xs \<Longrightarrow> inv (fold step ys s)"
  by (rule run_inv)

end

text \<open>
  A machine with outputs: the operations return what they emit. \<open>run\<close> collects the
  outputs in order.
\<close>

fun run_out :: "('op \<Rightarrow> 's \<Rightarrow> 's \<times> 'o list) \<Rightarrow> 'op list \<Rightarrow> 's \<Rightarrow> 's \<times> 'o list" where
  "run_out f [] s = (s, [])"
| "run_out f (x # xs) s =
     (let (s1, o1) = f x s; (s2, o2) = run_out f xs s1 in (s2, o1 @ o2))"

lemma run_out_append:
  "run_out f (xs @ ys) s =
    (let (s1, o1) = run_out f xs s; (s2, o2) = run_out f ys s1 in (s2, o1 @ o2))"
  by (induction xs arbitrary: s) (auto simp: Let_def split: prod.splits)

section \<open>Small list facts\<close>

lemma last_dropWhile: "dropWhile P xs \<noteq> [] \<Longrightarrow> last (dropWhile P xs) = last xs"
  by (metis last_appendR takeWhile_dropWhile_id)

lemma dropWhile_fix: "xs = [] \<or> \<not> P (hd xs) \<Longrightarrow> dropWhile P xs = xs"
  by (cases xs) auto

end
