(* ===== verification/Go_Lib.thy ===== *)
theory Go_Lib
  imports Complex_Main Prelude "HOL-Library.Word"
begin

text \<open>
  What the program uses of the Go language and its standard library: instants and durations
  of package time, byte strings of package strings, CRC-32 of hash/crc32, 64-bit wrap-around;
  and the interface of the third-party package decimal.
\<close>

unbundle bit_operations_syntax

section \<open>64-bit integers\<close>

definition wrap64 :: "int \<Rightarrow> int" where
  "wrap64 x = (x + 2 ^ 63) mod 2 ^ 64 - 2 ^ 63"

lemma wrap64_id: "- (2 ^ 63) \<le> x \<Longrightarrow> x < 2 ^ 63 \<Longrightarrow> wrap64 x = x"
  by (simp add: wrap64_def)

lemma wrap64_bounds: "- (2 ^ 63) \<le> wrap64 x" "wrap64 x < 2 ^ 63"
proof -
  have "0 \<le> (x + 2 ^ 63) mod 2 ^ 64" "(x + 2 ^ 63) mod 2 ^ 64 < 2 ^ 64" by simp_all
  then show "- (2 ^ 63) \<le> wrap64 x" "wrap64 x < 2 ^ 63" by (simp_all add: wrap64_def)
qed

section \<open>Time\<close>

text \<open>
  A \<open>time.Time\<close> is the number of nanoseconds since the zero Time (1 January of year 1, UTC),
  so \<open>IsZero\<close> is equality with 0; a \<open>time.Duration\<close> is a signed number of nanoseconds.
  \<open>Sub\<close> saturates at the ends of int64, as documented. The monotonic reading that
  \<open>time.Now\<close> attaches is not modelled: one clock.
\<close>

type_synonym gtime = int
type_synonym gdur = int

definition nano_second :: gdur where "nano_second = 10 ^ 9"
definition nano_minute :: gdur where "nano_minute = 60 * 10 ^ 9"
definition nano_hour :: gdur where "nano_hour = 3600 * 10 ^ 9"

definition unix_epoch :: gtime where "unix_epoch = 62135596800 * 10 ^ 9"

definition is_zero_time :: "gtime \<Rightarrow> bool" where
  [go_defs]: "is_zero_time t \<longleftrightarrow> t = 0"

definition time_before :: "gtime \<Rightarrow> gtime \<Rightarrow> bool" where
  [go_defs]: "time_before a b \<longleftrightarrow> a < b"

definition time_after :: "gtime \<Rightarrow> gtime \<Rightarrow> bool" where
  [go_defs]: "time_after a b \<longleftrightarrow> b < a"

definition time_sub :: "gtime \<Rightarrow> gtime \<Rightarrow> gdur" where
  "time_sub a b = max (- (2 ^ 63)) (min (2 ^ 63 - 1) (a - b))"

definition unix_milli :: "int \<Rightarrow> gtime" where
  "unix_milli ms = unix_epoch + ms * 10 ^ 6"

definition unix_seconds :: "int \<Rightarrow> gtime" where
  "unix_seconds s = unix_epoch + s * 10 ^ 9"

definition to_unix :: "gtime \<Rightarrow> int" where
  "to_unix t = (t - unix_epoch) div 10 ^ 9"

definition truncate_time :: "gdur \<Rightarrow> gtime \<Rightarrow> gtime" where
  "truncate_time d t = (if d \<le> 0 then t else t - t mod d)"

lemma time_sub_le: "0 \<le> ttl \<Longrightarrow> ttl < 2 ^ 63 - 1 \<Longrightarrow> time_sub a b \<le> ttl \<longleftrightarrow> a - b \<le> ttl"
  by (auto simp: time_sub_def)

lemma time_sub_gt: "0 \<le> ttl \<Longrightarrow> ttl < 2 ^ 63 - 1 \<Longrightarrow> time_sub a b > ttl \<longleftrightarrow> a - b > ttl"
  by (auto simp: time_sub_def)

lemma truncate_time_le: "0 < d \<Longrightarrow> truncate_time d t \<le> t"
  by (simp add: truncate_time_def)

lemma truncate_time_dvd: "0 < d \<Longrightarrow> d dvd truncate_time d t"
  by (simp add: truncate_time_def)

lemma truncate_time_fix: "0 < d \<Longrightarrow> d dvd t \<Longrightarrow> truncate_time d t = t"
  by (simp add: truncate_time_def)

section \<open>Strings\<close>

text \<open>
  Go strings are byte strings. Exchange names, symbols, fee tables and commands are ASCII;
  on ASCII input the functions below are those of package strings.
\<close>

definition upper_char :: "char \<Rightarrow> char" where
  "upper_char c = (let n = (of_char c :: nat) in
     if 97 \<le> n \<and> n \<le> 122 then char_of (n - 32) else c)"

definition lower_char :: "char \<Rightarrow> char" where
  "lower_char c = (let n = (of_char c :: nat) in
     if 65 \<le> n \<and> n \<le> 90 then char_of (n + 32) else c)"

definition is_space :: "char \<Rightarrow> bool" where
  "is_space c \<longleftrightarrow> (of_char c :: nat) \<in> {9, 10, 11, 12, 13, 32}"

definition to_upper :: "string \<Rightarrow> string" where "to_upper = map upper_char"
definition to_lower :: "string \<Rightarrow> string" where "to_lower = map lower_char"

definition trim_left :: "string \<Rightarrow> string" where "trim_left = dropWhile is_space"

definition trim_space :: "string \<Rightarrow> string" where
  "trim_space s = rev (trim_left (rev (trim_left s)))"

definition equal_fold :: "string \<Rightarrow> string \<Rightarrow> bool" where
  "equal_fold a b \<longleftrightarrow> to_lower a = to_lower b"

definition remove_chars :: "string \<Rightarrow> string \<Rightarrow> string" where
  "remove_chars cs s = filter (\<lambda>c. c \<notin> set cs) s"

definition has_prefix :: "string \<Rightarrow> string \<Rightarrow> bool" where
  "has_prefix s p \<longleftrightarrow> take (length p) s = p"

definition has_suffix :: "string \<Rightarrow> string \<Rightarrow> bool" where
  "has_suffix s p \<longleftrightarrow> length p \<le> length s \<and> drop (length s - length p) s = p"

fun split_on :: "char \<Rightarrow> string \<Rightarrow> string list" where
  "split_on c [] = [[]]"
| "split_on c (x # xs) =
     (if x = c then [] # split_on c xs
      else case split_on c xs of [] \<Rightarrow> [[x]] | y # ys \<Rightarrow> (x # y) # ys)"

text \<open>\<open>strings.SplitN(s, sep, 2)\<close>: the text before the first separator and the rest.\<close>

fun split_two :: "char \<Rightarrow> string \<Rightarrow> string list" where
  "split_two c s =
     (if c \<in> set s then [takeWhile (\<lambda>x. x \<noteq> c) s, tl (dropWhile (\<lambda>x. x \<noteq> c) s)] else [s])"

fun join_with :: "string \<Rightarrow> string list \<Rightarrow> string" where
  "join_with sep [] = []"
| "join_with sep [x] = x"
| "join_with sep (x # y # ys) = x @ sep @ join_with sep (y # ys)"

lemma upper_char_idem [simp]: "upper_char (upper_char c) = upper_char c"
proof -
  have "of_char (char_of (of_char c - 32 :: nat) :: char) = (of_char c - 32 :: nat)"
    if "(of_char c :: nat) \<le> 122"
  proof -
    have "of_char c - 32 < (256 :: nat)" using that by linarith
    then show ?thesis by (simp add: of_char_of take_bit_eq_mod)
  qed
  then show ?thesis by (auto simp: upper_char_def Let_def)
qed

lemma to_upper_idem [simp]: "to_upper (to_upper s) = to_upper s"
  by (simp add: to_upper_def)

lemma is_space_upper [simp]: "is_space (upper_char c) = is_space c"
proof (cases "97 \<le> (of_char c :: nat) \<and> (of_char c :: nat) \<le> 122")
  case True
  then have "of_char c - 32 < (256 :: nat)" by linarith
  with True have "of_char (upper_char c) = (of_char c - 32 :: nat)"
    by (simp add: upper_char_def Let_def of_char_of take_bit_eq_mod)
  with True show ?thesis by (auto simp: is_space_def)
next
  case False
  then have "upper_char c = c" by (auto simp: upper_char_def Let_def)
  then show ?thesis by simp
qed

lemma trim_left_upper: "trim_left (to_upper s) = to_upper (trim_left s)"
  by (simp add: trim_left_def to_upper_def dropWhile_map comp_def)

lemma trim_space_upper: "trim_space (to_upper s) = to_upper (trim_space s)"
proof -
  have "rev (to_upper t) = to_upper (rev t)" for t by (simp add: to_upper_def rev_map)
  then show ?thesis by (simp add: trim_space_def trim_left_upper)
qed

text \<open>A string is trimmed when neither end is white space.\<close>

definition trimmed :: "string \<Rightarrow> bool" where
  "trimmed s \<longleftrightarrow> s = [] \<or> (\<not> is_space (hd s) \<and> \<not> is_space (last s))"

lemma trim_left_Nil [simp]: "trim_left [] = []"
  by (simp add: trim_left_def)

lemma trim_space_trimmed: "trimmed (trim_space s)"
proof (cases "trim_left s = []")
  case True
  then show ?thesis by (simp add: trim_space_def trimmed_def)
next
  case False
  let ?t = "trim_left s"
  have h: "\<not> is_space (hd ?t)" using False unfolding trim_left_def by (rule hd_dropWhile)
  have ne: "trim_left (rev ?t) \<noteq> []"
  proof
    assume "trim_left (rev ?t) = []"
    then have "\<forall>c\<in>set ?t. is_space c" by (simp add: trim_left_def dropWhile_eq_Nil_conv)
    with False h show "False" by (meson hd_in_set)
  qed
  have l: "last (trim_left (rev ?t)) = hd ?t"
    using ne False by (simp add: trim_left_def last_dropWhile last_rev)
  have "\<not> is_space (hd (trim_left (rev ?t)))"
    using ne unfolding trim_left_def by (rule hd_dropWhile)
  with h l ne show ?thesis by (simp add: trim_space_def trimmed_def hd_rev last_rev)
qed

lemma trim_space_fix: "trimmed s \<Longrightarrow> trim_space s = s"
  by (cases "s = []") (auto simp: trim_space_def trimmed_def trim_left_def dropWhile_fix hd_rev)

lemma trim_space_idem [simp]: "trim_space (trim_space s) = trim_space s"
  by (rule trim_space_fix) (rule trim_space_trimmed)

lemma trimmed_no_space: "\<forall>c\<in>set s. \<not> is_space c \<Longrightarrow> trimmed s"
  by (cases "s = []") (auto simp: trimmed_def)

lemma upper_trim_idem [simp]:
  "trim_space (to_upper (trim_space s)) = to_upper (trim_space s)"
  by (simp add: trim_space_upper)

lemma trim_space_subset: "set (trim_space s) \<subseteq> set s"
  by (auto simp: trim_space_def trim_left_def dest!: set_dropWhileD)

lemma split_on_nonempty [simp]: "split_on c s \<noteq> []"
  by (induction s) (auto split: list.splits)

lemma split_on_no_sep: "c \<notin> set s \<Longrightarrow> split_on c s = [s]"
  by (induction s) auto

lemma split_on_append: "c \<notin> set a \<Longrightarrow> split_on c (a @ c # s) = a # split_on c s"
  by (induction a) auto

lemma split_on_parts: "p \<in> set (split_on c s) \<Longrightarrow> c \<notin> set p"
  by (induction s arbitrary: p) (auto split: list.splits if_splits)

lemma split_on_join:
  assumes "xs \<noteq> []" and "\<forall>x\<in>set xs. c \<notin> set x"
  shows "split_on c (join_with [c] xs) = xs"
  using assms by (induction "[c]" xs rule: join_with.induct)
    (simp_all add: split_on_no_sep split_on_append)

lemma join_split_on: "join_with [c] (split_on c s) = s"
proof (induction s)
  case (Cons x s)
  show ?case
  proof (cases "split_on c s")
    case (Cons y ys)
    with Cons.IH show ?thesis by (cases ys) auto
  qed simp
qed simp

lemma split_two_sep: "c \<notin> set a \<Longrightarrow> split_two c (a @ c # b) = [a, b]"
  by (simp add: takeWhile_append dropWhile_append)

lemmas string_eval = to_upper_def to_lower_def trim_space_def trim_left_def is_space_def
  upper_char_def lower_char_def Let_def

section \<open>CRC-32 (hash/crc32, IEEE polynomial)\<close>

definition crc32_bit :: "32 word \<Rightarrow> 32 word" where
  "crc32_bit r = (if bit r 0 then drop_bit 1 r XOR 0xEDB88320 else drop_bit 1 r)"

definition crc32_byte :: "32 word \<Rightarrow> char \<Rightarrow> 32 word" where
  "crc32_byte r c = (crc32_bit ^^ 8) (r XOR word_of_nat (of_char c))"

definition checksum_ieee :: "string \<Rightarrow> 32 word" where
  "checksum_ieee s = NOT (fold (\<lambda>c r. crc32_byte r c) s 0xFFFFFFFF)"

lemma crc32_byte_unfold:
  "crc32_byte r c = crc32_bit (crc32_bit (crc32_bit (crc32_bit
     (crc32_bit (crc32_bit (crc32_bit (crc32_bit (r XOR word_of_nat (of_char c)))))))))"
  by (simp add: crc32_byte_def numeral_eq_Suc)

text \<open>Evaluation on closed input, innermost byte first.\<close>

lemma crc32_bit_numeral:
  "crc32_bit (numeral n) =
    (if bit (numeral n :: 32 word) 0 then drop_bit 1 (numeral n) XOR 0xEDB88320
     else drop_bit 1 (numeral n))"
  by (simp only: crc32_bit_def)

lemma crc32_byte_numeral:
  "crc32_byte (numeral n) c = crc32_bit (crc32_bit (crc32_bit (crc32_bit
     (crc32_bit (crc32_bit (crc32_bit (crc32_bit (numeral n XOR word_of_nat (of_char c)))))))))"
  by (rule crc32_byte_unfold)

lemmas crc32_eval = checksum_ieee_def crc32_byte_numeral crc32_bit_numeral bit_simps

text \<open>The check value of the published CRC-32 parameters.\<close>

lemma checksum_ieee_check: "checksum_ieee ''123456789'' = 0xCBF43926"
  by (simp add: crc32_eval)

section \<open>The decimal package\<close>

text \<open>
  \<open>decimal.Decimal\<close> (github.com/shopspring/decimal) is an exact decimal number,
  coefficient times a power of ten: a value is the rational it denotes, and the operations
  documented as exact (Add, Sub, Mul, Neg, the comparisons and predicates) are those of the
  rationals. What depends on the package's own conventions is a parameter: \<open>Div\<close>, which
  rounds to 16 digits after the point, \<open>IntPart\<close>, \<open>NewFromString\<close> and \<open>String\<close>.
\<close>

type_synonym dec = rat

record dec_lib =
  lib_div :: "dec \<Rightarrow> dec \<Rightarrow> dec"
  lib_int_part :: "dec \<Rightarrow> int"
  lib_parse :: "string \<Rightarrow> dec option"
  lib_string :: "dec \<Rightarrow> string"

text \<open>
  Documented behaviour of \<open>Div\<close>: the quotient, correct to the 16 digits it keeps, and of
  the sign of the exact quotient or zero.
\<close>

definition div_ok :: "dec_lib \<Rightarrow> bool" where
  "div_ok D \<longleftrightarrow> (\<forall>x y. y \<noteq> 0 \<longrightarrow> \<bar>lib_div D x y - x / y\<bar> \<le> 1 / 10 ^ 16)
     \<and> (\<forall>x y. 0 \<le> x \<longrightarrow> 0 < y \<longrightarrow> 0 \<le> lib_div D x y)
     \<and> (\<forall>x y. x \<le> 0 \<longrightarrow> 0 < y \<longrightarrow> lib_div D x y \<le> 0)"

lemma div_ok_near: "div_ok D \<Longrightarrow> y \<noteq> 0 \<Longrightarrow> \<bar>lib_div D x y - x / y\<bar> \<le> 1 / 10 ^ 16"
  by (simp add: div_ok_def)

lemma div_ok_nonneg: "div_ok D \<Longrightarrow> 0 \<le> x \<Longrightarrow> 0 < y \<Longrightarrow> 0 \<le> lib_div D x y"
  by (simp add: div_ok_def)

lemma div_ok_nonpos: "div_ok D \<Longrightarrow> x \<le> 0 \<Longrightarrow> 0 < y \<Longrightarrow> lib_div D x y \<le> 0"
  by (simp add: div_ok_def)

lemma div_ok_upper: "div_ok D \<Longrightarrow> y \<noteq> 0 \<Longrightarrow> lib_div D x y \<le> x / y + 1 / 10 ^ 16"
  using div_ok_near [of D y x] by linarith

text \<open>
  An instance with this behaviour, on which the theorems that assume it are exercised:
  quotients rounded to 16 digits, texts with four digits after the point.
\<close>

definition digit_value :: "char \<Rightarrow> int" where
  "digit_value c = of_char c - 48"

fun parse_digits :: "int \<Rightarrow> int \<Rightarrow> bool \<Rightarrow> string \<Rightarrow> dec option" where
  "parse_digits n scale pt [] = Some (of_int n / of_int scale)"
| "parse_digits n scale pt (c # cs) =
     (if c = CHR ''.'' \<and> \<not> pt then parse_digits n scale True cs
      else if 0 \<le> digit_value c \<and> digit_value c \<le> 9
      then parse_digits (10 * n + digit_value c) (if pt then 10 * scale else scale) pt cs
      else None)"

definition sample_parse :: "string \<Rightarrow> dec option" where
  "sample_parse s =
     (case s of [] \<Rightarrow> None
      | CHR ''-'' # t \<Rightarrow> map_option uminus (parse_digits 0 1 False t)
      | _ \<Rightarrow> parse_digits 0 1 False s)"

fun digits_of :: "nat \<Rightarrow> nat \<Rightarrow> string" where
  "digits_of 0 n = []"
| "digits_of (Suc k) n = digits_of k (n div 10) @ [char_of (48 + n mod 10)]"

definition sample_string :: "dec \<Rightarrow> string" where
  "sample_string v =
     (let n = nat \<lfloor>\<bar>v\<bar> * 10000\<rfloor>
      in (if v < 0 then ''-'' else []) @ digits_of 9 (n div 10000) @ ''.'' @ digits_of 4 (n mod 10000))"

definition sample_lib :: dec_lib where
  "sample_lib = \<lparr>lib_div = (\<lambda>x y. of_int (round (x / y * 10 ^ 16)) / 10 ^ 16),
     lib_int_part = (\<lambda>x. if 0 \<le> x then \<lfloor>x\<rfloor> else \<lceil>x\<rceil>),
     lib_parse = sample_parse, lib_string = sample_string\<rparr>"

lemma sample_div: "lib_div sample_lib x y = of_int (round (x / y * 10 ^ 16)) / 10 ^ 16"
  by (simp add: sample_lib_def)

lemma sample_div_ok: "div_ok sample_lib"
proof -
  have near: "\<bar>of_int (round (z * 10 ^ 16)) / 10 ^ 16 - z\<bar> \<le> 1 / 10 ^ 16" for z :: rat
  proof -
    have "\<bar>of_int (round (z * 10 ^ 16)) - z * 10 ^ 16\<bar> \<le> 1 / 2" by (rule of_int_round_abs_le)
    moreover have "of_int (round (z * 10 ^ 16)) / 10 ^ 16 - z
        = (of_int (round (z * 10 ^ 16)) - z * 10 ^ 16) / 10 ^ 16" by (simp add: field_simps)
    ultimately show ?thesis by (simp add: abs_divide divide_simps)
  qed
  have pos: "0 \<le> round (x / y * 10 ^ 16)" if "0 \<le> x" "0 < y" for x y :: rat
    using round_mono [of 0 "x / y * 10 ^ 16"] that by simp
  have neg: "round (x / y * 10 ^ 16) \<le> 0" if "x \<le> 0" "0 < y" for x y :: rat
  proof -
    have "x / y * 10 ^ 16 \<le> 0" using that by (simp add: divide_nonpos_pos mult_nonpos_nonneg)
    then show ?thesis using round_mono [of "x / y * 10 ^ 16" 0] by simp
  qed
  show ?thesis unfolding div_ok_def sample_div
  proof (intro conjI allI impI)
    fix x y :: rat
    show "\<bar>of_int (round (x / y * 10 ^ 16)) / 10 ^ 16 - x / y\<bar> \<le> 1 / 10 ^ 16" by (rule near)
    show "0 \<le> of_int (round (x / y * 10 ^ 16)) / (10 ^ 16 :: rat)" if "0 \<le> x" "0 < y"
      using pos [OF that] by simp
    show "of_int (round (x / y * 10 ^ 16)) / (10 ^ 16 :: rat) \<le> 0" if "x \<le> 0" "0 < y"
      using neg [OF that] by (simp add: divide_nonpos_pos)
  qed
qed

lemma digits_of_numeral:
  "digits_of (numeral k) n = digits_of (pred_numeral k) (n div 10) @ [char_of (48 + n mod 10)]"
  by (subst numeral_eq_Suc) (rule digits_of.simps)

lemma sample_string_0005: "sample_string (1 / 2000) = ''000000000.0005''"
  by (simp add: sample_string_def digits_of_numeral char_of_def Let_def bit_Suc_0_iff)

lemma sample_parse_0005: "sample_parse ''000000000.0005'' = Some (1 / 2000)"
  by (simp add: sample_parse_def digit_value_def)

lemma sample_text:
  "lib_string sample_lib (1 / 2000) = ''000000000.0005''"
  "lib_parse sample_lib ''000000000.0005'' = Some (1 / 2000)"
  by (simp_all add: sample_lib_def sample_string_0005 sample_parse_0005)

end
