(* ===== verification/Market_Types.thy ===== *)
theory Market_Types
  imports Go_Lib
begin

text \<open>
  The data of internal/domain: ticks and candles (market.go, volume.go), spread events
  and signals (signal.go), users (user.go).
\<close>

section \<open>Market data (internal/domain/market.go, volume.go)\<close>

type_synonym market_type = string

definition MarketTypeSpot :: market_type where "MarketTypeSpot = ''SPOT''"
definition MarketTypeFutures :: market_type where "MarketTypeFutures = ''FUTURES''"

lemma market_types_distinct [simp]:
  "MarketTypeSpot \<noteq> MarketTypeFutures" "MarketTypeFutures \<noteq> MarketTypeSpot"
  by (simp_all add: MarketTypeSpot_def MarketTypeFutures_def)

record market_tick =
  mt_exchange :: string
  mt_symbol :: string
  mt_market :: market_type
  mt_bid :: dec
  mt_ask :: dec
  mt_volume :: dec
  mt_event_time :: gtime
  mt_received_at :: gtime
  mt_timestamp :: gtime

record market_candle =
  mc_exchange :: string
  mc_symbol :: string
  mc_market :: market_type
  mc_open_time :: gtime
  mc_close_time :: gtime
  mc_volume :: dec
  mc_event_time :: gtime
  mc_closed :: bool

section \<open>Spread events and signals (internal/domain/signal.go)\<close>

type_synonym spread_type = string

definition CrossExchange :: spread_type where "CrossExchange = ''CROSS_EXCHANGE''"
definition IntraExchange :: spread_type where "IntraExchange = ''INTRA_EXCHANGE''"

text \<open>
  \<open>SignalLifecycle\<close> is a uint8 whose zero value marks producers without lifecycle metadata.
\<close>

datatype lifecycle = NoLifecycle | SignalOpened | SignalUpdated | SignalClosed

record spread_event =
  ev_symbol :: string
  ev_type :: spread_type
  ev_spread :: dec
  ev_buy_exchange :: string
  ev_sell_exchange :: string
  ev_exchange_a :: string
  ev_exchange_b :: string
  ev_buy_market :: market_type
  ev_sell_market :: market_type
  ev_buy_ask :: dec
  ev_sell_bid :: dec
  ev_volume :: dec
  ev_buy_rate :: dec
  ev_sell_rate :: dec
  ev_buy_next :: gtime
  ev_sell_next :: gtime
  ev_timestamp :: gtime
  ev_lifecycle :: lifecycle

record signal =
  sg_id :: string
  sg_symbol :: string
  sg_type :: spread_type
  sg_buy_exchange :: string
  sg_sell_exchange :: string
  sg_exchange_a :: string
  sg_exchange_b :: string
  sg_buy_market :: market_type
  sg_sell_market :: market_type
  sg_opened_at :: gtime
  sg_closed_at :: gtime
  sg_active :: bool
  sg_initial :: dec
  sg_peak :: dec
  sg_final :: dec
  sg_duration :: gdur
  sg_volume :: dec
  sg_buy_rate :: dec
  sg_sell_rate :: dec
  sg_buy_next :: gtime
  sg_sell_next :: gtime
  sg_notified :: "int list"

section \<open>Users (internal/domain/user.go, config.go)\<close>

type_synonym timeframe = string

definition TF_1m :: timeframe where "TF_1m = ''1m''"
definition TF_5m :: timeframe where "TF_5m = ''5m''"
definition TF_15m :: timeframe where "TF_15m = ''15m''"
definition TF_30m :: timeframe where "TF_30m = ''30m''"
definition TF_1h :: timeframe where "TF_1h = ''1h''"
definition TF_4h :: timeframe where "TF_4h = ''4h''"
definition TF_24h :: timeframe where "TF_24h = ''24h''"

lemmas timeframe_defs = TF_1m_def TF_5m_def TF_15m_def TF_30m_def TF_1h_def TF_4h_def TF_24h_def

record user =
  us_chat_id :: int
  us_username :: string
  us_min_spread :: dec
  us_min_volume :: dec
  us_timeframe :: timeframe
  us_min_funding_minutes :: int
  us_update_step :: dec
  us_bot_id :: int

section \<open>Signal lifecycle\<close>

text \<open>
  The id of a new signal comes from the uuid package; it is an argument of the constructor.
\<close>

definition new_arbitrage_signal :: "string \<Rightarrow> spread_event \<Rightarrow> gtime \<Rightarrow> signal" where
  "new_arbitrage_signal uuid event ts =
     (let buy = (if ev_buy_exchange event = [] then ev_exchange_a event else ev_buy_exchange event);
          sell = (if ev_sell_exchange event = [] then ev_exchange_b event else ev_sell_exchange event)
      in \<lparr>sg_id = uuid, sg_symbol = ev_symbol event, sg_type = ev_type event,
          sg_buy_exchange = buy, sg_sell_exchange = sell,
          sg_exchange_a = buy, sg_exchange_b = sell,
          sg_buy_market = ev_buy_market event, sg_sell_market = ev_sell_market event,
          sg_opened_at = ts, sg_closed_at = 0, sg_active = True,
          sg_initial = ev_spread event, sg_peak = ev_spread event, sg_final = 0, sg_duration = 0,
          sg_volume = ev_volume event,
          sg_buy_rate = ev_buy_rate event, sg_sell_rate = ev_sell_rate event,
          sg_buy_next = ev_buy_next event, sg_sell_next = ev_sell_next event,
          sg_notified = []\<rparr>)"

definition signal_update :: "spread_event \<Rightarrow> signal \<Rightarrow> signal" where
  "signal_update event s =
     (if \<not> sg_active s \<or> time_before (ev_timestamp event) (sg_opened_at s) then s
      else s\<lparr>sg_peak := (if ev_spread event > sg_peak s then ev_spread event else sg_peak s),
             sg_volume := (if ev_volume event > sg_volume s then ev_volume event else sg_volume s),
             sg_buy_rate := ev_buy_rate event, sg_sell_rate := ev_sell_rate event,
             sg_buy_next := ev_buy_next event, sg_sell_next := ev_sell_next event\<rparr>)"

definition signal_update_peak :: "dec \<Rightarrow> signal \<Rightarrow> signal" where
  "signal_update_peak spread s =
     (if \<not> sg_active s then s
      else if spread > sg_peak s then s\<lparr>sg_peak := spread\<rparr> else s)"

definition signal_close :: "gtime \<Rightarrow> dec \<Rightarrow> signal \<Rightarrow> signal" where
  "signal_close ts final s =
     (if \<not> sg_active s then s
      else let ts' = (if time_before ts (sg_opened_at s) then sg_opened_at s else ts)
           in s\<lparr>sg_active := False, sg_closed_at := ts', sg_final := final,
                sg_duration := time_sub ts' (sg_opened_at s)\<rparr>)"

text \<open>Well-formed signals: the peak is at least the opening spread; a closed signal has a
  closing time not before its opening and a non-negative duration.\<close>

definition signal_ok :: "signal \<Rightarrow> bool" where
  "signal_ok s \<longleftrightarrow> sg_initial s \<le> sg_peak s \<and> sg_exchange_a s = sg_buy_exchange s
     \<and> sg_exchange_b s = sg_sell_exchange s \<and> 0 \<le> sg_duration s
     \<and> (sg_active s \<longrightarrow> sg_duration s = 0 \<and> sg_closed_at s = 0)
     \<and> (\<not> sg_active s \<longrightarrow> sg_opened_at s \<le> sg_closed_at s
          \<and> sg_duration s = time_sub (sg_closed_at s) (sg_opened_at s))"

text \<open>What a run of operations may do to one signal.\<close>

datatype signal_op = OpUpdate spread_event | OpPeak dec | OpClose gtime dec

fun signal_step :: "signal_op \<Rightarrow> signal \<Rightarrow> signal" where
  "signal_step (OpUpdate e) s = signal_update e s"
| "signal_step (OpPeak d) s = signal_update_peak d s"
| "signal_step (OpClose ts d) s = signal_close ts d s"

lemma signal_ok_new [inv_intros]: "signal_ok (new_arbitrage_signal uuid event ts)"
  by (simp add: signal_ok_def new_arbitrage_signal_def Let_def)

lemma signal_ok_update [inv_intros]: "signal_ok s \<Longrightarrow> signal_ok (signal_update e s)"
  by (auto simp: signal_ok_def signal_update_def)

lemma signal_ok_update_peak [inv_intros]: "signal_ok s \<Longrightarrow> signal_ok (signal_update_peak d s)"
  by (auto simp: signal_ok_def signal_update_peak_def)

lemma signal_ok_close [inv_intros]: "signal_ok s \<Longrightarrow> signal_ok (signal_close ts d s)"
  by (auto simp: signal_ok_def signal_close_def Let_def go_defs time_sub_def)

lemma signal_step_ok: "signal_ok s \<Longrightarrow> signal_ok (signal_step x s)"
  by (cases x) (simp_all add: inv_intros)

interpretation signals: machine signal_step signal_ok
  by unfold_locales (rule signal_step_ok)

lemma signal_step_frame:
  "sg_id (signal_step x s) = sg_id s" "sg_opened_at (signal_step x s) = sg_opened_at s"
  "sg_initial (signal_step x s) = sg_initial s" "sg_symbol (signal_step x s) = sg_symbol s"
  by (cases x; simp add: signal_update_def signal_update_peak_def signal_close_def Let_def)+

lemma signal_step_peak: "sg_peak s \<le> sg_peak (signal_step x s)"
  by (cases x) (auto simp: signal_update_def signal_update_peak_def signal_close_def Let_def)

lemma signal_step_closed: "\<not> sg_active s \<Longrightarrow> signal_step x s = s"
  by (cases x) (simp_all add: signal_update_def signal_update_peak_def signal_close_def)

lemma signal_run_peak: "sg_peak s \<le> sg_peak (fold signal_step xs s)"
proof (induction xs arbitrary: s)
  case (Cons x xs)
  from signal_step_peak [of s x] Cons.IH [of "signal_step x s"] show ?case by simp
qed simp

lemma signal_run_frame:
  "sg_id (fold signal_step xs s) = sg_id s \<and> sg_opened_at (fold signal_step xs s) = sg_opened_at s
   \<and> sg_initial (fold signal_step xs s) = sg_initial s"
  by (induction xs arbitrary: s) (simp_all add: signal_step_frame)

lemma signal_run_closed: "\<not> sg_active s \<Longrightarrow> fold signal_step xs s = s"
  by (induction xs) (simp_all add: signal_step_closed)

lemma signal_update_peak_max:
  "sg_active s \<Longrightarrow> sg_peak (signal_update e s) =
    (if sg_opened_at s \<le> ev_timestamp e then max (sg_peak s) (ev_spread e) else sg_peak s)"
  by (auto simp: signal_update_def time_before_def)

lemma signal_update_frame:
  "sg_active (signal_update e s) = sg_active s" "sg_opened_at (signal_update e s) = sg_opened_at s"
  "sg_initial (signal_update e s) = sg_initial s" "sg_id (signal_update e s) = sg_id s"
  "sg_notified (signal_update e s) = sg_notified s"
  by (simp_all add: signal_update_def)

lemma signal_updates_peak:
  "sg_active s \<Longrightarrow> sg_peak (fold signal_update es s) =
    fold max (map ev_spread (filter (\<lambda>e. sg_opened_at s \<le> ev_timestamp e) es)) (sg_peak s)"
proof (induction es arbitrary: s)
  case (Cons e es)
  then show ?case
    by (simp add: signal_update_peak_max signal_update_frame max.commute)
qed simp

section \<open>Properties\<close>

text \<open>
  Life of a signal under any sequence of Update, UpdatePeak and Close calls: identity,
  opening time and opening spread never change, the peak never falls below the opening
  spread, a closed signal has a closing time not before its opening and the matching
  duration, and after the call that closes it nothing changes it any more.
\<close>

theorem signal_life:
  assumes "s = fold signal_step ops (new_arbitrage_signal uuid e ts)"
  shows "signal_ok s \<and> sg_id s = uuid \<and> sg_opened_at s = ts \<and> sg_initial s = ev_spread e
    \<and> (\<not> sg_active s \<longrightarrow> (\<forall>more. fold signal_step more s = s))"
proof -
  let ?n = "new_arbitrage_signal uuid e ts"
  have "signal_ok s" unfolding assms by (rule signals.run_inv) (rule signal_ok_new)
  moreover have "sg_id s = uuid" "sg_opened_at s = ts" "sg_initial s = ev_spread e"
    using signal_run_frame [of ops ?n] by (simp_all add: assms new_arbitrage_signal_def Let_def)
  ultimately show ?thesis by (simp add: signal_run_closed)
qed

text \<open>
  The peak of an open signal is the maximum of its opening spread and of the spreads
  of all updates that are not older than its opening.
\<close>

theorem signal_peak_is_max:
  "sg_peak (fold signal_update es (new_arbitrage_signal uuid e ts))
   = Max (set (ev_spread e # map ev_spread (filter (\<lambda>x. ts \<le> ev_timestamp x) es)))"
proof -
  let ?n = "new_arbitrage_signal uuid e ts"
  have "sg_active ?n" "sg_peak ?n = ev_spread e" "sg_opened_at ?n = ts"
    by (simp_all add: new_arbitrage_signal_def Let_def)
  then have "sg_peak (fold signal_update es ?n)
      = fold max (map ev_spread (filter (\<lambda>x. ts \<le> ev_timestamp x) es)) (ev_spread e)"
    using signal_updates_peak [of ?n es] by simp
  then show ?thesis by (simp only: Max.set_eq_fold)
qed

definition sample_event :: "string \<Rightarrow> string \<Rightarrow> dec \<Rightarrow> gtime \<Rightarrow> lifecycle \<Rightarrow> spread_event" where
  "sample_event buy sell spread t lc =
     \<lparr>ev_symbol = ''BTCUSDT'', ev_type = CrossExchange, ev_spread = spread,
      ev_buy_exchange = buy, ev_sell_exchange = sell, ev_exchange_a = [], ev_exchange_b = [],
      ev_buy_market = MarketTypeFutures, ev_sell_market = MarketTypeFutures,
      ev_buy_ask = 100, ev_sell_bid = 103, ev_volume = 1000, ev_buy_rate = 0, ev_sell_rate = 0,
      ev_buy_next = 0, ev_sell_next = 0, ev_timestamp = t, ev_lifecycle = lc\<rparr>"

theorem signal_life_witness:
  "signal_ok (fold signal_step [OpPeak (5 / 100), OpClose 7 0]
       (new_arbitrage_signal ''id'' (sample_event ''A'' ''B'' (3 / 100) 5 SignalOpened) 5))
   \<and> \<not> sg_active (fold signal_step [OpPeak (5 / 100), OpClose 7 0]
       (new_arbitrage_signal ''id'' (sample_event ''A'' ''B'' (3 / 100) 5 SignalOpened) 5))"
proof
  show "\<not> sg_active (fold signal_step [OpPeak (5 / 100), OpClose 7 0]
       (new_arbitrage_signal ''id'' (sample_event ''A'' ''B'' (3 / 100) 5 SignalOpened) 5))"
    by (simp add: signal_update_peak_def signal_close_def Let_def)
qed (use signal_life [OF refl] in blast)

end
