(* ===== verification/Funding.thy ===== *)
theory Funding
  imports Market_Types
begin

text \<open>
  internal/app/funding_manager.go: funding snapshots per exchange and symbol, their age
  budgets, the health of the streams, and the evaluation of a spread net of funding.
  The configuration pointer is set by the constructor; the clock is an argument \<open>now\<close>.
\<close>

section \<open>State\<close>

datatype arb_reason = ReasonUnset | ReasonProfitable | ReasonBelowMinSpread | ReasonDataStale
  | ReasonNoData | ReasonStreamUnhealthy | ReasonInvalidInput | ReasonConfigurationUnavailable

record funding_config =
  fc_min_spread :: dec
  fc_max_staleness :: gdur
  fc_staleness_by_exchange :: "(string, gdur) gomap"

record funding_record =
  fr_exchange :: string
  fr_symbol :: string
  fr_rate :: dec
  fr_next :: gtime
  fr_event_time :: gtime
  fr_received :: gtime

record arb_result =
  ar_profitable :: bool
  ar_reason :: arb_reason
  ar_net_spread :: dec
  ar_rate :: dec
  ar_next :: gtime
  ar_buy_rate :: dec
  ar_sell_rate :: dec
  ar_buy_next :: gtime
  ar_sell_next :: gtime

type_synonym funding_key = "string \<times> string"

record funding_manager =
  fm_rates :: "(funding_key, funding_record) gomap"
  fm_config :: "funding_config option"
  fm_health :: "(string, bool) gomap"
  fm_last_update :: "(string, int) gomap"

section \<open>Configuration\<close>

definition default_funding_config :: funding_config where
  "default_funding_config =
     \<lparr>fc_min_spread = 0, fc_max_staleness = 60 * nano_second,
      fc_staleness_by_exchange = [(''OKX'', 90 * nano_second)]\<rparr>"

definition staleness_for :: "funding_config \<Rightarrow> string \<Rightarrow> gdur" where
  "staleness_for c exchange =
     (case map_of (fc_staleness_by_exchange c) (to_upper (trim_space exchange)) of
        Some d \<Rightarrow> if d > 0 then d else fc_max_staleness c
      | None \<Rightarrow> fc_max_staleness c)"

definition config_normalize :: "funding_config \<Rightarrow> funding_config" where
  "config_normalize c =
     (if fc_max_staleness c = 0
      then c\<lparr>fc_max_staleness := fc_max_staleness default_funding_config\<rparr> else c)"

datatype funding_error = MinSpreadNegative | StalenessNotPositive | ExchangeStalenessNotPositive
  | EmptyKey

definition config_validate :: "funding_config \<Rightarrow> funding_error option" where
  "config_validate c =
     (if fc_min_spread c < 0 then Some MinSpreadNegative
      else if fc_max_staleness c \<le> 0 then Some StalenessNotPositive
      else if \<exists>(ex, d)\<in>set (fc_staleness_by_exchange c). d \<le> 0
      then Some ExchangeStalenessNotPositive
      else None)"

definition new_funding_manager :: "funding_config \<Rightarrow> funding_error + funding_manager" where
  "new_funding_manager c =
     (let c' = config_normalize c in
      case config_validate c' of
        Some e \<Rightarrow> Inl e
      | None \<Rightarrow> Inr \<lparr>fm_rates = [], fm_config = Some c', fm_health = [], fm_last_update = []\<rparr>)"

definition update_config :: "funding_config \<Rightarrow> funding_manager \<Rightarrow> funding_error + funding_manager" where
  "update_config c fm =
     (let c' = config_normalize c in
      case config_validate c' of
        Some e \<Rightarrow> Inl e
      | None \<Rightarrow> Inr (fm\<lparr>fm_config := Some c'\<rparr>))"

section \<open>Streams and records\<close>

definition set_stream_health :: "string \<Rightarrow> bool \<Rightarrow> funding_manager \<Rightarrow> funding_manager" where
  "set_stream_health exchange healthy fm =
     (let ex = to_upper (trim_space exchange) in
      if ex = [] then fm else fm\<lparr>fm_health := mput ex healthy (fm_health fm)\<rparr>)"

definition is_healthy :: "funding_manager \<Rightarrow> string \<Rightarrow> bool" where
  "is_healthy fm exchange =
     (case map_of (fm_health fm) (to_upper (trim_space exchange)) of
        None \<Rightarrow> False | Some b \<Rightarrow> b)"

definition normalize_funding_key :: "string \<Rightarrow> string \<Rightarrow> funding_key" where
  "normalize_funding_key exchange symbol =
     (to_upper (trim_space exchange), to_upper (remove_chars ''-_/'' (trim_space symbol)))"

definition update_funding ::
  "gtime \<Rightarrow> string \<Rightarrow> string \<Rightarrow> dec \<Rightarrow> gtime \<Rightarrow> gtime \<Rightarrow> funding_manager
   \<Rightarrow> funding_error + funding_manager" where
  "update_funding now exchange symbol rate next event fm =
     (let key = normalize_funding_key exchange symbol in
      if fst key = [] \<or> snd key = [] then Inl EmptyKey
      else if (case map_of (fm_rates fm) key of
                 Some old \<Rightarrow> \<not> is_zero_time event \<and> \<not> is_zero_time (fr_event_time old)
                   \<and> time_before event (fr_event_time old)
               | None \<Rightarrow> False)
      then Inr fm
      else Inr (let r = \<lparr>fr_exchange = fst key, fr_symbol = snd key, fr_rate = rate,
                   fr_next = next, fr_event_time = event, fr_received = now\<rparr>;
                 fm1 = fm\<lparr>fm_rates := mput key r (fm_rates fm)\<rparr>;
                 fm2 = set_stream_health (fst key) True fm1
             in fm2\<lparr>fm_last_update := mput (fst key) (now - unix_epoch) (fm_last_update fm2)\<rparr>))"

definition get_funding :: "funding_manager \<Rightarrow> string \<Rightarrow> string \<Rightarrow> funding_record option" where
  "get_funding fm exchange symbol = map_of (fm_rates fm) (normalize_funding_key exchange symbol)"

definition record_is_stale :: "funding_record \<Rightarrow> gtime \<Rightarrow> gdur \<Rightarrow> bool" where
  "record_is_stale r now mx =
     (if is_zero_time (fr_received r) \<or> mx \<le> 0 then True
      else time_sub now (fr_received r) > mx)"

text \<open>\<open>-1\<close> stands for "no data", as in the source.\<close>

definition funding_age :: "gtime \<Rightarrow> funding_manager \<Rightarrow> string \<Rightarrow> gdur" where
  "funding_age now fm exchange =
     (case map_of (fm_last_update fm) (to_upper (trim_space exchange)) of
        None \<Rightarrow> -1
      | Some ts \<Rightarrow> if ts \<le> 0 then -1 else time_sub now (unix_epoch + ts))"

definition known_exchanges :: "funding_manager \<Rightarrow> string list" where
  "known_exchanges fm = sort (mkeys (fm_last_update fm))"

definition evict_stale :: "gtime \<Rightarrow> funding_manager \<Rightarrow> funding_manager" where
  "evict_stale now fm =
     (case fm_config fm of
        None \<Rightarrow> fm
      | Some p \<Rightarrow> fm\<lparr>fm_rates :=
          filter (\<lambda>(k, r). \<not> record_is_stale r now (staleness_for p (fst k))) (fm_rates fm)\<rparr>)"

section \<open>Evaluation of a spread\<close>

definition empty_result :: arb_result where
  "empty_result = \<lparr>ar_profitable = False, ar_reason = ReasonUnset, ar_net_spread = 0, ar_rate = 0,
     ar_next = 0, ar_buy_rate = 0, ar_sell_rate = 0, ar_buy_next = 0, ar_sell_next = 0\<rparr>"

definition calc_net_spread :: "dec \<Rightarrow> dec \<Rightarrow> dec \<Rightarrow> dec" where
  "calc_net_spread spread buy_rate sell_rate = spread + sell_rate - buy_rate"

definition earliest_funding :: "gtime \<Rightarrow> gtime \<Rightarrow> gtime" where
  "earliest_funding a b =
     (if is_zero_time a then b else if is_zero_time b \<or> time_before a b then a else b)"

text \<open>\<open>Inl\<close> is the pair (result, false): the record cannot be used, with the reason.\<close>

definition valid_record ::
  "funding_manager \<Rightarrow> string \<Rightarrow> string \<Rightarrow> gtime \<Rightarrow> funding_config \<Rightarrow> arb_result + arb_result" where
  "valid_record fm exchange symbol now cfg =
     (case get_funding fm exchange symbol of
        None \<Rightarrow> Inl (empty_result\<lparr>ar_reason := ReasonNoData\<rparr>)
      | Some r \<Rightarrow>
          if \<not> is_healthy fm exchange then Inl (empty_result\<lparr>ar_reason := ReasonStreamUnhealthy\<rparr>)
          else if is_zero_time (fr_next r) then Inl (empty_result\<lparr>ar_reason := ReasonNoData\<rparr>)
          else if record_is_stale r now (staleness_for cfg exchange)
          then Inl (empty_result\<lparr>ar_reason := ReasonDataStale, ar_buy_rate := fr_rate r,
                 ar_sell_rate := fr_rate r, ar_buy_next := fr_next r, ar_sell_next := fr_next r\<rparr>)
          else Inr (empty_result\<lparr>ar_profitable := True, ar_reason := ReasonProfitable,
                 ar_rate := fr_rate r, ar_next := fr_next r\<rparr>))"

definition evaluate_spot_futures ::
  "funding_manager \<Rightarrow> string \<Rightarrow> string \<Rightarrow> dec \<Rightarrow> gtime \<Rightarrow> arb_result" where
  "evaluate_spot_futures fm exchange symbol spread now =
     (if is_zero_time now \<or> exchange = [] \<or> symbol = [] \<or> spread < 0
      then empty_result\<lparr>ar_reason := ReasonInvalidInput\<rparr>
      else case fm_config fm of
        None \<Rightarrow> empty_result\<lparr>ar_reason := ReasonConfigurationUnavailable\<rparr>
      | Some p \<Rightarrow> (case valid_record fm exchange symbol now p of
          Inl bad \<Rightarrow> bad
        | Inr sell \<Rightarrow>
            (let net = calc_net_spread spread 0 (ar_rate sell);
                 result = empty_result\<lparr>ar_net_spread := net, ar_rate := ar_rate sell,
                   ar_next := ar_next sell, ar_buy_rate := 0, ar_sell_rate := ar_rate sell,
                   ar_buy_next := 0, ar_sell_next := ar_next sell\<rparr>
             in if net < fc_min_spread p then result\<lparr>ar_reason := ReasonBelowMinSpread\<rparr>
                else result\<lparr>ar_profitable := True, ar_reason := ReasonProfitable\<rparr>)))"

definition evaluate_futures_pair ::
  "funding_manager \<Rightarrow> string \<Rightarrow> string \<Rightarrow> string \<Rightarrow> string \<Rightarrow> dec \<Rightarrow> gtime \<Rightarrow> arb_result" where
  "evaluate_futures_pair fm buy_ex buy_symbol sell_ex sell_symbol spread now =
     (if is_zero_time now \<or> buy_ex = [] \<or> buy_symbol = [] \<or> sell_ex = [] \<or> sell_symbol = []
         \<or> spread < 0
      then empty_result\<lparr>ar_reason := ReasonInvalidInput\<rparr>
      else case fm_config fm of
        None \<Rightarrow> empty_result\<lparr>ar_reason := ReasonConfigurationUnavailable\<rparr>
      | Some p \<Rightarrow> (case valid_record fm buy_ex buy_symbol now p of
          Inl bad \<Rightarrow> bad
        | Inr buy \<Rightarrow> (case valid_record fm sell_ex sell_symbol now p of
            Inl bad \<Rightarrow> bad
          | Inr sell \<Rightarrow>
              (let net = calc_net_spread spread (ar_rate buy) (ar_rate sell);
                   next = earliest_funding (ar_next buy) (ar_next sell);
                   result = empty_result\<lparr>ar_net_spread := net, ar_rate := ar_rate buy,
                     ar_next := next, ar_buy_rate := ar_rate buy, ar_sell_rate := ar_rate sell,
                     ar_buy_next := ar_next buy, ar_sell_next := ar_next sell\<rparr>
               in if net < fc_min_spread p then result\<lparr>ar_reason := ReasonBelowMinSpread\<rparr>
                  else result\<lparr>ar_profitable := True, ar_reason := ReasonProfitable\<rparr>))))"

section \<open>Usable records\<close>

text \<open>The record the evaluation may use: known, on a healthy stream, with a next funding
  time, and not older than the budget of its exchange.\<close>

definition usable_record ::
  "funding_manager \<Rightarrow> funding_config \<Rightarrow> string \<Rightarrow> string \<Rightarrow> gtime \<Rightarrow> funding_record \<Rightarrow> bool" where
  "usable_record fm p exchange symbol now r \<longleftrightarrow>
     get_funding fm exchange symbol = Some r \<and> is_healthy fm exchange \<and> fr_next r \<noteq> 0
     \<and> \<not> record_is_stale r now (staleness_for p exchange)"

lemma valid_record_Inr:
  "valid_record fm ex sy now p = Inr res \<longleftrightarrow>
    (\<exists>r. usable_record fm p ex sy now r
       \<and> res = empty_result\<lparr>ar_profitable := True, ar_reason := ReasonProfitable,
                 ar_rate := fr_rate r, ar_next := fr_next r\<rparr>)"
  by (auto simp: valid_record_def usable_record_def is_zero_time_def split: option.splits)

lemma valid_record_Inl_not_profitable:
  "valid_record fm ex sy now p = Inl res \<Longrightarrow> \<not> ar_profitable res"
  by (auto simp: valid_record_def empty_result_def split: option.splits if_splits)

lemma valid_record_cases:
  obtains (bad) res where "valid_record fm ex sy now p = Inl res" "\<not> ar_profitable res"
      "\<And>r. \<not> usable_record fm p ex sy now r"
  | (good) r where "usable_record fm p ex sy now r"
      "valid_record fm ex sy now p = Inr (empty_result\<lparr>ar_profitable := True,
         ar_reason := ReasonProfitable, ar_rate := fr_rate r, ar_next := fr_next r\<rparr>)"
proof (cases "valid_record fm ex sy now p")
  case (Inl res)
  moreover have "\<not> usable_record fm p ex sy now r" for r
    using Inl valid_record_Inr [of fm ex sy now p] by fastforce
  ultimately show ?thesis using valid_record_Inl_not_profitable bad by blast
next
  case (Inr res)
  then show ?thesis using valid_record_Inr good by blast
qed

lemma usable_record_iff:
  "usable_record fm p ex sy now r \<Longrightarrow> usable_record fm p ex sy now r' \<longleftrightarrow> r' = r"
  by (auto simp: usable_record_def)

lemma pair_profitable:
  "ar_profitable (evaluate_futures_pair fm bx bs sx ss spread now) \<longleftrightarrow>
    now \<noteq> 0 \<and> bx \<noteq> [] \<and> bs \<noteq> [] \<and> sx \<noteq> [] \<and> ss \<noteq> [] \<and> 0 \<le> spread
    \<and> (\<exists>p rb rs. fm_config fm = Some p \<and> usable_record fm p bx bs now rb
        \<and> usable_record fm p sx ss now rs \<and> fc_min_spread p \<le> spread + fr_rate rs - fr_rate rb)"
proof (cases "fm_config fm")
  case None
  then show ?thesis by (simp add: evaluate_futures_pair_def empty_result_def)
next
  case (Some p)
  show ?thesis
  proof (cases rule: valid_record_cases [of fm bx bs now p])
    case bad
    with Some show ?thesis by (auto simp: evaluate_futures_pair_def empty_result_def)
  next
    case (good rb)
    note b = this
    show ?thesis
    proof (cases rule: valid_record_cases [of fm sx ss now p])
      case bad
      with Some b show ?thesis by (auto simp: evaluate_futures_pair_def empty_result_def)
    next
      case (good rs)
      with Some b show ?thesis
        by (simp add: evaluate_futures_pair_def empty_result_def Let_def calc_net_spread_def
            is_zero_time_def usable_record_iff [OF b(1)] usable_record_iff [OF good(1)])
    qed
  qed
qed

lemma spot_profitable:
  "ar_profitable (evaluate_spot_futures fm ex sy spread now) \<longleftrightarrow>
    now \<noteq> 0 \<and> ex \<noteq> [] \<and> sy \<noteq> [] \<and> 0 \<le> spread
    \<and> (\<exists>p r. fm_config fm = Some p \<and> usable_record fm p ex sy now r
        \<and> fc_min_spread p \<le> spread + fr_rate r)"
proof (cases "fm_config fm")
  case None
  then show ?thesis by (simp add: evaluate_spot_futures_def empty_result_def)
next
  case (Some p)
  show ?thesis
  proof (cases rule: valid_record_cases [of fm ex sy now p])
    case bad
    with Some show ?thesis by (auto simp: evaluate_spot_futures_def empty_result_def)
  next
    case (good r)
    with Some show ?thesis
      by (simp add: evaluate_spot_futures_def empty_result_def Let_def calc_net_spread_def
          is_zero_time_def usable_record_iff [OF good(1)])
  qed
qed

lemma pair_profitable_result:
  assumes "ar_profitable (evaluate_futures_pair fm bx bs sx ss spread now)"
  obtains p rb rs where "fm_config fm = Some p" "usable_record fm p bx bs now rb"
    "usable_record fm p sx ss now rs"
    "evaluate_futures_pair fm bx bs sx ss spread now =
      \<lparr>ar_profitable = True, ar_reason = ReasonProfitable,
       ar_net_spread = spread + fr_rate rs - fr_rate rb, ar_rate = fr_rate rb,
       ar_next = earliest_funding (fr_next rb) (fr_next rs), ar_buy_rate = fr_rate rb,
       ar_sell_rate = fr_rate rs, ar_buy_next = fr_next rb, ar_sell_next = fr_next rs\<rparr>"
    "fc_min_spread p \<le> spread + fr_rate rs - fr_rate rb"
proof -
  from assms obtain p rb rs where h: "now \<noteq> 0" "bx \<noteq> []" "bs \<noteq> []" "sx \<noteq> []" "ss \<noteq> []"
    "0 \<le> spread" "fm_config fm = Some p" "usable_record fm p bx bs now rb"
    "usable_record fm p sx ss now rs" "fc_min_spread p \<le> spread + fr_rate rs - fr_rate rb"
    unfolding pair_profitable by blast
  have "valid_record fm bx bs now p = Inr (empty_result\<lparr>ar_profitable := True,
      ar_reason := ReasonProfitable, ar_rate := fr_rate rb, ar_next := fr_next rb\<rparr>)"
    "valid_record fm sx ss now p = Inr (empty_result\<lparr>ar_profitable := True,
      ar_reason := ReasonProfitable, ar_rate := fr_rate rs, ar_next := fr_next rs\<rparr>)"
    using h valid_record_Inr by blast+
  with h show ?thesis
    by (intro that [OF h(7-9) _ h(10)])
      (simp add: evaluate_futures_pair_def empty_result_def Let_def calc_net_spread_def
        is_zero_time_def)
qed

lemma spot_profitable_result:
  assumes "ar_profitable (evaluate_spot_futures fm ex sy spread now)"
  obtains p r where "fm_config fm = Some p" "usable_record fm p ex sy now r"
    "evaluate_spot_futures fm ex sy spread now =
      \<lparr>ar_profitable = True, ar_reason = ReasonProfitable,
       ar_net_spread = spread + fr_rate r, ar_rate = fr_rate r, ar_next = fr_next r,
       ar_buy_rate = 0, ar_sell_rate = fr_rate r, ar_buy_next = 0, ar_sell_next = fr_next r\<rparr>"
    "fc_min_spread p \<le> spread + fr_rate r"
proof -
  from assms obtain p r where h: "now \<noteq> 0" "ex \<noteq> []" "sy \<noteq> []" "0 \<le> spread"
    "fm_config fm = Some p" "usable_record fm p ex sy now r" "fc_min_spread p \<le> spread + fr_rate r"
    unfolding spot_profitable by blast
  have "valid_record fm ex sy now p = Inr (empty_result\<lparr>ar_profitable := True,
      ar_reason := ReasonProfitable, ar_rate := fr_rate r, ar_next := fr_next r\<rparr>)"
    using h valid_record_Inr by blast
  with h show ?thesis
    by (intro that [OF h(5-6) _ h(7)])
      (simp add: evaluate_spot_futures_def empty_result_def Let_def calc_net_spread_def
        is_zero_time_def)
qed

section \<open>Normalised keys\<close>

lemma normalize_funding_key_fst [simp]:
  "fst (normalize_funding_key exchange symbol) = to_upper (trim_space exchange)"
  by (simp add: normalize_funding_key_def)

lemma staleness_for_norm [simp]:
  "staleness_for p (to_upper (trim_space ex)) = staleness_for p ex"
  by (simp add: staleness_for_def)

lemma is_healthy_set:
  "is_healthy (set_stream_health ex h fm) ex' \<longleftrightarrow>
    (if to_upper (trim_space ex) \<noteq> [] \<and> to_upper (trim_space ex') = to_upper (trim_space ex)
     then h else is_healthy fm ex')"
  by (simp add: is_healthy_def set_stream_health_def Let_def map_of_mput)

lemma set_health_frame [simp]:
  "fm_rates (set_stream_health ex h fm) = fm_rates fm"
  "fm_config (set_stream_health ex h fm) = fm_config fm"
  "fm_last_update (set_stream_health ex h fm) = fm_last_update fm"
  by (simp_all add: set_stream_health_def Let_def)

section \<open>Runs of the funding manager\<close>

datatype funding_op = OpUpdateFunding gtime string string dec gtime gtime | OpHealth string bool
  | OpEvict gtime | OpConfig funding_config

fun funding_step :: "funding_op \<Rightarrow> funding_manager \<Rightarrow> funding_manager" where
  "funding_step (OpUpdateFunding now ex sy rate next event) fm =
     (case update_funding now ex sy rate next event fm of Inl _ \<Rightarrow> fm | Inr fm' \<Rightarrow> fm')"
| "funding_step (OpHealth ex h) fm = set_stream_health ex h fm"
| "funding_step (OpEvict now) fm = evict_stale now fm"
| "funding_step (OpConfig c) fm = (case update_config c fm of Inl _ \<Rightarrow> fm | Inr fm' \<Rightarrow> fm')"

definition funding_config_ok :: "funding_config \<Rightarrow> bool" where
  "funding_config_ok c \<longleftrightarrow> 0 \<le> fc_min_spread c \<and> 0 < fc_max_staleness c
     \<and> (\<forall>(ex, d)\<in>set (fc_staleness_by_exchange c). 0 < d)"

text \<open>Keys are unique and stored in normal form; each record carries its own key.\<close>

definition funding_ok :: "funding_manager \<Rightarrow> bool" where
  "funding_ok fm \<longleftrightarrow> mwf (fm_rates fm) \<and> mwf (fm_health fm) \<and> mwf (fm_last_update fm)
     \<and> (\<forall>(k, r)\<in>set (fm_rates fm). to_upper (trim_space (fst k)) = fst k \<and> fst k \<noteq> []
          \<and> snd k \<noteq> [] \<and> fr_exchange r = fst k \<and> fr_symbol r = snd k)
     \<and> (\<exists>p. fm_config fm = Some p \<and> funding_config_ok p)"

lemma config_validate_ok: "config_validate c = None \<longleftrightarrow> funding_config_ok c"
  by (simp add: config_validate_def funding_config_ok_def case_prod_beta not_le) (metis not_le)

lemma funding_ok_new: "new_funding_manager c = Inr fm \<Longrightarrow> funding_ok fm"
  by (auto simp: new_funding_manager_def funding_ok_def Let_def config_validate_ok [symmetric]
      split: option.splits)

lemma funding_ok_health: "funding_ok fm \<Longrightarrow> funding_ok (set_stream_health ex h fm)"
  by (auto simp: funding_ok_def set_stream_health_def Let_def mwf_mput)

lemma funding_ok_store:
  assumes "funding_ok fm" "to_upper (trim_space (fst k)) = fst k" "fst k \<noteq> []" "snd k \<noteq> []"
    "fr_exchange r = fst k" "fr_symbol r = snd k"
  shows "funding_ok (fm\<lparr>fm_rates := mput k r (fm_rates fm)\<rparr>)"
  using assms by (auto simp: funding_ok_def mwf_mput dest!: mem_mput_D)

lemma funding_ok_update:
  assumes "funding_ok fm" "update_funding now ex sy rate next event fm = Inr fm'"
  shows "funding_ok fm'"
proof -
  let ?k = "normalize_funding_key ex sy"
  let ?r = "\<lparr>fr_exchange = fst ?k, fr_symbol = snd ?k, fr_rate = rate, fr_next = next,
     fr_event_time = event, fr_received = now\<rparr>"
  have k: "fst ?k \<noteq> []" "snd ?k \<noteq> []"
    using assms(2) by (auto simp: update_funding_def Let_def split: if_splits)
  let ?s = "set_stream_health (fst ?k) True (fm\<lparr>fm_rates := mput ?k ?r (fm_rates fm)\<rparr>)"
  have st: "funding_ok ?s"
    using assms(1) k by (intro funding_ok_health funding_ok_store) simp_all
  then have "funding_ok (?s\<lparr>fm_last_update := mput (fst ?k) (now - unix_epoch) (fm_last_update ?s)\<rparr>)"
    by (simp add: funding_ok_def mwf_mput)
  moreover have "fm' = fm \<or>
      fm' = ?s\<lparr>fm_last_update := mput (fst ?k) (now - unix_epoch) (fm_last_update ?s)\<rparr>"
    using assms(2) by (auto simp: update_funding_def Let_def split: if_splits)
  ultimately show ?thesis using assms(1) by auto
qed

lemma funding_ok_evict: "funding_ok fm \<Longrightarrow> funding_ok (evict_stale now fm)"
  by (auto simp: funding_ok_def evict_stale_def intro: mwf_filter split: option.splits)

lemma funding_step_ok: "funding_ok fm \<Longrightarrow> funding_ok (funding_step x fm)"
proof (cases x)
  case (OpConfig c)
  then show "funding_ok fm \<Longrightarrow> ?thesis"
    by (auto simp: funding_ok_def update_config_def Let_def config_validate_ok [symmetric]
        split: option.splits)
qed (auto simp: funding_ok_health funding_ok_evict dest: funding_ok_update split: sum.splits)

interpretation funding: machine funding_step funding_ok
  by unfold_locales (rule funding_step_ok)

lemma funding_ok_config: "funding_ok fm \<Longrightarrow> fm_config fm = Some p \<Longrightarrow> 0 \<le> fc_min_spread p"
  by (auto simp: funding_ok_def funding_config_ok_def)

lemma get_funding_step:
  assumes "fst (normalize_funding_key ex sy) \<noteq> []" "snd (normalize_funding_key ex sy) \<noteq> []"
  shows "get_funding (funding_step (OpUpdateFunding now ex sy rate next event) fm) ex sy =
    (case get_funding fm ex sy of
       Some old \<Rightarrow> if event \<noteq> 0 \<and> fr_event_time old \<noteq> 0 \<and> event < fr_event_time old then Some old
         else Some \<lparr>fr_exchange = fst (normalize_funding_key ex sy),
           fr_symbol = snd (normalize_funding_key ex sy), fr_rate = rate, fr_next = next,
           fr_event_time = event, fr_received = now\<rparr>
     | None \<Rightarrow> Some \<lparr>fr_exchange = fst (normalize_funding_key ex sy),
           fr_symbol = snd (normalize_funding_key ex sy), fr_rate = rate, fr_next = next,
           fr_event_time = event, fr_received = now\<rparr>)"
  using assms
  by (auto simp: update_funding_def get_funding_def Let_def map_of_mput go_defs
      split: option.splits)

text \<open>The updates of one instrument, oldest call first.\<close>

definition feed_funding ::
  "string \<Rightarrow> string \<Rightarrow> (gtime \<times> dec \<times> gtime \<times> gtime) list \<Rightarrow> funding_manager \<Rightarrow> funding_manager" where
  "feed_funding ex sy us fm =
     fold (\<lambda>(now, rate, next, event). funding_step (OpUpdateFunding now ex sy rate next event)) us fm"

definition record_from :: "(gtime \<times> dec \<times> gtime \<times> gtime) list \<Rightarrow> funding_record \<Rightarrow> bool" where
  "record_from us r \<longleftrightarrow> (fr_received r, fr_rate r, fr_next r, fr_event_time r) \<in> set us"

text \<open>
  The updates that decide which record stays: \<open>timed_tail us\<close> are those after the last update without an
  event time, which \<open>UpdateFunding\<close> stores whatever it replaces.
\<close>

definition event_of :: "gtime \<times> dec \<times> gtime \<times> gtime \<Rightarrow> gtime" where
  "event_of = (\<lambda>(now, rate, next, event). event)"

definition timed_tail :: "(gtime \<times> dec \<times> gtime \<times> gtime) list \<Rightarrow> (gtime \<times> dec \<times> gtime \<times> gtime) list" where
  "timed_tail us = rev (takeWhile (\<lambda>u. event_of u \<noteq> 0) (rev us))"

lemma record_from_single: "record_from [u] r \<Longrightarrow> fr_event_time r = event_of u"
  by (cases u) (simp add: record_from_def event_of_def)

lemma timed_tail_Nil [simp]: "timed_tail [] = []"
  by (simp add: timed_tail_def)

lemma timed_tail_snoc [simp]: "timed_tail (us @ [u]) = (if event_of u = 0 then [] else timed_tail us @ [u])"
  by (simp add: timed_tail_def)

lemma record_from_timed: "record_from (timed_tail us) r \<Longrightarrow> fr_event_time r \<noteq> 0"
  using set_takeWhileD by (fastforce simp: timed_tail_def record_from_def event_of_def)

lemma feed_funding_snoc:
  "feed_funding ex sy (us @ [(now, rate, nxt, event)]) fm =
    funding_step (OpUpdateFunding now ex sy rate nxt event) (feed_funding ex sy us fm)"
  by (simp add: feed_funding_def)

text \<open>An operation that does not bring the stream of an exchange back.\<close>

fun no_recovery :: "string \<Rightarrow> funding_op \<Rightarrow> bool" where
  "no_recovery ex (OpUpdateFunding now ex' sy rate next event)
     = (to_upper (trim_space ex') \<noteq> to_upper (trim_space ex))"
| "no_recovery ex (OpHealth ex' h)
     = (h = False \<or> to_upper (trim_space ex') \<noteq> to_upper (trim_space ex))"
| "no_recovery ex _ = True"

lemma no_recovery_step:
  "no_recovery ex x \<Longrightarrow> \<not> is_healthy fm ex \<Longrightarrow> \<not> is_healthy (funding_step x fm) ex"
proof (cases x)
  case (OpUpdateFunding now ex' sy rate nxt event)
  have "is_healthy (g\<lparr>fm_last_update := l\<rparr>) e = is_healthy g e"
    "is_healthy (g\<lparr>fm_rates := rs\<rparr>) e = is_healthy g e" for g l rs e
    by (simp_all add: is_healthy_def)
  then show "no_recovery ex x \<Longrightarrow> \<not> is_healthy fm ex \<Longrightarrow> ?thesis"
    using OpUpdateFunding
    by (auto simp: update_funding_def Let_def is_healthy_set split: sum.splits if_splits)
next
  case (OpEvict now)
  then show "no_recovery ex x \<Longrightarrow> \<not> is_healthy fm ex \<Longrightarrow> ?thesis"
    by (simp add: evict_stale_def is_healthy_def split: option.splits)
next
  case (OpConfig c)
  then show "no_recovery ex x \<Longrightarrow> \<not> is_healthy fm ex \<Longrightarrow> ?thesis"
    by (simp add: update_config_def Let_def is_healthy_def split: option.splits sum.splits)
qed (auto simp: is_healthy_set)

lemma no_recovery_run:
  "\<forall>x\<in>set ops. no_recovery ex x \<Longrightarrow> \<not> is_healthy fm ex \<Longrightarrow>
   \<not> is_healthy (fold funding_step ops fm) ex"
  by (induction ops arbitrary: fm) (auto simp: no_recovery_step)

lemma evict_get:
  assumes "mwf (fm_rates fm)" "fm_config fm = Some p"
  shows "get_funding (evict_stale now fm) ex sy =
    (case get_funding fm ex sy of None \<Rightarrow> None
     | Some r \<Rightarrow> if record_is_stale r now (staleness_for p ex) then None else Some r)"
proof -
  have "get_funding (evict_stale now fm) ex sy =
      map_of (filter (\<lambda>(k, r). \<not> record_is_stale r now (staleness_for p (fst k))) (fm_rates fm))
        (normalize_funding_key ex sy)"
    by (simp add: get_funding_def evict_stale_def assms(2))
  also have "\<dots> = (case get_funding fm ex sy of None \<Rightarrow> None
     | Some r \<Rightarrow> if record_is_stale r now (staleness_for p ex) then None else Some r)"
    by (subst mget_filter [OF assms(1)]) (simp add: get_funding_def split: option.splits)
  finally show ?thesis .
qed

lemma evict_usable:
  assumes "mwf (fm_rates fm)" "fm_config fm = Some p"
  shows "usable_record (evict_stale now fm) p ex sy now r = usable_record fm p ex sy now r"
proof -
  have "is_healthy (evict_stale now fm) ex = is_healthy fm ex"
    by (simp add: evict_stale_def is_healthy_def assms(2))
  then show ?thesis
    by (auto simp: usable_record_def evict_get [OF assms] split: option.splits if_splits)
qed

section \<open>Properties\<close>

text \<open>
  C14. A futures pair is reported profitable exactly when the input is valid, both legs have
  a usable funding record (known, healthy stream, next funding time set, within the age
  budget of its exchange) and the spread plus the short leg's rate minus the long leg's
  rate reaches the configured minimum; the reported net spread is that sum.
\<close>

theorem futures_pair_evaluation:
  "ar_profitable (evaluate_futures_pair fm bx bs sx ss spread now) =
    (now \<noteq> 0 \<and> bx \<noteq> [] \<and> bs \<noteq> [] \<and> sx \<noteq> [] \<and> ss \<noteq> [] \<and> 0 \<le> spread
     \<and> (\<exists>p rb rs. fm_config fm = Some p \<and> usable_record fm p bx bs now rb
         \<and> usable_record fm p sx ss now rs
         \<and> fc_min_spread p \<le> spread + fr_rate rs - fr_rate rb
         \<and> ar_net_spread (evaluate_futures_pair fm bx bs sx ss spread now)
             = spread + fr_rate rs - fr_rate rb))"
proof (cases "ar_profitable (evaluate_futures_pair fm bx bs sx ss spread now)")
  case True
  then obtain p rb rs where h: "fm_config fm = Some p" "usable_record fm p bx bs now rb"
    "usable_record fm p sx ss now rs" "fc_min_spread p \<le> spread + fr_rate rs - fr_rate rb"
    "ar_net_spread (evaluate_futures_pair fm bx bs sx ss spread now) = spread + fr_rate rs - fr_rate rb"
    by (rule pair_profitable_result) simp
  moreover have "now \<noteq> 0 \<and> bx \<noteq> [] \<and> bs \<noteq> [] \<and> sx \<noteq> [] \<and> ss \<noteq> [] \<and> 0 \<le> spread"
    using True unfolding pair_profitable by simp
  ultimately show ?thesis using True by (intro iffI conjI exI [of _ p] exI [of _ rb] exI [of _ rs]) auto
next
  case False
  then have "\<not> (now \<noteq> 0 \<and> bx \<noteq> [] \<and> bs \<noteq> [] \<and> sx \<noteq> [] \<and> ss \<noteq> [] \<and> 0 \<le> spread
    \<and> (\<exists>p rb rs. fm_config fm = Some p \<and> usable_record fm p bx bs now rb
        \<and> usable_record fm p sx ss now rs \<and> fc_min_spread p \<le> spread + fr_rate rs - fr_rate rb))"
    unfolding pair_profitable .
  with False show ?thesis by (intro iffI) (simp_all, metis)
qed

text \<open>
  C17. Which of the funding updates of one instrument is the stored record, for any sequence of them: when the last
  update has no event time it is that one. Otherwise it is one of the updates after the last one without an event
  time, and it has the greatest event time among these; so as long as the updates carry event times,
  late ones cannot overwrite newer ones, in whatever order they arrive. An update without an event
  time replaces any record and can be replaced by any.
\<close>

theorem funding_newest_event_wins:
  assumes "fst (normalize_funding_key ex sy) \<noteq> []" and "snd (normalize_funding_key ex sy) \<noteq> []"
    and "us \<noteq> []" and "get_funding fm ex sy = None"
  shows "\<exists>r. get_funding (feed_funding ex sy us fm) ex sy = Some r
    \<and> (if event_of (last us) = 0 then record_from [last us] r
       else record_from (timed_tail us) r \<and> fr_event_time r = Max (event_of ` set (timed_tail us)))"
  using assms(3)
proof (induction us rule: rev_nonempty_induct)
  case (single u)
  then show ?case using get_funding_step [OF assms(1,2)] assms(4)
    by (cases u) (auto simp: feed_funding_def record_from_def event_of_def timed_tail_def)
next
  case (snoc u us)
  obtain now rate nxt event where u: "u = (now, rate, nxt, event)" by (cases u) auto
  from snoc(2) obtain r where r: "get_funding (feed_funding ex sy us fm) ex sy = Some r"
    "if event_of (last us) = 0 then record_from [last us] r
     else record_from (timed_tail us) r \<and> fr_event_time r = Max (event_of ` set (timed_tail us))" by blast
  note step = get_funding_step [OF assms(1,2), of now rate nxt event "feed_funding ex sy us fm"]
  have tail: "timed_tail us = [] \<longleftrightarrow> event_of (last us) = 0"
    using snoc(1) by (cases us rule: rev_cases) auto
  have old: "fr_event_time r = (if timed_tail us = [] then 0 else Max (event_of ` set (timed_tail us)))"
    using r(2) by (auto simp: tail record_from_single)
  show ?case
  proof (cases "event = 0 \<or> timed_tail us = []")
    case True
    then show ?thesis using step r(1) old
      by (auto simp: u feed_funding_snoc record_from_def event_of_def)
  next
    case False
    then have "Max (event_of ` set (timed_tail us @ [u])) = max event (Max (event_of ` set (timed_tail us)))"
      by (simp add: u event_of_def)
    moreover have "record_from (timed_tail us) r" "fr_event_time r \<noteq> 0"
      using r(2) False tail record_from_timed by auto
    ultimately show ?thesis using False step r(1) old
      by (auto simp: u feed_funding_snoc record_from_def event_of_def max_def)
  qed
qed

text \<open>
  Outage safety: once a funding stream is marked unhealthy, no pair with a leg on that
  exchange is profitable, whatever happens to the manager until a new update or an explicit
  recovery of that exchange.
\<close>

theorem outage_blocks_pairs:
  assumes "to_upper (trim_space ex) \<noteq> []" and "\<forall>x\<in>set ops. no_recovery ex x"
    and "bx = ex \<or> sx = ex"
  shows "\<not> ar_profitable (evaluate_futures_pair
           (fold funding_step ops (set_stream_health ex False fm)) bx bs sx ss spread now)"
proof -
  have "\<not> is_healthy (fold funding_step ops (set_stream_health ex False fm)) ex"
    using assms(1) by (intro no_recovery_run assms(2)) (simp add: is_healthy_set)
  with assms(3) show ?thesis unfolding pair_profitable usable_record_def by blast
qed

text \<open>
  The janitor's eviction removes no record the evaluation could still use: evaluating a
  pair right after the eviction gives the same decision and the same net spread.
\<close>

theorem evict_preserves_evaluation:
  assumes "funding_ok fm"
  shows "ar_profitable (evaluate_futures_pair (evict_stale now fm) bx bs sx ss spread now)
       = ar_profitable (evaluate_futures_pair fm bx bs sx ss spread now)
    \<and> (ar_profitable (evaluate_futures_pair fm bx bs sx ss spread now) \<longrightarrow>
       evaluate_futures_pair (evict_stale now fm) bx bs sx ss spread now
       = evaluate_futures_pair fm bx bs sx ss spread now)"
proof -
  obtain p where p: "fm_config fm = Some p" and wf: "mwf (fm_rates fm)"
    using assms by (auto simp: funding_ok_def)
  let ?fm = "evict_stale now fm"
  have p': "fm_config ?fm = Some p" by (simp add: evict_stale_def p)
  note us = evict_usable [OF wf p]
  have same: "ar_profitable (evaluate_futures_pair ?fm bx bs sx ss spread now)
       = ar_profitable (evaluate_futures_pair fm bx bs sx ss spread now)"
    by (simp add: pair_profitable p p' us)
  moreover have "evaluate_futures_pair ?fm bx bs sx ss spread now
       = evaluate_futures_pair fm bx bs sx ss spread now"
    if pr: "ar_profitable (evaluate_futures_pair fm bx bs sx ss spread now)"
  proof -
    have "valid_record ?fm ex sy now p = valid_record fm ex sy now p"
      if "usable_record fm p ex sy now r" for ex sy r
      using that us valid_record_Inr by metis
    moreover obtain rb rs where "usable_record fm p bx bs now rb" "usable_record fm p sx ss now rs"
      using pr unfolding pair_profitable by (auto simp: p)
    ultimately have v: "valid_record ?fm bx bs now p = valid_record fm bx bs now p"
      "valid_record ?fm sx ss now p = valid_record fm sx ss now p" by blast+
    show ?thesis unfolding evaluate_futures_pair_def p p' option.case v by (rule refl)
  qed
  ultimately show ?thesis by blast
qed

section \<open>Witnesses\<close>

definition sample_funding :: funding_manager where
  "sample_funding = \<lparr>fm_rates =
       [((''OKX'', ''BTCUSDT''), \<lparr>fr_exchange = ''OKX'', fr_symbol = ''BTCUSDT'', fr_rate = 1 / 1000,
           fr_next = 9, fr_event_time = 5, fr_received = 5\<rparr>)],
     fm_config = Some (default_funding_config\<lparr>fc_min_spread := 1 / 100\<rparr>),
     fm_health = [(''OKX'', True)], fm_last_update = []\<rparr>"

lemma sample_names: "to_upper (trim_space ''OKX'') = ''OKX''" "to_upper (trim_space ''MEXC'') = ''MEXC''"
  "normalize_funding_key ''MEXC'' ''BTC_USDT'' = (''MEXC'', ''BTCUSDT'')"
  "normalize_funding_key ''OKX'' ''BTCUSDT'' = (''OKX'', ''BTCUSDT'')"
  by (simp_all add: string_eval normalize_funding_key_def remove_chars_def)

theorem funding_newest_event_wins_witness:
  "(\<exists>r. get_funding (feed_funding ''MEXC'' ''BTC_USDT'' [(1, 0, 50, 7), (2, 1 / 1000, 60, 9), (3, 0, 70, 8)]
         sample_funding) ''MEXC'' ''BTC_USDT'' = Some r \<and> fr_event_time r = 9)
   \<and> (\<exists>r. get_funding (feed_funding ''MEXC'' ''BTC_USDT'' [(1, 0, 50, 9), (2, 1 / 1000, 60, 0), (3, 0, 70, 7)]
         sample_funding) ''MEXC'' ''BTC_USDT'' = Some r \<and> fr_event_time r = 7)"
proof -
  have "get_funding sample_funding ''MEXC'' ''BTC_USDT'' = None"
    by (simp add: get_funding_def sample_funding_def sample_names)
  note late = funding_newest_event_wins [OF _ _ _ this]
  show ?thesis
    using late [of "[(1, 0, 50, 7), (2, 1 / 1000, 60, 9), (3, 0, 70, 8)]"]
      late [of "[(1, 0, 50, 9), (2, 1 / 1000, 60, 0), (3, 0, 70, 7)]"]
    by (auto simp: sample_names event_of_def timed_tail_def)
qed

theorem outage_blocks_pairs_witness:
  "\<not> ar_profitable (evaluate_futures_pair
       (fold funding_step [OpEvict 6] (set_stream_health ''OKX'' False sample_funding))
       ''OKX'' ''BTCUSDT'' ''MEXC'' ''BTCUSDT'' (3 / 100) 6)"
  by (rule outage_blocks_pairs [where ex = "''OKX''"]) (simp_all add: sample_names)

lemma sample_funding_ok: "funding_ok sample_funding"
  by (simp add: funding_ok_def sample_funding_def sample_names default_funding_config_def
      funding_config_ok_def nano_second_def)

theorem evict_preserves_evaluation_witness:
  "ar_profitable (evaluate_futures_pair (evict_stale 6 sample_funding)
       ''OKX'' ''BTCUSDT'' ''OKX'' ''BTCUSDT'' (3 / 100) 6)"
proof -
  let ?p = "default_funding_config\<lparr>fc_min_spread := 1 / 100\<rparr>"
  have "usable_record sample_funding ?p ''OKX'' ''BTCUSDT'' 6
      \<lparr>fr_exchange = ''OKX'', fr_symbol = ''BTCUSDT'', fr_rate = 1 / 1000,
       fr_next = 9, fr_event_time = 5, fr_received = 5\<rparr>"
    by (simp add: usable_record_def get_funding_def sample_funding_def sample_names is_healthy_def
        record_is_stale_def staleness_for_def default_funding_config_def nano_second_def
        time_sub_def is_zero_time_def)
  moreover have "fm_config sample_funding = Some ?p" by (simp add: sample_funding_def)
  ultimately have "ar_profitable (evaluate_futures_pair sample_funding
      ''OKX'' ''BTCUSDT'' ''OKX'' ''BTCUSDT'' (3 / 100) 6)"
    unfolding pair_profitable by force
  then show ?thesis using evict_preserves_evaluation [OF sample_funding_ok] by simp
qed

end
