(* ===== verification/Volume.thy ===== *)
theory Volume
  imports Market_Types
begin

text \<open>
  internal/app/volume_engine.go: per-market series of one-minute turnover buckets and the
  rolling-window estimates the volume filters use. The engine's clock is an argument.
\<close>

section \<open>State\<close>

record volume_bucket =
  vb_start :: gtime
  vb_quote :: dec

record volume_series =
  vs_buckets :: "(int, volume_bucket) gomap"
  vs_last_seen :: gtime

record volume_estimate =
  ve_volume :: dec
  ve_complete :: bool
  ve_known :: int
  ve_window :: int

record volume_engine =
  vg_data :: "(string, volume_series) gomap"
  vg_retention :: gdur
  vg_updates :: nat

definition new_volume_engine :: volume_engine where
  "new_volume_engine =
     \<lparr>vg_data = [], vg_retention = 4 * nano_hour + 2 * nano_minute, vg_updates = 0\<rparr>"

definition volume_key :: "string \<Rightarrow> string \<Rightarrow> market_type \<Rightarrow> string" where
  "volume_key exchange symbol market = to_upper exchange @ ''|'' @ to_upper symbol @ ''|'' @ market"

definition minute_start :: "gtime \<Rightarrow> gtime" where
  "minute_start t = truncate_time nano_minute t"

definition empty_series :: volume_series where
  "empty_series = \<lparr>vs_buckets = [], vs_last_seen = 0\<rparr>"

section \<open>Janitor and updates\<close>

text \<open>The janitor compares instants, the update compares unix seconds, as the source does.\<close>

definition volume_janitor :: "gtime \<Rightarrow> volume_engine \<Rightarrow> volume_engine" where
  "volume_janitor now v =
     (let cut = now - vg_retention v;
          prune = (\<lambda>s. s\<lparr>vs_buckets :=
            filter (\<lambda>(ts, b). \<not> time_before (unix_seconds ts) cut) (vs_buckets s)\<rparr>)
      in v\<lparr>vg_data :=
           filter (\<lambda>(k, s). \<not> (is_zero_time (vs_last_seen s)
                                \<or> time_sub now (vs_last_seen s) > vg_retention v))
             (map (\<lambda>(k, s). (k, prune s)) (vg_data v))\<rparr>)"

definition store_bucket :: "gtime \<Rightarrow> gdur \<Rightarrow> gtime \<Rightarrow> dec \<Rightarrow> volume_series \<Rightarrow> volume_series" where
  "store_bucket now retention start quote s =
     (let bs = mput (to_unix start) \<lparr>vb_start = start, vb_quote = quote\<rparr> (vs_buckets s);
          seen = (if time_after now (vs_last_seen s) then now else vs_last_seen s);
          cut = to_unix (now - retention)
      in \<lparr>vs_buckets = filter (\<lambda>(ts, b). \<not> ts < cut) bs, vs_last_seen = seen\<rparr>)"

definition update_candle :: "gtime \<Rightarrow> market_candle \<Rightarrow> volume_engine \<Rightarrow> volume_engine" where
  "update_candle now c v =
     (if mc_exchange c = [] \<or> mc_symbol c = [] \<or> is_zero_time (mc_open_time c)
         \<or> mc_market c = [] \<or> mc_volume c < 0
      then v
      else let start = minute_start (mc_open_time c);
               key = volume_key (mc_exchange c) (mc_symbol c) (mc_market c);
               s = (case map_of (vg_data v) key of None \<Rightarrow> empty_series | Some s \<Rightarrow> s);
               s' = store_bucket now (vg_retention v) start (mc_volume c) s;
               v1 = v\<lparr>vg_data := mput key s' (vg_data v), vg_updates := vg_updates v + 1\<rparr>
           in if vg_updates v1 mod 1000 = 0 then volume_janitor now v1 else v1)"

section \<open>Estimates\<close>

definition timeframe_duration :: "timeframe \<Rightarrow> gdur option" where
  "timeframe_duration tf =
     (if tf = TF_1m then Some nano_minute
      else if tf = TF_5m then Some (5 * nano_minute)
      else if tf = TF_15m then Some (15 * nano_minute)
      else if tf = TF_30m then Some (30 * nano_minute)
      else if tf = TF_1h then Some nano_hour
      else if tf = TF_4h then Some (4 * nano_hour)
      else if tf = TF_24h then Some (24 * nano_hour)
      else None)"

definition zero_estimate :: volume_estimate where
  "zero_estimate = \<lparr>ve_volume = 0, ve_complete = False, ve_known = 0, ve_window = 0\<rparr>"

text \<open>The first loop: from the end of the window back to its beginning, the newest known
  bucket; the zero Time when there is none.\<close>

function find_latest :: "(int, volume_bucket) gomap \<Rightarrow> gtime \<Rightarrow> gtime \<Rightarrow> gtime" where
  "find_latest bs lo t =
     (if t < lo then 0
      else case map_of bs (to_unix t) of
        Some b \<Rightarrow> vb_start b
      | None \<Rightarrow> find_latest bs lo (t - nano_minute))"
  by pat_completeness auto
termination
  by (relation "measure (\<lambda>(bs, lo, t). nat (t - lo + nano_minute))")
    (auto simp: nano_minute_def)

text \<open>The second loop: the contiguous run of known minutes ending at \<open>t\<close>.\<close>

function sum_run :: "(int, volume_bucket) gomap \<Rightarrow> gtime \<Rightarrow> gtime \<Rightarrow> dec \<Rightarrow> int \<Rightarrow> dec \<times> int" where
  "sum_run bs lo t acc known =
     (if t < lo then (acc, known)
      else case map_of bs (to_unix t) of
        None \<Rightarrow> (acc, known)
      | Some b \<Rightarrow> sum_run bs lo (t - nano_minute) (acc + vb_quote b) (known + 1))"
  by pat_completeness auto
termination
  by (relation "measure (\<lambda>(bs, lo, t, acc, known). nat (t - lo + nano_minute))")
    (auto simp: nano_minute_def)

declare find_latest.simps [simp del] sum_run.simps [simp del]

definition estimate_market_volume ::
  "dec_lib \<Rightarrow> gtime \<Rightarrow> volume_engine \<Rightarrow> string \<Rightarrow> string \<Rightarrow> market_type \<Rightarrow> timeframe \<Rightarrow> gtime
   \<Rightarrow> volume_estimate" where
  "estimate_market_volume D clock v exchange symbol market tf now0 =
     (case timeframe_duration tf of
        None \<Rightarrow> zero_estimate
      | Some d \<Rightarrow>
          (let now = (if is_zero_time now0 then clock else now0);
               hi = minute_start now;
               minutes = d div nano_minute;
               lo = hi - d + nano_minute;
               none = zero_estimate\<lparr>ve_window := minutes\<rparr>
           in case map_of (vg_data v) (volume_key exchange symbol market) of
                None \<Rightarrow> none
              | Some s \<Rightarrow>
                  (let latest = find_latest (vs_buckets s) lo hi in
                   if is_zero_time latest \<or> latest \<noteq> hi then none
                   else let (acc, known) = sum_run (vs_buckets s) lo latest 0 0 in
                     if known = 0 then none
                     else if known = minutes \<and> latest = hi
                     then \<lparr>ve_volume = acc, ve_complete = True, ve_known = known,
                           ve_window = minutes\<rparr>
                     else zero_estimate\<lparr>ve_volume := lib_div D acc (of_int known) * of_int minutes,
                            ve_known := known, ve_window := minutes\<rparr>)))"

definition get_market_volume ::
  "dec_lib \<Rightarrow> gtime \<Rightarrow> volume_engine \<Rightarrow> string \<Rightarrow> string \<Rightarrow> market_type \<Rightarrow> timeframe \<Rightarrow> gtime \<Rightarrow> dec" where
  "get_market_volume D clock v exchange symbol market tf now =
     ve_volume (estimate_market_volume D clock v exchange symbol market tf now)"

definition min_int :: "int \<Rightarrow> int \<Rightarrow> int" where "min_int a b = (if a < b then a else b)"
definition max_int :: "int \<Rightarrow> int \<Rightarrow> int" where "max_int a b = (if a > b then a else b)"

definition route_volume_estimate ::
  "dec_lib \<Rightarrow> gtime \<Rightarrow> volume_engine \<Rightarrow> string \<Rightarrow> market_type \<Rightarrow> string \<Rightarrow> market_type \<Rightarrow> string
   \<Rightarrow> timeframe \<Rightarrow> gtime \<Rightarrow> volume_estimate" where
  "route_volume_estimate D clock v buy_ex buy_market sell_ex sell_market symbol tf now =
     (let a = estimate_market_volume D clock v buy_ex symbol buy_market tf now;
          b = estimate_market_volume D clock v sell_ex symbol sell_market tf now
      in if ve_known a = 0 \<or> ve_known b = 0 then zero_estimate\<lparr>ve_window := ve_window a\<rparr>
         else \<lparr>ve_volume = (if ve_volume b < ve_volume a then ve_volume b else ve_volume a),
               ve_complete = (ve_complete a \<and> ve_complete b),
               ve_known = min_int (ve_known a) (ve_known b),
               ve_window = max_int (ve_window a) (ve_window b)\<rparr>)"

definition get_route_volume ::
  "dec_lib \<Rightarrow> gtime \<Rightarrow> volume_engine \<Rightarrow> string \<Rightarrow> market_type \<Rightarrow> string \<Rightarrow> market_type \<Rightarrow> string
   \<Rightarrow> timeframe \<Rightarrow> gtime \<Rightarrow> dec" where
  "get_route_volume D clock v buy_ex buy_market sell_ex sell_market symbol tf now =
     ve_volume (route_volume_estimate D clock v buy_ex buy_market sell_ex sell_market symbol tf now)"

section \<open>The invariant of the engine\<close>

text \<open>Every bucket is filed under the unix second of its own, minute-aligned start and holds
  a turnover that is not negative.\<close>

definition bucket_ok :: "int \<Rightarrow> volume_bucket \<Rightarrow> bool" where
  "bucket_ok ts b \<longleftrightarrow> ts = to_unix (vb_start b) \<and> nano_minute dvd vb_start b \<and> 0 \<le> vb_quote b"

definition series_ok :: "volume_series \<Rightarrow> bool" where
  "series_ok s \<longleftrightarrow> mwf (vs_buckets s) \<and> (\<forall>(ts, b)\<in>set (vs_buckets s). bucket_ok ts b)"

definition volume_ok :: "volume_engine \<Rightarrow> bool" where
  "volume_ok v \<longleftrightarrow> mwf (vg_data v) \<and> (\<forall>(k, s)\<in>set (vg_data v). series_ok s)"

lemma minute_start_dvd: "nano_minute dvd minute_start t"
  unfolding minute_start_def by (rule truncate_time_dvd) (simp add: nano_minute_def)

lemma series_ok_filter: "series_ok s \<Longrightarrow> series_ok (s\<lparr>vs_buckets := filter P (vs_buckets s)\<rparr>)"
  by (auto simp: series_ok_def intro: mwf_filter)

lemma series_ok_empty: "series_ok empty_series"
  by (simp add: series_ok_def empty_series_def)

lemma series_ok_store:
  assumes "series_ok s" "nano_minute dvd start" "0 \<le> quote"
  shows "series_ok (store_bucket now retention start quote s)"
  using assms by (auto simp: series_ok_def store_bucket_def Let_def bucket_ok_def mwf_mput
      intro!: mwf_filter dest!: mem_mput_D)

lemma volume_ok_janitor: "volume_ok v \<Longrightarrow> volume_ok (volume_janitor now v)"
proof -
  assume v: "volume_ok v"
  let ?prune = "\<lambda>s. s\<lparr>vs_buckets := filter (\<lambda>(ts, b). \<not> time_before (unix_seconds ts)
     (now - vg_retention v)) (vs_buckets s)\<rparr>"
  show ?thesis using v
    by (auto simp: volume_ok_def volume_janitor_def Let_def intro!: mwf_filter series_ok_filter)
qed

lemma volume_ok_update: "volume_ok v \<Longrightarrow> volume_ok (update_candle now c v)"
proof -
  assume v: "volume_ok v"
  let ?key = "volume_key (mc_exchange c) (mc_symbol c) (mc_market c)"
  let ?s = "case map_of (vg_data v) ?key of None \<Rightarrow> empty_series | Some s \<Rightarrow> s"
  have "series_ok ?s" using v
    by (auto simp: volume_ok_def series_ok_empty split: option.splits dest: map_of_SomeD)
  then have "volume_ok (v\<lparr>vg_data := mput ?key (store_bucket now (vg_retention v)
      (minute_start (mc_open_time c)) (mc_volume c) ?s) (vg_data v), vg_updates := n\<rparr>)"
    if "0 \<le> mc_volume c" for n
    using v that by (auto simp: volume_ok_def mwf_mput minute_start_dvd
        dest!: mem_mput_D intro!: series_ok_store)
  with v show ?thesis
    by (simp add: update_candle_def Let_def volume_ok_janitor not_less)
qed

datatype volume_op = OpCandle gtime market_candle | OpJanitor gtime

fun volume_step :: "volume_op \<Rightarrow> volume_engine \<Rightarrow> volume_engine" where
  "volume_step (OpCandle now c) v = update_candle now c v"
| "volume_step (OpJanitor now) v = volume_janitor now v"

interpretation volume: machine volume_step volume_ok
  by unfold_locales (metis volume_ok_janitor volume_ok_update volume_step.elims)

lemma volume_ok_new: "volume_ok new_volume_engine"
  by (simp add: volume_ok_def new_volume_engine_def)

section \<open>The loops of the estimate\<close>

definition bucket_at :: "(int, volume_bucket) gomap \<Rightarrow> gtime \<Rightarrow> nat \<Rightarrow> volume_bucket option" where
  "bucket_at bs t i = map_of bs (to_unix (t - int i * nano_minute))"

text \<open>\<open>k\<close> is the length of the contiguous run of known minutes that ends at \<open>t\<close>, within a
  window of \<open>n\<close> minutes.\<close>

definition contiguous_run :: "(int, volume_bucket) gomap \<Rightarrow> gtime \<Rightarrow> nat \<Rightarrow> nat \<Rightarrow> bool" where
  "contiguous_run bs t n k \<longleftrightarrow>
     k \<le> n \<and> (\<forall>i<k. bucket_at bs t i \<noteq> None) \<and> (k = n \<or> bucket_at bs t k = None)"

definition run_total :: "(int, volume_bucket) gomap \<Rightarrow> gtime \<Rightarrow> nat \<Rightarrow> dec" where
  "run_total bs t k = (\<Sum>i<k. vb_quote (the (bucket_at bs t i)))"

lemma bucket_at_Suc: "bucket_at bs t (Suc i) = bucket_at bs (t - nano_minute) i"
  by (simp add: bucket_at_def algebra_simps)

lemma contiguous_run_Suc:
  "contiguous_run bs t (Suc n) (Suc k) \<longleftrightarrow>
    bucket_at bs t 0 \<noteq> None \<and> contiguous_run bs (t - nano_minute) n k"
  by (auto simp: contiguous_run_def bucket_at_Suc less_Suc_eq_0_disj)

lemma run_total_Suc:
  "run_total bs t (Suc k) = vb_quote (the (bucket_at bs t 0)) + run_total bs (t - nano_minute) k"
  unfolding run_total_def sum.lessThan_Suc_shift by (simp add: bucket_at_Suc)

lemma sum_run_spec:
  "contiguous_run bs t n k \<Longrightarrow> lo = t - int n * nano_minute + nano_minute \<Longrightarrow>
   sum_run bs lo t acc known = (acc + run_total bs t k, known + int k)"
proof (induction n arbitrary: t k acc known)
  case 0
  then show ?case
    by (subst sum_run.simps) (simp add: contiguous_run_def run_total_def nano_minute_def)
next
  case (Suc n)
  have le: "\<not> t < lo" using Suc.prems(2) by (simp add: nano_minute_def)
  show ?case
  proof (cases k)
    case 0
    with Suc.prems(1) have "map_of bs (to_unix t) = None"
      by (simp add: contiguous_run_def bucket_at_def)
    with le 0 show ?thesis by (subst sum_run.simps) (simp add: run_total_def)
  next
    case (Suc k')
    with Suc.prems(1) have b: "bucket_at bs t 0 \<noteq> None"
      and run: "contiguous_run bs (t - nano_minute) n k'"
      by (simp_all add: contiguous_run_Suc)
    from b obtain x where x: "map_of bs (to_unix t) = Some x" by (auto simp: bucket_at_def)
    have "lo = (t - nano_minute) - int n * nano_minute + nano_minute"
      using Suc.prems(2) by (simp add: algebra_simps)
    from Suc.IH [OF run this] show ?thesis using le x Suc
      by (subst sum_run.simps) (simp add: run_total_Suc bucket_at_def algebra_simps)
  qed
qed

lemma contiguous_run_exists: "\<exists>k. contiguous_run bs t n k"
proof (induction n arbitrary: t)
  case 0
  show ?case by (auto simp: contiguous_run_def)
next
  case (Suc n)
  show ?case
  proof (cases "bucket_at bs t 0")
    case None
    then show ?thesis by (intro exI [of _ 0]) (simp add: contiguous_run_def)
  next
    case (Some x)
    with Suc.IH [of "t - nano_minute"] show ?thesis using contiguous_run_Suc by blast
  qed
qed

lemma to_unix_inj:
  assumes "nano_minute dvd a" "nano_minute dvd b" "to_unix a = to_unix b"
  shows "a = b"
proof -
  have e: "10 ^ 9 dvd unix_epoch" by (simp add: unix_epoch_def)
  have "10 ^ 9 dvd a" "10 ^ 9 dvd b"
    using assms(1,2) by (auto simp: nano_minute_def intro: dvd_trans)
  with e have "10 ^ 9 dvd a - unix_epoch" "10 ^ 9 dvd b - unix_epoch" by (simp_all add: dvd_diff)
  with assms(3) show ?thesis by (auto simp: to_unix_def dvd_def)
qed

lemma find_latest_end:
  assumes s: "series_ok s" and t: "nano_minute dvd t" "t \<noteq> 0" and w: "lo \<le> t"
  shows "map_of (vs_buckets s) (to_unix t) = None \<Longrightarrow> find_latest (vs_buckets s) lo t \<noteq> t"
    and "map_of (vs_buckets s) (to_unix t) = Some b \<Longrightarrow> find_latest (vs_buckets s) lo t = t"
proof -
  have own: "vb_start b = u" if "map_of (vs_buckets s) (to_unix u) = Some b" "nano_minute dvd u" for u b
  proof -
    have "bucket_ok (to_unix u) b" using s map_of_SomeD [OF that(1)] by (auto simp: series_ok_def)
    then show ?thesis using to_unix_inj [OF _ that(2)] by (simp add: bucket_ok_def)
  qed
  have older: "find_latest (vs_buckets s) lo u = 0 \<or> find_latest (vs_buckets s) lo u \<le> u"
    if "nano_minute dvd u" for u
    using that
  proof (induction "vs_buckets s" lo u rule: find_latest.induct)
    case (1 lo t)
    then show ?case
      by (subst (1 2) find_latest.simps) (force simp: own dvd_diff nano_minute_def split: option.splits)
  qed
  show "map_of (vs_buckets s) (to_unix t) = Some b \<Longrightarrow> find_latest (vs_buckets s) lo t = t"
    using w t own by (subst find_latest.simps) simp
  show "map_of (vs_buckets s) (to_unix t) = None \<Longrightarrow> find_latest (vs_buckets s) lo t \<noteq> t"
    using w t older [of "t - nano_minute"]
    by (subst find_latest.simps) (auto simp: dvd_diff nano_minute_def)
qed

lemma timeframe_positive: "timeframe_duration tf = Some d \<Longrightarrow> 0 < d \<and> nano_minute dvd d"
  by (auto simp: timeframe_duration_def nano_minute_def nano_hour_def split: if_splits)

text \<open>The estimate of a window of \<open>n\<close> minutes whose known run has length \<open>k\<close>.\<close>

definition expected_estimate ::
  "dec_lib \<Rightarrow> (int, volume_bucket) gomap \<Rightarrow> gtime \<Rightarrow> nat \<Rightarrow> nat \<Rightarrow> volume_estimate" where
  "expected_estimate D bs t n k =
     (if k = 0 then zero_estimate\<lparr>ve_window := int n\<rparr>
      else if k = n
      then \<lparr>ve_volume = run_total bs t k, ve_complete = True, ve_known = int k, ve_window = int n\<rparr>
      else \<lparr>ve_volume = lib_div D (run_total bs t k) (of_nat k) * of_nat n, ve_complete = False,
            ve_known = int k, ve_window = int n\<rparr>)"

lemma estimate_expected:
  assumes s: "series_ok s" and d: "timeframe_duration tf = Some d"
    and now: "now \<noteq> 0" "minute_start now \<noteq> 0"
    and look: "map_of (vg_data v) (volume_key ex sy mk) = Some s"
    and run: "contiguous_run (vs_buckets s) (minute_start now) (nat (d div nano_minute)) k"
  shows "estimate_market_volume D clock v ex sy mk tf now =
    expected_estimate D (vs_buckets s) (minute_start now) (nat (d div nano_minute)) k"
proof -
  let ?t = "minute_start now" and ?n = "nat (d div nano_minute)"
  let ?lo = "?t - d + nano_minute"
  have dp: "0 < d" "nano_minute dvd d" using timeframe_positive [OF d] by simp_all
  then have n: "int ?n * nano_minute = d" "0 < ?n"
    by (auto simp: nano_minute_def elim: dvdE)
  then have lo: "?lo = ?t - int ?n * nano_minute + nano_minute" and w: "?lo \<le> ?t"
    by (auto simp: nano_minute_def)
  have win: "int ?n = d div nano_minute" using dp by (simp add: nano_minute_def pos_imp_zdiv_nonneg_iff)
  note fl = find_latest_end [OF s minute_start_dvd now(2) w]
  have sr: "sum_run (vs_buckets s) ?lo ?t 0 0 = (run_total (vs_buckets s) ?t k, int k)"
    using sum_run_spec [OF run lo] by simp
  show ?thesis
  proof (cases "map_of (vs_buckets s) (to_unix ?t)")
    case None
    have "\<not> 0 < k" using run None by (auto simp: contiguous_run_def bucket_at_def)
    then show ?thesis using now fl(1) [OF None] None d look win
      by (simp add: estimate_market_volume_def Let_def is_zero_time_def expected_estimate_def)
  next
    case (Some b)
    have k: "k \<noteq> 0"
    proof
      assume "k = 0"
      then have "bucket_at (vs_buckets s) ?t 0 = None" using run n(2) unfolding contiguous_run_def by simp
      with Some show "False" by (simp add: bucket_at_def)
    qed
    have l: "find_latest (vs_buckets s) ?lo ?t = ?t" by (rule fl(2) [OF Some])
    have z: "is_zero_time now = False" "is_zero_time ?t = False"
      using now by (simp_all add: is_zero_time_def)
    obtain m where m: "?n = m" "d div nano_minute = int m" using win by metis
    from sr k show ?thesis
      unfolding estimate_market_volume_def d look option.case Let_def z if_False l sr m
      by (simp add: expected_estimate_def zero_estimate_def)
  qed
qed

lemma run_total_nonneg:
  assumes "series_ok s" "contiguous_run (vs_buckets s) t n k"
  shows "0 \<le> run_total (vs_buckets s) t k"
  unfolding run_total_def
proof (rule sum_nonneg)
  fix i assume "i \<in> {..<k}"
  then obtain b where "bucket_at (vs_buckets s) t i = Some b"
    using assms(2) by (auto simp: contiguous_run_def)
  with assms(1) show "0 \<le> vb_quote (the (bucket_at (vs_buckets s) t i))"
    by (auto simp: bucket_at_def series_ok_def bucket_ok_def dest!: map_of_SomeD)
qed

lemma expected_bounds:
  assumes "series_ok s" "contiguous_run (vs_buckets s) t n k" "div_ok D"
  shows "0 \<le> ve_volume (expected_estimate D (vs_buckets s) t n k)"
    and "0 \<le> ve_known (expected_estimate D (vs_buckets s) t n k)"
    and "ve_known (expected_estimate D (vs_buckets s) t n k)
      \<le> ve_window (expected_estimate D (vs_buckets s) t n k)"
proof -
  have r: "0 \<le> run_total (vs_buckets s) t k" by (rule run_total_nonneg [OF assms(1,2)])
  have "0 \<le> lib_div D (run_total (vs_buckets s) t k) (of_nat k) * of_nat n" if "k \<noteq> 0"
    using that by (intro mult_nonneg_nonneg div_ok_nonneg [OF assms(3) r]) simp_all
  then show "0 \<le> ve_volume (expected_estimate D (vs_buckets s) t n k)"
    using r by (cases "k = n") (simp_all add: expected_estimate_def zero_estimate_def)
  have "k \<le> n" using assms(2) by (simp add: contiguous_run_def)
  then show "0 \<le> ve_known (expected_estimate D (vs_buckets s) t n k)"
    and "ve_known (expected_estimate D (vs_buckets s) t n k)
      \<le> ve_window (expected_estimate D (vs_buckets s) t n k)"
    by (simp_all add: expected_estimate_def zero_estimate_def)
qed

lemma estimate_zero_time:
  "now \<noteq> 0 \<Longrightarrow> minute_start now = 0 \<Longrightarrow>
   ve_volume (estimate_market_volume D clock v ex sy mk tf now) = 0
   \<and> ve_known (estimate_market_volume D clock v ex sy mk tf now) = 0
   \<and> 0 \<le> ve_window (estimate_market_volume D clock v ex sy mk tf now)"
  using timeframe_positive [of tf]
  by (auto simp: estimate_market_volume_def Let_def is_zero_time_def zero_estimate_def
      nano_minute_def pos_imp_zdiv_nonneg_iff split: option.splits)

lemma estimate_bounds:
  assumes v: "volume_ok v" and D: "div_ok D" and now: "now \<noteq> 0"
  shows "0 \<le> ve_volume (estimate_market_volume D clock v ex sy mk tf now)
    \<and> 0 \<le> ve_known (estimate_market_volume D clock v ex sy mk tf now)
    \<and> ve_known (estimate_market_volume D clock v ex sy mk tf now)
        \<le> ve_window (estimate_market_volume D clock v ex sy mk tf now)"
proof (cases "timeframe_duration tf = None \<or> map_of (vg_data v) (volume_key ex sy mk) = None")
  case True
  then show ?thesis using timeframe_positive [of tf]
    by (auto simp: estimate_market_volume_def Let_def zero_estimate_def nano_minute_def
        pos_imp_zdiv_nonneg_iff split: option.splits)
next
  case False
  then obtain d s where d: "timeframe_duration tf = Some d"
    and look: "map_of (vg_data v) (volume_key ex sy mk) = Some s" by auto
  have s: "series_ok s" using v look by (auto simp: volume_ok_def dest!: map_of_SomeD)
  obtain k where run: "contiguous_run (vs_buckets s) (minute_start now) (nat (d div nano_minute)) k"
    using contiguous_run_exists by blast
  show ?thesis
  proof (cases "minute_start now = 0")
    case True
    with estimate_zero_time [OF now True] show ?thesis by auto
  next
    case nz: False
    show ?thesis unfolding estimate_expected [OF s d now nz look run]
      using expected_bounds [OF s run D] by simp
  qed
qed

lemma route_volume_legs:
  assumes "volume_ok v" "div_ok D" "now \<noteq> 0"
  shows "get_route_volume D clock v bx bm sx sm sy tf now
      \<le> ve_volume (estimate_market_volume D clock v bx sy bm tf now)"
    "get_route_volume D clock v bx bm sx sm sy tf now
      \<le> ve_volume (estimate_market_volume D clock v sx sy sm tf now)"
  using estimate_bounds [OF assms]
  by (auto simp: get_route_volume_def route_volume_estimate_def Let_def zero_estimate_def)

section \<open>Properties\<close>

text \<open>
  C16. The two loops of the estimate against their specification: with \<open>k\<close> the length of the
  contiguous run of known minutes ending at the current minute, the estimate is unknown for
  \<open>k = 0\<close>, the exact turnover of the window when the run fills it, and otherwise the
  average minute of the run projected to the whole window.
\<close>

theorem volume_estimate_spec:
  assumes "volume_ok v" and "timeframe_duration tf = Some d"
    and "now \<noteq> 0" and "minute_start now \<noteq> 0"
    and "map_of (vg_data v) (volume_key ex sy mk) = Some s"
    and "contiguous_run (vs_buckets s) (minute_start now) (nat (d div nano_minute)) k"
  shows "estimate_market_volume D clock v ex sy mk tf now =
    expected_estimate D (vs_buckets s) (minute_start now) (nat (d div nano_minute)) k"
proof -
  have "series_ok s" using assms(1,5) by (auto simp: volume_ok_def dest!: map_of_SomeD)
  then show ?thesis using assms by (intro estimate_expected)
qed

text \<open>
  Whatever candles arrive and however often the janitor runs, an estimate never reports
  a negative turnover or more known minutes than its window has.
\<close>

theorem volume_estimate_bounds:
  assumes "div_ok D" and "now \<noteq> 0"
    and "est = estimate_market_volume D clock (fold volume_step ops new_volume_engine) ex sy mk tf now"
  shows "0 \<le> ve_volume est \<and> 0 \<le> ve_known est \<and> ve_known est \<le> ve_window est"
  unfolding assms(3)
  by (rule estimate_bounds [OF _ assms(1,2)]) (rule volume.run_inv [OF volume_ok_new])

text \<open>
  Updates of the same minute replace each other: after two updates of one open minute
  the series holds what the second alone would have left, so turnover is never counted twice.
\<close>

theorem same_minute_replaces:
  assumes "mwf (vs_buckets s)" and "now1 \<le> now2"
  shows "map_of (vs_buckets (store_bucket now2 ret start q2 (store_bucket now1 ret start q1 s)))
       = map_of (vs_buckets (store_bucket now2 ret start q2 s))"
proof
  fix x
  have cut: "to_unix (now1 - ret) \<le> to_unix (now2 - ret)"
    using assms(2) by (simp add: to_unix_def zdiv_mono1)
  have fk: "map_of (filter (\<lambda>(ts, b). \<not> ts < c) m) x = (if x < c then None else map_of m x)"
    for c and m :: "(int, volume_bucket) gomap"
    using mget_filter_keys [of "\<lambda>ts. \<not> ts < c" m x] by simp
  show "map_of (vs_buckets (store_bucket now2 ret start q2 (store_bucket now1 ret start q1 s))) x
       = map_of (vs_buckets (store_bucket now2 ret start q2 s)) x"
    using cut by (simp add: store_bucket_def Let_def fk map_of_mput)
qed

section \<open>Witnesses\<close>

definition sample_candle :: "int \<Rightarrow> dec \<Rightarrow> market_candle" where
  "sample_candle minute q = \<lparr>mc_exchange = ''OKX'', mc_symbol = ''BTCUSDT'', mc_market = MarketTypeSpot,
     mc_open_time = unix_epoch + minute * nano_minute, mc_close_time = 0, mc_volume = q,
     mc_event_time = 0, mc_closed = False\<rparr>"

lemma minute_start_epoch: "minute_start (unix_epoch + int i * nano_minute) = unix_epoch + int i * nano_minute"
  unfolding minute_start_def
  by (rule truncate_time_fix) (simp_all add: nano_minute_def unix_epoch_def)

definition sample_series :: volume_series where
  "sample_series = \<lparr>vs_buckets = [(60, \<lparr>vb_start = unix_epoch + nano_minute, vb_quote = 2000\<rparr>)],
     vs_last_seen = unix_epoch + nano_minute\<rparr>"

definition sample_engine :: volume_engine where
  "sample_engine = new_volume_engine\<lparr>vg_data := [(volume_key ''OKX'' ''BTCUSDT'' MarketTypeSpot, sample_series)]\<rparr>"

lemma sample_engine_ok: "volume_ok sample_engine"
  by (simp add: volume_ok_def sample_engine_def sample_series_def series_ok_def bucket_ok_def
      to_unix_def nano_minute_def unix_epoch_def)

text \<open>One observed minute of 2,000 projects to 60,000 for a 30-minute window.\<close>

theorem volume_estimate_spec_witness:
  "ve_volume (estimate_market_volume sample_lib 0 sample_engine ''OKX'' ''BTCUSDT'' MarketTypeSpot
      TF_30m (unix_epoch + nano_minute)) = 60000"
proof -
  let ?now = "unix_epoch + nano_minute"
  have ms: "minute_start ?now = ?now" using minute_start_epoch [of 1] by simp
  have look: "map_of (vg_data sample_engine) (volume_key ''OKX'' ''BTCUSDT'' MarketTypeSpot)
      = Some sample_series" by (simp add: sample_engine_def)
  have tf: "timeframe_duration TF_30m = Some (30 * nano_minute)"
    by (simp add: timeframe_duration_def timeframe_defs)
  have b0: "bucket_at (vs_buckets sample_series) ?now 0 = Some \<lparr>vb_start = ?now, vb_quote = 2000\<rparr>"
    and b1: "bucket_at (vs_buckets sample_series) ?now 1 = None"
    by (simp_all add: bucket_at_def sample_series_def to_unix_def nano_minute_def)
  have n: "nat (30 * nano_minute div nano_minute) = 30" by (simp add: nano_minute_def)
  have run: "contiguous_run (vs_buckets sample_series) (minute_start ?now)
      (nat (30 * nano_minute div nano_minute)) 1"
    unfolding ms n using b0 b1 by (auto simp: contiguous_run_def)
  have "?now \<noteq> 0" by (simp add: unix_epoch_def nano_minute_def)
  from volume_estimate_spec [OF sample_engine_ok tf this _ look run, of sample_lib 0] this
  show ?thesis unfolding ms n
    by (simp add: expected_estimate_def run_total_def b0 sample_div)
qed

theorem volume_estimate_bounds_witness:
  "0 \<le> ve_volume (estimate_market_volume sample_lib 0
     (fold volume_step [OpCandle 5 (sample_candle 1 2000), OpJanitor 6] new_volume_engine)
     ''OKX'' ''BTCUSDT'' MarketTypeSpot TF_5m 7)"
  using volume_estimate_bounds [OF sample_div_ok _ refl, of 7 0
      "[OpCandle 5 (sample_candle 1 2000), OpJanitor 6]" "''OKX''" "''BTCUSDT''" MarketTypeSpot TF_5m]
  by simp

theorem same_minute_replaces_witness:
  "map_of (vs_buckets (store_bucket 8 5 60 70 (store_bucket 7 5 60 50 sample_series)))
   = map_of (vs_buckets (store_bucket 8 5 60 70 sample_series))"
  by (rule same_minute_replaces) (simp_all add: sample_series_def)

end
