(* ===== verification/Screener_Config.thy ===== *)
theory Screener_Config
  imports Market_Types
begin

text \<open>
  internal/domain/config.go: the administrative spread floor and the table of taker fees,
  with the parser of the FEES format. The receiver is never nil here (the application
  constructs the configuration before anything uses it); a nil fee map is the empty one.
\<close>

section \<open>State and operations\<close>

record screener_config =
  sc_hard_min_spread :: dec
  sc_fees :: "(string, dec) gomap"

definition hard_min_spread :: dec where "hard_min_spread = 1 / 100"
definition default_taker_fee :: dec where "default_taker_fee = 5 / 10000"
definition max_fee :: dec where "max_fee = 1 / 100"
definition FeeKeyDefault :: string where "FeeKeyDefault = ''DEFAULT''"

definition new_screener_config :: "dec \<Rightarrow> screener_config" where
  "new_screener_config hard =
     \<lparr>sc_hard_min_spread = (if hard < hard_min_spread then hard_min_spread else hard),
      sc_fees = [(FeeKeyDefault, default_taker_fee)]\<rparr>"

definition get_hard_min_spread :: "screener_config \<Rightarrow> dec" where
  "get_hard_min_spread c = sc_hard_min_spread c"

definition get_close_threshold :: "dec_lib \<Rightarrow> screener_config \<Rightarrow> dec" where
  "get_close_threshold D c = lib_div D (get_hard_min_spread c) 2"

definition set_hard_min_spread :: "dec \<Rightarrow> screener_config \<Rightarrow> screener_config \<times> dec" where
  "set_hard_min_spread v c =
     (let v' = (if v < hard_min_spread then hard_min_spread else v)
      in (c\<lparr>sc_hard_min_spread := v'\<rparr>, v'))"

definition config_clamp :: "screener_config \<Rightarrow> dec \<Rightarrow> dec" where
  "config_clamp c v = (let h = get_hard_min_spread c in if v < h then h else v)"

definition set_user_cross_spread :: "screener_config \<Rightarrow> dec \<Rightarrow> dec" where
  "set_user_cross_spread c v = config_clamp c v"

definition is_pair_enabled :: "screener_config \<Rightarrow> string \<Rightarrow> bool" where
  "is_pair_enabled c s = True"

definition set_fee :: "string \<Rightarrow> dec \<Rightarrow> screener_config \<Rightarrow> screener_config" where
  "set_fee exchange v c =
     (let ex = to_upper (trim_space exchange) in
      if ex = [] then c
      else let v1 = (if v < 0 then 0 else v);
               v2 = (if v1 > max_fee then max_fee else v1)
           in c\<lparr>sc_fees := mput ex v2 (sc_fees c)\<rparr>)"

definition fee_for :: "screener_config \<Rightarrow> string \<Rightarrow> dec" where
  "fee_for c exchange =
     (case map_of (sc_fees c) (to_upper (trim_space exchange)) of
        Some v \<Rightarrow> v
      | None \<Rightarrow> (case map_of (sc_fees c) FeeKeyDefault of
                   Some v \<Rightarrow> v
                 | None \<Rightarrow> default_taker_fee))"

definition fees_string :: "dec_lib \<Rightarrow> screener_config \<Rightarrow> string" where
  "fees_string D c =
     (let keys = sort (mkeys (sc_fees c));
          parts = map (\<lambda>k. k @ '':'' @ lib_string D (the (map_of (sc_fees c) k))) keys
      in join_with '','' parts)"

text \<open>The parser: \<open>Inl\<close> carries the text of the part the error message quotes.\<close>

datatype fee_error = BadFeePart string

fun parse_fee_parts ::
  "dec_lib \<Rightarrow> string list \<Rightarrow> (string, dec) gomap \<Rightarrow> fee_error + (string, dec) gomap" where
  "parse_fee_parts D [] out = Inr out"
| "parse_fee_parts D (p # ps) out =
     (let part = trim_space p in
      if part = [] then parse_fee_parts D ps out
      else case split_two CHR '':'' part of
        [k, v] \<Rightarrow>
          (let key = to_upper (trim_space k) in
           if key = [] then Inl (BadFeePart part)
           else case lib_parse D (trim_space v) of
             None \<Rightarrow> Inl (BadFeePart part)
           | Some d \<Rightarrow> if d < 0 \<or> d > max_fee then Inl (BadFeePart part)
                       else parse_fee_parts D ps (mput key d out))
      | _ \<Rightarrow> Inl (BadFeePart part))"

definition parse_fees :: "dec_lib \<Rightarrow> string \<Rightarrow> fee_error + (string, dec) gomap" where
  "parse_fees D raw = parse_fee_parts D (split_on CHR '','' raw) []"

definition apply_fees :: "dec_lib \<Rightarrow> string \<Rightarrow> screener_config \<Rightarrow> fee_error + screener_config" where
  "apply_fees D raw c =
     (case parse_fees D raw of
        Inl e \<Rightarrow> Inl e
      | Inr parsed \<Rightarrow> if length parsed = 0 then Inr c else Inr (c\<lparr>sc_fees := parsed\<rparr>))"

section \<open>The invariant of the configuration\<close>

text \<open>
  The floor is at least 1 per cent; fees are between 0 and 1 per cent and stored under
  normalised, non-empty names that the FEES format can carry (no comma, no colon).
\<close>

definition fee_key_ok :: "string \<Rightarrow> bool" where
  "fee_key_ok k \<longleftrightarrow> k \<noteq> [] \<and> to_upper (trim_space k) = k \<and> CHR '','' \<notin> set k"

definition fee_value_ok :: "dec \<Rightarrow> bool" where
  "fee_value_ok v \<longleftrightarrow> 0 \<le> v \<and> v \<le> max_fee"

definition fees_ok :: "(string, dec) gomap \<Rightarrow> bool" where
  "fees_ok m \<longleftrightarrow> mwf m \<and> (\<forall>(k, v)\<in>set m. k \<noteq> [] \<and> to_upper (trim_space k) = k \<and> fee_value_ok v)"

definition config_ok :: "screener_config \<Rightarrow> bool" where
  "config_ok c \<longleftrightarrow> hard_min_spread \<le> sc_hard_min_spread c \<and> fees_ok (sc_fees c)"

datatype config_op = OpSetHard dec | OpSetFee string dec | OpApplyFees dec_lib string

fun config_step :: "config_op \<Rightarrow> screener_config \<Rightarrow> screener_config" where
  "config_step (OpSetHard v) c = fst (set_hard_min_spread v c)"
| "config_step (OpSetFee ex v) c = set_fee ex v c"
| "config_step (OpApplyFees D raw) c = (case apply_fees D raw c of Inl e \<Rightarrow> c | Inr c' \<Rightarrow> c')"

lemma default_fee_ok: "fee_value_ok default_taker_fee"
  by (simp add: fee_value_ok_def default_taker_fee_def max_fee_def)

lemma default_key_norm: "to_upper (trim_space FeeKeyDefault) = FeeKeyDefault"
  by (simp add: FeeKeyDefault_def string_eval)

lemma fees_ok_mput:
  assumes "fees_ok m" "k \<noteq> []" "to_upper (trim_space k) = k" "fee_value_ok v"
  shows "fees_ok (mput k v m)"
  using assms by (auto simp: fees_ok_def mwf_mput dest!: mem_mput_D)

lemma upper_trim_norm: "to_upper (trim_space (to_upper (trim_space s))) = to_upper (trim_space s)"
  by simp

lemma parse_fee_parts_ok:
  "parse_fee_parts D ps out = Inr m \<Longrightarrow> fees_ok out \<Longrightarrow> fees_ok m"
proof (induction D ps out rule: parse_fee_parts.induct)
  case (2 D p ps out)
  show ?case
  proof (cases "trim_space p = []")
    case True
    with 2 show ?thesis by simp
  next
    case ne: False
    with "2.prems"(1) obtain k v d where split: "split_two CHR '':'' (trim_space p) = [k, v]"
      and key: "to_upper (trim_space k) \<noteq> []"
      and d: "lib_parse D (trim_space v) = Some d" "\<not> (d < 0 \<or> d > max_fee)"
      and rec: "parse_fee_parts D ps (mput (to_upper (trim_space k)) d out) = Inr m"
      by (auto simp: Let_def split: list.splits option.splits if_splits)
    have "fees_ok (mput (to_upper (trim_space k)) d out)"
      using "2.prems"(2) key d(2) by (intro fees_ok_mput) (auto simp: fee_value_ok_def)
    then show ?thesis
      using "2.IH"(2) [OF refl ne split refl refl refl key d rec] by simp
  qed
qed simp

lemma parse_fees_ok: "parse_fees D raw = Inr m \<Longrightarrow> fees_ok m"
  unfolding parse_fees_def by (erule parse_fee_parts_ok) (simp add: fees_ok_def)

lemma config_ok_new [inv_intros]: "config_ok (new_screener_config h)"
  by (simp add: config_ok_def new_screener_config_def fees_ok_def default_key_norm default_fee_ok)
    (simp add: FeeKeyDefault_def)

lemma config_ok_set_hard [inv_intros]: "config_ok c \<Longrightarrow> config_ok (fst (set_hard_min_spread v c))"
  by (simp add: config_ok_def set_hard_min_spread_def Let_def)

lemma config_ok_set_fee [inv_intros]: "config_ok c \<Longrightarrow> config_ok (set_fee ex v c)"
  by (auto simp: config_ok_def set_fee_def Let_def fee_value_ok_def max_fee_def intro!: fees_ok_mput)

lemma config_ok_apply_fees [inv_intros]:
  "config_ok c \<Longrightarrow> apply_fees D raw c = Inr c' \<Longrightarrow> config_ok c'"
  by (auto simp: config_ok_def apply_fees_def dest: parse_fees_ok split: sum.splits if_splits)

lemma config_step_ok: "config_ok c \<Longrightarrow> config_ok (config_step x c)"
  by (cases x) (auto simp: inv_intros split: sum.splits)

interpretation cfg: machine config_step config_ok
  by unfold_locales (rule config_step_ok)

lemma fee_for_range: "config_ok c \<Longrightarrow> 0 \<le> fee_for c e \<and> fee_for c e \<le> max_fee"
  using default_fee_ok
  by (fastforce simp: fee_for_def config_ok_def fees_ok_def fee_value_ok_def
      split: option.splits dest: map_of_SomeD)

lemma hard_min_pos: "config_ok c \<Longrightarrow> 0 < get_hard_min_spread c"
  by (simp add: config_ok_def hard_min_spread_def get_hard_min_spread_def)

section \<open>What the parser accepts\<close>

text \<open>
  Reference reading of one part of a fee string: \<open>None\<close> when the part is malformed,
  \<open>Some None\<close> when it is blank and skipped, \<open>Some (Some (k, v))\<close> for an entry.
\<close>

definition fee_part :: "dec_lib \<Rightarrow> string \<Rightarrow> (string \<times> dec) option option" where
  "fee_part D p =
     (let part = trim_space p in
      if part = [] then Some None
      else if CHR '':'' \<notin> set part then None
      else let k = to_upper (trim_space (takeWhile (\<lambda>c. c \<noteq> CHR '':'') part));
               v = trim_space (tl (dropWhile (\<lambda>c. c \<noteq> CHR '':'') part))
           in if k = [] then None
              else case lib_parse D v of None \<Rightarrow> None
                   | Some d \<Rightarrow> if 0 \<le> d \<and> d \<le> max_fee then Some (Some (k, d)) else None)"

definition fee_entries :: "dec_lib \<Rightarrow> string list \<Rightarrow> (string \<times> dec) list" where
  "fee_entries D ps = List.map_filter (\<lambda>p. case fee_part D p of Some x \<Rightarrow> x | None \<Rightarrow> None) ps"

definition put_all :: "('k \<times> 'v) list \<Rightarrow> ('k, 'v) gomap \<Rightarrow> ('k, 'v) gomap" where
  "put_all kvs m = fold (\<lambda>(k, v). mput k v) kvs m"

lemma parse_fee_parts_Cons:
  "parse_fee_parts D (p # ps) out =
    (case fee_part D p of
       None \<Rightarrow> Inl (BadFeePart (trim_space p))
     | Some None \<Rightarrow> parse_fee_parts D ps out
     | Some (Some (k, v)) \<Rightarrow> parse_fee_parts D ps (mput k v out))"
  by (simp add: fee_part_def Let_def not_le split: option.splits)

lemma fee_entries_Cons:
  "fee_entries D (p # ps) =
    (case fee_part D p of Some (Some e) \<Rightarrow> e # fee_entries D ps | _ \<Rightarrow> fee_entries D ps)"
  by (simp add: fee_entries_def map_filter_simps split: option.splits)

lemma parse_fee_parts_Inr:
  "\<forall>p\<in>set ps. fee_part D p \<noteq> None \<Longrightarrow>
   parse_fee_parts D ps out = Inr (put_all (fee_entries D ps) out)"
proof (induction ps arbitrary: out)
  case (Cons p ps)
  then show ?case
    by (auto simp: parse_fee_parts_Cons fee_entries_Cons put_all_def
        simp del: parse_fee_parts.simps split: option.splits)
qed (simp add: fee_entries_def put_all_def map_filter_simps)

lemma parse_fee_parts_Inl:
  "\<lbrakk>\<forall>p\<in>set xs. fee_part D p \<noteq> None; fee_part D b = None\<rbrakk> \<Longrightarrow>
   parse_fee_parts D (xs @ b # ys) out = Inl (BadFeePart (trim_space b))"
proof (induction xs arbitrary: out)
  case (Cons p ps)
  then show ?case
    by (auto simp: parse_fee_parts_Cons simp del: parse_fee_parts.simps split: option.splits)
qed (simp add: parse_fee_parts_Cons del: parse_fee_parts.simps)

lemma put_all_lookup:
  "map_of (put_all kvs m) k =
    (case map_of (rev kvs) k of Some v \<Rightarrow> Some v | None \<Rightarrow> map_of m k)"
  by (induction kvs arbitrary: m)
    (auto simp: put_all_def map_of_mput map_add_def split: option.splits)

section \<open>Printing and reading back\<close>

text \<open>
  Documented behaviour of the decimal package used by the round trip: the text of a value
  parses back to it and is made of digits, a sign and a point.
\<close>

definition dec_text_ok :: "dec_lib \<Rightarrow> dec \<Rightarrow> bool" where
  "dec_text_ok D v \<longleftrightarrow> lib_parse D (lib_string D v) = Some v \<and> lib_string D v \<noteq> []
     \<and> (\<forall>c\<in>set (lib_string D v). \<not> is_space c \<and> c \<noteq> CHR '','')"

text \<open>Names the format can carry: those without a comma, a colon or inner blanks at the ends.\<close>

definition fee_names_ok :: "screener_config \<Rightarrow> bool" where
  "fee_names_ok c \<longleftrightarrow>
     (\<forall>k\<in>set (mkeys (sc_fees c)). CHR '','' \<notin> set k \<and> CHR '':'' \<notin> set k)"

lemma norm_trimmed: "to_upper (trim_space k) = k \<Longrightarrow> trimmed k"
  by (metis trim_space_trimmed upper_trim_idem)

lemma norm_fix: "to_upper (trim_space k) = k \<Longrightarrow> trim_space k = k \<and> to_upper k = k"
  by (metis to_upper_idem upper_trim_idem)

lemma split_at_first:
  assumes "c \<notin> set k"
  shows "takeWhile (\<lambda>x. x \<noteq> c) (k @ c # s) = k" "dropWhile (\<lambda>x. x \<noteq> c) (k @ c # s) = c # s"
  using assms by (induction k) auto

lemma fee_part_entry:
  assumes k: "k \<noteq> []" "to_upper (trim_space k) = k" "CHR '':'' \<notin> set k"
    and v: "fee_value_ok v" "dec_text_ok D v"
  shows "fee_part D (k @ '':'' @ lib_string D v) = Some (Some (k, v))"
proof -
  let ?s = "lib_string D v" and ?p = "k @ '':'' @ lib_string D v"
  have s: "?s \<noteq> []" "\<forall>c\<in>set ?s. \<not> is_space c" "lib_parse D ?s = Some v"
    using v(2) by (auto simp: dec_text_ok_def)
  have tk: "trimmed k" using k(2) by (rule norm_trimmed)
  have "trimmed ?p" using tk k(1) s by (auto simp: trimmed_def)
  then have trim: "trim_space ?p = ?p" by (rule trim_space_fix)
  have "trim_space ?s = ?s" using s(2) by (intro trim_space_fix trimmed_no_space)
  moreover have "takeWhile (\<lambda>c. c \<noteq> CHR '':'') ?p = k"
    and "tl (dropWhile (\<lambda>c. c \<noteq> CHR '':'') ?p) = ?s"
    by (simp_all add: split_at_first [OF k(3)])
  moreover have "trim_space k = k" "to_upper k = k" using norm_fix [OF k(2)] by simp_all
  ultimately show ?thesis using k(1) s v(1) unfolding fee_part_def trim Let_def
    by (simp add: fee_value_ok_def)
qed

lemma put_all_same:
  assumes "mwf m" "set kvs = set m" "distinct (map fst kvs)"
  shows "map_of (put_all kvs []) = map_of m"
proof
  fix k
  have "map_of (rev kvs) k = map_of m k"
    by (metis assms distinct_rev map_of_inject_set rev_map set_rev)
  then show "map_of (put_all kvs []) k = map_of m k"
    by (simp add: put_all_lookup split: option.splits)
qed

lemma fees_string_eq:
  "fees_string D c = join_with [CHR '','']
     (map (\<lambda>k. k @ '':'' @ lib_string D (the (map_of (sc_fees c) k))) (sort (mkeys (sc_fees c))))"
  by (simp add: fees_string_def Let_def)

lemma fee_names_norm:
  assumes "config_ok c" "k \<in> set (mkeys (sc_fees c))"
  shows "k \<noteq> []" "to_upper (trim_space k) = k"
    "fee_value_ok (the (map_of (sc_fees c) k))" "map_of (sc_fees c) k \<noteq> None"
  using assms by (auto simp: config_ok_def fees_ok_def)

section \<open>Properties\<close>

text \<open>
  Whatever the operator does with the configuration after its construction (set the
  floor, set single fees, apply whole fee strings, in any order and with any values), the
  spread floor stays at least 1 per cent and the fee charged for every exchange stays
  between 0 and 1 per cent.
\<close>

theorem config_bounds:
  "hard_min_spread \<le> get_hard_min_spread (fold config_step ops (new_screener_config h))
   \<and> 0 \<le> fee_for (fold config_step ops (new_screener_config h)) e
   \<and> fee_for (fold config_step ops (new_screener_config h)) e \<le> max_fee"
proof -
  have "config_ok (fold config_step ops (new_screener_config h))"
    by (rule cfg.run_inv) (rule config_ok_new)
  then show ?thesis
    using fee_for_range by (auto simp: config_ok_def get_hard_min_spread_def)
qed

text \<open>
  The fee parser against a reference reading of the parts: it fails with the first
  malformed part, and otherwise the resulting table maps every name to the value of its
  last entry.
\<close>

theorem parse_fees_spec:
  "case parse_fees D raw of
     Inl e \<Rightarrow> \<exists>xs b ys. split_on CHR '','' raw = xs @ b # ys \<and> fee_part D b = None
                \<and> None \<notin> fee_part D ` set xs \<and> e = BadFeePart (trim_space b)
   | Inr m \<Rightarrow> None \<notin> fee_part D ` set (split_on CHR '','' raw)
                \<and> map_of m = map_of (rev (fee_entries D (split_on CHR '','' raw)))"
proof (cases "\<exists>p\<in>set (split_on CHR '','' raw). fee_part D p = None")
  case True
  then obtain xs b ys where sp: "split_on CHR '','' raw = xs @ b # ys"
    and b: "fee_part D b = None" and xs: "\<forall>p\<in>set xs. fee_part D p \<noteq> None"
    using split_list_first_prop [of "split_on CHR '','' raw" "\<lambda>p. fee_part D p = None"] by blast
  from parse_fee_parts_Inl [OF xs b] sp
  have "parse_fees D raw = Inl (BadFeePart (trim_space b))" by (simp add: parse_fees_def)
  moreover have "None \<notin> fee_part D ` set xs" using xs by force
  ultimately show ?thesis using sp b by auto
next
  case False
  then have ok: "\<forall>p\<in>set (split_on CHR '','' raw). fee_part D p \<noteq> None" by auto
  have "map_of (put_all kvs []) = map_of (rev kvs)" for kvs :: "(string \<times> dec) list"
    by (rule ext) (simp add: put_all_lookup split: option.splits)
  moreover have "None \<notin> fee_part D ` set (split_on CHR '','' raw)" using ok by force
  ultimately show ?thesis
    using parse_fee_parts_Inr [OF ok, of "[]"] by (simp add: parse_fees_def)
qed

text \<open>
  C20. Persistence of the fee table: the text that \<open>/setfees\<close> stores is read back by
  \<open>ApplyFees\<close> at the next start as the same table, for every configuration whose names
  hold no comma and no colon, given that the decimal package reads back the texts of its fees.
\<close>

theorem fees_round_trip:
  assumes ok: "config_ok c" and names: "fee_names_ok c" and ne: "sc_fees c \<noteq> []"
    and prints: "\<forall>(k, v)\<in>set (sc_fees c). dec_text_ok D v"
  shows "\<exists>c'. apply_fees D (fees_string D c) c0 = Inr c'
           \<and> map_of (sc_fees c') = map_of (sc_fees c)
           \<and> sc_hard_min_spread c' = sc_hard_min_spread c0"
proof -
  let ?m = "sc_fees c" and ?ks = "sort (mkeys (sc_fees c))"
  let ?part = "\<lambda>k. k @ '':'' @ lib_string D (the (map_of (sc_fees c) k))"
  have wf: "mwf ?m" using ok by (simp add: config_ok_def fees_ok_def)
  have dec: "dec_text_ok D (the (map_of ?m k))" if "k \<in> set (mkeys ?m)" for k
    using that prints wf by auto
  have part: "fee_part D (?part k) = Some (Some (k, the (map_of ?m k)))" if "k \<in> set ?ks" for k
    using that names dec fee_names_norm [OF ok, of k]
    by (intro fee_part_entry) (auto simp: fee_names_ok_def)
  have "split_on CHR '','' (fees_string D c) = map ?part ?ks"
    unfolding fees_string_eq
  proof (rule split_on_join)
    have "length (map ?part ?ks) \<noteq> 0" using ne by simp
    then show "map ?part ?ks \<noteq> []" by (metis list.size(3))
    show "\<forall>x\<in>set (map ?part ?ks). CHR '','' \<notin> set x"
      using names dec by (auto simp: fee_names_ok_def dec_text_ok_def)
  qed
  moreover have "fee_entries D (map ?part ?ks) = map (\<lambda>k. (k, the (map_of ?m k))) ?ks"
    using part by (induction ?ks) (auto simp: fee_entries_def map_filter_def intro!: filter_True)
  moreover have "\<forall>p\<in>set (map ?part ?ks). fee_part D p \<noteq> None" using part by auto
  ultimately have parsed: "parse_fees D (fees_string D c)
      = Inr (put_all (map (\<lambda>k. (k, the (map_of ?m k))) ?ks) [])" (is "_ = Inr (put_all ?kvs [])")
    using parse_fee_parts_Inr [of "map ?part ?ks" D "[]"] by (simp add: parse_fees_def)
  have "set ?kvs = set ?m" using wf by (force simp: image_iff)
  then have same: "map_of (put_all ?kvs []) = map_of ?m"
    using wf by (intro put_all_same) (auto simp: comp_def)
  then have "put_all ?kvs [] \<noteq> []" using ne by (metis list.exhaust map_of.simps(1) map_of_eq_empty_iff)
  with parsed same show ?thesis by (auto simp: apply_fees_def)
qed

theorem fees_round_trip_witness:
  "\<exists>c'. apply_fees sample_lib (fees_string sample_lib (new_screener_config (1 / 50)))
           (new_screener_config (3 / 100)) = Inr c'
     \<and> map_of (sc_fees c') = [FeeKeyDefault \<mapsto> default_taker_fee]
     \<and> sc_hard_min_spread c' = 3 / 100"
proof -
  let ?c = "new_screener_config (1 / 50)"
  have fees: "sc_fees ?c = [(FeeKeyDefault, default_taker_fee)]"
    by (simp add: new_screener_config_def)
  have "dec_text_ok sample_lib default_taker_fee" 
    by (simp add: dec_text_ok_def default_taker_fee_def sample_text is_space_def)
  then have p: "\<forall>(k, v)\<in>set (sc_fees ?c). dec_text_ok sample_lib v" by (simp add: fees)
  have n: "fee_names_ok ?c" by (simp add: fee_names_ok_def fees FeeKeyDefault_def)
  have h: "sc_hard_min_spread (new_screener_config (3 / 100)) = 3 / 100"
    by (simp add: new_screener_config_def hard_min_spread_def)
  show ?thesis
    using fees_round_trip [OF config_ok_new n _ p, of "new_screener_config (3 / 100)"]
    by (simp add: fees h)
qed

end
