(* ===== verification/Users.thy ===== *)
theory Users
  imports Market_Types
begin

text \<open>
  internal/domain/user.go: the map of subscribed users behind its read-write lock. Every
  method runs under the lock, so each is one step on the map. A nil user is not passed.
\<close>

type_synonym user_manager = "(int, user) gomap"

definition new_user_manager :: user_manager where
  "new_user_manager = []"

definition set_user :: "user \<Rightarrow> user_manager \<Rightarrow> user_manager" where
  "set_user u um = mput (us_chat_id u) u um"

definition remove_user :: "int \<Rightarrow> user_manager \<Rightarrow> user_manager" where
  "remove_user chat um = mdel chat um"

definition get_user :: "user_manager \<Rightarrow> int \<Rightarrow> user option" where
  "get_user um chat = map_of um chat"

definition has_users :: "user_manager \<Rightarrow> bool" where
  "has_users um \<longleftrightarrow> length um > 0"

text \<open>\<open>GetAllUsers\<close> and the snapshot that \<open>Range\<close> visits list the values in map order.\<close>

definition get_all_users :: "(user list \<Rightarrow> user list) \<Rightarrow> user_manager \<Rightarrow> user list" where
  "get_all_users ord um = ord (map snd um)"

text \<open>\<open>range_users ord um stop\<close> is \<open>Range\<close> with a callback that records a hit and returns
  false as soon as \<open>stop\<close> holds; the result tells whether the callback stopped the loop.\<close>

definition range_users :: "(user list \<Rightarrow> user list) \<Rightarrow> user_manager \<Rightarrow> (user \<Rightarrow> bool) \<Rightarrow> bool" where
  "range_users ord um stop = range_until stop (get_all_users ord um)"

lemma range_users_iff:
  "order_ok ord \<Longrightarrow> range_users ord um stop \<longleftrightarrow> (\<exists>u\<in>snd ` set um. stop u)"
  by (simp add: range_users_def get_all_users_def range_until_iff order_ok_set)

text \<open>Every user is filed under its own chat id.\<close>

definition users_ok :: "user_manager \<Rightarrow> bool" where
  "users_ok um \<longleftrightarrow> mwf um \<and> (\<forall>(k, u)\<in>set um. us_chat_id u = k)"

datatype user_op = OpSetUser user | OpRemoveUser int

fun user_step :: "user_op \<Rightarrow> user_manager \<Rightarrow> user_manager" where
  "user_step (OpSetUser u) um = set_user u um"
| "user_step (OpRemoveUser c) um = remove_user c um"

lemma users_ok_new [inv_intros]: "users_ok new_user_manager"
  by (simp add: users_ok_def new_user_manager_def)

lemma users_ok_set [inv_intros]: "users_ok um \<Longrightarrow> users_ok (set_user u um)"
  by (auto simp: users_ok_def set_user_def mwf_mput dest!: mem_mput_D)

lemma users_ok_remove [inv_intros]: "users_ok um \<Longrightarrow> users_ok (remove_user c um)"
  by (auto simp: users_ok_def remove_user_def mwf_mdel mem_mdel)

lemma user_step_ok: "users_ok um \<Longrightarrow> users_ok (user_step x um)"
  by (cases x) (simp_all add: inv_intros)

interpretation user_map: machine user_step users_ok
  by unfold_locales (rule user_step_ok)

lemma get_user_set: "get_user (set_user u um) c = (if c = us_chat_id u then Some u else get_user um c)"
  by (simp add: get_user_def set_user_def map_of_mput)

lemma get_user_remove: "get_user (remove_user d um) c = (if c = d then None else get_user um c)"
  by (simp add: get_user_def remove_user_def map_of_mdel)

lemma get_user_chat: "users_ok um \<Longrightarrow> get_user um c = Some u \<Longrightarrow> us_chat_id u = c"
  by (auto simp: users_ok_def get_user_def dest!: map_of_SomeD)

lemma users_ok_range: "users_ok um \<Longrightarrow> u \<in> snd ` set um \<longleftrightarrow> get_user um (us_chat_id u) = Some u"
  by (force simp: users_ok_def get_user_def)

end
