(* ===== verification/Market_Book.thy ===== *)
theory Market_Book
  imports Funding Volume Screener_Config Users
begin

text \<open>
  internal/app/sharded_aggregator.go, the part that reads the market: quotes and their
  freshness, the search for cross-exchange and intra-exchange routes, the volume
  prefilters. The collaborators (configuration, funding, users, volume engine) are read
  through a record of their current values.
\<close>

section \<open>Quotes\<close>

record price_state =
  ps_bid :: dec
  ps_ask :: dec
  ps_received :: gtime
  ps_volume :: dec

text \<open>Exchange, then market type: the quotes of one symbol.\<close>

type_synonym market_map = "(market_type, price_state) gomap"
type_synonym exchange_book = "(string, market_map) gomap"

definition normalize_symbol :: "string \<Rightarrow> string" where
  "normalize_symbol s = remove_chars ''-_/'' (to_upper (trim_space s))"

definition valid_tick :: "market_tick \<Rightarrow> bool" where
  "valid_tick t \<longleftrightarrow>
     \<not> (trim_space (mt_exchange t) = [] \<or> trim_space (mt_symbol t) = [])
     \<and> \<not> (mt_market t \<noteq> MarketTypeSpot \<and> mt_market t \<noteq> MarketTypeFutures)
     \<and> \<not> (\<not> 0 < mt_bid t \<or> \<not> 0 < mt_ask t \<or> mt_bid t > mt_ask t)
     \<and> (\<not> is_zero_time (mt_received_at t) \<or> \<not> is_zero_time (mt_event_time t)
        \<or> \<not> is_zero_time (mt_timestamp t))"

definition fresh :: "price_state option \<Rightarrow> gtime \<Rightarrow> gdur \<Rightarrow> bool" where
  "fresh s now ttl \<longleftrightarrow>
     (case s of None \<Rightarrow> False
      | Some p \<Rightarrow> if is_zero_time (ps_received p) \<or> time_before now (ps_received p) then False
                  else time_sub now (ps_received p) \<le> ttl)"

definition min_decimal :: "dec \<Rightarrow> dec \<Rightarrow> dec" where
  "min_decimal a b = (if a < b then a else b)"

text \<open>\<open>byExchange[ex][market]\<close>: a missing exchange is a nil map, a missing market a nil pointer.\<close>

definition quote_of :: "exchange_book \<Rightarrow> string \<Rightarrow> market_type \<Rightarrow> price_state option" where
  "quote_of book ex market = (case map_of book ex of None \<Rightarrow> None | Some ms \<Rightarrow> map_of ms market)"

definition route_key :: "spread_event \<Rightarrow> string" where
  "route_key e =
     (let buy = (if ev_buy_exchange e = [] then ev_exchange_a e else ev_buy_exchange e);
          sell = (if ev_sell_exchange e = [] then ev_exchange_b e else ev_sell_exchange e)
      in join_with '':'' [ev_symbol e, ev_type e, buy, sell, ev_buy_market e, ev_sell_market e])"

section \<open>Collaborators\<close>

record agg_env =
  ae_dec :: dec_lib
  ae_config :: screener_config
  ae_funding :: "funding_manager option"
  ae_users :: "user_manager option"
  ae_volume :: "volume_engine option"
  ae_ttl :: gdur
  ae_clock :: gtime
  ae_order :: "string list \<Rightarrow> string list"
  ae_user_order :: "user list \<Rightarrow> user list"

definition env_ok :: "agg_env \<Rightarrow> bool" where
  "env_ok E \<longleftrightarrow> div_ok (ae_dec E) \<and> config_ok (ae_config E)
     \<and> (\<forall>fm. ae_funding E = Some fm \<longrightarrow> funding_ok fm)
     \<and> (\<forall>um. ae_users E = Some um \<longrightarrow> users_ok um)
     \<and> (\<forall>v. ae_volume E = Some v \<longrightarrow> volume_ok v)
     \<and> order_ok (ae_order E) \<and> order_ok (ae_user_order E)"

text \<open>\<open>defaultPriceTTL\<close>, \<open>staleActiveRouteTTL\<close> and \<open>numShards\<close>.\<close>

definition default_price_ttl :: gdur where "default_price_ttl = 5 * nano_second"
definition stale_active_route_ttl :: gdur where "stale_active_route_ttl = 10 * nano_minute"
definition num_shards :: nat where "num_shards = 1024"

section \<open>Routes\<close>

text \<open>The route that buys on \<open>bx\<close> at \<open>b\<close> and sells on \<open>sx\<close> at \<open>s\<close>: gross spread less the two
  taker fees, then net of funding.\<close>

definition cross_event ::
  "agg_env \<Rightarrow> string \<Rightarrow> gtime \<Rightarrow> string \<Rightarrow> price_state \<Rightarrow> string \<Rightarrow> price_state \<Rightarrow> spread_event option" where
  "cross_event E symbol now bx b sx s =
     (let spread = lib_div (ae_dec E) (ps_bid s - ps_ask b) (ps_ask b)
                     - fee_for (ae_config E) bx - fee_for (ae_config E) sx
      in if \<not> 0 < spread then None
         else case ae_funding E of
           None \<Rightarrow> None
         | Some fm \<Rightarrow>
             (let fund = evaluate_futures_pair fm bx symbol sx symbol spread now in
              if \<not> ar_profitable fund then None
              else Some \<lparr>ev_symbol = symbol, ev_type = CrossExchange, ev_spread = ar_net_spread fund,
                ev_buy_exchange = bx, ev_sell_exchange = sx, ev_exchange_a = [], ev_exchange_b = [],
                ev_buy_market = MarketTypeFutures, ev_sell_market = MarketTypeFutures,
                ev_buy_ask = ps_ask b, ev_sell_bid = ps_bid s,
                ev_volume = min_decimal (ps_volume b) (ps_volume s),
                ev_buy_rate = ar_buy_rate fund, ev_sell_rate = ar_sell_rate fund,
                ev_buy_next = ar_buy_next fund, ev_sell_next = ar_sell_next fund,
                ev_timestamp = now, ev_lifecycle = NoLifecycle\<rparr>))"

text \<open>The inner loop: the left exchange against every later one.\<close>

fun cross_row ::
  "agg_env \<Rightarrow> exchange_book \<Rightarrow> string \<Rightarrow> gtime \<Rightarrow> string \<Rightarrow> price_state \<Rightarrow> string list
   \<Rightarrow> spread_event list" where
  "cross_row E book symbol now lx l [] = []"
| "cross_row E book symbol now lx l (rx # rest) =
     (case quote_of book rx MarketTypeFutures of
        None \<Rightarrow> cross_row E book symbol now lx l rest
      | Some r \<Rightarrow>
          if \<not> fresh (Some r) now (ae_ttl E) then cross_row E book symbol now lx l rest
          else let found = (if ps_ask l < ps_bid r then cross_event E symbol now lx l rx r
                            else if ps_ask r < ps_bid l then cross_event E symbol now rx r lx l
                            else None)
               in (case found of None \<Rightarrow> [] | Some ev \<Rightarrow> [ev]) @ cross_row E book symbol now lx l rest)"

fun cross_loop :: "agg_env \<Rightarrow> exchange_book \<Rightarrow> string \<Rightarrow> gtime \<Rightarrow> string list \<Rightarrow> spread_event list" where
  "cross_loop E book symbol now [] = []"
| "cross_loop E book symbol now (lx # rest) =
     (case quote_of book lx MarketTypeFutures of
        None \<Rightarrow> cross_loop E book symbol now rest
      | Some l \<Rightarrow>
          if \<not> fresh (Some l) now (ae_ttl E) then cross_loop E book symbol now rest
          else cross_row E book symbol now lx l rest @ cross_loop E book symbol now rest)"

definition cross_candidates :: "agg_env \<Rightarrow> exchange_book \<Rightarrow> string \<Rightarrow> gtime \<Rightarrow> spread_event list" where
  "cross_candidates E book symbol now = cross_loop E book symbol now (ae_order E (mkeys book))"

definition intra_event ::
  "agg_env \<Rightarrow> string \<Rightarrow> gtime \<Rightarrow> string \<Rightarrow> price_state \<Rightarrow> price_state \<Rightarrow> spread_event option" where
  "intra_event E symbol now ex spot fut =
     (if \<not> ps_bid fut > ps_ask spot then None
      else let spread = lib_div (ae_dec E) (ps_bid fut - ps_ask spot) (ps_ask spot)
                          - fee_for (ae_config E) ex - fee_for (ae_config E) ex
           in if \<not> 0 < spread then None
              else case ae_funding E of
                None \<Rightarrow> None
              | Some fm \<Rightarrow>
                  (let result = evaluate_spot_futures fm ex symbol spread now in
                   if \<not> ar_profitable result then None
                   else Some \<lparr>ev_symbol = symbol, ev_type = IntraExchange,
                     ev_spread = ar_net_spread result, ev_buy_exchange = ex, ev_sell_exchange = ex,
                     ev_exchange_a = [], ev_exchange_b = [],
                     ev_buy_market = MarketTypeSpot, ev_sell_market = MarketTypeFutures,
                     ev_buy_ask = ps_ask spot, ev_sell_bid = ps_bid fut,
                     ev_volume = min_decimal (ps_volume spot) (ps_volume fut),
                     ev_buy_rate = ar_buy_rate result, ev_sell_rate = ar_sell_rate result,
                     ev_buy_next = ar_buy_next result, ev_sell_next = ar_sell_next result,
                     ev_timestamp = now, ev_lifecycle = NoLifecycle\<rparr>))"

definition intra_candidate ::
  "agg_env \<Rightarrow> exchange_book \<Rightarrow> string \<Rightarrow> string \<Rightarrow> gtime \<Rightarrow> spread_event option" where
  "intra_candidate E book exchange symbol now =
     (case map_of book exchange of
        None \<Rightarrow> None
      | Some states \<Rightarrow>
          (case (map_of states MarketTypeSpot, map_of states MarketTypeFutures) of
             (Some spot, Some fut) \<Rightarrow>
               if \<not> fresh (Some spot) now (ae_ttl E) \<or> \<not> fresh (Some fut) now (ae_ttl E) then None
               else intra_event E symbol now exchange spot fut
           | _ \<Rightarrow> None))"

section \<open>Volume prefilters\<close>

definition max_volume :: "dec list \<Rightarrow> dec" where
  "max_volume vs = fold (\<lambda>v m. if v > m then v else m) vs 0"

text \<open>The fresh quotes of a book, with their exchange and market.\<close>

definition fresh_quotes :: "gdur \<Rightarrow> exchange_book \<Rightarrow> gtime \<Rightarrow> (string \<times> market_type \<times> price_state) list" where
  "fresh_quotes ttl book now =
     concat (map (\<lambda>(ex, ms).
       map (\<lambda>(mk, p). (ex, mk, p)) (filter (\<lambda>(mk, p). fresh (Some p) now ttl) ms)) book)"

definition symbol_may_pass_volume :: "agg_env \<Rightarrow> exchange_book \<Rightarrow> string \<Rightarrow> gtime \<Rightarrow> bool" where
  "symbol_may_pass_volume E book symbol now =
     (case ae_users E of
        None \<Rightarrow> True
      | Some um \<Rightarrow> range_users (ae_user_order E) um (\<lambda>u.
          if us_min_volume u = 0 then True
          else let mx = (if us_timeframe u = TF_24h
                 then max_volume (map (\<lambda>(ex, mk, p). ps_volume p) (fresh_quotes (ae_ttl E) book now))
                 else case ae_volume E of
                   None \<Rightarrow> 0
                 | Some v \<Rightarrow> max_volume (map (\<lambda>(ex, mk, p).
                     ve_volume (estimate_market_volume (ae_dec E) (ae_clock E) v ex symbol mk
                       (us_timeframe u) now)) (fresh_quotes (ae_ttl E) book now)))
               in mx \<ge> us_min_volume u))"

definition route_volume_eligible :: "agg_env \<Rightarrow> spread_event \<Rightarrow> bool" where
  "route_volume_eligible E ev =
     (case ae_users E of
        None \<Rightarrow> True
      | Some um \<Rightarrow> range_users (ae_user_order E) um (\<lambda>u.
          let volume = (if us_timeframe u = TF_24h then ev_volume ev
                else case ae_volume E of
                  None \<Rightarrow> 0
                | Some v \<Rightarrow> get_route_volume (ae_dec E) (ae_clock E) v (ev_buy_exchange ev)
                    (ev_buy_market ev) (ev_sell_exchange ev) (ev_sell_market ev) (ev_symbol ev)
                    (us_timeframe u) (ev_timestamp ev))
          in if volume \<ge> us_min_volume u then True
             else case ae_volume E of
               Some v \<Rightarrow> us_timeframe u \<noteq> TF_24h \<and>
                 ve_volume (route_volume_estimate (ae_dec E) (ae_clock E) v (ev_buy_exchange ev)
                   (ev_buy_market ev) (ev_sell_exchange ev) (ev_sell_market ev) (ev_symbol ev)
                   (us_timeframe u) (ev_timestamp ev)) \<ge> us_min_volume u
             | None \<Rightarrow> False))"

section \<open>Revalidation of one route\<close>

text \<open>The copy of the signal with the figures of the recomputed event.\<close>

definition refreshed_signal :: "signal \<Rightarrow> spread_event \<Rightarrow> signal" where
  "refreshed_signal sig ev =
     sig\<lparr>sg_peak := ev_spread ev, sg_volume := ev_volume ev,
         sg_buy_rate := ev_buy_rate ev, sg_sell_rate := ev_sell_rate ev,
         sg_buy_next := ev_buy_next ev, sg_sell_next := ev_sell_next ev\<rparr>"

text \<open>\<open>RevalidateSignal\<close> after it has found the book of the symbol; unlike the search it
  reads the two legs the signal names and the signal's own symbol.\<close>

definition revalidate_in_book :: "agg_env \<Rightarrow> exchange_book \<Rightarrow> gtime \<Rightarrow> signal \<Rightarrow> signal option" where
  "revalidate_in_book E book now sig =
     (let bx = sg_buy_exchange sig; sx = sg_sell_exchange sig; symbol = sg_symbol sig;
          fees = (\<lambda>x. x - fee_for (ae_config E) bx - fee_for (ae_config E) sx);
          event = (\<lambda>r b s. \<lparr>ev_symbol = symbol, ev_type = sg_type sig, ev_spread = ar_net_spread r,
            ev_buy_exchange = bx, ev_sell_exchange = sx, ev_exchange_a = [], ev_exchange_b = [],
            ev_buy_market = sg_buy_market sig, ev_sell_market = sg_sell_market sig,
            ev_buy_ask = ps_ask b, ev_sell_bid = ps_bid s,
            ev_volume = min_decimal (ps_volume b) (ps_volume s),
            ev_buy_rate = ar_buy_rate r, ev_sell_rate = ar_sell_rate r,
            ev_buy_next = ar_buy_next r, ev_sell_next = ar_sell_next r,
            ev_timestamp = now, ev_lifecycle = NoLifecycle\<rparr>)
      in if sg_type sig = CrossExchange \<and> sg_buy_market sig = MarketTypeFutures
            \<and> sg_sell_market sig = MarketTypeFutures
         then (case (quote_of book bx MarketTypeFutures, quote_of book sx MarketTypeFutures) of
             (Some b, Some s) \<Rightarrow>
               if \<not> fresh (Some b) now (ae_ttl E) \<or> \<not> fresh (Some s) now (ae_ttl E)
                  \<or> \<not> 0 < ps_ask b \<or> \<not> 0 < ps_bid s then None
               else let spread = fees (lib_div (ae_dec E) (ps_bid s - ps_ask b) (ps_ask b)) in
                 if \<not> 0 < spread then None
                 else (case ae_funding E of
                   None \<Rightarrow> None
                 | Some fm \<Rightarrow>
                     (let fund = evaluate_futures_pair fm bx symbol sx symbol spread now in
                      if \<not> ar_profitable fund then None
                      else Some (refreshed_signal sig (event fund b s))))
           | _ \<Rightarrow> None)
         else if sg_type sig = IntraExchange \<and> sg_buy_market sig = MarketTypeSpot
            \<and> sg_sell_market sig = MarketTypeFutures \<and> bx = sx
         then (case (quote_of book bx MarketTypeSpot, quote_of book bx MarketTypeFutures) of
             (Some spot, Some fut) \<Rightarrow>
               if \<not> fresh (Some spot) now (ae_ttl E) \<or> \<not> fresh (Some fut) now (ae_ttl E)
                  \<or> \<not> ps_bid fut > ps_ask spot then None
               else let spread = fees (lib_div (ae_dec E) (ps_bid fut - ps_ask spot) (ps_ask spot)) in
                 (case ae_funding E of
                   None \<Rightarrow> None
                 | Some fm \<Rightarrow>
                     if \<not> 0 < spread then None
                     else (let fund = evaluate_spot_futures fm bx symbol spread now in
                       if \<not> ar_profitable fund then None
                       else Some (refreshed_signal sig (event fund spot fut))))
           | _ \<Rightarrow> None)
         else None)"

section \<open>Well-formed books\<close>

definition quote_ok :: "price_state \<Rightarrow> bool" where
  "quote_ok p \<longleftrightarrow> 0 < ps_bid p \<and> ps_bid p \<le> ps_ask p"

definition book_ok :: "exchange_book \<Rightarrow> bool" where
  "book_ok book \<longleftrightarrow> mwf book
     \<and> (\<forall>(ex, ms)\<in>set book. mwf ms \<and> (\<forall>(mk, p)\<in>set ms. quote_ok p))"

lemma book_ok_quote: "book_ok book \<Longrightarrow> quote_of book ex mk = Some p \<Longrightarrow> quote_ok p"
  by (fastforce simp: book_ok_def quote_of_def split: option.splits dest!: map_of_SomeD)

lemma book_ok_ask: "book_ok book \<Longrightarrow> quote_of book ex mk = Some p \<Longrightarrow> 0 < ps_ask p"
  using book_ok_quote by (fastforce simp: quote_ok_def)

lemma fresh_Some:
  "fresh (Some p) now ttl \<longleftrightarrow>
    ps_received p \<noteq> 0 \<and> ps_received p \<le> now \<and> time_sub now (ps_received p) \<le> ttl"
  by (auto simp: fresh_def go_defs)

lemma fresh_None [simp]: "\<not> fresh None now ttl"
  by (simp add: fresh_def)

lemma quote_of_key: "quote_of book ex mk = Some p \<Longrightarrow> ex \<in> set (mkeys book)"
  by (auto simp: quote_of_def split: option.splits dest!: map_of_SomeD intro: rev_image_eqI)

section \<open>What the search finds\<close>

text \<open>The opportunity between two exchanges in the direction bought on \<open>bx\<close>, sold on \<open>sx\<close>:
  both futures quotes fresh, the ask below the bid, the event of the route defined.\<close>

definition cross_opportunity ::
  "agg_env \<Rightarrow> exchange_book \<Rightarrow> string \<Rightarrow> gtime \<Rightarrow> string \<Rightarrow> string \<Rightarrow> spread_event \<Rightarrow> bool" where
  "cross_opportunity E book symbol now bx sx ev \<longleftrightarrow>
     (\<exists>b s. quote_of book bx MarketTypeFutures = Some b \<and> fresh (Some b) now (ae_ttl E)
        \<and> quote_of book sx MarketTypeFutures = Some s \<and> fresh (Some s) now (ae_ttl E)
        \<and> ps_ask b < ps_bid s \<and> cross_event E symbol now bx b sx s = Some ev)"

lemma cross_event_fields:
  assumes "cross_event E symbol now bx b sx s = Some ev"
  shows "ev_symbol ev = symbol" "ev_type ev = CrossExchange" "ev_buy_exchange ev = bx"
    "ev_sell_exchange ev = sx" "ev_buy_market ev = MarketTypeFutures"
    "ev_sell_market ev = MarketTypeFutures" "ev_timestamp ev = now"
    "ev_volume ev = min_decimal (ps_volume b) (ps_volume s)" "ev_exchange_a ev = []"
    "ev_exchange_b ev = []"
  using assms by (auto simp: cross_event_def Let_def split: if_splits option.splits)

lemma intra_event_fields:
  assumes "intra_event E symbol now ex b s = Some ev"
  shows "ev_symbol ev = symbol" "ev_type ev = IntraExchange" "ev_buy_exchange ev = ex"
    "ev_sell_exchange ev = ex" "ev_buy_market ev = MarketTypeSpot"
    "ev_sell_market ev = MarketTypeFutures" "ev_timestamp ev = now"
    "ev_volume ev = min_decimal (ps_volume b) (ps_volume s)" "ev_exchange_a ev = []"
    "ev_exchange_b ev = []"
  using assms by (auto simp: intra_event_def Let_def split: if_splits option.splits)

lemma cross_opportunity_fields:
  assumes "cross_opportunity E book symbol now bx sx ev"
  shows "ev_buy_exchange ev = bx" "ev_sell_exchange ev = sx" "ev_type ev = CrossExchange"
    "ev_symbol ev = symbol" "ev_timestamp ev = now" "ev_buy_market ev = MarketTypeFutures"
    "ev_sell_market ev = MarketTypeFutures"
proof -
  from assms obtain b s where "cross_event E symbol now bx b sx s = Some ev"
    unfolding cross_opportunity_def by blast
  from cross_event_fields [OF this]
  show "ev_buy_exchange ev = bx" "ev_sell_exchange ev = sx" "ev_type ev = CrossExchange"
    "ev_symbol ev = symbol" "ev_timestamp ev = now" "ev_buy_market ev = MarketTypeFutures"
    "ev_sell_market ev = MarketTypeFutures" by simp_all
qed

lemma cross_opportunity_neq:
  "book_ok book \<Longrightarrow> cross_opportunity E book symbol now bx sx ev \<Longrightarrow> bx \<noteq> sx"
  using book_ok_quote by (fastforce simp: cross_opportunity_def quote_ok_def)

lemma cross_opportunity_functional:
  "cross_opportunity E book symbol now bx sx ev \<Longrightarrow> cross_opportunity E book symbol now bx sx ev' \<Longrightarrow>
   ev' = ev"
  by (auto simp: cross_opportunity_def)

lemma cross_opportunity_asym:
  assumes "book_ok book" "cross_opportunity E book symbol now bx sx ev"
  shows "\<not> cross_opportunity E book symbol now sx bx ev'"
proof
  assume rev: "cross_opportunity E book symbol now sx bx ev'"
  from assms(2) obtain b s where q: "quote_of book bx MarketTypeFutures = Some b"
    "quote_of book sx MarketTypeFutures = Some s" "ps_ask b < ps_bid s"
    by (auto simp: cross_opportunity_def)
  with rev have "ps_ask s < ps_bid b" by (auto simp: cross_opportunity_def)
  moreover have "ps_bid b \<le> ps_ask b" "ps_bid s \<le> ps_ask s"
    using book_ok_quote [OF assms(1)] q by (auto simp: quote_ok_def)
  ultimately show "False" using q(3) by linarith
qed

lemma cross_row_set:
  assumes "book_ok book" "quote_of book lx MarketTypeFutures = Some l" "fresh (Some l) now (ae_ttl E)"
  shows "ev \<in> set (cross_row E book symbol now lx l xs) \<longleftrightarrow>
    (\<exists>rx\<in>set xs. cross_opportunity E book symbol now lx rx ev \<or> cross_opportunity E book symbol now rx lx ev)"
proof (induction xs)
  case (Cons rx rest)
  have q: "quote_ok p" if "quote_of book ex MarketTypeFutures = Some p" for ex p
    by (rule book_ok_quote [OF assms(1) that])
  show ?case
  proof (cases "quote_of book rx MarketTypeFutures")
    case None
    with Cons show ?thesis by (simp add: cross_opportunity_def)
  next
    case (Some r)
    show ?thesis
    proof (cases "fresh (Some r) now (ae_ttl E)")
      case False
      with Cons Some show ?thesis by (simp add: cross_opportunity_def)
    next
      case True
      have "\<not> (ps_ask l < ps_bid r \<and> ps_ask r < ps_bid l)"
        using q [OF assms(2)] q [OF Some] by (simp add: quote_ok_def)
      with Cons Some True assms(2,3) show ?thesis
        by (auto simp: cross_opportunity_def Let_def split: option.splits)
    qed
  qed
qed simp

lemma cross_loop_set:
  assumes "book_ok book" "distinct xs"
  shows "ev \<in> set (cross_loop E book symbol now xs) \<longleftrightarrow>
    (\<exists>bx\<in>set xs. \<exists>sx\<in>set xs. cross_opportunity E book symbol now bx sx ev)"
  using assms(2)
proof (induction xs)
  case (Cons lx rest)
  have self: "\<not> cross_opportunity E book symbol now lx lx ev"
    using cross_opportunity_neq [OF assms(1)] by blast
  show ?case
  proof (cases "\<exists>l. quote_of book lx MarketTypeFutures = Some l \<and> fresh (Some l) now (ae_ttl E)")
    case True
    then obtain l where l: "quote_of book lx MarketTypeFutures = Some l" "fresh (Some l) now (ae_ttl E)"
      by blast
    with Cons self show ?thesis by (auto simp: cross_row_set [OF assms(1) l])
  next
    case False
    then have "\<not> cross_opportunity E book symbol now lx y ev"
      "\<not> cross_opportunity E book symbol now y lx ev" for y
      by (auto simp: cross_opportunity_def)
    with Cons False show ?thesis by (auto split: option.splits)
  qed
qed simp

lemma cross_candidates_set:
  assumes "book_ok book" "order_ok (ae_order E)"
  shows "ev \<in> set (cross_candidates E book symbol now) \<longleftrightarrow>
    (\<exists>bx sx. cross_opportunity E book symbol now bx sx ev)"
proof -
  have d: "distinct (ae_order E (mkeys book))"
    by (rule order_ok_distinct [OF assms(2)]) (use assms(1) in \<open>simp add: book_ok_def\<close>)
  have "bx \<in> set (mkeys book) \<and> sx \<in> set (mkeys book)" if "cross_opportunity E book symbol now bx sx ev" for bx sx
    using that quote_of_key unfolding cross_opportunity_def by blast
  then show ?thesis
    unfolding cross_candidates_def cross_loop_set [OF assms(1) d] order_ok_set [OF assms(2)] by blast
qed

text \<open>No pair of exchanges is reported twice.\<close>

definition legs :: "spread_event \<Rightarrow> string set" where
  "legs ev = {ev_buy_exchange ev, ev_sell_exchange ev}"

text \<open>One partner adds at most one event to the row, between the two exchanges.\<close>

lemma cross_row_head:
  "\<exists>hs. cross_row E book symbol now lx l (rx # rest) = hs @ cross_row E book symbol now lx l rest
     \<and> (hs = [] \<or> (\<exists>ev. hs = [ev] \<and> legs ev = {lx, rx}))"
proof (cases "quote_of book rx MarketTypeFutures")
  case (Some r)
  have lg: "legs ev = {lx, rx}" if "cross_event E symbol now lx l rx r = Some ev
      \<or> cross_event E symbol now rx r lx l = Some ev" for ev
    using that cross_event_fields(3,4) [of E symbol now lx l rx r ev]
      cross_event_fields(3,4) [of E symbol now rx r lx l ev] by (auto simp: legs_def)
  define f where "f = (if ps_ask l < ps_bid r then cross_event E symbol now lx l rx r
    else if ps_ask r < ps_bid l then cross_event E symbol now rx r lx l else None)"
  have lf: "legs ev = {lx, rx}" if "f = Some ev" for ev
    using that lg [of ev] by (auto simp: f_def split: if_splits)
  show ?thesis
  proof (cases "fresh (Some r) now (ae_ttl E)")
    case True
    with Some have "cross_row E book symbol now lx l (rx # rest)
      = (case f of None \<Rightarrow> [] | Some ev \<Rightarrow> [ev]) @ cross_row E book symbol now lx l rest" by (simp add: f_def)
    with lf show ?thesis by (cases f) (auto simp del: cross_row.simps)
  qed (use Some in simp)
qed simp

lemma cross_row_legs:
  assumes "book_ok book" "quote_of book lx MarketTypeFutures = Some l" "fresh (Some l) now (ae_ttl E)"
    "distinct xs" "lx \<notin> set xs"
  shows "distinct (map legs (cross_row E book symbol now lx l xs))"
    and "\<forall>ev\<in>set (cross_row E book symbol now lx l xs). \<exists>rx\<in>set xs. legs ev = {lx, rx}"
proof -
  show m: "\<forall>ev\<in>set (cross_row E book symbol now lx l ys). \<exists>rx\<in>set ys. legs ev = {lx, rx}" for ys
  proof
    fix ev assume "ev \<in> set (cross_row E book symbol now lx l ys)"
    then obtain rx where rx: "rx \<in> set ys" "cross_opportunity E book symbol now lx rx ev
        \<or> cross_opportunity E book symbol now rx lx ev"
      using cross_row_set [OF assms(1-3)] by blast
    from rx(2) have "legs ev = {lx, rx}"
      using cross_opportunity_fields(1,2) by (auto simp: legs_def)
    with rx(1) show "\<exists>rx\<in>set ys. legs ev = {lx, rx}" by blast
  qed
  show "distinct (map legs (cross_row E book symbol now lx l xs))"
    using assms(4,5)
  proof (induction xs)
    case (Cons rx rest)
    let ?rest = "cross_row E book symbol now lx l rest"
    obtain hs where hs: "cross_row E book symbol now lx l (rx # rest) = hs @ ?rest"
      "hs = [] \<or> (\<exists>ev. hs = [ev] \<and> legs ev = {lx, rx})"
      using cross_row_head by blast
    have "{lx, rx} \<notin> legs ` set ?rest"
      using m [of rest] Cons.prems by (fastforce simp: doubleton_eq_iff)
    moreover have "distinct (map legs ?rest)" using Cons by simp
    ultimately show ?case using hs(2) unfolding hs(1) by auto
  qed simp
qed

lemma cross_loop_legs:
  assumes "book_ok book" "distinct xs"
  shows "distinct (map legs (cross_loop E book symbol now xs))
    \<and> (\<forall>ev\<in>set (cross_loop E book symbol now xs). legs ev \<subseteq> set xs)"
  using assms(2)
proof (induction xs)
  case (Cons lx rest)
  show ?case
  proof (cases "\<exists>l. quote_of book lx MarketTypeFutures = Some l \<and> fresh (Some l) now (ae_ttl E)")
    case True
    then obtain l where l: "quote_of book lx MarketTypeFutures = Some l" "fresh (Some l) now (ae_ttl E)"
      by blast
    have r: "distinct rest" "lx \<notin> set rest" using Cons.prems by simp_all
    let ?row = "cross_row E book symbol now lx l rest" and ?loop = "cross_loop E book symbol now rest"
    have loop: "distinct (map legs ?loop)" "\<forall>ev\<in>set ?loop. legs ev \<subseteq> set rest"
      using Cons.IH r by simp_all
    have row: "distinct (map legs ?row)" "\<forall>ev\<in>set ?row. \<exists>rx\<in>set rest. legs ev = {lx, rx}"
      by (rule cross_row_legs [OF assms(1) l r])+
    have "legs ev \<noteq> legs ev'" if "ev \<in> set ?row" "ev' \<in> set ?loop" for ev ev'
      using that row(2) loop(2) r(2) by blast
    then have "legs ` set ?row \<inter> legs ` set ?loop = {}" by blast
    moreover have "\<forall>ev\<in>set (?row @ ?loop). legs ev \<subseteq> set (lx # rest)"
      using row(2) loop(2) by fastforce
    moreover have "cross_loop E book symbol now (lx # rest) = ?row @ ?loop" using l by simp
    ultimately show ?thesis using row(1) loop(1) by simp
  next
    case False
    with Cons show ?thesis by (auto split: option.splits)
  qed
qed simp

lemma cross_candidates_distinct:
  assumes "book_ok book" "order_ok (ae_order E)"
  shows "distinct (map legs (cross_candidates E book symbol now))"
  unfolding cross_candidates_def
  by (rule cross_loop_legs [THEN conjunct1])
    (use assms in \<open>simp_all add: order_ok_distinct book_ok_def\<close>)

lemma intra_candidate_Some:
  "intra_candidate E book ex symbol now = Some ev \<longleftrightarrow>
    (\<exists>spot fut. quote_of book ex MarketTypeSpot = Some spot \<and> fresh (Some spot) now (ae_ttl E)
       \<and> quote_of book ex MarketTypeFutures = Some fut \<and> fresh (Some fut) now (ae_ttl E)
       \<and> intra_event E symbol now ex spot fut = Some ev)"
  by (auto simp: intra_candidate_def quote_of_def split: option.splits)

lemma intra_candidate_fields:
  assumes "intra_candidate E book ex symbol now = Some ev"
  shows "ev_symbol ev = symbol" "ev_type ev = IntraExchange" "ev_buy_exchange ev = ex"
    "ev_sell_exchange ev = ex" "ev_timestamp ev = now"
proof -
  from assms obtain spot fut where "intra_event E symbol now ex spot fut = Some ev"
    unfolding intra_candidate_Some by blast
  from intra_event_fields [OF this] show "ev_symbol ev = symbol" "ev_type ev = IntraExchange"
    "ev_buy_exchange ev = ex" "ev_sell_exchange ev = ex" "ev_timestamp ev = now" by simp_all
qed

section \<open>The prefilter is an upper bound\<close>

lemma max_volume_ge: "v \<in> set vs \<Longrightarrow> v \<le> max_volume vs"
  and max_volume_nonneg: "0 \<le> max_volume vs"
proof -
  have mono: "m \<le> fold (\<lambda>v m. if v > m then v else m) vs m" for m :: dec and vs
  proof (induction vs arbitrary: m)
    case (Cons v vs)
    have "m \<le> (if v > m then v else m)" by simp
    also have "\<dots> \<le> fold (\<lambda>v m. if v > m then v else m) vs (if v > m then v else m)" by (rule Cons.IH)
    finally show ?case by simp
  qed simp
  then show "0 \<le> max_volume vs" by (simp add: max_volume_def)
  have "v \<in> set vs \<Longrightarrow> v \<le> fold (\<lambda>v m. if v > m then v else m) vs m" for m
  proof (induction vs arbitrary: m)
    case (Cons x xs)
    show ?case
    proof (cases "v = x")
      case True
      have "x \<le> (if x > m then x else m)" by simp
      also have "\<dots> \<le> fold (\<lambda>v m. if v > m then v else m) xs (if x > m then x else m)" by (rule mono)
      finally show ?thesis using True by simp
    qed (use Cons in simp)
  qed simp
  then show "v \<in> set vs \<Longrightarrow> v \<le> max_volume vs" by (simp add: max_volume_def)
qed

lemma fresh_quotes_mem:
  assumes "quote_of book ex mk = Some p" "fresh (Some p) now ttl"
  shows "(ex, mk, p) \<in> set (fresh_quotes ttl book now)"
proof -
  obtain ms where "(ex, ms) \<in> set book" "(mk, p) \<in> set ms"
    using assms(1) by (auto simp: quote_of_def split: option.splits dest!: map_of_SomeD)
  with assms(2) show ?thesis unfolding fresh_quotes_def
    by (auto intro!: bexI [of _ "(ex, ms)"] image_eqI [of _ _ "(mk, p)"])
qed

lemma cross_event_now: "cross_event E symbol now bx b sx s = Some ev \<Longrightarrow> now \<noteq> 0"
  by (auto simp: cross_event_def Let_def pair_profitable split: if_splits option.splits)

lemma intra_event_now: "intra_event E symbol now ex b s = Some ev \<Longrightarrow> now \<noteq> 0"
  by (auto simp: intra_event_def Let_def spot_profitable split: if_splits option.splits)

text \<open>A route whose legs are fresh quotes of the book; the volume it reports is the smaller
  of theirs.\<close>

definition legs_fresh :: "agg_env \<Rightarrow> exchange_book \<Rightarrow> string \<Rightarrow> gtime \<Rightarrow> spread_event \<Rightarrow> bool" where
  "legs_fresh E book symbol now ev \<longleftrightarrow> ev_symbol ev = symbol \<and> ev_timestamp ev = now \<and> now \<noteq> 0
     \<and> (\<exists>b s. quote_of book (ev_buy_exchange ev) (ev_buy_market ev) = Some b
        \<and> fresh (Some b) now (ae_ttl E) \<and> ev_volume ev \<le> ps_volume b
        \<and> quote_of book (ev_sell_exchange ev) (ev_sell_market ev) = Some s
        \<and> fresh (Some s) now (ae_ttl E) \<and> ev_volume ev \<le> ps_volume s)"

lemma cross_legs_fresh:
  assumes "cross_opportunity E book symbol now bx sx ev" shows "legs_fresh E book symbol now ev"
proof -
  from assms obtain b s where q: "quote_of book bx MarketTypeFutures = Some b"
    "fresh (Some b) now (ae_ttl E)" "quote_of book sx MarketTypeFutures = Some s"
    "fresh (Some s) now (ae_ttl E)" and ev: "cross_event E symbol now bx b sx s = Some ev"
    by (auto simp: cross_opportunity_def)
  show ?thesis using q by (simp add: legs_fresh_def cross_event_fields [OF ev] min_decimal_def cross_event_now [OF ev])
qed

lemma intra_legs_fresh:
  assumes "intra_candidate E book ex symbol now = Some ev" shows "legs_fresh E book symbol now ev"
proof -
  from assms obtain b s where q: "quote_of book ex MarketTypeSpot = Some b"
    "fresh (Some b) now (ae_ttl E)" "quote_of book ex MarketTypeFutures = Some s"
    "fresh (Some s) now (ae_ttl E)" and ev: "intra_event E symbol now ex b s = Some ev"
    unfolding intra_candidate_Some by blast
  show ?thesis using q by (simp add: legs_fresh_def intra_event_fields [OF ev] min_decimal_def intra_event_now [OF ev])
qed

lemma eligible_user_passes:
  assumes E: "env_ok E" and fr: "legs_fresh E book symbol now ev"
    and um: "ae_users E = Some um"
    and el: "range_users (ae_user_order E) um stop1"
    and st: "\<And>u. stop1 u \<Longrightarrow> (if us_timeframe u = TF_24h then ev_volume ev else case ae_volume E of
        None \<Rightarrow> 0 | Some v \<Rightarrow> get_route_volume (ae_dec E) (ae_clock E) v (ev_buy_exchange ev)
          (ev_buy_market ev) (ev_sell_exchange ev) (ev_sell_market ev) symbol (us_timeframe u) now)
        \<ge> us_min_volume u"
  shows "symbol_may_pass_volume E book symbol now"
proof -
  have ord: "order_ok (ae_user_order E)" using E by (simp add: env_ok_def)
  from el obtain u where u: "u \<in> snd ` set um" and ge: "stop1 u"
    unfolding range_users_iff [OF ord] by blast
  from fr obtain b where b: "quote_of book (ev_buy_exchange ev) (ev_buy_market ev) = Some b"
    "fresh (Some b) now (ae_ttl E)" "ev_volume ev \<le> ps_volume b" and now: "now \<noteq> 0"
    by (auto simp: legs_fresh_def)
  note q = fresh_quotes_mem [OF b(1,2)]
  let ?fq = "fresh_quotes (ae_ttl E) book now"
  have day: "ev_volume ev \<le> max_volume (map (\<lambda>(ex, mk, p). ps_volume p) ?fq)"
    using b(3) max_volume_ge [of "ps_volume b" "map (\<lambda>(ex, mk, p). ps_volume p) ?fq"] q by force
  have win: "get_route_volume (ae_dec E) (ae_clock E) v (ev_buy_exchange ev) (ev_buy_market ev)
        (ev_sell_exchange ev) (ev_sell_market ev) symbol tf now
      \<le> max_volume (map (\<lambda>(ex, mk, p). ve_volume (estimate_market_volume (ae_dec E) (ae_clock E) v
          ex symbol mk tf now)) ?fq)" (is "?r \<le> max_volume ?vs") if "ae_volume E = Some v" for v tf
  proof -
    have "?r \<le> ve_volume (estimate_market_volume (ae_dec E) (ae_clock E) v (ev_buy_exchange ev)
        symbol (ev_buy_market ev) tf now)"
      using E that now by (intro route_volume_legs) (simp_all add: env_ok_def)
    also have "\<dots> \<le> max_volume ?vs" by (rule max_volume_ge) (use q in force)
    finally show ?thesis .
  qed
  show ?thesis
    unfolding symbol_may_pass_volume_def um option.case range_users_iff [OF ord]
  proof (rule bexI [OF _ u])
    show "if us_min_volume u = 0 then True
          else let mx = (if us_timeframe u = TF_24h
                 then max_volume (map (\<lambda>(ex, mk, p). ps_volume p) ?fq)
                 else case ae_volume E of
                   None \<Rightarrow> 0
                 | Some v \<Rightarrow> max_volume (map (\<lambda>(ex, mk, p).
                     ve_volume (estimate_market_volume (ae_dec E) (ae_clock E) v ex symbol mk
                       (us_timeframe u) now)) ?fq))
               in mx \<ge> us_min_volume u"
      using st [OF ge] day win [of _ "us_timeframe u"]
      by (auto simp: Let_def split: if_splits option.splits intro: order_trans)
  qed
qed

lemma eligible_passes:
  assumes E: "env_ok E" and fr: "legs_fresh E book symbol now ev" and el: "route_volume_eligible E ev"
  shows "symbol_may_pass_volume E book symbol now"
proof (cases "ae_users E")
  case None
  then show ?thesis by (simp add: symbol_may_pass_volume_def)
next
  case (Some um)
  have f: "ev_symbol ev = symbol" "ev_timestamp ev = now" using fr by (simp_all add: legs_fresh_def)
  show ?thesis
    by (rule eligible_user_passes [OF E fr Some el [unfolded route_volume_eligible_def Some option.case f]])
      (auto simp: Let_def get_route_volume_def split: if_splits option.splits)
qed

section \<open>Revalidation and search\<close>

lemma fees_nonneg: "env_ok E \<Longrightarrow> 0 \<le> fee_for (ae_config E) ex"
  using fee_for_range by (simp add: env_ok_def)

lemma positive_spread_crosses:
  assumes E: "env_ok E" and b: "0 < ps_ask b"
    and sp: "0 < lib_div (ae_dec E) (ps_bid s - ps_ask b) (ps_ask b)
      - fee_for (ae_config E) bx - fee_for (ae_config E) sx"
  shows "ps_ask b < ps_bid s"
proof (rule ccontr)
  assume "\<not> ps_ask b < ps_bid s"
  then have "lib_div (ae_dec E) (ps_bid s - ps_ask b) (ps_ask b) \<le> 0"
    using E b by (intro div_ok_nonpos) (simp_all add: env_ok_def)
  with sp fees_nonneg [OF E, of bx] fees_nonneg [OF E, of sx] show "False" by linarith
qed

lemma cross_event_positive:
  "cross_event E symbol now bx b sx s = Some ev \<Longrightarrow>
   0 < lib_div (ae_dec E) (ps_bid s - ps_ask b) (ps_ask b)
     - fee_for (ae_config E) bx - fee_for (ae_config E) sx"
  by (auto simp: cross_event_def Let_def split: if_splits)

lemma revalidate_cross:
  assumes E: "env_ok E" and book: "book_ok book"
    and sig: "sg_type sig = CrossExchange" "sg_buy_market sig = MarketTypeFutures"
      "sg_sell_market sig = MarketTypeFutures"
  shows "revalidate_in_book E book now sig = Some sig' \<longleftrightarrow>
    (\<exists>ev. cross_opportunity E book (sg_symbol sig) now (sg_buy_exchange sig) (sg_sell_exchange sig) ev
       \<and> sig' = refreshed_signal sig ev)"
proof -
  let ?bx = "sg_buy_exchange sig" and ?sx = "sg_sell_exchange sig"
  show ?thesis
  proof (cases "\<exists>b s. quote_of book ?bx MarketTypeFutures = Some b \<and> fresh (Some b) now (ae_ttl E)
      \<and> quote_of book ?sx MarketTypeFutures = Some s \<and> fresh (Some s) now (ae_ttl E)")
    case False
    then show ?thesis using sig
      by (auto simp: revalidate_in_book_def Let_def cross_opportunity_def split: option.splits)
  next
    case True
    then obtain b s where q: "quote_of book ?bx MarketTypeFutures = Some b" "fresh (Some b) now (ae_ttl E)"
      "quote_of book ?sx MarketTypeFutures = Some s" "fresh (Some s) now (ae_ttl E)" by blast
    have pos: "0 < ps_ask b" "0 < ps_bid s"
      using book_ok_quote [OF book q(1)] book_ok_quote [OF book q(3)] by (auto simp: quote_ok_def)
    have ev: "revalidate_in_book E book now sig = map_option (refreshed_signal sig)
        (cross_event E (sg_symbol sig) now ?bx b ?sx s)"
      using sig q pos
      by (simp add: revalidate_in_book_def cross_event_def Let_def refreshed_signal_def split: option.split)
    have "ps_ask b < ps_bid s" if "cross_event E (sg_symbol sig) now ?bx b ?sx s = Some ev" for ev
      by (rule positive_spread_crosses [OF E pos(1) cross_event_positive [OF that]])
    then show ?thesis using q by (auto simp: ev cross_opportunity_def)
  qed
qed

lemma revalidate_intra:
  assumes sig: "sg_type sig = IntraExchange" "sg_buy_market sig = MarketTypeSpot"
      "sg_sell_market sig = MarketTypeFutures" "sg_sell_exchange sig = sg_buy_exchange sig"
  shows "revalidate_in_book E book now sig = Some sig' \<longleftrightarrow>
    (\<exists>ev. intra_candidate E book (sg_buy_exchange sig) (sg_symbol sig) now = Some ev
       \<and> sig' = refreshed_signal sig ev)"
proof -
  let ?bx = "sg_buy_exchange sig"
  have ty: "IntraExchange \<noteq> CrossExchange" by (simp add: IntraExchange_def CrossExchange_def)
  show ?thesis
  proof (cases "\<exists>b s. quote_of book ?bx MarketTypeSpot = Some b \<and> fresh (Some b) now (ae_ttl E)
      \<and> quote_of book ?bx MarketTypeFutures = Some s \<and> fresh (Some s) now (ae_ttl E)")
    case False
    then show ?thesis using sig ty unfolding intra_candidate_Some
      by (auto simp: revalidate_in_book_def Let_def split: option.splits)
  next
    case True
    then obtain b s where q: "quote_of book ?bx MarketTypeSpot = Some b" "fresh (Some b) now (ae_ttl E)"
      "quote_of book ?bx MarketTypeFutures = Some s" "fresh (Some s) now (ae_ttl E)" by blast
    have "revalidate_in_book E book now sig = map_option (refreshed_signal sig)
        (intra_event E (sg_symbol sig) now ?bx b s)"
      using sig q ty
      by (simp add: revalidate_in_book_def intra_event_def Let_def refreshed_signal_def split: option.split)
    then show ?thesis using q by (auto simp: intra_candidate_Some)
  qed
qed

section \<open>Properties\<close>

text \<open>
  C5. The quadratic search over the exchanges finds exactly the profitable routes: an event
  is in the result if and only if it is the event of some ordered pair of exchanges whose
  futures quotes are both fresh and cross (ask of one below the bid of the other), and no
  pair of exchanges is reported twice. The order in which Go ranges over the map is
  arbitrary and does not matter.
\<close>

theorem cross_search_exact:
  assumes "env_ok E" and "book_ok book"
  shows "set (cross_candidates E book symbol now)
      = {ev. \<exists>bx sx. cross_opportunity E book symbol now bx sx ev}
    \<and> distinct (map legs (cross_candidates E book symbol now))"
proof -
  have ord: "order_ok (ae_order E)" using assms(1) by (simp add: env_ok_def)
  show ?thesis
    using cross_candidates_set [OF assms(2) ord] cross_candidates_distinct [OF assms(2) ord] by blast
qed

text \<open>
  The spread an event of the search reports is the configured arithmetic: within
  10^-16 (the rounding of the division) of the relative difference of the two quotes less
  the taker fees of both exchanges plus the funding rate received less the one paid, both
  rates from usable records, and never below the manager's minimum.
\<close>

theorem cross_spread_value:
  assumes "env_ok E" and "book_ok book" and "ev \<in> set (cross_candidates E book symbol now)"
  shows "\<exists>fm p b s rb rs. ae_funding E = Some fm \<and> fm_config fm = Some p
    \<and> quote_of book (ev_buy_exchange ev) MarketTypeFutures = Some b
    \<and> quote_of book (ev_sell_exchange ev) MarketTypeFutures = Some s
    \<and> usable_record fm p (ev_buy_exchange ev) symbol now rb
    \<and> usable_record fm p (ev_sell_exchange ev) symbol now rs
    \<and> \<bar>ev_spread ev - ((ps_bid s - ps_ask b) / ps_ask b - fee_for (ae_config E) (ev_buy_exchange ev)
         - fee_for (ae_config E) (ev_sell_exchange ev) + fr_rate rs - fr_rate rb)\<bar> \<le> 1 / 10 ^ 16
    \<and> fc_min_spread p \<le> ev_spread ev"
proof -
  obtain bx sx where op: "cross_opportunity E book symbol now bx sx ev"
    using cross_candidates_set [OF assms(2)] assms(1,3) by (auto simp: env_ok_def)
  note f = cross_opportunity_fields [OF op]
  from op obtain b s where q: "quote_of book bx MarketTypeFutures = Some b"
    "quote_of book sx MarketTypeFutures = Some s" and ev: "cross_event E symbol now bx b sx s = Some ev"
    by (auto simp: cross_opportunity_def)
  let ?q = "lib_div (ae_dec E) (ps_bid s - ps_ask b) (ps_ask b)"
  let ?sp = "?q - fee_for (ae_config E) bx - fee_for (ae_config E) sx"
  from ev obtain fm where fm: "ae_funding E = Some fm"
    and pr: "ar_profitable (evaluate_futures_pair fm bx symbol sx symbol ?sp now)"
    and net: "ev_spread ev = ar_net_spread (evaluate_futures_pair fm bx symbol sx symbol ?sp now)"
    by (auto simp: cross_event_def Let_def split: if_splits option.splits)
  obtain p rb rs where r: "fm_config fm = Some p" "usable_record fm p bx symbol now rb"
    "usable_record fm p sx symbol now rs"
    "ar_net_spread (evaluate_futures_pair fm bx symbol sx symbol ?sp now) = ?sp + fr_rate rs - fr_rate rb"
    "fc_min_spread p \<le> ?sp + fr_rate rs - fr_rate rb"
    using pr by (rule pair_profitable_result) simp
  have "0 < ps_ask b" by (rule book_ok_ask [OF assms(2) q(1)])
  then have "\<bar>?q - (ps_bid s - ps_ask b) / ps_ask b\<bar> \<le> 1 / 10 ^ 16"
    using assms(1) by (intro div_ok_near) (simp_all add: env_ok_def)
  then have "\<bar>ev_spread ev - ((ps_bid s - ps_ask b) / ps_ask b - fee_for (ae_config E) bx
      - fee_for (ae_config E) sx + fr_rate rs - fr_rate rb)\<bar> \<le> 1 / 10 ^ 16"
    by (simp add: net r(4))
  with fm q r net show ?thesis unfolding f(1,2)
    by (intro exI [of _ fm] exI [of _ p] exI [of _ b] exI [of _ s] exI [of _ rb] exI [of _ rs]) simp
qed

text \<open>
  C15. The cheap per-symbol volume filter in front of the search is conservative: whenever
  some user's volume threshold accepts some route the search would find (cross or intra),
  the prefilter lets the symbol through, for 24-hour and for windowed thresholds alike.
\<close>

theorem prefilter_conservative:
  assumes "env_ok E" and "book_ok book"
    and "ev \<in> set (cross_candidates E book symbol now) \<or> intra_candidate E book ex symbol now = Some ev"
    and "route_volume_eligible E ev"
  shows "symbol_may_pass_volume E book symbol now"
proof (rule eligible_passes [OF assms(1) _ assms(4)])
  show "legs_fresh E book symbol now ev"
    using assms(3) cross_candidates_set [OF assms(2)] assms(1) cross_legs_fresh intra_legs_fresh
    by (auto simp: env_ok_def)
qed

text \<open>
  Revalidation of a signal agrees with the search: a cross-exchange signal survives
  exactly when the search would report its two exchanges in its direction at this moment,
  an intra-exchange signal exactly when the spot-futures test of its exchange succeeds,
  and the surviving copy carries the figures of that event.
\<close>

theorem revalidation_agrees:
  assumes "env_ok E" and "book_ok book"
  shows "(sg_type sig = CrossExchange \<and> sg_buy_market sig = MarketTypeFutures
      \<and> sg_sell_market sig = MarketTypeFutures \<longrightarrow>
        (revalidate_in_book E book now sig = Some sig' \<longleftrightarrow>
          (\<exists>ev\<in>set (cross_candidates E book (sg_symbol sig) now).
             ev_buy_exchange ev = sg_buy_exchange sig \<and> ev_sell_exchange ev = sg_sell_exchange sig
             \<and> sig' = refreshed_signal sig ev)))
    \<and> (sg_type sig = IntraExchange \<and> sg_buy_market sig = MarketTypeSpot
      \<and> sg_sell_market sig = MarketTypeFutures \<and> sg_sell_exchange sig = sg_buy_exchange sig \<longrightarrow>
        (revalidate_in_book E book now sig = Some sig' \<longleftrightarrow>
          (\<exists>ev. intra_candidate E book (sg_buy_exchange sig) (sg_symbol sig) now = Some ev
             \<and> sig' = refreshed_signal sig ev)))"
proof (intro conjI impI)
  assume "sg_type sig = CrossExchange \<and> sg_buy_market sig = MarketTypeFutures
      \<and> sg_sell_market sig = MarketTypeFutures"
  then have sig: "sg_type sig = CrossExchange" "sg_buy_market sig = MarketTypeFutures"
    "sg_sell_market sig = MarketTypeFutures" by simp_all
  have ord: "order_ok (ae_order E)" using assms(1) by (simp add: env_ok_def)
  show "revalidate_in_book E book now sig = Some sig' \<longleftrightarrow>
      (\<exists>ev\<in>set (cross_candidates E book (sg_symbol sig) now).
         ev_buy_exchange ev = sg_buy_exchange sig \<and> ev_sell_exchange ev = sg_sell_exchange sig
         \<and> sig' = refreshed_signal sig ev)"
    unfolding revalidate_cross [OF assms sig] Bex_def cross_candidates_set [OF assms(2) ord]
    by (metis cross_opportunity_fields(1,2))
qed (simp add: revalidate_intra)

section \<open>Witnesses\<close>

definition sample_record :: "string \<Rightarrow> dec \<Rightarrow> funding_record" where
  "sample_record ex rate = \<lparr>fr_exchange = ex, fr_symbol = ''BTCUSDT'', fr_rate = rate, fr_next = 9,
     fr_event_time = 5, fr_received = 5\<rparr>"

definition pair_funding :: funding_manager where
  "pair_funding = \<lparr>fm_rates = [((''OKX'', ''BTCUSDT''), sample_record ''OKX'' (1 / 1000)),
       ((''MEXC'', ''BTCUSDT''), sample_record ''MEXC'' (2 / 1000))],
     fm_config = Some (default_funding_config\<lparr>fc_min_spread := 1 / 100\<rparr>),
     fm_health = [(''OKX'', True), (''MEXC'', True)], fm_last_update = []\<rparr>"

definition sample_user :: "int \<Rightarrow> user" where
  "sample_user c = \<lparr>us_chat_id = c, us_username = ''u'', us_min_spread = 3 / 100, us_min_volume = 500,
     us_timeframe = TF_24h, us_min_funding_minutes = 0, us_update_step = 0, us_bot_id = 0\<rparr>"

definition sample_env :: agg_env where
  "sample_env = \<lparr>ae_dec = sample_lib, ae_config = new_screener_config (1 / 50),
     ae_funding = Some pair_funding, ae_users = Some [(7, sample_user 7)], ae_volume = None,
     ae_ttl = default_price_ttl, ae_clock = 6, ae_order = rev, ae_user_order = id\<rparr>"

definition okx_quote :: price_state where
  "okx_quote = \<lparr>ps_bid = 99, ps_ask = 100, ps_received = 5, ps_volume = 2000\<rparr>"

definition mexc_quote :: price_state where
  "mexc_quote = \<lparr>ps_bid = 110, ps_ask = 111, ps_received = 6, ps_volume = 1000\<rparr>"

definition sample_book :: exchange_book where
  "sample_book = [(''OKX'', [(MarketTypeFutures, okx_quote)]), (''MEXC'', [(MarketTypeFutures, mexc_quote)])]"

definition sample_route :: spread_event where
  "sample_route = \<lparr>ev_symbol = ''BTCUSDT'', ev_type = CrossExchange, ev_spread = 1 / 10,
     ev_buy_exchange = ''OKX'', ev_sell_exchange = ''MEXC'', ev_exchange_a = [], ev_exchange_b = [],
     ev_buy_market = MarketTypeFutures, ev_sell_market = MarketTypeFutures,
     ev_buy_ask = 100, ev_sell_bid = 110, ev_volume = 1000, ev_buy_rate = 1 / 1000,
     ev_sell_rate = 2 / 1000, ev_buy_next = 9, ev_sell_next = 9, ev_timestamp = 6,
     ev_lifecycle = NoLifecycle\<rparr>"

lemma pair_funding_ok: "funding_ok pair_funding"
  by (simp add: funding_ok_def pair_funding_def sample_record_def sample_names default_funding_config_def
      funding_config_ok_def nano_second_def)

lemma sample_env_ok: "env_ok sample_env"
  by (simp add: env_ok_def sample_env_def sample_div_ok config_ok_new pair_funding_ok users_ok_def
      sample_user_def order_ok_id order_ok_rev)

lemma sample_book_ok: "book_ok sample_book"
  by (simp add: book_ok_def sample_book_def quote_ok_def okx_quote_def mexc_quote_def)

lemma sample_usable:
  "usable_record pair_funding (default_funding_config\<lparr>fc_min_spread := 1 / 100\<rparr>) ''OKX'' ''BTCUSDT'' 6
     (sample_record ''OKX'' (1 / 1000))"
  "usable_record pair_funding (default_funding_config\<lparr>fc_min_spread := 1 / 100\<rparr>) ''MEXC'' ''BTCUSDT'' 6
     (sample_record ''MEXC'' (2 / 1000))"
proof -
  have "normalize_funding_key ''MEXC'' ''BTCUSDT'' = (''MEXC'', ''BTCUSDT'')"
    by (simp add: normalize_funding_key_def string_eval remove_chars_def)
  then show "usable_record pair_funding (default_funding_config\<lparr>fc_min_spread := 1 / 100\<rparr>) ''OKX'' ''BTCUSDT'' 6
     (sample_record ''OKX'' (1 / 1000))"
  "usable_record pair_funding (default_funding_config\<lparr>fc_min_spread := 1 / 100\<rparr>) ''MEXC'' ''BTCUSDT'' 6
     (sample_record ''MEXC'' (2 / 1000))"
    by (simp_all add: usable_record_def get_funding_def pair_funding_def sample_record_def sample_names
        is_healthy_def record_is_stale_def staleness_for_def default_funding_config_def nano_second_def
        time_sub_def is_zero_time_def)
qed

lemma sample_pair:
  "evaluate_futures_pair pair_funding ''OKX'' ''BTCUSDT'' ''MEXC'' ''BTCUSDT'' (99 / 1000) 6 =
    \<lparr>ar_profitable = True, ar_reason = ReasonProfitable, ar_net_spread = 1 / 10, ar_rate = 1 / 1000,
     ar_next = 9, ar_buy_rate = 1 / 1000, ar_sell_rate = 2 / 1000, ar_buy_next = 9, ar_sell_next = 9\<rparr>"
proof -
  let ?p = "default_funding_config\<lparr>fc_min_spread := 1 / 100\<rparr>"
  have "valid_record pair_funding ''OKX'' ''BTCUSDT'' 6 ?p = Inr (empty_result\<lparr>ar_profitable := True,
      ar_reason := ReasonProfitable, ar_rate := 1 / 1000, ar_next := 9\<rparr>)"
    "valid_record pair_funding ''MEXC'' ''BTCUSDT'' 6 ?p = Inr (empty_result\<lparr>ar_profitable := True,
      ar_reason := ReasonProfitable, ar_rate := 2 / 1000, ar_next := 9\<rparr>)"
    unfolding valid_record_Inr using sample_usable by (auto simp: sample_record_def)
  moreover have "fm_config pair_funding = Some ?p" by (simp add: pair_funding_def)
  ultimately show ?thesis
    by (simp add: evaluate_futures_pair_def calc_net_spread_def earliest_funding_def empty_result_def
        is_zero_time_def time_before_def)
qed

lemma sample_fee: "fee_for (new_screener_config h) ''OKX'' = 1 / 2000"
  "fee_for (new_screener_config h) ''MEXC'' = 1 / 2000"
  by (simp_all add: fee_for_def new_screener_config_def FeeKeyDefault_def sample_names default_taker_fee_def)

lemma sample_cross: "cross_event sample_env ''BTCUSDT'' 6 ''OKX'' okx_quote ''MEXC'' mexc_quote = Some sample_route"
proof -
  have "round (10 ^ 15 :: rat) = 10 ^ 15" by (metis of_int_power of_int_numeral round_of_int)
  then have d: "lib_div sample_lib 10 100 = 1 / 10" by (simp add: sample_div)
  show ?thesis
    by (simp add: d cross_event_def sample_env_def okx_quote_def mexc_quote_def sample_fee sample_pair
        sample_route_def min_decimal_def Let_def)
qed

lemma sample_opportunity: "cross_opportunity sample_env sample_book ''BTCUSDT'' 6 ''OKX'' ''MEXC'' sample_route"
proof -
  have "quote_of sample_book ''OKX'' MarketTypeFutures = Some okx_quote"
    "quote_of sample_book ''MEXC'' MarketTypeFutures = Some mexc_quote"
    by (simp_all add: sample_book_def quote_of_def)
  moreover have "fresh (Some okx_quote) 6 (ae_ttl sample_env)" "fresh (Some mexc_quote) 6 (ae_ttl sample_env)"
    by (simp_all add: fresh_Some okx_quote_def mexc_quote_def sample_env_def default_price_ttl_def
        nano_second_def time_sub_def)
  ultimately show ?thesis unfolding cross_opportunity_def using sample_cross
    by (simp add: okx_quote_def mexc_quote_def)
qed

theorem cross_search_exact_witness: "sample_route \<in> set (cross_candidates sample_env sample_book ''BTCUSDT'' 6)"
  using cross_search_exact [OF sample_env_ok sample_book_ok] sample_opportunity by blast

lemma sample_candidate: "sample_route \<in> set (cross_candidates sample_env sample_book ''BTCUSDT'' 6)"
  using cross_candidates_set [OF sample_book_ok, of sample_env] sample_opportunity sample_env_ok
  by (auto simp: env_ok_def)

theorem cross_spread_value_witness: "\<exists>p. fm_config pair_funding = Some p \<and> fc_min_spread p \<le> 1 / 10"
  using cross_spread_value [OF sample_env_ok sample_book_ok sample_candidate]
  by (auto simp: sample_env_def sample_route_def)

theorem prefilter_conservative_witness: "symbol_may_pass_volume sample_env sample_book ''BTCUSDT'' 6"
proof (rule prefilter_conservative [OF sample_env_ok sample_book_ok disjI1 [OF sample_candidate]])
  show "route_volume_eligible sample_env sample_route"
    by (simp add: route_volume_eligible_def sample_env_def range_users_def get_all_users_def
        sample_user_def sample_route_def)
qed

theorem revalidation_agrees_witness:
  "\<exists>sig'. revalidate_in_book sample_env sample_book 6 (new_arbitrage_signal ''id'' sample_route 5) = Some sig'
     \<and> sg_peak sig' = 1 / 10"
proof -
  let ?sig = "new_arbitrage_signal ''id'' sample_route 5"
  have "sg_type ?sig = CrossExchange" "sg_buy_market ?sig = MarketTypeFutures"
    "sg_sell_market ?sig = MarketTypeFutures" "sg_symbol ?sig = ''BTCUSDT''"
    "sg_buy_exchange ?sig = ''OKX''" "sg_sell_exchange ?sig = ''MEXC''"
    by (simp_all add: new_arbitrage_signal_def sample_route_def Let_def)
  note f = this
  have r: "ev_buy_exchange sample_route = ''OKX''" "ev_sell_exchange sample_route = ''MEXC''"
    by (simp_all add: sample_route_def)
  have "\<exists>ev\<in>set (cross_candidates sample_env sample_book ''BTCUSDT'' 6). ev_buy_exchange ev = ''OKX''
      \<and> ev_sell_exchange ev = ''MEXC'' \<and> refreshed_signal ?sig sample_route = refreshed_signal ?sig ev"
    by (rule bexI [OF _ sample_candidate]) (simp only: r simp_thms)
  then have "revalidate_in_book sample_env sample_book 6 ?sig = Some (refreshed_signal ?sig sample_route)"
    using revalidation_agrees [OF sample_env_ok sample_book_ok, of ?sig 6 "refreshed_signal ?sig sample_route"]
    unfolding f by blast
  then show ?thesis by (simp add: refreshed_signal_def sample_route_def)
qed

end
