(* ===== verification/Aggregator.thy ===== *)
theory Aggregator
  imports Market_Book
begin

text \<open>
  internal/app/sharded_aggregator.go, the part that owns state: shards of prices and active
  routes, the processing of a tick, the janitor, the final flush and revalidation. Each
  operation holds the lock of a shard for its whole effect on it, so it is one step; the
  events it returns are sent to the tracker afterwards, in order. The pointers stored in
  the maps are never nil (only \<open>ProcessTick\<close> and \<open>observe\<close> store any).
\<close>

section \<open>State\<close>

record route_state =
  rs_peak :: dec
  rs_last :: spread_event
  rs_opened :: gtime

record shard =
  sh_prices :: "(string, exchange_book) gomap"
  sh_active :: "(string, route_state) gomap"

record aggregator =
  ag_shards :: "nat \<Rightarrow> shard"
  ag_ticks :: "64 word"

datatype extra = ExtraUsers user_manager | ExtraVolume volume_engine

text \<open>The constructor: the last user manager and the last volume engine among the extra
  arguments are used, a nil configuration is replaced by the default one.\<close>

definition new_sharded_aggregator ::
  "dec_lib \<Rightarrow> gtime \<Rightarrow> (string list \<Rightarrow> string list) \<Rightarrow> (user list \<Rightarrow> user list)
   \<Rightarrow> funding_manager option \<Rightarrow> screener_config option \<Rightarrow> extra list \<Rightarrow> agg_env \<times> aggregator" where
  "new_sharded_aggregator D clock ord uord funding cfg extras =
     (\<lparr>ae_dec = D,
       ae_config = (case cfg of None \<Rightarrow> new_screener_config 0 | Some c \<Rightarrow> c),
       ae_funding = funding,
       ae_users = fold (\<lambda>x u. case x of ExtraUsers m \<Rightarrow> Some m | _ \<Rightarrow> u) extras None,
       ae_volume = fold (\<lambda>x v. case x of ExtraVolume e \<Rightarrow> Some e | _ \<Rightarrow> v) extras None,
       ae_ttl = default_price_ttl, ae_clock = clock, ae_order = ord, ae_user_order = uord\<rparr>,
      \<lparr>ag_shards = (\<lambda>_. \<lparr>sh_prices = [], sh_active = []\<rparr>), ag_ticks = 0\<rparr>)"

definition shard_for :: "string \<Rightarrow> nat" where
  "shard_for symbol = unat (checksum_ieee symbol) mod num_shards"

section \<open>Observing a route\<close>

text \<open>The result is the new map of active routes, the set of keys seen in this tick and the
  event to emit.\<close>

definition observe ::
  "agg_env \<Rightarrow> spread_event \<Rightarrow> (string, route_state) gomap \<Rightarrow> string set
   \<Rightarrow> (string, route_state) gomap \<times> string set \<times> spread_event option" where
  "observe E ev active current =
     (let key = route_key ev;
          current' = insert key current;
          close_threshold = get_close_threshold (ae_dec E) (ae_config E);
          open_threshold = get_hard_min_spread (ae_config E)
      in case map_of active key of
           None \<Rightarrow>
             if ev_spread ev < open_threshold then (active, current', None)
             else let ev' = ev\<lparr>ev_lifecycle := SignalOpened\<rparr>
                  in (mput key \<lparr>rs_peak = ev_spread ev', rs_last = ev', rs_opened = ev_timestamp ev'\<rparr> active,
                      current', Some ev')
         | Some state \<Rightarrow>
             (let state1 = state\<lparr>rs_last := ev\<rparr> in
              if ev_spread ev \<le> close_threshold
              then (mdel key active, current', Some (ev\<lparr>ev_lifecycle := SignalClosed\<rparr>))
              else if ev_spread ev > rs_peak state
              then (mput key (state1\<lparr>rs_peak := ev_spread ev\<rparr>) active, current',
                    Some (ev\<lparr>ev_lifecycle := SignalUpdated\<rparr>))
              else (mput key state1 active, current', None)))"

text \<open>The body of the loop over the candidates.\<close>

definition observe_eligible ::
  "agg_env \<Rightarrow> spread_event \<Rightarrow> (string, route_state) gomap \<times> string set \<times> spread_event list
   \<Rightarrow> (string, route_state) gomap \<times> string set \<times> spread_event list" where
  "observe_eligible E ev st =
     (case st of (active, current, events) \<Rightarrow>
        if route_volume_eligible E ev
        then (case observe E ev active current of (active', current', out) \<Rightarrow>
                (active', current', events @ (case out of None \<Rightarrow> [] | Some e \<Rightarrow> [e])))
        else st)"

text \<open>The event that closes a route without an observation of it.\<close>

definition closing_event :: "gtime \<Rightarrow> route_state \<Rightarrow> spread_event" where
  "closing_event now state =
     (rs_last state)\<lparr>ev_spread := 0, ev_timestamp := now, ev_lifecycle := SignalClosed\<rparr>"

fun close_missing ::
  "string \<Rightarrow> string set \<Rightarrow> gtime \<Rightarrow> string list \<Rightarrow> (string, route_state) gomap
   \<Rightarrow> (string, route_state) gomap \<times> spread_event list" where
  "close_missing pfx current now [] active = (active, [])"
| "close_missing pfx current now (key # keys) active =
     (if \<not> has_prefix key pfx \<or> key \<in> current then close_missing pfx current now keys active
      else case map_of active key of
             None \<Rightarrow> close_missing pfx current now keys (mdel key active)
           | Some state \<Rightarrow>
               (let (active', events) = close_missing pfx current now keys (mdel key active)
                in (active', closing_event now state # events)))"

section \<open>Ticks\<close>

definition normalize_tick :: "market_tick \<Rightarrow> market_tick" where
  "normalize_tick t0 =
     (let t1 = t0\<lparr>mt_exchange := to_upper (trim_space (mt_exchange t0)),
                  mt_symbol := normalize_symbol (mt_symbol t0)\<rparr>;
          t2 = (if is_zero_time (mt_received_at t1) then t1\<lparr>mt_received_at := mt_event_time t1\<rparr> else t1);
          t3 = (if is_zero_time (mt_event_time t2) then t2\<lparr>mt_event_time := mt_received_at t2\<rparr> else t2)
      in if is_zero_time (mt_timestamp t3) then t3\<lparr>mt_timestamp := mt_event_time t3\<rparr> else t3)"

definition tick_now :: "market_tick \<Rightarrow> gtime" where
  "tick_now t =
     (let now = mt_received_at t;
          now1 = (if is_zero_time now then mt_event_time t else now)
      in if is_zero_time now1 then mt_timestamp t else now1)"

definition book_for :: "shard \<Rightarrow> string \<Rightarrow> exchange_book" where
  "book_for sh symbol = (case map_of (sh_prices sh) symbol of None \<Rightarrow> [] | Some b \<Rightarrow> b)"

definition markets_for :: "exchange_book \<Rightarrow> string \<Rightarrow> market_map" where
  "markets_for book ex = (case map_of book ex of None \<Rightarrow> [] | Some ms \<Rightarrow> ms)"

definition store_quote :: "market_tick \<Rightarrow> exchange_book \<Rightarrow> exchange_book" where
  "store_quote t book =
     mput (mt_exchange t)
       (mput (mt_market t) \<lparr>ps_bid = mt_bid t, ps_ask = mt_ask t, ps_received = mt_received_at t,
          ps_volume = mt_volume t\<rparr> (markets_for book (mt_exchange t))) book"

text \<open>A tick received before the stored quote of its market is ignored.\<close>

definition late_tick :: "market_tick \<Rightarrow> exchange_book \<Rightarrow> bool" where
  "late_tick t book \<longleftrightarrow>
     (case quote_of book (mt_exchange t) (mt_market t) of
        None \<Rightarrow> False
      | Some old \<Rightarrow> \<not> is_zero_time (ps_received old)
          \<and> time_before (mt_received_at t) (ps_received old))"

text \<open>The candidate routes of the book after a tick of exchange \<open>ex\<close>, in the order in which
  they are observed; none when nobody could be interested.\<close>

definition tick_candidates :: "agg_env \<Rightarrow> exchange_book \<Rightarrow> string \<Rightarrow> string \<Rightarrow> gtime \<Rightarrow> spread_event list" where
  "tick_candidates E book ex symbol now =
     (if (case ae_users E of None \<Rightarrow> True | Some um \<Rightarrow> has_users um)
         \<and> is_pair_enabled (ae_config E) symbol \<and> symbol_may_pass_volume E book symbol now
      then cross_candidates E book symbol now
             @ (case intra_candidate E book ex symbol now of None \<Rightarrow> [] | Some ev \<Rightarrow> [ev])
      else [])"

text \<open>What a tick does to its shard once its quote is accepted.\<close>

definition tick_shard :: "agg_env \<Rightarrow> market_tick \<Rightarrow> shard \<Rightarrow> shard \<times> spread_event list" where
  "tick_shard E t sh =
     (let symbol = mt_symbol t; now = tick_now t;
          book = store_quote t (book_for sh symbol);
          (active, current, events) =
            fold (observe_eligible E) (tick_candidates E book (mt_exchange t) symbol now)
              (sh_active sh, {}, []);
          (active', closed) =
            close_missing (symbol @ '':'') current now (ae_order E (mkeys active)) active
      in (\<lparr>sh_prices = mput symbol book (sh_prices sh), sh_active = active'\<rparr>, events @ closed))"

definition process_tick :: "agg_env \<Rightarrow> market_tick \<Rightarrow> aggregator \<Rightarrow> aggregator \<times> spread_event list" where
  "process_tick E t0 ag0 =
     (let ag = ag0\<lparr>ag_ticks := ag_ticks ag0 + 1\<rparr> in
      if \<not> valid_tick t0 then (ag, [])
      else let t = normalize_tick t0 in
        if mt_symbol t = [] then (ag, [])
        else let i = shard_for (mt_symbol t); sh = ag_shards ag i in
          if late_tick t (book_for sh (mt_symbol t)) then (ag, [])
          else let (sh', events) = tick_shard E t sh
               in (ag\<lparr>ag_shards := (ag_shards ag)(i := sh')\<rparr>, events))"

section \<open>Shutdown, janitor, revalidation\<close>

text \<open>Closing all active routes of a shard, in map order.\<close>

definition flush_shard :: "(string list \<Rightarrow> string list) \<Rightarrow> gtime \<Rightarrow> shard \<Rightarrow> shard \<times> spread_event list" where
  "flush_shard ord now sh =
     (sh\<lparr>sh_active := []\<rparr>,
      map (\<lambda>k. closing_event now (the (map_of (sh_active sh) k))) (ord (mkeys (sh_active sh))))"

text \<open>The loop over the shards, each under its lock.\<close>

fun each_shard :: "(shard \<Rightarrow> shard \<times> spread_event list) \<Rightarrow> nat list \<Rightarrow> aggregator
   \<Rightarrow> aggregator \<times> spread_event list" where
  "each_shard f [] ag = (ag, [])"
| "each_shard f (i # is) ag =
     (let (sh, evs) = f (ag_shards ag i);
          (ag', evs') = each_shard f is (ag\<lparr>ag_shards := (ag_shards ag)(i := sh)\<rparr>)
      in (ag', evs @ evs'))"

definition flush_active ::
  "(string list \<Rightarrow> string list) \<Rightarrow> gtime \<Rightarrow> gtime \<Rightarrow> aggregator \<Rightarrow> aggregator \<times> spread_event list" where
  "flush_active ord clock now0 ag =
     (let now = (if is_zero_time now0 then clock else now0)
      in each_shard (flush_shard ord now) [0..<num_shards] ag)"

definition prune_markets :: "gtime \<Rightarrow> market_map \<Rightarrow> market_map" where
  "prune_markets oldest ms = filter (\<lambda>(mk, p). \<not> time_before (ps_received p) oldest) ms"

definition prune_book :: "gtime \<Rightarrow> exchange_book \<Rightarrow> exchange_book" where
  "prune_book oldest book =
     filter (\<lambda>(ex, ms). length ms \<noteq> 0) (map (\<lambda>(ex, ms). (ex, prune_markets oldest ms)) book)"

definition prune_prices :: "gtime \<Rightarrow> (string, exchange_book) gomap \<Rightarrow> (string, exchange_book) gomap" where
  "prune_prices oldest prices =
     filter (\<lambda>(sy, b). length b \<noteq> 0) (map (\<lambda>(sy, b). (sy, prune_book oldest b)) prices)"

definition route_stale :: "gtime \<Rightarrow> route_state \<Rightarrow> bool" where
  "route_stale now state =
     (let seen0 = ev_timestamp (rs_last state);
          seen = (if is_zero_time seen0 then rs_opened state else seen0)
      in is_zero_time seen \<or> time_sub now seen > stale_active_route_ttl)"

definition janitor_shard :: "agg_env \<Rightarrow> gtime \<Rightarrow> shard \<Rightarrow> shard \<times> spread_event list" where
  "janitor_shard E now sh =
     (let oldest = now - ae_ttl E * 12;
          active = sh_active sh;
          stale = filter (\<lambda>k. route_stale now (the (map_of active k))) (ae_order E (mkeys active))
      in (\<lparr>sh_prices = prune_prices oldest (sh_prices sh),
           sh_active = filter (\<lambda>(k, st). \<not> route_stale now st) active\<rparr>,
          map (\<lambda>k. closing_event now (the (map_of active k))) stale))"

definition janitor :: "agg_env \<Rightarrow> gtime \<Rightarrow> aggregator \<Rightarrow> aggregator \<times> spread_event list" where
  "janitor E now ag = each_shard (janitor_shard E now) [0..<num_shards] ag"

text \<open>One turn of the janitor goroutine: the collaborators first, then the aggregator itself
  (which reads neither of them).\<close>

definition janitor_turn ::
  "gtime \<Rightarrow> agg_env \<times> aggregator \<Rightarrow> (agg_env \<times> aggregator) \<times> spread_event list" where
  "janitor_turn now st =
     (case st of (E, ag) \<Rightarrow>
        let E1 = E\<lparr>ae_funding := map_option (evict_stale now) (ae_funding E),
                   ae_volume := map_option (volume_janitor now) (ae_volume E)\<rparr>;
            (ag', evs) = janitor E1 now ag
        in ((E1, ag'), evs))"

text \<open>The shard is found by the signal's own symbol, the book by the normalised one.\<close>

definition revalidate_signal :: "agg_env \<Rightarrow> gtime \<Rightarrow> aggregator \<Rightarrow> signal \<Rightarrow> signal option" where
  "revalidate_signal E now ag sig =
     (case map_of (sh_prices (ag_shards ag (shard_for (sg_symbol sig)))) (normalize_symbol (sg_symbol sig)) of
        None \<Rightarrow> None
      | Some book \<Rightarrow> revalidate_in_book E book now sig)"

text \<open>The channel to the tracker: \<open>None\<close> is the nil channel, otherwise the queue grows at its
  end (a full channel blocks the sender, it loses nothing).\<close>

definition send_event :: "spread_event \<Rightarrow> spread_event list option \<Rightarrow> spread_event list option" where
  "send_event ev ch = (case ch of None \<Rightarrow> None | Some q \<Rightarrow> Some (q @ [ev]))"

end
