(* ===== verification/Lifecycle.thy ===== *)
theory Lifecycle
  imports Aggregator
begin

text \<open>
  The contract between the aggregator and the tracker: the events of one route form
  lifecycles open, update, ..., close. The contract is an automaton on the set of open
  route keys and a locale; the aggregator's ticks, janitor and flush are shown to keep it.
\<close>

section \<open>The automaton\<close>

fun life_step :: "spread_event \<Rightarrow> string set \<Rightarrow> string set option" where
  "life_step ev K =
     (let k = route_key ev in
      case ev_lifecycle ev of
        SignalOpened \<Rightarrow> if k \<in> K then None else Some (insert k K)
      | SignalUpdated \<Rightarrow> if k \<in> K then Some K else None
      | SignalClosed \<Rightarrow> if k \<in> K then Some (K - {k}) else None
      | NoLifecycle \<Rightarrow> None)"

fun life_run :: "spread_event list \<Rightarrow> string set \<Rightarrow> string set option" where
  "life_run [] K = Some K"
| "life_run (e # es) K = (case life_step e K of None \<Rightarrow> None | Some K' \<Rightarrow> life_run es K')"

lemma life_run_append:
  "life_run (xs @ ys) K = (case life_run xs K of None \<Rightarrow> None | Some K' \<Rightarrow> life_run ys K')"
  by (induction xs arbitrary: K) (auto split: option.splits)

lemma life_run_trans:
  "life_run xs K = Some K' \<Longrightarrow> life_run ys K' = Some K'' \<Longrightarrow> life_run (xs @ ys) K = Some K''"
  by (simp add: life_run_append)

lemma life_step_frame:
  "life_step e A = Some A' \<Longrightarrow> route_key e \<notin> B \<Longrightarrow> life_step e (A \<union> B) = Some (A' \<union> B)"
  by (auto simp: Let_def split: lifecycle.splits if_splits)

lemma life_run_frame:
  "life_run es A = Some A' \<Longrightarrow> \<forall>e\<in>set es. route_key e \<notin> B \<Longrightarrow> life_run es (A \<union> B) = Some (A' \<union> B)"
proof (induction es arbitrary: A)
  case (Cons e es)
  then obtain A1 where "life_step e A = Some A1" "life_run es A1 = Some A'"
    by (auto split: option.splits)
  with Cons show ?case by (simp add: life_step_frame del: life_step.simps)
qed simp

locale lifecycle_source =
  fixes step :: "'op \<Rightarrow> 's \<Rightarrow> 's \<times> spread_event list"
    and open_keys :: "'s \<Rightarrow> string set"
    and inv :: "'s \<Rightarrow> bool"
    and allowed :: "'op \<Rightarrow> bool"
  assumes step_inv: "inv s \<Longrightarrow> allowed x \<Longrightarrow> inv (fst (step x s))"
    and step_life: "inv s \<Longrightarrow> allowed x \<Longrightarrow>
      life_run (snd (step x s)) (open_keys s) = Some (open_keys (fst (step x s)))"
begin

lemma run_source:
  "inv s \<Longrightarrow> \<forall>x\<in>set xs. allowed x \<Longrightarrow>
   inv (fst (run_out step xs s))
   \<and> life_run (snd (run_out step xs s)) (open_keys s) = Some (open_keys (fst (run_out step xs s)))"
proof (induction xs arbitrary: s)
  case (Cons x xs)
  let ?s = "fst (step x s)"
  have i: "inv ?s" and l: "life_run (snd (step x s)) (open_keys s) = Some (open_keys ?s)"
    using Cons.prems by (auto intro: step_inv step_life)
  from Cons.IH [OF i] Cons.prems have "inv (fst (run_out step xs ?s))"
    "life_run (snd (run_out step xs ?s)) (open_keys ?s) = Some (open_keys (fst (run_out step xs ?s)))"
    by simp_all
  with l show ?case by (simp add: Let_def case_prod_beta life_run_append)
qed simp

end

section \<open>Route keys\<close>

lemma route_key_update [simp]:
  "route_key (ev\<lparr>ev_lifecycle := lc\<rparr>) = route_key ev"
  "route_key (ev\<lparr>ev_spread := x\<rparr>) = route_key ev"
  "route_key (ev\<lparr>ev_timestamp := t\<rparr>) = route_key ev"
  by (simp_all add: route_key_def)

lemma closing_event_simps [simp]:
  "route_key (closing_event now st) = route_key (rs_last st)"
  "ev_lifecycle (closing_event now st) = SignalClosed" "ev_spread (closing_event now st) = 0"
  "ev_timestamp (closing_event now st) = now"
  by (simp_all add: closing_event_def)

definition key_symbol :: "string \<Rightarrow> string" where
  "key_symbol k = takeWhile (\<lambda>c. c \<noteq> CHR '':'') k"

lemma route_key_split:
  "\<exists>rest. route_key ev = ev_symbol ev @ CHR '':'' # rest"
  by (simp add: route_key_def Let_def)

lemma key_symbol_route: "CHR '':'' \<notin> set (ev_symbol ev) \<Longrightarrow> key_symbol (route_key ev) = ev_symbol ev"
  using route_key_split [of ev] by (auto simp: key_symbol_def split_at_first)

lemma prefix_key_symbol:
  assumes "CHR '':'' \<notin> set symbol" "has_prefix k (symbol @ '':'')"
  shows "key_symbol k = symbol"
proof -
  have "k = take (length (symbol @ '':'')) k @ drop (length (symbol @ '':'')) k" by simp
  with assms(2) have "k = symbol @ CHR '':'' # drop (length (symbol @ '':'')) k"
    by (metis append.assoc append_Cons append_Nil has_prefix_def)
  then show ?thesis using assms(1) by (metis key_symbol_def split_at_first(1))
qed

lemma has_prefix_route: "has_prefix (route_key ev) (ev_symbol ev @ '':'')"
  using route_key_split [of ev] by (auto simp: has_prefix_def)

section \<open>One shard\<close>

definition open_routes :: "(string, route_state) gomap \<Rightarrow> string set" where
  "open_routes active = dom (map_of active)"

lemma open_routes_mput [simp]: "open_routes (mput k st active) = insert k (open_routes active)"
  and open_routes_mdel [simp]: "open_routes (mdel k active) = open_routes active - {k}"
  and open_routes_Nil [simp]: "open_routes [] = {}"
  by (auto simp: open_routes_def gomap_simps split: if_splits)

lemma open_routes_keys: "open_routes active = set (mkeys active)"
  by (simp add: open_routes_def dom_map_of_conv_image_fst)

definition active_ok :: "(string, route_state) gomap \<Rightarrow> bool" where
  "active_ok active \<longleftrightarrow> mwf active \<and> (\<forall>(k, st)\<in>set active. route_key (rs_last st) = k)"

lemma active_ok_lookup: "active_ok active \<Longrightarrow> map_of active k = Some st \<Longrightarrow> route_key (rs_last st) = k"
  by (auto simp: active_ok_def dest!: map_of_SomeD)

lemma active_ok_put: "active_ok active \<Longrightarrow> route_key (rs_last st) = k \<Longrightarrow> active_ok (mput k st active)"
  by (auto simp: active_ok_def mwf_mput dest!: mem_mput_D)

lemma active_ok_del: "active_ok active \<Longrightarrow> active_ok (mdel k active)"
  by (auto simp: active_ok_def mwf_mdel mem_mdel)

lemma open_routes_lookup: "k \<in> open_routes active \<longleftrightarrow> map_of active k \<noteq> None"
  by (auto simp: open_routes_def)

abbreviation opt_list :: "'a option \<Rightarrow> 'a list" where
  "opt_list x \<equiv> (case x of None \<Rightarrow> [] | Some e \<Rightarrow> [e])"

lemma observe_life:
  assumes "active_ok active" and "observe E ev active current = (active', current', out)"
  shows "active_ok active'" "life_run (opt_list out) (open_routes active) = Some (open_routes active')"
    "open_routes active' \<subseteq> insert (route_key ev) (open_routes active)"
    "\<forall>e\<in>set (opt_list out). route_key e = route_key ev" "current' = insert (route_key ev) current"
proof -
  note d = assms(2) [unfolded observe_def Let_def]
  have k: "route_key ev \<in> open_routes active" if "map_of active (route_key ev) = Some st" for st
    using that by (simp add: open_routes_lookup)
  have n: "route_key ev \<notin> open_routes active" if "map_of active (route_key ev) = None"
    using that by (simp add: open_routes_lookup)
  show "active_ok active'" using d assms(1)
    by (auto split: option.splits if_splits intro!: active_ok_put active_ok_del)
  show "current' = insert (route_key ev) current" using d by (auto split: option.splits if_splits)
  show "\<forall>e\<in>set (opt_list out). route_key e = route_key ev" using d
    by (auto split: option.splits if_splits)
  show "open_routes active' \<subseteq> insert (route_key ev) (open_routes active)" using d
    by (auto split: option.splits if_splits)
  show "life_run (opt_list out) (open_routes active) = Some (open_routes active')"
    using d k n by (auto simp: insert_absorb
        split: option.splits if_splits)
qed

lemma observe_all_life:
  assumes "active_ok active" and "life_run events K = Some (open_routes active)"
    and "fold (observe_eligible E) evs (active, current, events) = (active', current', events')"
  shows "active_ok active' \<and> life_run events' K = Some (open_routes active')
    \<and> open_routes active' \<subseteq> route_key ` set evs \<union> open_routes active
    \<and> (\<forall>e\<in>set events'. e \<in> set events \<or> route_key e \<in> route_key ` set evs)"
  using assms
proof (induction evs arbitrary: active current events)
  case (Cons ev evs)
  obtain a1 c1 o1 where ob: "observe E ev active current = (a1, c1, o1)"
    by (cases "observe E ev active current") auto
  note ol = observe_life [OF Cons.prems(1) ob]
  show ?case
  proof (cases "route_volume_eligible E ev")
    case True
    with ob have st: "observe_eligible E ev (active, current, events) = (a1, c1, events @ opt_list o1)"
      by (simp add: observe_eligible_def)
    have "life_run (events @ opt_list o1) K = Some (open_routes a1)"
      by (rule life_run_trans [OF Cons.prems(2) ol(2)])
    from Cons.IH [OF ol(1) this] Cons.prems(3) st
    have "active_ok active' \<and> life_run events' K = Some (open_routes active')
      \<and> open_routes active' \<subseteq> route_key ` set evs \<union> open_routes a1
      \<and> (\<forall>e\<in>set events'. e \<in> set (events @ opt_list o1) \<or> route_key e \<in> route_key ` set evs)"
      by simp
    with ol(3,4) show ?thesis by (auto)
  next
    case False
    then have "observe_eligible E ev (active, current, events) = (active, current, events)"
      by (simp add: observe_eligible_def)
    with Cons.prems(3) have "fold (observe_eligible E) evs (active, current, events) = (active', current', events')"
      by simp
    from Cons.IH [OF Cons.prems(1,2) this] show ?thesis by auto
  qed
qed (auto)

lemma close_missing_life:
  assumes "active_ok active" and "close_missing pfx current now keys active = (active', events)"
  shows "active_ok active' \<and> life_run events (open_routes active) = Some (open_routes active')
    \<and> (\<forall>e\<in>set events. route_key e \<in> open_routes active)"
  using assms
proof (induction pfx current now keys active arbitrary: active' events rule: close_missing.induct)
  case (2 pfx current now key keys active)
  show ?case
  proof (cases "\<not> has_prefix key pfx \<or> key \<in> current")
    case True
    with 2 show ?thesis by simp
  next
    case hit: False
    note del = active_ok_del [OF "2.prems"(1), of key]
    show ?thesis
    proof (cases "map_of active key")
      case None
      from None have "mdel key active = active"
        by (simp add: map_of_eq_None_iff delete_id)
      with None hit 2 show ?thesis by simp
    next
      case (Some st)
      obtain a1 e1 where r: "close_missing pfx current now keys (mdel key active) = (a1, e1)"
        by (cases "close_missing pfx current now keys (mdel key active)") auto
      from r Some hit "2.prems"(2) have out: "active' = a1" "events = closing_event now st # e1"
        by simp_all
      have rk: "route_key (rs_last st) = key" by (rule active_ok_lookup [OF "2.prems"(1) Some])
      have "key \<in> open_routes active" using Some by (simp add: open_routes_lookup)
      with "2.IH"(3) [OF hit Some del r] rk show ?thesis
        unfolding out by auto
    qed
  qed
qed simp

section \<open>All shards\<close>

definition shard_ok :: "nat \<Rightarrow> shard \<Rightarrow> bool" where
  "shard_ok i sh \<longleftrightarrow> mwf (sh_prices sh) \<and> (\<forall>(sy, book)\<in>set (sh_prices sh). book_ok book)
     \<and> active_ok (sh_active sh) \<and> (\<forall>k\<in>open_routes (sh_active sh). shard_for (key_symbol k) = i)"

definition agg_ok :: "aggregator \<Rightarrow> bool" where
  "agg_ok ag \<longleftrightarrow> (\<forall>i. shard_ok i (ag_shards ag i))"

definition open_keys :: "aggregator \<Rightarrow> string set" where
  "open_keys ag = (\<Union>i. open_routes (sh_active (ag_shards ag i)))"

text \<open>What a step on one shard owes: the invariant, legal events, and only keys that belong
  to this shard.\<close>

definition shard_step_ok :: "nat \<Rightarrow> shard \<Rightarrow> shard \<times> spread_event list \<Rightarrow> bool" where
  "shard_step_ok i sh r \<longleftrightarrow> shard_ok i (fst r)
     \<and> life_run (snd r) (open_routes (sh_active sh)) = Some (open_routes (sh_active (fst r)))
     \<and> (\<forall>e\<in>set (snd r). shard_for (key_symbol (route_key e)) = i)"

lemma shard_update_life:
  assumes "agg_ok ag" "shard_step_ok i (ag_shards ag i) (sh, evs)"
  shows "agg_ok (ag\<lparr>ag_shards := (ag_shards ag)(i := sh)\<rparr>)"
    "life_run evs (open_keys ag) = Some (open_keys (ag\<lparr>ag_shards := (ag_shards ag)(i := sh)\<rparr>))"
proof -
  let ?ag = "ag\<lparr>ag_shards := (ag_shards ag)(i := sh)\<rparr>"
  let ?B = "\<Union>j\<in>-{i}. open_routes (sh_active (ag_shards ag j))"
  show "agg_ok ?ag" using assms by (simp add: agg_ok_def shard_step_ok_def)
  have k: "open_keys ag = open_routes (sh_active (ag_shards ag i)) \<union> ?B"
    "open_keys ?ag = open_routes (sh_active sh) \<union> ?B"
    by (auto simp: open_keys_def split: if_splits)
  have "shard_for (key_symbol x) = j" if "x \<in> open_routes (sh_active (ag_shards ag j))" for x j
    using assms(1) that by (simp add: agg_ok_def shard_ok_def)
  then have "\<forall>e\<in>set evs. route_key e \<notin> ?B"
    using assms(2) by (fastforce simp: shard_step_ok_def)
  moreover have "life_run evs (open_routes (sh_active (ag_shards ag i))) = Some (open_routes (sh_active sh))"
    using assms(2) by (simp add: shard_step_ok_def)
  ultimately show "life_run evs (open_keys ag) = Some (open_keys ?ag)"
    unfolding k by (intro life_run_frame)
qed

lemma each_shard_life:
  assumes "\<And>i sh. shard_ok i sh \<Longrightarrow> shard_step_ok i sh (f sh)" and "agg_ok ag"
  shows "agg_ok (fst (each_shard f is ag))
    \<and> life_run (snd (each_shard f is ag)) (open_keys ag) = Some (open_keys (fst (each_shard f is ag)))"
  using assms(2)
proof (induction "is" arbitrary: ag)
  case (Cons i js)
  obtain sh evs where f: "f (ag_shards ag i) = (sh, evs)" by fastforce
  have "shard_step_ok i (ag_shards ag i) (sh, evs)"
    using assms(1) [of i "ag_shards ag i"] Cons.prems f by (simp add: agg_ok_def)
  note up = shard_update_life [OF Cons.prems this]
  show ?case using Cons.IH [OF up(1)] life_run_trans [OF up(2)]
    by (simp add: f case_prod_beta Let_def)
qed simp

lemma closing_events_life:
  assumes "active_ok active" "distinct ks" "set ks \<subseteq> open_routes active" "open_routes active \<subseteq> K"
  shows "life_run (map (\<lambda>k. closing_event now (the (map_of active k))) ks) K = Some (K - set ks)"
proof -
  have rk: "route_key (rs_last (the (map_of active k))) = k" if "k \<in> set ks" for k
    using that assms(1,3) active_ok_lookup by (fastforce simp: open_routes_lookup)
  have "life_run (map (\<lambda>k. closing_event now (the (map_of active k))) ys) K = Some (K - set ys)"
    if "distinct ys" "set ys \<subseteq> K" "set ys \<subseteq> set ks" for ys K
    using that
  proof (induction ys arbitrary: K)
    case (Cons y ys)
    then have "y \<in> K" "set ys \<subseteq> K - {y}" by auto
    with Cons rk [of y] show ?case by (simp add: set_diff_eq conj_commute) (metis Diff_insert2 insert_def set_diff_eq)
  qed simp
  then show ?thesis using assms(2-4) by blast
qed

lemma flush_shard_ok:
  assumes "order_ok ord" "shard_ok i sh" shows "shard_step_ok i sh (flush_shard ord now sh)"
proof -
  let ?a = "sh_active sh"
  have a: "active_ok ?a" using assms(2) by (simp add: shard_ok_def)
  have ks: "distinct (ord (mkeys ?a))" "set (ord (mkeys ?a)) = open_routes ?a"
    using assms(1) a by (simp_all add: order_ok_distinct order_ok_set open_routes_keys active_ok_def)
  have rk: "route_key (rs_last (the (map_of ?a k))) = k" if "k \<in> open_routes ?a" for k
    using that a active_ok_lookup by (fastforce simp: open_routes_lookup)
  show ?thesis
    using closing_events_life [OF a ks(1), of "open_routes ?a" now] assms(2) rk
    by (auto simp: shard_step_ok_def flush_shard_def ks shard_ok_def active_ok_def)
qed

lemma prune_book_ok: "book_ok book \<Longrightarrow> book_ok (prune_book oldest book)"
  unfolding book_ok_def prune_book_def prune_markets_def
  by (fastforce intro!: mwf_filter simp: case_prod_beta comp_def)

lemma prune_prices_ok:
  assumes "mwf prices" "\<forall>(sy, book)\<in>set prices. book_ok book"
  shows "mwf (prune_prices oldest prices) \<and> (\<forall>(sy, book)\<in>set (prune_prices oldest prices). book_ok book)"
  using assms unfolding prune_prices_def
  by (auto intro!: mwf_filter prune_book_ok simp: case_prod_beta comp_def)

lemma janitor_shard_ok:
  assumes "order_ok (ae_order E)" "shard_ok i sh" shows "shard_step_ok i sh (janitor_shard E now sh)"
proof -
  let ?a = "sh_active sh"
  let ?ks = "filter (\<lambda>k. route_stale now (the (map_of ?a k))) (ae_order E (mkeys ?a))"
  let ?a' = "filter (\<lambda>(k, st). \<not> route_stale now st) ?a"
  have a: "active_ok ?a" using assms(2) by (simp add: shard_ok_def)
  then have wf: "mwf ?a" by (simp add: active_ok_def)
  have ks: "distinct ?ks" "set ?ks = {k\<in>open_routes ?a. route_stale now (the (map_of ?a k))}"
    using assms(1) wf by (auto simp: order_ok_distinct order_ok_set open_routes_keys)
  have a': "open_routes ?a' = open_routes ?a - set ?ks"
    unfolding ks open_routes_def dom_def using mget_filter [OF wf, of "\<lambda>k st. \<not> route_stale now st"]
    by (auto split: option.splits if_splits)
  have ok': "active_ok ?a'" using a by (auto simp: active_ok_def intro: mwf_filter)
  have rk: "route_key (rs_last (the (map_of ?a k))) = k" if "k \<in> open_routes ?a" for k
    using that a active_ok_lookup by (fastforce simp: open_routes_lookup)
  have "life_run (map (\<lambda>k. closing_event now (the (map_of ?a k))) ?ks) (open_routes ?a)
      = Some (open_routes ?a')"
    unfolding a' by (rule closing_events_life [OF a ks(1)]) (use ks(2) in auto)
  moreover have "\<forall>e\<in>set (map (\<lambda>k. closing_event now (the (map_of ?a k))) ?ks).
      shard_for (key_symbol (route_key e)) = i"
    using ks(2) rk assms(2) by (simp add: shard_ok_def)
  moreover have "shard_ok i (\<lparr>sh_prices = prune_prices (now - ae_ttl E * 12) (sh_prices sh), sh_active = ?a'\<rparr>)"
    using prune_prices_ok [of "sh_prices sh" "now - ae_ttl E * 12"] assms(2) ok' a'
    unfolding shard_ok_def shard.simps by blast
  ultimately show ?thesis by (simp only: shard_step_ok_def janitor_shard_def Let_def fst_conv snd_conv
      shard.simps) 
qed

section \<open>Ticks\<close>

lemma book_for_ok: "shard_ok i sh \<Longrightarrow> book_ok (book_for sh symbol)"
proof (cases "map_of (sh_prices sh) symbol")
  case (Some b)
  then have "(symbol, b) \<in> set (sh_prices sh)" by (rule map_of_SomeD)
  with Some show "shard_ok i sh \<Longrightarrow> ?thesis" by (auto simp: shard_ok_def book_for_def)
qed (simp add: book_for_def book_ok_def)

lemma store_quote_ok:
  assumes "book_ok book" "0 < mt_bid t" "mt_bid t \<le> mt_ask t"
  shows "book_ok (store_quote t book)"
proof -
  let ?q = "\<lparr>ps_bid = mt_bid t, ps_ask = mt_ask t, ps_received = mt_received_at t, ps_volume = mt_volume t\<rparr>"
  let ?ms = "markets_for book (mt_exchange t)"
  have m: "mwf ?ms \<and> (\<forall>(mk, p)\<in>set ?ms. quote_ok p)"
  proof (cases "map_of book (mt_exchange t)")
    case (Some ms)
    then have "(mt_exchange t, ms) \<in> set book" by (rule map_of_SomeD)
    with Some assms(1) show ?thesis by (auto simp: book_ok_def markets_for_def)
  qed (simp add: markets_for_def)
  have q: "quote_ok ?q" using assms(2,3) by (simp add: quote_ok_def)
  have "\<forall>(mk, p)\<in>set (mput (mt_market t) ?q ?ms). quote_ok p"
    using m q by (auto dest!: mem_mput_D)
  moreover have "mwf (mput (mt_market t) ?q ?ms)" using m by (simp add: mwf_mput)
  ultimately show ?thesis using assms(1)
    by (auto simp: book_ok_def store_quote_def mwf_mput dest!: mem_mput_D)
qed

lemma quote_of_store:
  "quote_of (store_quote t book) ex mk =
    (if ex = mt_exchange t \<and> mk = mt_market t
     then Some \<lparr>ps_bid = mt_bid t, ps_ask = mt_ask t, ps_received = mt_received_at t, ps_volume = mt_volume t\<rparr>
     else quote_of book ex mk)"
  by (auto simp: quote_of_def store_quote_def markets_for_def map_of_mput split: option.splits)

lemma normalize_tick_simps [simp]:
  "mt_bid (normalize_tick t) = mt_bid t" "mt_ask (normalize_tick t) = mt_ask t"
  "mt_market (normalize_tick t) = mt_market t" "mt_volume (normalize_tick t) = mt_volume t"
  "mt_symbol (normalize_tick t) = normalize_symbol (mt_symbol t)"
  "mt_exchange (normalize_tick t) = to_upper (trim_space (mt_exchange t))"
  by (simp_all add: normalize_tick_def Let_def)

lemma tick_candidates_symbol:
  assumes "book_ok book" "order_ok (ae_order E)" "ev \<in> set (tick_candidates E book ex symbol now)"
  shows "ev_symbol ev = symbol" "ev_timestamp ev = now"
    "(\<exists>bx sx. cross_opportunity E book symbol now bx sx ev) \<or> intra_candidate E book ex symbol now = Some ev"
proof -
  show c: "(\<exists>bx sx. cross_opportunity E book symbol now bx sx ev) \<or> intra_candidate E book ex symbol now = Some ev"
    using assms(3) cross_candidates_set [OF assms(1,2)]
    by (auto simp: tick_candidates_def split: if_splits option.splits)
  have "ev_symbol ev = symbol \<and> ev_timestamp ev = now"
    using c
  proof
    assume "\<exists>bx sx. cross_opportunity E book symbol now bx sx ev"
    then show ?thesis using cross_opportunity_fields(4,5) by blast
  qed (simp add: intra_candidate_fields(1,5))
  then show "ev_symbol ev = symbol" "ev_timestamp ev = now" by simp_all
qed

lemma tick_shard_ok:
  assumes ord: "order_ok (ae_order E)" and sh: "shard_ok i sh"
    and sym: "CHR '':'' \<notin> set (mt_symbol t)" "shard_for (mt_symbol t) = i"
    and q: "0 < mt_bid t" "mt_bid t \<le> mt_ask t"
  shows "shard_step_ok i sh (tick_shard E t sh)"
proof -
  let ?sym = "mt_symbol t" and ?now = "tick_now t"
  let ?book = "store_quote t (book_for sh ?sym)"
  let ?evs = "tick_candidates E ?book (mt_exchange t) ?sym ?now"
  have book: "book_ok ?book" by (rule store_quote_ok [OF book_for_ok [OF sh] q])
  have act: "active_ok (sh_active sh)" using sh by (simp add: shard_ok_def)
  obtain a1 c1 e1 where f: "fold (observe_eligible E) ?evs (sh_active sh, {}, []) = (a1, c1, e1)"
    by (metis prod_cases3)
  obtain a2 e2 where cl: "close_missing (?sym @ '':'') c1 ?now (ae_order E (mkeys a1)) a1 = (a2, e2)"
    by fastforce
  have res: "tick_shard E t sh = (\<lparr>sh_prices = mput ?sym ?book (sh_prices sh), sh_active = a2\<rparr>, e1 @ e2)"
    by (simp add: tick_shard_def Let_def f cl)
  have ob: "active_ok a1" "life_run e1 (open_routes (sh_active sh)) = Some (open_routes a1)"
    "open_routes a1 \<subseteq> route_key ` set ?evs \<union> open_routes (sh_active sh)"
    "\<forall>e\<in>set e1. route_key e \<in> route_key ` set ?evs"
    using observe_all_life [OF act _ f, of "open_routes (sh_active sh)"] by simp_all
  have cm: "active_ok a2" "life_run e2 (open_routes a1) = Some (open_routes a2)"
    "\<forall>e\<in>set e2. route_key e \<in> open_routes a1"
    using close_missing_life [OF ob(1) cl] by simp_all
  have ev: "shard_for (key_symbol k) = i" if "k \<in> route_key ` set ?evs" for k
    using that tick_candidates_symbol(1) [OF book ord] sym by (auto simp: key_symbol_route)
  have k1: "shard_for (key_symbol k) = i" if "k \<in> open_routes a1" for k
    using that ob(3) ev sh by (auto simp: shard_ok_def)
  have "open_routes a2 \<subseteq> open_routes a1"
  proof -
    have "open_routes a' \<subseteq> open_routes a" if "close_missing pfx c n ks a = (a', es)" for pfx c n ks a a' es
      using that
      by (induction pfx c n ks a arbitrary: a' es rule: close_missing.induct)
        (fastforce split: if_splits option.splits prod.splits)+
    from this [OF cl] show ?thesis .
  qed
  then have k2: "\<forall>k\<in>open_routes a2. shard_for (key_symbol k) = i" using k1 by blast
  have "life_run (e1 @ e2) (open_routes (sh_active sh)) = Some (open_routes a2)"
    by (rule life_run_trans [OF ob(2) cm(2)])
  moreover have "\<forall>e\<in>set (e1 @ e2). shard_for (key_symbol (route_key e)) = i"
    using ob(4) cm(3) ev k1 by auto
  moreover have "shard_ok i \<lparr>sh_prices = mput ?sym ?book (sh_prices sh), sh_active = a2\<rparr>"
    using sh book cm(1) k2 by (auto simp: shard_ok_def mwf_mput dest!: mem_mput_D)
  ultimately show ?thesis unfolding res by (simp only: shard_step_ok_def fst_conv snd_conv shard.simps)
qed

section \<open>The aggregator keeps the contract\<close>

datatype agg_op = OpTick agg_env market_tick | OpAggJanitor agg_env gtime
  | OpFlush "string list \<Rightarrow> string list" gtime gtime

fun agg_step :: "agg_op \<Rightarrow> aggregator \<Rightarrow> aggregator \<times> spread_event list" where
  "agg_step (OpTick E t) ag = process_tick E t ag"
| "agg_step (OpAggJanitor E now) ag = janitor E now ag"
| "agg_step (OpFlush ord clock now) ag = flush_active ord clock now ag"

text \<open>Range orders are permutations, and symbols hold no colon (route keys are joined by it).\<close>

fun agg_op_ok :: "agg_op \<Rightarrow> bool" where
  "agg_op_ok (OpTick E t) = (order_ok (ae_order E) \<and> CHR '':'' \<notin> set (normalize_symbol (mt_symbol t)))"
| "agg_op_ok (OpAggJanitor E now) = order_ok (ae_order E)"
| "agg_op_ok (OpFlush ord clock now) = order_ok ord"

lemma ticks_frame [simp]:
  "agg_ok (ag\<lparr>ag_ticks := n\<rparr>) = agg_ok ag" "open_keys (ag\<lparr>ag_ticks := n\<rparr>) = open_keys ag"
  by (simp_all add: agg_ok_def open_keys_def)

lemma process_tick_life:
  assumes "agg_ok ag" "order_ok (ae_order E)" "CHR '':'' \<notin> set (normalize_symbol (mt_symbol t))"
  shows "agg_ok (fst (process_tick E t ag))"
    "life_run (snd (process_tick E t ag)) (open_keys ag) = Some (open_keys (fst (process_tick E t ag)))"
proof -
  let ?t = "normalize_tick t" and ?ag = "ag\<lparr>ag_ticks := ag_ticks ag + 1\<rparr>"
  let ?i = "shard_for (mt_symbol ?t)"
  show "agg_ok (fst (process_tick E t ag))"
    "life_run (snd (process_tick E t ag)) (open_keys ag) = Some (open_keys (fst (process_tick E t ag)))"
  proof (atomize (full), cases "\<not> valid_tick t \<or> mt_symbol ?t = []
      \<or> late_tick ?t (book_for (ag_shards ?ag ?i) (mt_symbol ?t))")
    case True
    then have "process_tick E t ag = (?ag, [])" by (auto simp: process_tick_def Let_def)
    with assms(1) show "agg_ok (fst (process_tick E t ag)) \<and> life_run (snd (process_tick E t ag)) (open_keys ag)
      = Some (open_keys (fst (process_tick E t ag)))" by simp
  next
    case False
    obtain sh evs where r: "tick_shard E ?t (ag_shards ?ag ?i) = (sh, evs)" by fastforce
    have ok: "agg_ok ?ag" using assms(1) by simp
    have "shard_step_ok ?i (ag_shards ?ag ?i) (sh, evs)"
      unfolding r [symmetric]
      by (rule tick_shard_ok) (use assms False ok in \<open>auto simp: agg_ok_def valid_tick_def\<close>)
    note up = shard_update_life [OF ok this]
    have "process_tick E t ag = (?ag\<lparr>ag_shards := (ag_shards ?ag)(?i := sh)\<rparr>, evs)"
      using False r by (simp add: process_tick_def Let_def)
    with up show "agg_ok (fst (process_tick E t ag)) \<and> life_run (snd (process_tick E t ag)) (open_keys ag)
      = Some (open_keys (fst (process_tick E t ag)))" by simp
  qed
qed

lemma agg_step_life:
  assumes "agg_ok ag" "agg_op_ok x"
  shows "agg_ok (fst (agg_step x ag))
    \<and> life_run (snd (agg_step x ag)) (open_keys ag) = Some (open_keys (fst (agg_step x ag)))"
proof (cases x)
  case (OpTick E t)
  with assms process_tick_life show ?thesis by simp
next
  case (OpAggJanitor E now)
  with assms each_shard_life [OF janitor_shard_ok] show ?thesis by (simp add: janitor_def)
next
  case (OpFlush ord clock now)
  with assms each_shard_life [OF flush_shard_ok] show ?thesis by (simp add: flush_active_def Let_def)
qed

interpretation agg_source: lifecycle_source agg_step open_keys agg_ok agg_op_ok
  by unfold_locales (simp_all add: agg_step_life)

definition empty_aggregator :: aggregator where
  "empty_aggregator = \<lparr>ag_shards = (\<lambda>_. \<lparr>sh_prices = [], sh_active = []\<rparr>), ag_ticks = 0\<rparr>"

lemma agg_ok_empty: "agg_ok empty_aggregator" and open_keys_empty: "open_keys empty_aggregator = {}"
  by (simp_all add: agg_ok_def shard_ok_def empty_aggregator_def active_ok_def open_keys_def)

end
