(* ===== verification/Tick_Spec.thy ===== *)
theory Tick_Spec
  imports Lifecycle
begin

text \<open>
  What one tick does to the active routes of its symbol, exactly: the loop over the
  candidates and the loop that closes missing routes against a set specification, and the
  properties of the aggregator.
\<close>

section \<open>Keys of different routes differ\<close>

lemma cross_intra_types: "CHR '':'' \<notin> set CrossExchange" "CHR '':'' \<notin> set IntraExchange"
  "CHR '':'' \<notin> set MarketTypeFutures" "CHR '':'' \<notin> set MarketTypeSpot"
  "CrossExchange \<noteq> IntraExchange" "CrossExchange \<noteq> []" "IntraExchange \<noteq> []"
  by (simp_all add: CrossExchange_def IntraExchange_def MarketTypeFutures_def MarketTypeSpot_def)

lemma colon_cancel:
  assumes "a @ CHR '':'' # r = b @ CHR '':'' # s" "CHR '':'' \<notin> set a" "CHR '':'' \<notin> set b"
  shows "a = b \<and> r = s"
proof -
  have "a = b" using assms by (metis split_at_first(1))
  with assms(1) show ?thesis by simp
qed

text \<open>The parts of a key when both exchanges are named.\<close>

lemma route_key_parts:
  assumes "ev_buy_exchange ev \<noteq> []" "ev_sell_exchange ev \<noteq> []"
  shows "route_key ev = ev_symbol ev @ '':'' @ ev_type ev @ '':'' @ ev_buy_exchange ev @ '':''
    @ ev_sell_exchange ev @ '':'' @ ev_buy_market ev @ '':'' @ ev_sell_market ev"
  using assms by (simp add: route_key_def Let_def)

lemma cross_event_named:
  assumes "cross_opportunity E book symbol now bx sx ev" shows "bx \<noteq> []" "sx \<noteq> []"
  using assms
  by (auto simp: cross_opportunity_def cross_event_def Let_def pair_profitable split: if_splits option.splits)

lemma intra_candidate_named:
  assumes "intra_candidate E book ex symbol now = Some ev" shows "ex \<noteq> []"
proof -
  from assms obtain spot fut where "intra_event E symbol now ex spot fut = Some ev"
    unfolding intra_candidate_Some by blast
  then show ?thesis
    by (auto simp: intra_event_def Let_def spot_profitable split: if_splits option.splits)
qed

lemma cross_key:
  assumes "cross_opportunity E book symbol now bx sx ev"
  shows "route_key ev = symbol @ '':'' @ CrossExchange @ '':'' @ bx @ '':'' @ sx @ '':''
    @ MarketTypeFutures @ '':'' @ MarketTypeFutures"
  using cross_opportunity_fields [OF assms] cross_event_named [OF assms]
  by (simp add: route_key_parts)

definition intra_key :: "string \<Rightarrow> string \<Rightarrow> string" where
  "intra_key symbol ex = symbol @ '':'' @ IntraExchange @ '':'' @ ex @ '':'' @ ex @ '':''
     @ MarketTypeSpot @ '':'' @ MarketTypeFutures"

lemma intra_key_route:
  assumes "intra_candidate E book ex symbol now = Some ev"
  shows "route_key ev = intra_key symbol ex"
proof -
  from assms obtain spot fut where ev: "intra_event E symbol now ex spot fut = Some ev"
    unfolding intra_candidate_Some by blast
  show ?thesis using intra_event_fields [OF ev] intra_candidate_named [OF assms]
    by (simp add: route_key_parts intra_key_def)
qed

lemma cross_intra_key:
  "symbol @ '':'' @ CrossExchange @ '':'' @ r \<noteq> intra_key symbol ex"
proof
  assume "symbol @ '':'' @ CrossExchange @ '':'' @ r = intra_key symbol ex"
  then have "CrossExchange @ CHR '':'' # r = IntraExchange @ CHR '':'' # (ex @ '':'' @ ex @ '':''
     @ MarketTypeSpot @ '':'' @ MarketTypeFutures)"
    by (simp add: intra_key_def)
  from colon_cancel [OF this] show "False" by (simp add: cross_intra_types)
qed

lemma intra_key_inj: "intra_key symbol a = intra_key symbol b \<Longrightarrow> a = b"
proof -
  assume eq: "intra_key symbol a = intra_key symbol b"
  then have "length (intra_key symbol a) = length (intra_key symbol b)" by simp
  then have "length a = length b" by (simp add: intra_key_def)
  with eq show "a = b" by (simp add: intra_key_def)
qed

text \<open>Exchange names without a colon, as in the connector registry.\<close>

definition names_ok :: "exchange_book \<Rightarrow> bool" where
  "names_ok book \<longleftrightarrow> (\<forall>ex\<in>set (mkeys book). CHR '':'' \<notin> set ex)"

lemma cross_key_legs:
  assumes "names_ok book" "cross_opportunity E book symbol now bx sx ev"
    "cross_opportunity E book symbol now bx' sx' ev'" "route_key ev = route_key ev'"
  shows "legs ev = legs ev'"
proof -
  have "bx \<in> set (mkeys book)" "bx' \<in> set (mkeys book)" "sx \<in> set (mkeys book)" "sx' \<in> set (mkeys book)"
    using assms(2,3) quote_of_key unfolding cross_opportunity_def by blast+
  then have c: "CHR '':'' \<notin> set bx" "CHR '':'' \<notin> set bx'" "CHR '':'' \<notin> set sx" "CHR '':'' \<notin> set sx'"
    using assms(1) unfolding names_ok_def by blast+
  from assms(4) have eq: "bx @ CHR '':'' # (sx @ CHR '':'' # (MarketTypeFutures @ '':'' @ MarketTypeFutures))
      = bx' @ CHR '':'' # (sx' @ CHR '':'' # (MarketTypeFutures @ '':'' @ MarketTypeFutures))"
    unfolding cross_key [OF assms(2)] cross_key [OF assms(3)] by simp
  from colon_cancel [OF this c(1,2)] have "bx = bx'"
    and "sx @ CHR '':'' # (MarketTypeFutures @ '':'' @ MarketTypeFutures)
      = sx' @ CHR '':'' # (MarketTypeFutures @ '':'' @ MarketTypeFutures)" by simp_all
  with colon_cancel [OF this(2) c(3,4)] have "bx = bx'" "sx = sx'" by simp_all
  then show ?thesis
    using cross_opportunity_fields(1,2) [OF assms(2)] cross_opportunity_fields(1,2) [OF assms(3)]
    by (simp add: legs_def)
qed

lemma tick_candidates_keys:
  assumes book: "book_ok book" "names_ok book" and ord: "order_ok (ae_order E)"
  shows "distinct (map route_key (tick_candidates E book ex symbol now))"
proof -
  let ?cs = "cross_candidates E book symbol now"
  note cset = cross_candidates_set [OF book(1) ord, of _ symbol now]
  have "distinct (map route_key ?cs)"
  proof -
    have d: "distinct ?cs" "inj_on legs (set ?cs)"
      using cross_candidates_distinct [OF book(1) ord, of symbol now] by (simp_all add: distinct_map)
    have "inj_on route_key (set ?cs)"
    proof (rule inj_onI)
      fix x y assume xy: "x \<in> set ?cs" "y \<in> set ?cs" "route_key x = route_key y"
      then have "legs x = legs y" using cross_key_legs [OF book(2)] cset by metis
      with xy d(2) show "x = y" by (simp add: inj_on_def)
    qed
    with d(1) show ?thesis by (simp add: distinct_map)
  qed
  moreover have "route_key ev \<notin> route_key ` set ?cs" if "intra_candidate E book ex symbol now = Some ev" for ev
  proof
    assume "route_key ev \<in> route_key ` set ?cs"
    then obtain bx sx c where c: "cross_opportunity E book symbol now bx sx c" "route_key c = route_key ev"
      using cset by force
    then show "False" using cross_intra_key [of symbol _ ex]
      unfolding cross_key [OF c(1)] intra_key_route [OF that] by blast
  qed
  ultimately show ?thesis by (auto simp: tick_candidates_def split: option.splits)
qed

section \<open>The two loops against sets\<close>

text \<open>Whether a candidate is active after its observation.\<close>

definition stays_open :: "agg_env \<Rightarrow> bool \<Rightarrow> spread_event \<Rightarrow> bool" where
  "stays_open E was_open ev \<longleftrightarrow>
     (if was_open then get_close_threshold (ae_dec E) (ae_config E) < ev_spread ev
      else get_hard_min_spread (ae_config E) \<le> ev_spread ev)"

lemma observe_open:
  assumes "observe E ev active current = (active', current', out)"
  shows "k \<in> open_routes active' \<longleftrightarrow>
    (if k = route_key ev then stays_open E (k \<in> open_routes active) ev else k \<in> open_routes active)"
  using assms by (auto simp: observe_def Let_def stays_open_def open_routes_lookup gomap_simps
      split: option.splits if_splits)

lemma observe_all_open:
  assumes "distinct (map route_key evs)"
    and "fold (observe_eligible E) evs (active, current, events) = (active', current', events')"
  shows "current' = current \<union> route_key ` set (filter (route_volume_eligible E) evs)
    \<and> (\<forall>k. k \<in> open_routes active' \<longleftrightarrow>
         (if k \<in> route_key ` set (filter (route_volume_eligible E) evs)
          then \<exists>ev\<in>set evs. route_volume_eligible E ev \<and> route_key ev = k \<and> stays_open E (k \<in> open_routes active) ev
          else k \<in> open_routes active))"
  using assms
proof (induction evs arbitrary: active current events)
  case (Cons ev evs)
  show ?case
  proof (cases "route_volume_eligible E ev")
    case False
    then have "observe_eligible E ev (active, current, events) = (active, current, events)"
      by (simp add: observe_eligible_def)
    with Cons.prems have "fold (observe_eligible E) evs (active, current, events) = (active', current', events')"
      "distinct (map route_key evs)" by simp_all
    from Cons.IH [OF this(2,1)] False show ?thesis by auto
  next
    case True
    obtain a1 c1 o1 where ob: "observe E ev active current = (a1, c1, o1)" by (metis prod_cases3)
    with True have "observe_eligible E ev (active, current, events) = (a1, c1, events @ opt_list o1)"
      by (simp add: observe_eligible_def)
    with Cons.prems have "fold (observe_eligible E) evs (a1, c1, events @ opt_list o1) = (active', current', events')"
      "distinct (map route_key evs)" by simp_all
    note IH = Cons.IH [OF this(2,1)]
    have c1: "c1 = insert (route_key ev) current" using ob
      by (auto simp: observe_def Let_def split: option.splits if_splits)
    have new: "route_key ev \<notin> route_key ` set evs" using Cons.prems(1) by simp
    have elig: "route_key ev \<notin> route_key ` set (filter (route_volume_eligible E) evs)" using new by auto
    show ?thesis
    proof (intro conjI allI)
      show "current' = current \<union> route_key ` set (filter (route_volume_eligible E) (ev # evs))"
        using IH True c1 by auto
      fix k
      show "k \<in> open_routes active' \<longleftrightarrow>
         (if k \<in> route_key ` set (filter (route_volume_eligible E) (ev # evs))
          then \<exists>e\<in>set (ev # evs). route_volume_eligible E e \<and> route_key e = k \<and> stays_open E (k \<in> open_routes active) e
          else k \<in> open_routes active)"
      proof (cases "k = route_key ev")
        case eq: True
        have "\<forall>e\<in>set evs. route_key e \<noteq> k" using new unfolding eq by (metis imageI)
        with eq IH elig True observe_open [OF ob, of k] show ?thesis by auto
      next
        case False
        with IH True observe_open [OF ob, of k] show ?thesis by auto
      qed
    qed
  qed
qed simp

lemma close_missing_open:
  assumes "open_routes active \<inter> {k. has_prefix k pfx \<and> k \<notin> current} \<subseteq> set keys"
    and "close_missing pfx current now keys active = (active', events)"
  shows "open_routes active' = open_routes active - {k. has_prefix k pfx \<and> k \<notin> current}"
  using assms
proof (induction pfx current now keys active arbitrary: active' events rule: close_missing.induct)
  case (2 pfx current now key keys active)
  show ?case
  proof (cases "\<not> has_prefix key pfx \<or> key \<in> current")
    case True
    with "2.IH"(1) [OF True, of active' events] "2.prems" show ?thesis by auto
  next
    case hit: False
    have sub: "open_routes (mdel key active) \<inter> {k. has_prefix k pfx \<and> k \<notin> current} \<subseteq> set keys"
      using "2.prems"(1) by auto
    show ?thesis
    proof (cases "map_of active key")
      case None
      from "2.IH"(2) [OF hit None sub, of active' events] None hit "2.prems"(2)
      show ?thesis by auto
    next
      case (Some st)
      obtain a1 e1 where r: "close_missing pfx current now keys (mdel key active) = (a1, e1)" by fastforce
      from r Some hit "2.prems"(2) have "active' = a1" by simp
      with "2.IH"(3) [OF hit Some sub r] hit show ?thesis by auto
    qed
  qed
qed auto

text \<open>The candidates whose key stays open after a tick.\<close>

definition tick_routes ::
  "agg_env \<Rightarrow> exchange_book \<Rightarrow> string \<Rightarrow> string \<Rightarrow> gtime \<Rightarrow> spread_event set" where
  "tick_routes E book ex symbol now =
     {ev\<in>set (tick_candidates E book ex symbol now). route_volume_eligible E ev}"

lemma tick_shard_open:
  assumes E: "order_ok (ae_order E)" and sh: "active_ok (sh_active sh)"
    and book: "book_ok book" "names_ok book"
    and b: "book = store_quote t (book_for sh (mt_symbol t))"
  shows "k \<in> open_routes (sh_active (fst (tick_shard E t sh))) \<longleftrightarrow>
    (if has_prefix k (mt_symbol t @ '':'')
     then \<exists>ev\<in>tick_routes E book (mt_exchange t) (mt_symbol t) (tick_now t).
            route_key ev = k \<and> stays_open E (k \<in> open_routes (sh_active sh)) ev
     else k \<in> open_routes (sh_active sh))"
proof -
  let ?sym = "mt_symbol t" and ?now = "tick_now t"
  let ?evs = "tick_candidates E book (mt_exchange t) ?sym ?now"
  let ?el = "route_key ` set (filter (route_volume_eligible E) ?evs)"
  obtain a1 c1 e1 where f: "fold (observe_eligible E) ?evs (sh_active sh, {}, []) = (a1, c1, e1)"
    by (metis prod_cases3)
  obtain a2 e2 where cl: "close_missing (?sym @ '':'') c1 ?now (ae_order E (mkeys a1)) a1 = (a2, e2)"
    by fastforce
  have res: "sh_active (fst (tick_shard E t sh)) = a2"
    by (simp add: tick_shard_def Let_def f cl flip: b)
  have o1: "c1 = ?el" "\<And>k. k \<in> open_routes a1 \<longleftrightarrow> (if k \<in> ?el
      then \<exists>ev\<in>set ?evs. route_volume_eligible E ev \<and> route_key ev = k \<and> stays_open E (k \<in> open_routes (sh_active sh)) ev
      else k \<in> open_routes (sh_active sh))"
    using observe_all_open [OF tick_candidates_keys [OF book E] f] by auto
  have "open_routes a2 = open_routes a1 - {k. has_prefix k (?sym @ '':'') \<and> k \<notin> c1}"
    by (rule close_missing_open [OF _ cl]) (simp add: order_ok_set [OF E] open_routes_keys)
  moreover have "has_prefix k' (?sym @ '':'')" if "k' \<in> ?el" for k'
  proof -
    from that obtain ev where ev: "ev \<in> set ?evs" "k' = route_key ev" by auto
    from has_prefix_route [of ev] show ?thesis
      unfolding ev(2) tick_candidates_symbol(1) [OF book(1) E ev(1)] .
  qed
  ultimately show ?thesis unfolding res using o1 by (auto simp: tick_routes_def)
qed

section \<open>Counting opens and closes\<close>

definition opened_count :: "string \<Rightarrow> spread_event list \<Rightarrow> nat" where
  "opened_count k es = length (filter (\<lambda>e. route_key e = k \<and> ev_lifecycle e = SignalOpened) es)"

definition closed_count :: "string \<Rightarrow> spread_event list \<Rightarrow> nat" where
  "closed_count k es = length (filter (\<lambda>e. route_key e = k \<and> ev_lifecycle e = SignalClosed) es)"

lemma life_run_counts:
  "life_run es K = Some K' \<Longrightarrow>
   opened_count k es + (if k \<in> K then 1 else 0) = closed_count k es + (if k \<in> K' then 1 else 0)"
proof (induction es arbitrary: K)
  case Nil
  then show ?case by (simp add: opened_count_def closed_count_def)
next
  case (Cons e es)
  then obtain K1 where s: "life_step e K = Some K1" "life_run es K1 = Some K'"
    by (auto split: option.splits)
  have "opened_count k es + (if k \<in> K1 then 1 else 0) = closed_count k es + (if k \<in> K' then 1 else 0)"
    by (rule Cons.IH [OF s(2)])
  with s(1) show ?case
    by (cases "route_key e = k")
      (auto simp: opened_count_def closed_count_def Let_def split: lifecycle.splits if_splits)
qed

lemma flush_shard_empty: "sh_active (fst (flush_shard ord now sh)) = []"
  by (simp add: flush_shard_def)

lemma each_shard_at:
  "distinct is \<Longrightarrow> ag_shards (fst (each_shard f is ag)) i =
    (if i \<in> set is then fst (f (ag_shards ag i)) else ag_shards ag i)"
  by (induction "is" arbitrary: ag) (auto simp: case_prod_beta Let_def)

lemma open_keys_flush:
  assumes "agg_ok ag" shows "open_keys (fst (flush_active ord clock now ag)) = {}"
proof -
  have "open_routes (sh_active (ag_shards ag i)) = {}" if "\<not> i < num_shards" for i
  proof -
    have lt: "shard_for (key_symbol k) < num_shards" for k by (simp add: shard_for_def num_shards_def)
    have "shard_for (key_symbol k) = i" if "k \<in> open_routes (sh_active (ag_shards ag i))" for k
      using assms that by (simp add: agg_ok_def shard_ok_def)
    with lt that show ?thesis by blast
  qed
  then show ?thesis
    by (auto simp: open_keys_def flush_active_def Let_def each_shard_at flush_shard_empty)
qed

section \<open>The janitor\<close>

lemma prune_quote:
  assumes "book_ok book"
  shows "quote_of (prune_book oldest book) ex mk =
    (case quote_of book ex mk of None \<Rightarrow> None | Some p \<Rightarrow> if ps_received p < oldest then None else Some p)"
proof (cases "map_of book ex")
  case None
  then have "ex \<notin> set (mkeys book)" unfolding mget_None .
  then have "map_of (prune_book oldest book) ex = None"
    unfolding map_of_eq_None_iff by (force simp: prune_book_def)
  with None show ?thesis by (simp add: quote_of_def)
next
  case (Some ms)
  let ?m = "map (\<lambda>(ex, ms). (ex, prune_markets oldest ms)) book"
  have wf: "mwf ?m" using assms by (simp add: book_ok_def case_prod_beta comp_def)
  have ms: "mwf ms" using Some assms by (auto simp: book_ok_def dest!: map_of_SomeD)
  have "map_of ?m ex = Some (prune_markets oldest ms)" using Some by (simp add: mget_map)
  then have "map_of (prune_book oldest book) ex =
      (if prune_markets oldest ms = [] then None else Some (prune_markets oldest ms))"
    unfolding prune_book_def using mget_filter [OF wf, of "\<lambda>ex ms. length ms \<noteq> 0" ex] by auto
  moreover have "map_of (prune_markets oldest ms) mk =
      (case map_of ms mk of None \<Rightarrow> None | Some p \<Rightarrow> if ps_received p < oldest then None else Some p)"
    unfolding prune_markets_def using mget_filter [OF ms, of "\<lambda>mk p. \<not> time_before (ps_received p) oldest" mk]
    by (auto simp: time_before_def split: option.splits)
  ultimately show ?thesis using Some
    by (cases "prune_markets oldest ms = []") (auto simp: quote_of_def split: option.splits)
qed

text \<open>A quote that is fresh now or at any later moment survives pruning.\<close>

lemma fresh_survives:
  assumes "book_ok book" "0 \<le> ttl" "ttl < 2 ^ 63 - 1" "now \<le> later"
  shows "(quote_of (prune_book (now - ttl * 12) book) ex mk = Some p \<and> fresh (Some p) later ttl) \<longleftrightarrow>
    (quote_of book ex mk = Some p \<and> fresh (Some p) later ttl)"
proof -
  have "now - ttl * 12 \<le> ps_received p" if "fresh (Some p) later ttl"
    using that assms(2-4) by (simp add: fresh_Some time_sub_le)
  then show ?thesis by (auto simp: prune_quote [OF assms(1)] split: option.splits if_splits)
qed

lemma book_for_prune:
  assumes "mwf prices"
  shows "quote_of (case map_of (prune_prices oldest prices) sy of None \<Rightarrow> [] | Some b \<Rightarrow> b) ex mk
    = quote_of (prune_book oldest (case map_of prices sy of None \<Rightarrow> [] | Some b \<Rightarrow> b)) ex mk"
proof -
  let ?m = "map (\<lambda>(sy, b). (sy, prune_book oldest b)) prices"
  have wf: "mwf ?m" using assms by (simp add: case_prod_beta comp_def)
  have "map_of (prune_prices oldest prices) sy = (case map_of prices sy of None \<Rightarrow> None
      | Some b \<Rightarrow> if prune_book oldest b = [] then None else Some (prune_book oldest b))"
    unfolding prune_prices_def using mget_filter [OF wf, of "\<lambda>sy b. length b \<noteq> 0" sy]
    by (auto simp: mget_map split: option.splits)
  then show ?thesis
    by (auto simp: quote_of_def prune_book_def split: option.splits)
qed

lemma opportunity_survives:
  assumes "book_ok book" "0 \<le> ae_ttl E" "ae_ttl E < 2 ^ 63 - 1" "now \<le> later"
    and "\<And>ex mk. quote_of book' ex mk = quote_of (prune_book (now - ae_ttl E * 12) book) ex mk"
  shows "cross_opportunity E book' symbol later bx sx ev \<longleftrightarrow> cross_opportunity E book symbol later bx sx ev"
    "intra_candidate E book' ex symbol later = Some ev \<longleftrightarrow> intra_candidate E book ex symbol later = Some ev"
  using fresh_survives [OF assms(1-4)] unfolding cross_opportunity_def intra_candidate_Some assms(5)
  by (metis, metis)

section \<open>Thresholds\<close>

lemma candidate_spread_ge:
  assumes "book_ok book" "order_ok (ae_order E)" "ev \<in> set (tick_candidates E book ex symbol now)"
    and "ae_funding E = Some fm" "fm_config fm = Some p"
  shows "fc_min_spread p \<le> ev_spread ev"
  using tick_candidates_symbol(3) [OF assms(1-3)]
proof
  assume "\<exists>bx sx. cross_opportunity E book symbol now bx sx ev"
  then obtain bx b sx s where "cross_event E symbol now bx b sx s = Some ev"
    unfolding cross_opportunity_def by blast
  then obtain sp where "ar_profitable (evaluate_futures_pair fm bx symbol sx symbol sp now)"
    "ev_spread ev = ar_net_spread (evaluate_futures_pair fm bx symbol sx symbol sp now)"
    using assms(4) by (auto simp: cross_event_def Let_def split: if_splits)
  then show ?thesis using assms(5) by (auto elim!: pair_profitable_result)
next
  assume "intra_candidate E book ex symbol now = Some ev"
  then obtain b s where "intra_event E symbol now ex b s = Some ev"
    unfolding intra_candidate_Some by blast
  then obtain sp where "ar_profitable (evaluate_spot_futures fm ex symbol sp now)"
    "ev_spread ev = ar_net_spread (evaluate_spot_futures fm ex symbol sp now)"
    using assms(4) by (auto simp: intra_event_def Let_def split: if_splits)
  then show ?thesis using assms(5) by (auto elim!: spot_profitable_result)
qed

lemma close_below_open: "env_ok E \<Longrightarrow> get_close_threshold (ae_dec E) (ae_config E) < get_hard_min_spread (ae_config E)"
proof -
  assume E: "env_ok E"
  let ?h = "get_hard_min_spread (ae_config E)"
  have "1 / 100 \<le> ?h"
    using E by (simp add: env_ok_def config_ok_def get_hard_min_spread_def hard_min_spread_def)
  moreover have "lib_div (ae_dec E) ?h 2 \<le> ?h / 2 + 1 / 10 ^ 16"
    using E by (intro div_ok_upper) (simp_all add: env_ok_def)
  ultimately show ?thesis by (simp add: get_close_threshold_def)
qed

lemma observe_no_close:
  assumes "get_close_threshold (ae_dec E) (ae_config E) < ev_spread ev"
    and "observe E ev active current = (active', current', Some e)"
  shows "ev_lifecycle e \<noteq> SignalClosed"
  using assms by (auto simp: observe_def Let_def split: option.splits if_splits)

lemma observe_all_no_close:
  assumes "\<forall>ev\<in>set evs. get_close_threshold (ae_dec E) (ae_config E) < ev_spread ev"
    and "fold (observe_eligible E) evs (active, current, events) = (active', current', events')"
    and "\<forall>e\<in>set events. ev_lifecycle e \<noteq> SignalClosed"
  shows "\<forall>e\<in>set events'. ev_lifecycle e \<noteq> SignalClosed"
  using assms
proof (induction evs arbitrary: active current events)
  case (Cons ev evs)
  obtain a1 c1 o1 where st: "observe_eligible E ev (active, current, events) = (a1, c1, o1)"
    by (metis prod_cases3)
  have "\<forall>e\<in>set o1. ev_lifecycle e \<noteq> SignalClosed"
    using st Cons.prems(1,3) observe_no_close
    by (fastforce simp: observe_eligible_def split: if_splits prod.splits option.splits)
  with Cons st show ?case by (simp)
qed simp

lemma close_missing_events:
  "close_missing pfx current now keys active = (active', events) \<Longrightarrow>
   \<forall>e\<in>set events. ev_lifecycle e = SignalClosed \<and> ev_spread e = 0"
  by (induction pfx current now keys active arbitrary: active' events rule: close_missing.induct)
    (fastforce split: if_splits option.splits prod.splits)+

section \<open>Properties\<close>

text \<open>
  C3. Every route lives a legal life: over any run of ticks, janitor turns and flushes, with
  configuration, users, funding and volume changing arbitrarily between the operations, the
  events sent to the tracker replay on the lifecycle automaton (open only when closed,
  update and close only when open), and the routes it ends with are the active ones.
\<close>

theorem route_lifecycles:
  assumes "\<forall>x\<in>set ops. agg_op_ok x"
  shows "life_run (snd (run_out agg_step ops empty_aggregator)) {}
    = Some (open_keys (fst (run_out agg_step ops empty_aggregator)))"
  using agg_source.run_source [OF agg_ok_empty assms] by (simp add: open_keys_empty)

text \<open>
  Controlled shutdown: after the final \<open>FlushActive\<close> no route is active, and in the whole
  history of events every route was closed exactly as often as it was opened, so no signal
  is left open downstream.
\<close>

theorem shutdown_closes_everything:
  assumes "\<forall>x\<in>set ops. agg_op_ok x" and "order_ok ord"
    and "run_out agg_step (ops @ [OpFlush ord clock now]) empty_aggregator = (ag, evs)"
  shows "open_keys ag = {} \<and> (\<forall>k. opened_count k evs = closed_count k evs)"
proof -
  have all: "\<forall>x\<in>set (ops @ [OpFlush ord clock now]). agg_op_ok x" using assms(1,2) by simp
  have life: "life_run evs {} = Some (open_keys ag)"
    using agg_source.run_source [OF agg_ok_empty all] assms(3) by (simp add: open_keys_empty)
  have "ag = fst (flush_active ord clock now (fst (run_out agg_step ops empty_aggregator)))"
    using assms(3) by (auto simp: run_out_append Let_def split: prod.splits)
  then have "open_keys ag = {}"
    using agg_source.run_source [OF agg_ok_empty assms(1)] by (simp add: open_keys_flush)
  with life life_run_counts [OF life] show ?thesis by simp
qed

text \<open>
  C2. After an accepted tick the active routes of its symbol are exactly the volume-eligible
  candidates of the new book (all futures pairs, and the spot-futures route of the tick's
  own exchange) whose net spread passes the threshold: the opening threshold for a route
  that was not active, the closing threshold for one that was. Routes of other symbols are
  untouched.
\<close>

theorem tick_active_routes:
  assumes "order_ok (ae_order E)" and "agg_ok ag" and "valid_tick t0"
    and "t = normalize_tick t0" and "mt_symbol t \<noteq> []" and "i = shard_for (mt_symbol t)"
    and "\<not> late_tick t (book_for (ag_shards ag i) (mt_symbol t))"
    and "book = store_quote t (book_for (ag_shards ag i) (mt_symbol t))" and "names_ok book"
  shows "k \<in> open_routes (sh_active (ag_shards (fst (process_tick E t0 ag)) i)) \<longleftrightarrow>
    (if has_prefix k (mt_symbol t @ '':'')
     then \<exists>ev\<in>tick_routes E book (mt_exchange t) (mt_symbol t) (tick_now t).
            route_key ev = k \<and> stays_open E (k \<in> open_routes (sh_active (ag_shards ag i))) ev
     else k \<in> open_routes (sh_active (ag_shards ag i)))"
proof -
  have sh: "shard_ok i (ag_shards ag i)" using assms(2) by (simp add: agg_ok_def)
  have book: "book_ok book" unfolding assms(8)
    by (rule store_quote_ok [OF book_for_ok [OF sh]])
      (use assms(3,4) in \<open>auto simp: valid_tick_def\<close>)
  have "ag_shards (fst (process_tick E t0 ag)) i = fst (tick_shard E t (ag_shards ag i))"
    using assms(3,5,7) by (simp add: process_tick_def Let_def case_prod_beta assms(6) flip: assms(4))
  then show ?thesis
    using tick_shard_open [OF assms(1) _ book assms(9,8)] sh by (simp add: shard_ok_def)
qed

text \<open>
  The spot-futures route of an exchange does not survive the next tick of any other
  exchange: only the tick's own exchange is examined for such a route, and the loop that
  follows closes every active route of the symbol not seen in this tick, however profitable
  the route still is.
\<close>

theorem other_exchange_closes_intra:
  assumes "order_ok (ae_order E)" and "agg_ok ag" and "valid_tick t0"
    and "t = normalize_tick t0" and "mt_symbol t \<noteq> []" and "i = shard_for (mt_symbol t)"
    and "\<not> late_tick t (book_for (ag_shards ag i) (mt_symbol t))"
    and "names_ok (store_quote t (book_for (ag_shards ag i) (mt_symbol t)))"
    and "ex \<noteq> mt_exchange t"
  shows "intra_key (mt_symbol t) ex \<notin> open_routes (sh_active (ag_shards (fst (process_tick E t0 ag)) i))"
proof -
  let ?book = "store_quote t (book_for (ag_shards ag i) (mt_symbol t))"
  have sh: "shard_ok i (ag_shards ag i)" using assms(2) by (simp add: agg_ok_def)
  have book: "book_ok ?book"
    by (rule store_quote_ok [OF book_for_ok [OF sh]]) (use assms(3,4) in \<open>auto simp: valid_tick_def\<close>)
  have "ag_shards (fst (process_tick E t0 ag)) i = fst (tick_shard E t (ag_shards ag i))"
    using assms(3,5,7) by (simp add: process_tick_def Let_def case_prod_beta assms(6) flip: assms(4))
  note open_iff = tick_shard_open [OF assms(1) _ book assms(8) refl, folded this]
  have "has_prefix (intra_key (mt_symbol t) ex) (mt_symbol t @ '':'')"
    by (simp add: has_prefix_def intra_key_def)
  moreover have "route_key ev \<noteq> intra_key (mt_symbol t) ex"
    if "ev \<in> tick_routes E ?book (mt_exchange t) (mt_symbol t) (tick_now t)" for ev
  proof -
    from that have "ev \<in> set (tick_candidates E ?book (mt_exchange t) (mt_symbol t) (tick_now t))"
      by (simp add: tick_routes_def)
    from tick_candidates_symbol(3) [OF book assms(1) this] show ?thesis
    proof
      assume "\<exists>bx sx. cross_opportunity E ?book (mt_symbol t) (tick_now t) bx sx ev"
      then show ?thesis using cross_key cross_intra_key by metis
    next
      assume "intra_candidate E ?book (mt_exchange t) (mt_symbol t) (tick_now t) = Some ev"
      from intra_key_route [OF this] show ?thesis using intra_key_inj assms(9) by metis
    qed
  qed
  ultimately show ?thesis using open_iff sh by (auto simp: shard_ok_def)
qed

text \<open>
  With the funding manager's minimum at least the configured floor (the wiring of the
  application), the hysteresis between opening and closing threshold never takes effect:
  every close event of a tick is a route that left the candidate set and carries spread 0.
\<close>

theorem close_threshold_never_reached:
  assumes "env_ok E" and "agg_ok ag" and "ae_funding E = Some fm" and "fm_config fm = Some p"
    and "get_hard_min_spread (ae_config E) \<le> fc_min_spread p"
    and "e \<in> set (snd (process_tick E t0 ag))" and "ev_lifecycle e = SignalClosed"
  shows "ev_spread e = 0"
proof -
  let ?t = "normalize_tick t0" and ?ag = "ag\<lparr>ag_ticks := ag_ticks ag + 1\<rparr>"
  let ?sh = "ag_shards ag (shard_for (mt_symbol ?t))"
  let ?book = "store_quote ?t (book_for ?sh (mt_symbol ?t))"
  let ?evs = "tick_candidates E ?book (mt_exchange ?t) (mt_symbol ?t) (tick_now ?t)"
  have ord: "order_ok (ae_order E)" using assms(1) by (simp add: env_ok_def)
  from assms(6) have v: "valid_tick t0" and e: "e \<in> set (snd (tick_shard E ?t ?sh))"
    by (auto simp: process_tick_def Let_def case_prod_beta split: if_splits)
  have "shard_ok (shard_for (mt_symbol ?t)) ?sh" using assms(2) by (simp add: agg_ok_def)
  from store_quote_ok [OF book_for_ok [OF this], of ?t] v have book: "book_ok ?book"
    by (auto simp: valid_tick_def)
  obtain a1 c1 e1 where f: "fold (observe_eligible E) ?evs (sh_active ?sh, {}, []) = (a1, c1, e1)"
    by (metis prod_cases3)
  obtain a2 e2 where cl: "close_missing (mt_symbol ?t @ '':'') c1 (tick_now ?t) (ae_order E (mkeys a1)) a1 = (a2, e2)"
    by fastforce
  have "e \<in> set e1 \<or> e \<in> set e2" using e unfolding tick_shard_def Let_def f prod.case cl by simp
  moreover have "\<forall>ev\<in>set ?evs. get_close_threshold (ae_dec E) (ae_config E) < ev_spread ev"
    using candidate_spread_ge [OF book ord _ assms(3,4)] close_below_open [OF assms(1)] assms(5)
    by fastforce
  from observe_all_no_close [OF this f] have "\<forall>e\<in>set e1. ev_lifecycle e \<noteq> SignalClosed" by simp
  ultimately show ?thesis using assms(7) close_missing_events [OF cl] by blast
qed

text \<open>
  Quotes never go back in time: an accepted tick replaces only the quote of its own
  exchange and market, and a tick received before the stored quote changes no price, no
  active route and sends no event.
\<close>

theorem late_ticks_ignored:
  assumes "t = normalize_tick t0" and "i = shard_for (mt_symbol t)"
    and "quote_of (book_for (ag_shards ag i) (mt_symbol t)) (mt_exchange t) (mt_market t) = Some old"
    and "ps_received old \<noteq> 0" and "mt_received_at t < ps_received old"
  shows "ag_shards (fst (process_tick E t0 ag)) = ag_shards ag \<and> snd (process_tick E t0 ag) = []"
  using assms by (simp add: process_tick_def Let_def late_tick_def is_zero_time_def time_before_def)

text \<open>
  The janitor at time \<open>now\<close> closes exactly the active routes without an observation for
  ten minutes, and its pruning of prices is invisible: at that moment and at any later one,
  the remaining quotes offer the same cross-exchange and spot-futures routes as before.
\<close>

theorem janitor_effect:
  assumes "env_ok E" and "agg_ok ag" and "0 \<le> ae_ttl E" and "ae_ttl E < 2 ^ 63 - 1" and "now \<le> later"
    and "i < num_shards" and "ag' = fst (janitor E now ag)"
  shows "open_routes (sh_active (ag_shards ag' i)) =
      {k. \<exists>st. map_of (sh_active (ag_shards ag i)) k = Some st \<and> \<not> route_stale now st}
    \<and> (cross_opportunity E (book_for (ag_shards ag' i) sy) sy later bx sx ev
         \<longleftrightarrow> cross_opportunity E (book_for (ag_shards ag i) sy) sy later bx sx ev)
    \<and> (intra_candidate E (book_for (ag_shards ag' i) sy) ex sy later = Some ev
         \<longleftrightarrow> intra_candidate E (book_for (ag_shards ag i) sy) ex sy later = Some ev)"
proof -
  let ?sh = "ag_shards ag i"
  have sh: "shard_ok i ?sh" using assms(2) by (simp add: agg_ok_def)
  have j: "ag_shards ag' i = fst (janitor_shard E now ?sh)"
    using assms(6) unfolding assms(7) janitor_def by (simp add: each_shard_at)
  have wf: "mwf (sh_active ?sh)" "mwf (sh_prices ?sh)" using sh by (simp_all add: shard_ok_def active_ok_def)
  have "open_routes (sh_active (ag_shards ag' i)) =
      {k. \<exists>st. map_of (sh_active ?sh) k = Some st \<and> \<not> route_stale now st}"
    using mget_filter [OF wf(1), of "\<lambda>k st. \<not> route_stale now st"]
    by (auto simp: j janitor_shard_def Let_def open_routes_def split: option.splits if_splits)
  moreover have q: "quote_of (book_for (ag_shards ag' i) sy) ex mk
      = quote_of (prune_book (now - ae_ttl E * 12) (book_for ?sh sy)) ex mk" for ex mk
    using book_for_prune [OF wf(2), of "now - ae_ttl E * 12" sy ex mk]
    by (simp add: j janitor_shard_def Let_def book_for_def)
  note opportunity_survives [OF book_for_ok [OF sh] assms(3-5) q]
  ultimately show ?thesis by blast
qed

section \<open>Witnesses\<close>

definition sample_tick :: "string \<Rightarrow> price_state \<Rightarrow> market_tick" where
  "sample_tick ex q = \<lparr>mt_exchange = ex, mt_symbol = ''BTC-USDT'', mt_market = MarketTypeFutures,
     mt_bid = ps_bid q, mt_ask = ps_ask q, mt_volume = ps_volume q, mt_event_time = 0,
     mt_received_at = ps_received q, mt_timestamp = 0\<rparr>"

lemma sample_symbol: "normalize_symbol ''BTC-USDT'' = ''BTCUSDT''"
  by (simp add: normalize_symbol_def remove_chars_def string_eval)

lemma sample_ops_ok:
  "\<forall>x\<in>set [OpTick sample_env (sample_tick ''OKX'' okx_quote), OpTick sample_env (sample_tick ''MEXC'' mexc_quote)].
     agg_op_ok x"
  by (simp add: sample_env_def order_ok_rev sample_tick_def sample_symbol)

theorem route_lifecycles_witness:
  "\<exists>K. life_run (snd (run_out agg_step [OpTick sample_env (sample_tick ''OKX'' okx_quote),
      OpTick sample_env (sample_tick ''MEXC'' mexc_quote)] empty_aggregator)) {} = Some K"
  using route_lifecycles [OF sample_ops_ok] by blast

theorem shutdown_closes_everything_witness:
  "open_keys (fst (run_out agg_step ([OpTick sample_env (sample_tick ''OKX'' okx_quote),
      OpTick sample_env (sample_tick ''MEXC'' mexc_quote)] @ [OpFlush rev 9 8]) empty_aggregator)) = {}"
  using shutdown_closes_everything [OF sample_ops_ok order_ok_rev surjective_pairing] by blast

text \<open>An aggregator that knows the OKX quote and has an active spot-futures route on OKX.\<close>

definition intra_route :: spread_event where
  "intra_route = sample_route\<lparr>ev_type := IntraExchange, ev_sell_exchange := ''OKX'',
     ev_buy_market := MarketTypeSpot, ev_lifecycle := SignalOpened\<rparr>"

definition intra_state :: route_state where
  "intra_state = \<lparr>rs_peak = 1 / 10, rs_last = intra_route, rs_opened = 6\<rparr>"

definition sample_shard :: shard where
  "sample_shard = \<lparr>sh_prices = [(''BTCUSDT'', [(''OKX'', [(MarketTypeFutures, okx_quote)])])],
     sh_active = [(intra_key ''BTCUSDT'' ''OKX'', intra_state)]\<rparr>"

definition sample_aggregator :: aggregator where
  "sample_aggregator = empty_aggregator\<lparr>ag_shards :=
     (ag_shards empty_aggregator)(shard_for ''BTCUSDT'' := sample_shard)\<rparr>"

lemma intra_route_key: "route_key intra_route = intra_key ''BTCUSDT'' ''OKX''"
  by (simp add: intra_route_def sample_route_def route_key_def Let_def intra_key_def)

lemma sample_aggregator_ok: "agg_ok sample_aggregator"
proof -
  have "key_symbol (intra_key ''BTCUSDT'' ''OKX'') = ''BTCUSDT''"
    by (simp add: key_symbol_def intra_key_def)
  then have "shard_ok (shard_for ''BTCUSDT'') sample_shard"
    by (simp add: shard_ok_def sample_shard_def active_ok_def intra_state_def intra_route_key
        open_routes_keys book_ok_def quote_ok_def okx_quote_def)
  moreover have "shard_ok i \<lparr>sh_prices = [], sh_active = []\<rparr>" for i
    by (simp add: shard_ok_def active_ok_def)
  ultimately show ?thesis by (simp add: agg_ok_def sample_aggregator_def empty_aggregator_def)
qed

definition mexc_tick :: market_tick where
  "mexc_tick = \<lparr>mt_exchange = ''MEXC'', mt_symbol = ''BTCUSDT'', mt_market = MarketTypeFutures,
     mt_bid = 110, mt_ask = 111, mt_volume = 1000, mt_event_time = 6, mt_received_at = 6, mt_timestamp = 6\<rparr>"

lemma sample_tick_norm: "normalize_tick (sample_tick ''MEXC'' mexc_quote) = mexc_tick"
  by (simp add: normalize_tick_def sample_tick_def sample_symbol sample_names Let_def is_zero_time_def
      mexc_quote_def mexc_tick_def)

lemma sample_tick_fields:
  "mt_symbol mexc_tick = ''BTCUSDT''" "mt_exchange mexc_tick = ''MEXC''" "tick_now mexc_tick = 6"
  by (simp_all add: mexc_tick_def tick_now_def is_zero_time_def)

lemma sample_tick_valid: "valid_tick (sample_tick ''MEXC'' mexc_quote)"
  by (simp add: valid_tick_def sample_tick_def mexc_quote_def is_zero_time_def string_eval)

lemma sample_store:
  "store_quote mexc_tick (book_for (ag_shards sample_aggregator (shard_for ''BTCUSDT'')) ''BTCUSDT'') = sample_book"
  by (simp add: store_quote_def mexc_tick_def mexc_quote_def book_for_def
      sample_aggregator_def sample_shard_def markets_for_def sample_book_def)

lemma sample_not_late:
  "\<not> late_tick mexc_tick (book_for (ag_shards sample_aggregator (shard_for ''BTCUSDT'')) ''BTCUSDT'')"
  by (simp add: late_tick_def mexc_tick_def book_for_def sample_aggregator_def
      sample_shard_def quote_of_def)

lemma sample_names_ok: "names_ok sample_book"
  by (simp add: names_ok_def sample_book_def)

lemma sample_order: "order_ok (ae_order sample_env)"
  using sample_env_ok by (simp add: env_ok_def)

theorem tick_active_routes_witness:
  "route_key sample_route \<in> open_routes (sh_active (ag_shards
     (fst (process_tick sample_env (sample_tick ''MEXC'' mexc_quote) sample_aggregator)) (shard_for ''BTCUSDT'')))"
proof -
  have el: "route_volume_eligible sample_env sample_route"
    by (simp add: route_volume_eligible_def sample_env_def range_users_def get_all_users_def
        sample_user_def sample_route_def)
  have "symbol_may_pass_volume sample_env sample_book ''BTCUSDT'' 6"
    by (rule eligible_passes [OF sample_env_ok cross_legs_fresh [OF sample_opportunity] el])
  then have "sample_route \<in> set (tick_candidates sample_env sample_book ''MEXC'' ''BTCUSDT'' 6)"
    using sample_candidate by (simp add: tick_candidates_def is_pair_enabled_def sample_env_def has_users_def)
  then have r: "sample_route \<in> tick_routes sample_env sample_book ''MEXC'' ''BTCUSDT'' 6"
    using el by (simp add: tick_routes_def)
  have "has_prefix (route_key sample_route) (''BTCUSDT'' @ '':'')"
    using has_prefix_route [of sample_route] by (simp add: sample_route_def)
  moreover have "stays_open sample_env b sample_route" for b
    using close_below_open [OF sample_env_ok]
    by (auto simp: stays_open_def get_hard_min_spread_def sample_env_def new_screener_config_def
        hard_min_spread_def sample_route_def)
  ultimately show ?thesis
    using tick_active_routes [OF sample_order sample_aggregator_ok sample_tick_valid refl _ refl, of
        sample_book "route_key sample_route", unfolded sample_tick_norm sample_tick_fields sample_store]
      sample_not_late sample_names_ok r by auto
qed

theorem other_exchange_closes_intra_witness:
  "intra_key ''BTCUSDT'' ''OKX'' \<in> open_routes (sh_active (ag_shards sample_aggregator (shard_for ''BTCUSDT'')))
   \<and> intra_key ''BTCUSDT'' ''OKX'' \<notin> open_routes (sh_active (ag_shards
     (fst (process_tick sample_env (sample_tick ''MEXC'' mexc_quote) sample_aggregator)) (shard_for ''BTCUSDT'')))"
proof
  show "intra_key ''BTCUSDT'' ''OKX'' \<in> open_routes (sh_active (ag_shards sample_aggregator (shard_for ''BTCUSDT'')))"
    by (simp add: sample_aggregator_def sample_shard_def open_routes_def)
  show "intra_key ''BTCUSDT'' ''OKX'' \<notin> open_routes (sh_active (ag_shards
     (fst (process_tick sample_env (sample_tick ''MEXC'' mexc_quote) sample_aggregator)) (shard_for ''BTCUSDT'')))"
    using other_exchange_closes_intra [OF sample_order sample_aggregator_ok sample_tick_valid refl _ refl, of
        "''OKX''", unfolded sample_tick_norm sample_tick_fields sample_store] sample_not_late sample_names_ok by simp
qed

definition floor_env :: agg_env where
  "floor_env = sample_env\<lparr>ae_config := new_screener_config (1 / 100), ae_users := Some []\<rparr>"

theorem close_threshold_never_reached_witness:
  "closing_event 6 intra_state \<in> set (snd (process_tick floor_env (sample_tick ''MEXC'' mexc_quote) sample_aggregator))
   \<and> ev_spread (closing_event 6 intra_state) = 0"
proof -
  have "env_ok floor_env" using sample_env_ok
    by (simp add: env_ok_def floor_env_def config_ok_new users_ok_def)
  moreover have c: "tick_candidates floor_env sample_book ''MEXC'' ''BTCUSDT'' 6 = []"
    by (simp add: tick_candidates_def floor_env_def has_users_def)
  have o: "ae_order floor_env = rev" by (simp add: floor_env_def sample_env_def)
  have "has_prefix (intra_key ''BTCUSDT'' ''OKX'') (''BTCUSDT'' @ '':'')"
    by (simp add: has_prefix_def intra_key_def)
  then have "closing_event 6 intra_state \<in> set (snd (tick_shard floor_env mexc_tick sample_shard))"
    using sample_store
    by (simp add: tick_shard_def Let_def sample_tick_fields c sample_shard_def o sample_aggregator_def)
  then have e: "closing_event 6 intra_state \<in> set (snd (process_tick floor_env (sample_tick ''MEXC'' mexc_quote) sample_aggregator))"
    using sample_tick_valid sample_not_late
    by (simp add: process_tick_def Let_def case_prod_beta sample_tick_fields sample_tick_norm)
      (simp add: sample_aggregator_def)
  moreover have "ae_funding floor_env = Some pair_funding"
    "fm_config pair_funding = Some (default_funding_config\<lparr>fc_min_spread := 1 / 100\<rparr>)"
    "get_hard_min_spread (ae_config floor_env) = 1 / 100"
    by (simp_all add: floor_env_def sample_env_def pair_funding_def get_hard_min_spread_def
        new_screener_config_def hard_min_spread_def)
  ultimately show ?thesis
    using close_threshold_never_reached [OF _ sample_aggregator_ok _ _ _ e, of pair_funding] by simp
qed

theorem late_ticks_ignored_witness:
  "snd (process_tick sample_env (sample_tick ''OKX'' (okx_quote\<lparr>ps_received := 4\<rparr>)) sample_aggregator) = []"
proof -
  let ?t = "normalize_tick (sample_tick ''OKX'' (okx_quote\<lparr>ps_received := 4\<rparr>))"
  have "mt_symbol ?t = ''BTCUSDT''" "mt_exchange ?t = ''OKX''" "mt_market ?t = MarketTypeFutures"
    "mt_received_at ?t = 4"
    by (simp_all add: normalize_tick_def sample_tick_def sample_symbol sample_names Let_def is_zero_time_def)
  moreover have "quote_of (book_for (ag_shards sample_aggregator (shard_for ''BTCUSDT'')) ''BTCUSDT'') ''OKX''
      MarketTypeFutures = Some okx_quote"
    by (simp add: quote_of_def book_for_def sample_aggregator_def sample_shard_def)
  ultimately show ?thesis
    using late_ticks_ignored [OF refl refl, of sample_aggregator "sample_tick ''OKX'' (okx_quote\<lparr>ps_received := 4\<rparr>)"
        okx_quote sample_env] by (simp add: okx_quote_def)
qed

theorem janitor_effect_witness:
  "open_routes (sh_active (ag_shards (fst (janitor sample_env 7 sample_aggregator)) (shard_for ''BTCUSDT'')))
   = {intra_key ''BTCUSDT'' ''OKX''}"
proof -
  have i: "shard_for ''BTCUSDT'' < num_shards" by (simp add: shard_for_def num_shards_def)
  have t: "0 \<le> ae_ttl sample_env" "ae_ttl sample_env < 2 ^ 63 - 1"
    by (simp_all add: sample_env_def default_price_ttl_def nano_second_def)
  have s: "\<not> route_stale 7 intra_state"
    by (simp add: route_stale_def intra_state_def intra_route_def sample_route_def is_zero_time_def
        time_sub_def stale_active_route_ttl_def nano_minute_def)
  show ?thesis
    using janitor_effect [OF sample_env_ok sample_aggregator_ok t order_refl i refl, of 7] s
    by (auto simp: sample_aggregator_def sample_shard_def split: if_splits)
qed

end
