(* ===== verification/Coalescing.thy ===== *)
theory Coalescing
  imports Prelude
begin

text \<open>
  The contract of the three buffers of the program that keep one value per key, the newest:
  the ingress buffer of market ticks, the pending notifications of the router and the
  buffer of signal snapshots in front of the database.
\<close>

locale coalescing =
  fixes put :: "'v \<Rightarrow> 's \<Rightarrow> 's"
    and peek :: "'s \<Rightarrow> 'k \<Rightarrow> 'v option"
    and key_of :: "'v \<Rightarrow> 'k"
    and proper :: "'v \<Rightarrow> bool"
    and accepting :: "'s \<Rightarrow> bool"
  assumes peek_put: "accepting s \<Longrightarrow> proper v \<Longrightarrow>
      peek (put v s) k = (if k = key_of v then Some v else peek s k)"
    and accepting_put: "accepting (put v s) = accepting s"
    and put_refused: "\<not> accepting s \<or> \<not> proper v \<Longrightarrow> peek (put v s) k = peek s k"
begin

lemma newest_wins:
  "accepting s \<Longrightarrow> \<forall>v\<in>set vs. proper v \<Longrightarrow>
   peek (fold put vs s) k =
     (case find (\<lambda>v. key_of v = k) (rev vs) of Some v \<Rightarrow> Some v | None \<Rightarrow> peek s k)"
proof (induction vs rule: rev_induct)
  case (snoc v vs)
  have acc: "accepting (fold put vs s)" using snoc.prems(1)
    by (induction vs arbitrary: s) (simp_all add: accepting_put)
  with snoc show ?case by (simp add: peek_put)
qed simp

lemma refused_run: "\<not> accepting s \<Longrightarrow> peek (fold put vs s) k = peek s k"
  by (induction vs arbitrary: s) (simp_all add: accepting_put put_refused)

end

locale coalescing_queue = coalescing put peek key_of proper accepting
  for put :: "'v \<Rightarrow> 's \<Rightarrow> 's" and peek :: "'s \<Rightarrow> 'k \<Rightarrow> 'v option"
    and key_of proper accepting +
  fixes remove :: "'k \<Rightarrow> 's \<Rightarrow> 's"
  assumes peek_remove: "peek (remove k s) k' = (if k' = k then None else peek s k')"
    and accepting_remove: "accepting (remove k s) = accepting s"
begin

text \<open>Removing a key makes the buffer forget every earlier value of it.\<close>

lemma put_after_remove:
  assumes "accepting s" "\<forall>v\<in>set vs. proper v" "\<forall>v\<in>set vs. key_of v \<noteq> k"
  shows "peek (fold put vs (remove k s)) k = None"
proof -
  have "find (\<lambda>v. key_of v = k) (rev vs) = None" using assms(3) by (simp add: find_None_iff)
  then show ?thesis using newest_wins [of "remove k s" vs k] assms
    by (simp add: accepting_remove peek_remove)
qed

end

end
