(* ===== verification/Router.thy ===== *)
theory Router
  imports Volume Screener_Config Users Coalescing
begin

text \<open>
  internal/app/notification_router.go: who is notified of a signal, the coalescing queue of
  notifications, the per-user update thresholds, and the delivery of a queued job with its
  revalidation and lifecycle checks. Texts are data (the values they show), not strings.
  The clock, the users, the volume engine and the configuration are read through a record
  of their current values; the revalidator is a function argument, as in the code.
\<close>

section \<open>Notifications\<close>

datatype funding_text = FundingNA | FundingRates dec gtime dec gtime

datatype notice =
    NoticeOpen string spread_type string market_type string market_type dec funding_text gtime
  | NoticeUpdate string spread_type string market_type string market_type dec gtime
  | NoticeClosed string spread_type string market_type string market_type dec dec funding_text gdur

definition render_signal_notification :: "signal \<Rightarrow> bool \<Rightarrow> bool \<Rightarrow> notice" where
  "render_signal_notification s opened update =
     (let funding = (if \<not> is_zero_time (sg_buy_next s) \<or> \<not> is_zero_time (sg_sell_next s)
            then FundingRates (sg_buy_rate s) (sg_buy_next s) (sg_sell_rate s) (sg_sell_next s)
            else FundingNA)
      in if update
         then NoticeUpdate (sg_symbol s) (sg_type s) (sg_buy_exchange s) (sg_buy_market s)
                (sg_sell_exchange s) (sg_sell_market s) (sg_peak s * 100) (sg_opened_at s)
         else if opened
         then NoticeOpen (sg_symbol s) (sg_type s) (sg_buy_exchange s) (sg_buy_market s)
                (sg_sell_exchange s) (sg_sell_market s) (sg_initial s * 100) funding (sg_opened_at s)
         else NoticeClosed (sg_symbol s) (sg_type s) (sg_buy_exchange s) (sg_buy_market s)
                (sg_sell_exchange s) (sg_sell_market s) (sg_peak s * 100) (sg_final s * 100) funding
                (sg_duration s))"

record notification_job =
  nj_key :: string
  nj_text :: notice
  nj_chats :: "int list"
  nj_signal :: "signal option"
  nj_revalidate :: bool

text \<open>A sender either offers the reliable broadcast or only the plain one.\<close>

datatype sender = ReliableSender | PlainSender

type_synonym update_key = "string \<times> int"

record router =
  nr_pending :: "(string, notification_job) gomap"
  nr_closed :: bool
  nr_telegram :: "sender option"
  nr_last_update :: "(update_key, dec) gomap"
  nr_invalidated :: "(string, unit) gomap"

definition new_notification_router :: "sender option \<Rightarrow> router" where
  "new_notification_router tg = \<lparr>nr_pending = [], nr_closed = False, nr_telegram = tg,
     nr_last_update = [], nr_invalidated = []\<rparr>"

record router_env =
  re_dec :: dec_lib
  re_users :: "user_manager option"
  re_volume :: "volume_engine option"
  re_config :: "screener_config option"
  re_now :: gtime
  re_user_order :: "user list \<Rightarrow> user list"

section \<open>Eligibility\<close>

text \<open>The loop over the two instants keeps the earlier of those that are set.\<close>

definition min_funding_time :: "signal \<Rightarrow> gtime" where
  "min_funding_time s =
     fold (\<lambda>x t. if \<not> is_zero_time x \<and> (is_zero_time t \<or> time_before x t) then x else t)
       [sg_buy_next s, sg_sell_next s] 0"

definition funding_allowed :: "signal \<Rightarrow> user \<Rightarrow> gtime \<Rightarrow> bool" where
  "funding_allowed s u now =
     (if sg_buy_market s \<noteq> MarketTypeFutures \<and> sg_sell_market s \<noteq> MarketTypeFutures then True
      else let nxt = min_funding_time s in
        if is_zero_time nxt then False
        else time_sub nxt now \<ge> wrap64 (us_min_funding_minutes u * nano_minute))"

text \<open>The turnover compared with the user's minimum; the window ends at the opening time.\<close>

definition user_volume :: "router_env \<Rightarrow> signal \<Rightarrow> user \<Rightarrow> dec" where
  "user_volume E s u =
     (case re_volume E of
        None \<Rightarrow> sg_volume s
      | Some v \<Rightarrow> if us_timeframe u = TF_24h then sg_volume s
          else ve_volume (route_volume_estimate (re_dec E) (re_now E) v (sg_buy_exchange s)
                 (sg_buy_market s) (sg_sell_exchange s) (sg_sell_market s) (sg_symbol s)
                 (us_timeframe u) (sg_opened_at s)))"

definition open_eligible :: "router_env \<Rightarrow> signal \<Rightarrow> user \<Rightarrow> bool" where
  "open_eligible E s u \<longleftrightarrow>
     \<not> (sg_peak s < us_min_spread u \<or> \<not> funding_allowed s u (re_now E)) \<and> user_volume E s u \<ge> us_min_volume u"

text \<open>The users a full \<open>Range\<close> visits.\<close>

definition ranged_users :: "router_env \<Rightarrow> user list" where
  "ranged_users E = (case re_users E of None \<Rightarrow> [] | Some um \<Rightarrow> get_all_users (re_user_order E) um)"

definition current_eligible_chat_ids :: "router_env \<Rightarrow> signal \<Rightarrow> int list \<Rightarrow> int list" where
  "current_eligible_chat_ids E s chats =
     map us_chat_id (filter (\<lambda>u. us_chat_id u \<in> set chats \<and> open_eligible E s u) (ranged_users E))"

section \<open>The queue\<close>

definition enqueue :: "notification_job \<Rightarrow> router \<Rightarrow> router \<times> bool" where
  "enqueue job r =
     (if nj_key job = [] \<or> length (nj_chats job) = 0 then (r, False)
      else if nr_closed r then (r, False)
      else (r\<lparr>nr_pending := mput (nj_key job) job (nr_pending r)\<rparr>, True))"

text \<open>\<open>takePending\<close> takes an arbitrary key of the map; here the key is an argument.\<close>

definition take_pending :: "string \<Rightarrow> router \<Rightarrow> router \<times> notification_job option" where
  "take_pending key r =
     (case map_of (nr_pending r) key of
        None \<Rightarrow> (r, None)
      | Some job \<Rightarrow> (r\<lparr>nr_pending := mdel key (nr_pending r)\<rparr>, Some job))"

definition set_telegram_sender :: "sender option \<Rightarrow> router \<Rightarrow> router" where
  "set_telegram_sender tg r = r\<lparr>nr_telegram := tg\<rparr>"

definition close_router :: "router \<Rightarrow> router" where
  "close_router r = (if nr_closed r then r else r\<lparr>nr_closed := True\<rparr>)"

definition invalidate_signal :: "string \<Rightarrow> router \<Rightarrow> router" where
  "invalidate_signal sid r = (if sid = [] then r else r\<lparr>nr_invalidated := mput sid () (nr_invalidated r)\<rparr>)"

definition drop_pending :: "string \<Rightarrow> router \<Rightarrow> router" where
  "drop_pending key r = (if key = [] then r else r\<lparr>nr_pending := mdel key (nr_pending r)\<rparr>)"

definition clear_signal_updates :: "string \<Rightarrow> router \<Rightarrow> router" where
  "clear_signal_updates sid r =
     (if sid = [] then r
      else r\<lparr>nr_last_update := filter (\<lambda>(k, v). fst k \<noteq> sid) (nr_last_update r)\<rparr>)"

section \<open>Producing notifications\<close>

definition process_signal :: "router_env \<Rightarrow> signal \<Rightarrow> bool \<Rightarrow> router \<Rightarrow> router \<times> int list" where
  "process_signal E s opened r =
     (if re_users E = None then (r, [])
      else if nr_closed r then (r, [])
      else let targets = (if opened then map us_chat_id (filter (open_eligible E s) (ranged_users E))
                          else sg_notified s)
           in if length targets = 0 then (r, [])
              else let kind = (if opened then ''open'' else ''close'');
                       job = \<lparr>nj_key = sg_id s @ '':'' @ kind,
                              nj_text = render_signal_notification s opened False,
                              nj_chats = targets, nj_signal = Some s, nj_revalidate = opened\<rparr>
                   in (fst (enqueue job r), targets))"

definition update_steps :: "dec_lib \<Rightarrow> signal \<Rightarrow> user \<Rightarrow> int" where
  "update_steps D s u = lib_int_part D (lib_div D (sg_peak s - sg_initial s) (us_update_step u))"

text \<open>The callback of the range loop: the ledger of thresholds and the targets so far.\<close>

definition update_user ::
  "router_env \<Rightarrow> signal \<Rightarrow> user \<Rightarrow> (update_key, dec) gomap \<times> int list \<Rightarrow> (update_key, dec) gomap \<times> int list" where
  "update_user E s u st =
     (case st of (ledger, targets) \<Rightarrow>
        if \<not> 0 < us_update_step u \<or> sg_peak s < us_min_spread u \<or> \<not> funding_allowed s u (re_now E)
        then st
        else if user_volume E s u < us_min_volume u then st
        else let steps = update_steps (re_dec E) s u in
          if steps < 1 then st
          else let threshold = sg_initial s + us_update_step u * of_int steps;
                   key = (sg_id s, us_chat_id u);
                   prev = (case map_of ledger key of None \<Rightarrow> 0 | Some x \<Rightarrow> x)
               in if threshold \<le> prev then st
                  else (mput key threshold ledger, targets @ [us_chat_id u]))"

definition process_signal_update :: "router_env \<Rightarrow> signal \<Rightarrow> router \<Rightarrow> router \<times> int list" where
  "process_signal_update E s r =
     (if re_users E = None \<or> \<not> sg_active s then (r, [])
      else if nr_closed r then (r, [])
      else let (ledger, targets) = fold (update_user E s) (ranged_users E) (nr_last_update r, []);
               r1 = r\<lparr>nr_last_update := ledger\<rparr>
           in if length targets = 0 then (r1, [])
              else let job = \<lparr>nj_key = sg_id s @ '':update'',
                       nj_text = NoticeUpdate (sg_symbol s) (sg_type s) (sg_buy_exchange s) (sg_buy_market s)
                         (sg_sell_exchange s) (sg_sell_market s) (sg_peak s * 100) (re_now E),
                       nj_chats = targets, nj_signal = Some s, nj_revalidate = True\<rparr>
                   in (fst (enqueue job r1), targets))"

section \<open>Delivering a job\<close>

definition is_close_job :: "notification_job \<Rightarrow> bool" where
  "is_close_job job = has_suffix (nj_key job) '':close''"

definition job_invalid :: "router \<Rightarrow> notification_job \<Rightarrow> bool" where
  "job_invalid r job =
     (case nj_signal job of
        None \<Rightarrow> False
      | Some s \<Rightarrow> \<not> is_close_job job \<and> map_of (nr_invalidated r) (sg_id s) \<noteq> None)"

text \<open>\<open>sendJob\<close> up to the delivery loop: \<open>None\<close> when the job is discarded.\<close>

definition prepare_job ::
  "router_env \<Rightarrow> (signal \<Rightarrow> signal option) option \<Rightarrow> router \<Rightarrow> notification_job \<Rightarrow> notification_job option" where
  "prepare_job E revalidator r job =
     (if job_invalid r job then None
      else case (nj_signal job, revalidator) of
        (Some s, Some rv) \<Rightarrow>
          if nj_revalidate job
          then (case rv s of
                  None \<Rightarrow> None
                | Some cur \<Rightarrow>
                    if (case re_config E of None \<Rightarrow> False | Some c \<Rightarrow> sg_peak cur < get_hard_min_spread c)
                    then None
                    else let chats = current_eligible_chat_ids E cur (nj_chats job) in
                      if length chats = 0 then None
                      else Some (job\<lparr>nj_chats := chats,
                             nj_text := render_signal_notification cur (\<not> is_close_job job)
                               (has_suffix (nj_key job) '':update'')\<rparr>))
          else Some job
      | _ \<Rightarrow> Some job)"

text \<open>The delivery loop. \<open>Waiting\<close>: no sender yet; the final lifecycle check and the transport
  call are one step, because both happen under the lifecycle lock.\<close>

datatype delivery = Delivered notification_job sender | Discarded | Waiting

definition deliver_job :: "router \<Rightarrow> notification_job \<Rightarrow> delivery" where
  "deliver_job r job =
     (case nr_telegram r of
        Some tg \<Rightarrow> if job_invalid r job then Discarded
                   else Delivered job (if tg = ReliableSender \<and> nj_signal job \<noteq> None then ReliableSender else PlainSender)
      | None \<Rightarrow> if nr_closed r then Discarded else Waiting)"

section \<open>Eligibility facts\<close>

definition renv_ok :: "router_env \<Rightarrow> bool" where
  "renv_ok E \<longleftrightarrow> (\<forall>um. re_users E = Some um \<longrightarrow> users_ok um) \<and> order_ok (re_user_order E)"

lemma ranged_users_set:
  assumes "renv_ok E"
  shows "u \<in> set (ranged_users E) \<longleftrightarrow> (\<exists>um. re_users E = Some um \<and> get_user um (us_chat_id u) = Some u)"
proof (cases "re_users E")
  case (Some um)
  with assms have "users_ok um" "order_ok (re_user_order E)" by (simp_all add: renv_ok_def)
  with Some users_ok_range show ?thesis
    by (simp add: ranged_users_def get_all_users_def order_ok_set)
qed (simp add: ranged_users_def)

lemma ranged_users_distinct:
  assumes "renv_ok E" shows "distinct (map us_chat_id (ranged_users E))"
proof (cases "re_users E")
  case (Some um)
  have um: "users_ok um" using assms Some by (simp add: renv_ok_def)
  have "map us_chat_id (map snd um) = map fst um" using um by (auto simp: users_ok_def)
  moreover have "mwf um" using um by (simp add: users_ok_def)
  ultimately have "distinct (map us_chat_id (map snd um))" by (simp only:)
  moreover have "mset (re_user_order E (map snd um)) = mset (map snd um)"
    using assms by (simp add: renv_ok_def order_ok_def)
  then have "mset (map us_chat_id (re_user_order E (map snd um))) = mset (map us_chat_id (map snd um))"
    unfolding mset_map by (rule arg_cong)
  ultimately show ?thesis using Some
    by (metis get_all_users_def mset_eq_imp_distinct_iff option.case(2) ranged_users_def)
qed (simp add: ranged_users_def)

lemma filter_chats:
  assumes "renv_ok E"
  shows "c \<in> set (map us_chat_id (filter P (ranged_users E))) \<longleftrightarrow>
    (\<exists>um u. re_users E = Some um \<and> get_user um c = Some u \<and> P u)"
proof -
  have "us_chat_id u = c" if "re_users E = Some um" "get_user um c = Some u" for um u
    using that assms get_user_chat by (auto simp: renv_ok_def)
  then show ?thesis using ranged_users_set [OF assms] by fastforce
qed

interpretation pending_jobs: coalescing_queue "\<lambda>j r. fst (enqueue j r)" "\<lambda>r k. map_of (nr_pending r) k" nj_key
    "\<lambda>j. nj_key j \<noteq> [] \<and> nj_chats j \<noteq> []" "\<lambda>r. \<not> nr_closed r" "\<lambda>k r. fst (take_pending k r)"
  by unfold_locales (auto simp: enqueue_def take_pending_def gomap_simps split: option.splits)

section \<open>Update thresholds\<close>

definition update_threshold :: "dec_lib \<Rightarrow> signal \<Rightarrow> user \<Rightarrow> dec" where
  "update_threshold D s u = sg_initial s + us_update_step u * of_int (update_steps D s u)"

text \<open>A user's entry rose from the old to the new ledger to the threshold of this update.\<close>

definition update_hit ::
  "router_env \<Rightarrow> signal \<Rightarrow> (update_key, dec) gomap \<Rightarrow> (update_key, dec) gomap \<Rightarrow> user \<Rightarrow> bool" where
  "update_hit E s old new u \<longleftrightarrow> 0 < us_update_step u \<and> 1 \<le> update_steps (re_dec E) s u
     \<and> map_of new (sg_id s, us_chat_id u) = Some (update_threshold (re_dec E) s u)
     \<and> (case map_of old (sg_id s, us_chat_id u) of None \<Rightarrow> 0 | Some x \<Rightarrow> x) < update_threshold (re_dec E) s u"

lemma update_user_ledger:
  assumes "update_user E s u (ledger, targets) = (ledger', targets')"
  shows "targets' = targets \<and> ledger' = ledger
    \<or> (targets' = targets @ [us_chat_id u] \<and> update_hit E s ledger ledger' u
       \<and> (\<forall>c. c \<noteq> us_chat_id u \<longrightarrow> map_of ledger' (sg_id s, c) = map_of ledger (sg_id s, c)))"
  using assms by (auto simp: update_user_def Let_def not_le not_less update_hit_def update_threshold_def
      map_of_mput split: if_splits)

lemma update_hit_ledgers:
  "map_of new (sg_id s, us_chat_id u) = map_of new' (sg_id s, us_chat_id u) \<Longrightarrow>
   map_of old (sg_id s, us_chat_id u) = map_of old' (sg_id s, us_chat_id u) \<Longrightarrow>
   update_hit E s old new u = update_hit E s old' new' u"
  by (simp add: update_hit_def)

text \<open>One pass over users with distinct chats notifies a chat at most once, by its own entry.\<close>

lemma update_fold:
  assumes "distinct (map us_chat_id us)"
    and "fold (update_user E s) us (ledger, targets) = (ledger', targets')"
  shows "\<exists>new. targets' = targets @ new \<and> distinct new \<and> set new \<subseteq> us_chat_id ` set us
    \<and> (\<forall>c. c \<notin> set new \<longrightarrow> map_of ledger' (sg_id s, c) = map_of ledger (sg_id s, c))
    \<and> (\<forall>c\<in>set new. \<exists>u\<in>set us. us_chat_id u = c \<and> update_hit E s ledger ledger' u)"
  using assms
proof (induction us arbitrary: ledger targets)
  case (Cons u us)
  obtain l1 t1 where st: "update_user E s u (ledger, targets) = (l1, t1)" by fastforce
  have d: "distinct (map us_chat_id us)" "us_chat_id u \<notin> us_chat_id ` set us" using Cons.prems(1) by simp_all
  from Cons.prems(2) st have "fold (update_user E s) us (l1, t1) = (ledger', targets')" by simp
  from Cons.IH [OF d(1) this] obtain new where new: "targets' = t1 @ new" "distinct new"
    "set new \<subseteq> us_chat_id ` set us"
    and keep: "\<And>c. c \<notin> set new \<Longrightarrow> map_of ledger' (sg_id s, c) = map_of l1 (sg_id s, c)"
    and got: "\<And>c. c \<in> set new \<Longrightarrow> \<exists>u\<in>set us. us_chat_id u = c \<and> update_hit E s l1 ledger' u"
    by blast
  have un: "us_chat_id u \<notin> set new" using new(3) d(2) by blast
  from update_user_ledger [OF st] show ?case
  proof
    assume "t1 = targets \<and> l1 = ledger"
    then show ?thesis using new keep got
      by (intro exI [of _ new]) (simp, blast)
  next
    assume hit: "t1 = targets @ [us_chat_id u] \<and> update_hit E s ledger l1 u
       \<and> (\<forall>c. c \<noteq> us_chat_id u \<longrightarrow> map_of l1 (sg_id s, c) = map_of ledger (sg_id s, c))"
    let ?new = "us_chat_id u # new"
    have "targets' = targets @ ?new" "distinct ?new" "set ?new \<subseteq> us_chat_id ` set (u # us)"
      using new hit un by auto
    moreover have "map_of ledger' (sg_id s, c) = map_of ledger (sg_id s, c)" if "c \<notin> set ?new" for c
      using that keep hit by simp
    moreover have "\<exists>x\<in>set (u # us). us_chat_id x = c \<and> update_hit E s ledger ledger' x" if c: "c \<in> set ?new" for c
    proof (cases "c = us_chat_id u")
      case True
      have "update_hit E s ledger ledger' u"
        using hit update_hit_ledgers [OF keep [OF un] refl] by simp
      with True show ?thesis by simp
    next
      case False
      with c got obtain x where x: "x \<in> set us" "us_chat_id x = c" "update_hit E s l1 ledger' x" by auto
      then have "update_hit E s ledger ledger' x"
        using hit False update_hit_ledgers [OF refl, of l1 s x ledger E ledger'] by simp
      with x show ?thesis by auto
    qed
    ultimately show ?thesis by blast
  qed
qed simp

lemma process_update_spec:
  assumes "renv_ok E" and "process_signal_update E s r = (r', targets)"
  shows "distinct targets"
    and "c \<notin> set targets \<Longrightarrow> map_of (nr_last_update r') (sg_id s, c) = map_of (nr_last_update r) (sg_id s, c)"
    and "c \<in> set targets \<Longrightarrow> \<exists>um u. re_users E = Some um \<and> get_user um c = Some u \<and> us_chat_id u = c
        \<and> update_hit E s (nr_last_update r) (nr_last_update r') u"
proof -
  obtain ledger ts where f: "fold (update_user E s) (ranged_users E) (nr_last_update r, []) = (ledger, ts)" by fastforce
  from update_fold [OF ranged_users_distinct [OF assms(1)] f] have n: "distinct ts"
    and keep: "\<And>c. c \<notin> set ts \<Longrightarrow> map_of ledger (sg_id s, c) = map_of (nr_last_update r) (sg_id s, c)"
    and got: "\<And>c. c \<in> set ts \<Longrightarrow> \<exists>u\<in>set (ranged_users E). us_chat_id u = c \<and> update_hit E s (nr_last_update r) ledger u"
    by auto
  have enq: "nr_last_update (fst (enqueue j q)) = nr_last_update q" for j q by (simp add: enqueue_def)
  have res: "r' = r \<and> targets = [] \<or> (targets = ts \<and> nr_last_update r' = ledger)"
    using assms(2) by (auto simp: process_signal_update_def Let_def f enq split: if_splits)
  show "distinct targets" using res n by auto
  show "c \<notin> set targets \<Longrightarrow> map_of (nr_last_update r') (sg_id s, c) = map_of (nr_last_update r) (sg_id s, c)"
    using res keep by auto
  assume c: "c \<in> set targets"
  then have res': "targets = ts" "nr_last_update r' = ledger" using res by auto
  from got [OF c [unfolded res'(1)]] obtain u where u: "u \<in> set (ranged_users E)" "us_chat_id u = c"
    "update_hit E s (nr_last_update r) ledger u" by blast
  from u(1) obtain um where "re_users E = Some um" "get_user um (us_chat_id u) = Some u"
    using ranged_users_set [OF assms(1)] by blast
  with u res' show "\<exists>um u. re_users E = Some um \<and> get_user um c = Some u \<and> us_chat_id u = c
        \<and> update_hit E s (nr_last_update r) (nr_last_update r') u"
    by (intro exI [of _ um] exI [of _ u]) simp
qed

text \<open>The updates of one signal, each with the values of its moment; how often a chat is hit.\<close>

fun run_updates :: "(router_env \<times> signal) list \<Rightarrow> router \<Rightarrow> router \<times> int list list" where
  "run_updates [] r = (r, [])"
| "run_updates ((E, s) # rest) r =
     (case process_signal_update E s r of (r1, ts) \<Rightarrow>
        case run_updates rest r1 of (r2, tss) \<Rightarrow> (r2, ts # tss))"

definition hits :: "int \<Rightarrow> int list list \<Rightarrow> nat" where
  "hits c tss = length (filter (\<lambda>ts. c \<in> set ts) tss)"

text \<open>The ledger of a chat: no entry, or the threshold of the k-th step.\<close>

abbreviation ledger_at :: "router \<Rightarrow> string \<Rightarrow> int \<Rightarrow> dec \<Rightarrow> dec \<Rightarrow> int \<Rightarrow> bool" where
  "ledger_at r sid c init step k \<equiv>
     map_of (nr_last_update r) (sid, c) = None \<and> k = 0
     \<or> map_of (nr_last_update r) (sid, c) = Some (init + step * of_int k) \<and> 0 < step \<and> 1 \<le> k"

lemma update_hit_step:
  assumes "renv_ok E" and "process_signal_update E s r = (r1, ts)" and "c \<in> set ts"
    and "\<And>um u. re_users E = Some um \<Longrightarrow> get_user um c = Some u \<Longrightarrow> us_update_step u = step"
    and "0 \<le> sg_initial s" and "ledger_at r (sg_id s) c (sg_initial s) step k"
    and "k' = lib_int_part (re_dec E) (lib_div (re_dec E) (sg_peak s - sg_initial s) step)"
  shows "ledger_at r1 (sg_id s) c (sg_initial s) step k' \<and> k < k'"
proof -
  have new: "map_of (nr_last_update r1) (sg_id s, c) = Some (sg_initial s + step * of_int k')" "0 < step" "1 \<le> k'"
    "(case map_of (nr_last_update r) (sg_id s, c) of None \<Rightarrow> 0 | Some x \<Rightarrow> x) < sg_initial s + step * of_int k'"
    using process_update_spec(3) [OF assms(1-3)] assms(4) unfolding assms(7)
    by (auto simp: update_steps_def update_hit_def update_threshold_def)
  then show ?thesis using assms(6) by auto
qed

text \<open>The last threshold of a chat bounds the number of messages it has received.\<close>

lemma run_updates_hits:
  assumes "\<forall>(E, s)\<in>set xs. renv_ok E \<and> sg_id s = sid \<and> sg_initial s = init
      \<and> (\<forall>um u. re_users E = Some um \<longrightarrow> get_user um c = Some u \<longrightarrow> us_update_step u = step)"
    and "0 \<le> init" and "run_updates xs r = (r', tss)" and "ledger_at r sid c init step k"
  shows "hits c tss = 0 \<or> (\<exists>(E, s)\<in>set xs. k + int (hits c tss) \<le> lib_int_part (re_dec E)
      (lib_div (re_dec E) (sg_peak s - init) step))"
  using assms(1,3,4)
proof (induction xs arbitrary: r tss k)
  case Nil
  then show ?case by (simp add: hits_def)
next
  case (Cons x xs)
  obtain E s where x: "x = (E, s)" by fastforce
  obtain r1 ts where p: "process_signal_update E s r = (r1, ts)" by fastforce
  obtain tss' where t: "run_updates xs r1 = (r', tss')" "tss = ts # tss'"
    using Cons.prems(2) p x by (auto split: prod.splits)
  have E: "renv_ok E" "sg_id s = sid" "sg_initial s = init" using Cons.prems(1) x by auto
  note IH = Cons.IH [OF _ t(1)]
  show ?case
  proof (cases "c \<in> set ts")
    case False
    then have "map_of (nr_last_update r1) (sid, c) = map_of (nr_last_update r) (sid, c)"
      using process_update_spec(2) [OF E(1) p] E(2) by simp
    moreover have "hits c tss = hits c tss'" using False by (simp add: t(2) hits_def)
    ultimately show ?thesis using IH [of k] Cons.prems(1,3) by auto
  next
    case True
    let ?k = "lib_int_part (re_dec E) (lib_div (re_dec E) (sg_peak s - init) step)"
    have "us_update_step u = step" if "re_users E = Some um" "get_user um c = Some u" for um u
      using Cons.prems(1) x that by auto
    from update_hit_step [OF E(1) p True this, where k = k and k' = ?k] Cons.prems(3) assms(2) E
    have new: "ledger_at r1 sid c init step ?k" "k < ?k" by simp_all
    have h: "hits c tss = Suc (hits c tss')" using True by (simp add: t(2) hits_def)
    have "hits c tss' = 0 \<or> (\<exists>(E, s)\<in>set xs. ?k + int (hits c tss') \<le> lib_int_part (re_dec E)
        (lib_div (re_dec E) (sg_peak s - init) step))"
      by (rule IH) (use new(1) Cons.prems(1) in auto)
    moreover have "k + int (hits c tss) \<le> n" if "?k + int (hits c tss') \<le> n" for n using that h new(2) by simp
    moreover have "k + int (hits c tss) \<le> ?k" if "hits c tss' = 0" using that h new(2) by simp
    ultimately show ?thesis unfolding x by fastforce
  qed
qed

section \<open>Workers and tracker interleaved\<close>

text \<open>
  The four workers take jobs, prepare them and deliver them while the tracker produces,
  invalidates and drops. \<open>rt_held\<close> are the jobs taken but not yet prepared, \<open>rt_ready\<close> those
  waiting for the delivery step; the log records deliveries and invalidations in order.
\<close>

datatype router_log = LogSent notification_job | LogInvalidated string

record router_sys =
  rt_router :: router
  rt_held :: "notification_job list"
  rt_ready :: "notification_job list"
  rt_log :: "router_log list"

inductive router_next :: "router_sys \<Rightarrow> router_sys \<Rightarrow> bool" where
  rt_process: "router_next sys (sys\<lparr>rt_router := fst (process_signal E s opened (rt_router sys))\<rparr>)"
| rt_update: "router_next sys (sys\<lparr>rt_router := fst (process_signal_update E s (rt_router sys))\<rparr>)"
| rt_invalidate: "sid \<noteq> [] \<Longrightarrow> router_next sys (sys\<lparr>rt_router := invalidate_signal sid (rt_router sys),
     rt_log := rt_log sys @ [LogInvalidated sid]\<rparr>)"
| rt_drop: "router_next sys (sys\<lparr>rt_router := drop_pending key (rt_router sys)\<rparr>)"
| rt_clear: "router_next sys (sys\<lparr>rt_router := clear_signal_updates sid (rt_router sys)\<rparr>)"
| rt_close: "router_next sys (sys\<lparr>rt_router := close_router (rt_router sys)\<rparr>)"
| rt_telegram: "router_next sys (sys\<lparr>rt_router := set_telegram_sender tg (rt_router sys)\<rparr>)"
| rt_take: "take_pending key (rt_router sys) = (r, Some job) \<Longrightarrow>
     router_next sys (sys\<lparr>rt_router := r, rt_held := rt_held sys @ [job]\<rparr>)"
| rt_prepare: "rt_held sys = xs @ job # ys \<Longrightarrow> prepare_job E rv (rt_router sys) job = Some job' \<Longrightarrow>
     router_next sys (sys\<lparr>rt_held := xs @ ys, rt_ready := rt_ready sys @ [job']\<rparr>)"
| rt_reject: "rt_held sys = xs @ job # ys \<Longrightarrow> prepare_job E rv (rt_router sys) job = None \<Longrightarrow>
     router_next sys (sys\<lparr>rt_held := xs @ ys\<rparr>)"
| rt_deliver: "rt_ready sys = xs @ job # ys \<Longrightarrow> deliver_job (rt_router sys) job = Delivered job tg \<Longrightarrow>
     router_next sys (sys\<lparr>rt_ready := xs @ ys, rt_log := rt_log sys @ [LogSent job]\<rparr>)"
| rt_discard: "rt_ready sys = xs @ job # ys \<Longrightarrow> deliver_job (rt_router sys) job = Discarded \<Longrightarrow>
     router_next sys (sys\<lparr>rt_ready := xs @ ys\<rparr>)"

inductive router_reach :: "router_sys \<Rightarrow> bool" where
  start: "router_reach \<lparr>rt_router = new_notification_router tg, rt_held = [], rt_ready = [], rt_log = []\<rparr>"
| step: "router_reach sys \<Longrightarrow> router_next sys sys' \<Longrightarrow> router_reach sys'"

inductive_cases router_nextE: "router_next sys sys'"

lemma invalidated_frame [simp]:
  "nr_invalidated (fst (enqueue j r)) = nr_invalidated r"
  "nr_invalidated (fst (process_signal E s opened r)) = nr_invalidated r"
  "nr_invalidated (fst (process_signal_update E s r)) = nr_invalidated r"
  "nr_invalidated (drop_pending key r) = nr_invalidated r"
  "nr_invalidated (clear_signal_updates sid r) = nr_invalidated r"
  "nr_invalidated (close_router r) = nr_invalidated r"
  "nr_invalidated (set_telegram_sender tg r) = nr_invalidated r"
  "nr_invalidated (fst (take_pending key r)) = nr_invalidated r"
proof -
  show e: "nr_invalidated (fst (enqueue j r)) = nr_invalidated r" for j r by (simp add: enqueue_def)
  show "nr_invalidated (fst (process_signal E s opened r)) = nr_invalidated r"
    by (simp add: process_signal_def e Let_def)
  show "nr_invalidated (fst (process_signal_update E s r)) = nr_invalidated r"
    by (simp add: process_signal_update_def e Let_def case_prod_beta)
qed (simp_all add: drop_pending_def clear_signal_updates_def close_router_def set_telegram_sender_def
    take_pending_def split: option.split)

definition silent_after_close :: "router_sys \<Rightarrow> bool" where
  "silent_after_close sys \<longleftrightarrow>
     (\<forall>sid. LogInvalidated sid \<in> set (rt_log sys) \<longrightarrow> map_of (nr_invalidated (rt_router sys)) sid \<noteq> None)
     \<and> (\<forall>xs ys job s. rt_log sys = xs @ LogSent job # ys \<longrightarrow> nj_signal job = Some s \<longrightarrow>
          LogInvalidated (sg_id s) \<in> set xs \<longrightarrow> is_close_job job)"

lemma delivered_valid: "deliver_job r job = Delivered job' tg \<Longrightarrow> \<not> job_invalid r job \<and> job' = job"
  by (simp add: deliver_job_def split: option.splits if_splits)

lemma silent_frame:
  "rt_log sys' = rt_log sys \<Longrightarrow> nr_invalidated (rt_router sys') = nr_invalidated (rt_router sys) \<Longrightarrow>
   silent_after_close sys \<Longrightarrow> silent_after_close sys'"
  by (simp add: silent_after_close_def)

lemma silent_deliver:
  assumes "silent_after_close sys" and "\<not> job_invalid (rt_router sys) job"
  shows "silent_after_close (sys\<lparr>rt_ready := ready, rt_log := rt_log sys @ [LogSent job]\<rparr>)"
proof -
  have "is_close_job j" if split: "rt_log sys @ [LogSent job] = as @ LogSent j # bs"
    and j: "nj_signal j = Some s" "LogInvalidated (sg_id s) \<in> set as" for as bs j s
  proof (cases bs rule: rev_cases)
    case Nil
    with split have "j = job" "as = rt_log sys" by simp_all
    moreover from this j assms(1) have "map_of (nr_invalidated (rt_router sys)) (sg_id s) \<noteq> None"
      by (simp add: silent_after_close_def)
    ultimately show ?thesis using assms(2) j by (auto simp: job_invalid_def)
  next
    case (snoc bs' b)
    with split have "rt_log sys = as @ LogSent j # bs'" by simp
    with assms(1) j show ?thesis unfolding silent_after_close_def by blast
  qed
  then show ?thesis using assms(1) by (auto simp: silent_after_close_def)
qed

lemma silent_next: "router_next sys sys' \<Longrightarrow> silent_after_close sys \<Longrightarrow> silent_after_close sys'"
proof (induction rule: router_next.induct)
  case (rt_invalidate sid sys)
  let ?sys = "sys\<lparr>rt_router := invalidate_signal sid (rt_router sys), rt_log := rt_log sys @ [LogInvalidated sid]\<rparr>"
  have "is_close_job j" if split: "rt_log ?sys = as @ LogSent j # bs"
    and j: "nj_signal j = Some s" "LogInvalidated (sg_id s) \<in> set as" for as bs j s
  proof -
    from split obtain bs' where "rt_log sys = as @ LogSent j # bs'"
      by (cases bs rule: rev_cases) simp_all
    with rt_invalidate.prems j show ?thesis unfolding silent_after_close_def by blast
  qed
  moreover have "\<forall>x. LogInvalidated x \<in> set (rt_log ?sys) \<longrightarrow> map_of (nr_invalidated (rt_router ?sys)) x \<noteq> None"
    using rt_invalidate by (auto simp: silent_after_close_def invalidate_signal_def map_of_mput)
  ultimately show ?case unfolding silent_after_close_def by blast
next
  case (rt_deliver sys xs job ys tg)
  with delivered_valid [OF rt_deliver.hyps(2)] silent_deliver show ?case by blast
next
  case (rt_take key sys r job)
  have "nr_invalidated r = nr_invalidated (rt_router sys)"
    using invalidated_frame(8) [of key "rt_router sys"] rt_take.hyps by simp
  with rt_take.prems show ?case by (auto intro: silent_frame)
qed (auto intro: silent_frame)

section \<open>Properties\<close>

text \<open>
  C12. Who gets the OPEN message: a chat is addressed exactly when it belongs to a subscribed
  user whose minimum spread, minimum volume and funding distance the signal satisfies; no
  chat is addressed twice, and unless nobody is, the queue then holds the message with
  exactly these recipients.
\<close>

theorem open_recipients:
  assumes "renv_ok E" and "\<not> nr_closed r" and "process_signal E s True r = (r', targets)"
  shows "(\<forall>c. c \<in> set targets \<longleftrightarrow>
      (\<exists>um u. re_users E = Some um \<and> get_user um c = Some u \<and> us_min_spread u \<le> sg_peak s
         \<and> funding_allowed s u (re_now E) \<and> us_min_volume u \<le> user_volume E s u))
    \<and> distinct targets
    \<and> (targets \<noteq> [] \<longrightarrow> (\<exists>job. map_of (nr_pending r') (sg_id s @ '':open'') = Some job
         \<and> nj_chats job = targets \<and> nj_signal job = Some s \<and> nj_revalidate job))"
proof -
  let ?ts = "map us_chat_id (filter (open_eligible E s) (ranged_users E))"
  have t: "targets = ?ts"
    using assms(2,3) by (auto simp: process_signal_def Let_def ranged_users_def split: if_splits)
  have "distinct (map us_chat_id (ranged_users E))" by (rule ranged_users_distinct [OF assms(1)])
  then have "distinct ?ts" by (rule distinct_map_filter)
  moreover have "c \<in> set ?ts \<longleftrightarrow> (\<exists>um u. re_users E = Some um \<and> get_user um c = Some u
      \<and> us_min_spread u \<le> sg_peak s \<and> funding_allowed s u (re_now E) \<and> us_min_volume u \<le> user_volume E s u)" for c
    unfolding filter_chats [OF assms(1)] open_eligible_def by auto
  moreover have "\<exists>job. map_of (nr_pending r') (sg_id s @ '':open'') = Some job
      \<and> nj_chats job = targets \<and> nj_signal job = Some s \<and> nj_revalidate job" if "targets \<noteq> []"
    using that assms(2,3) by (auto simp: process_signal_def Let_def enqueue_def map_of_mput split: if_splits)
  ultimately show ?thesis unfolding t by blast
qed

text \<open>
  C13. What reaches Telegram is current: a job that passes revalidation is addressed to those
  of its recipients, and only those, who are still subscribed and whose settings the
  recomputed signal satisfies now, shows the recomputed signal, and never a spread below
  the configured floor.
\<close>

theorem revalidated_recipients:
  assumes "renv_ok E" and "nj_revalidate job" and "nj_signal job = Some s"
    and "prepare_job E (Some rv) r job = Some job'"
  shows "\<exists>cur. rv s = Some cur \<and> nj_chats job' \<noteq> []
    \<and> (\<forall>c. c \<in> set (nj_chats job') \<longleftrightarrow> c \<in> set (nj_chats job)
         \<and> (\<exists>um u. re_users E = Some um \<and> get_user um c = Some u \<and> open_eligible E cur u))
    \<and> (\<forall>cfg. re_config E = Some cfg \<longrightarrow> get_hard_min_spread cfg \<le> sg_peak cur)
    \<and> nj_text job' = render_signal_notification cur (\<not> is_close_job job) (has_suffix (nj_key job) '':update'')"
proof -
  from assms(2-4) obtain cur where cur: "rv s = Some cur"
    and low: "\<not> (case re_config E of None \<Rightarrow> False | Some c \<Rightarrow> sg_peak cur < get_hard_min_spread c)"
    and ne: "current_eligible_chat_ids E cur (nj_chats job) \<noteq> []"
    and job': "job' = job\<lparr>nj_chats := current_eligible_chat_ids E cur (nj_chats job),
        nj_text := render_signal_notification cur (\<not> is_close_job job) (has_suffix (nj_key job) '':update'')\<rparr>"
    by (auto simp: prepare_job_def Let_def split: option.splits if_splits)
  have us: "us_chat_id u = c" if "re_users E = Some um" "get_user um c = Some u" for um u c
    using that assms(1) get_user_chat by (auto simp: renv_ok_def)
  have "c \<in> set (current_eligible_chat_ids E cur (nj_chats job)) \<longleftrightarrow> c \<in> set (nj_chats job)
      \<and> (\<exists>um u. re_users E = Some um \<and> get_user um c = Some u \<and> open_eligible E cur u)" for c
    unfolding current_eligible_chat_ids_def filter_chats [OF assms(1)] using us by blast
  with cur low ne show ?thesis unfolding job'
    by (intro exI [of _ cur]) (simp add: not_less split: option.splits)
qed

text \<open>
  C19. No burst of updates: over the whole life of a signal a user whose step does not change
  receives at most as many UPDATE messages as the highest number of whole steps any of its
  snapshots had risen above the opening spread.
\<close>

theorem updates_bounded:
  assumes "\<forall>(E, s)\<in>set xs. renv_ok E \<and> sg_id s = sid \<and> sg_initial s = init
      \<and> (\<forall>um u. re_users E = Some um \<longrightarrow> get_user um c = Some u \<longrightarrow> us_update_step u = step)"
    and "0 \<le> init" and "run_updates xs (new_notification_router tg) = (r', tss)"
  shows "hits c tss = 0 \<or> (\<exists>(E, s)\<in>set xs. int (hits c tss) \<le> lib_int_part (re_dec E)
      (lib_div (re_dec E) (sg_peak s - init) step))"
  using run_updates_hits [OF assms, of 0] by (simp add: new_notification_router_def)

text \<open>
  C6. After the tracker has invalidated a signal (the first thing it does when the signal
  closes), no OPEN or UPDATE message of that signal is delivered any more, whatever the
  four workers had already taken, prepared or were waiting to deliver.
\<close>

theorem nothing_after_close:
  assumes "router_reach sys" and "rt_log sys = before @ LogSent job # after"
    and "nj_signal job = Some s" and "LogInvalidated (sg_id s) \<in> set before"
  shows "is_close_job job"
proof -
  from assms(1) have "silent_after_close sys"
  proof (induction rule: router_reach.induct)
    case (start tg)
    then show ?case by (simp add: silent_after_close_def)
  qed (rule silent_next)
  with assms(2-4) show ?thesis unfolding silent_after_close_def by blast
qed

section \<open>Witnesses\<close>

definition notice_signal :: "dec \<Rightarrow> signal" where
  "notice_signal peak = \<lparr>sg_id = ''s1'', sg_symbol = ''BTCUSDT'', sg_type = IntraExchange,
     sg_buy_exchange = ''OKX'', sg_sell_exchange = ''OKX'', sg_exchange_a = ''OKX'', sg_exchange_b = ''OKX'',
     sg_buy_market = MarketTypeSpot, sg_sell_market = MarketTypeSpot, sg_opened_at = 5, sg_closed_at = 0,
     sg_active = True, sg_initial = 3 / 100, sg_peak = peak, sg_final = 0, sg_duration = 0, sg_volume = 900,
     sg_buy_rate = 0, sg_sell_rate = 0, sg_buy_next = 0, sg_sell_next = 0, sg_notified = []\<rparr>"

definition notice_user :: user where
  "notice_user = \<lparr>us_chat_id = 7, us_username = ''u'', us_min_spread = 2 / 100, us_min_volume = 500,
     us_timeframe = TF_24h, us_min_funding_minutes = 0, us_update_step = 1 / 100, us_bot_id = 0\<rparr>"

definition notice_env :: router_env where
  "notice_env = \<lparr>re_dec = sample_lib, re_users = Some [(7, notice_user)], re_volume = None,
     re_config = Some (new_screener_config (1 / 100)), re_now = 6, re_user_order = rev\<rparr>"

lemma notice_env_ok: "renv_ok notice_env"
  by (simp add: renv_ok_def notice_env_def users_ok_def notice_user_def order_ok_rev)

lemma notice_eligible: "open_eligible notice_env (notice_signal (5 / 100)) notice_user"
  by (simp add: open_eligible_def notice_signal_def notice_user_def notice_env_def funding_allowed_def
      user_volume_def)

lemma notice_open:
  "process_signal notice_env (notice_signal (5 / 100)) True (new_notification_router None) =
    ((new_notification_router None)\<lparr>nr_pending := [(''s1:open'', \<lparr>nj_key = ''s1:open'',
       nj_text = render_signal_notification (notice_signal (5 / 100)) True False, nj_chats = [7],
       nj_signal = Some (notice_signal (5 / 100)), nj_revalidate = True\<rparr>)]\<rparr>, [7])"
proof -
  have "filter (open_eligible notice_env (notice_signal (5 / 100))) (ranged_users notice_env) = [notice_user]"
    using notice_eligible by (simp add: ranged_users_def get_all_users_def notice_env_def)
  then show ?thesis
    by (simp add: process_signal_def Let_def notice_env_def new_notification_router_def enqueue_def
        notice_user_def) (simp add: notice_signal_def)
qed

theorem open_recipients_witness:
  "\<exists>um u. re_users notice_env = Some um \<and> get_user um 7 = Some u \<and> us_min_spread u \<le> 5 / 100"
proof -
  have "\<not> nr_closed (new_notification_router None)" by (simp add: new_notification_router_def)
  from open_recipients [OF notice_env_ok this notice_open]
  have "\<exists>um u. re_users notice_env = Some um \<and> get_user um 7 = Some u
      \<and> us_min_spread u \<le> sg_peak (notice_signal (5 / 100))" by (metis list.set_intros(1))
  then show ?thesis by (simp add: notice_signal_def)
qed

definition notice_job :: notification_job where
  "notice_job = \<lparr>nj_key = ''s1:open'', nj_text = render_signal_notification (notice_signal (5 / 100)) True False,
     nj_chats = [7, 8], nj_signal = Some (notice_signal (5 / 100)), nj_revalidate = True\<rparr>"

lemma notice_prepared:
  "\<exists>job'. prepare_job notice_env (Some Some) (new_notification_router None) notice_job = Some job' \<and> nj_chats job' = [7]"
proof -
  have "current_eligible_chat_ids notice_env (notice_signal (5 / 100)) [7, 8] = [7]"
    using notice_eligible
    by (simp add: current_eligible_chat_ids_def ranged_users_def get_all_users_def notice_env_def)
      (simp add: notice_user_def)
  moreover have "\<not> sg_peak (notice_signal (5 / 100)) < get_hard_min_spread (new_screener_config (1 / 100))"
    by (simp add: notice_signal_def get_hard_min_spread_def new_screener_config_def hard_min_spread_def)
  moreover have "re_config notice_env = Some (new_screener_config (1 / 100))" by (simp add: notice_env_def)
  ultimately show ?thesis
    by (simp add: prepare_job_def notice_job_def job_invalid_def new_notification_router_def Let_def)
qed

theorem revalidated_recipients_witness:
  "\<exists>job' um u. prepare_job notice_env (Some Some) (new_notification_router None) notice_job = Some job'
     \<and> re_users notice_env = Some um \<and> get_user um 7 = Some u \<and> open_eligible notice_env (notice_signal (5 / 100)) u"
proof -
  obtain job' where j: "prepare_job notice_env (Some Some) (new_notification_router None) notice_job = Some job'"
    "nj_chats job' = [7]" using notice_prepared by blast
  have "nj_revalidate notice_job" "nj_signal notice_job = Some (notice_signal (5 / 100))"
    by (simp_all add: notice_job_def)
  from revalidated_recipients [OF notice_env_ok this j(1)] j show ?thesis by (metis list.set_intros(1) option.inject)
qed

theorem updates_bounded_witness:
  "hits 7 (snd (run_updates [(notice_env, notice_signal (4 / 100)), (notice_env, notice_signal (4 / 100))]
     (new_notification_router None))) = 0
   \<or> (\<exists>(E, s)\<in>set [(notice_env, notice_signal (4 / 100)), (notice_env, notice_signal (4 / 100))].
        int (hits 7 (snd (run_updates [(notice_env, notice_signal (4 / 100)), (notice_env, notice_signal (4 / 100))]
          (new_notification_router None)))) \<le> lib_int_part (re_dec E) (lib_div (re_dec E) (sg_peak s - 3 / 100) (1 / 100)))"
proof (rule updates_bounded [where sid = "''s1''" and tg = None, OF _ _ surjective_pairing])
  show "\<forall>(E, s)\<in>set [(notice_env, notice_signal (4 / 100)), (notice_env, notice_signal (4 / 100))].
      renv_ok E \<and> sg_id s = ''s1'' \<and> sg_initial s = 3 / 100
      \<and> (\<forall>um u. re_users E = Some um \<longrightarrow> get_user um 7 = Some u \<longrightarrow> us_update_step u = 1 / 100)"
    using notice_env_ok by (simp add: notice_signal_def) (simp add: notice_env_def get_user_def notice_user_def)
qed simp

definition closed_notice :: signal where
  "closed_notice = (notice_signal (5 / 100))\<lparr>sg_active := False, sg_notified := [7]\<rparr>"

lemma closed_notice_fields: "sg_id closed_notice = ''s1''" "sg_notified closed_notice = [7]"
  by (simp_all add: closed_notice_def notice_signal_def)

text \<open>A close message is delivered after the invalidation.\<close>

theorem nothing_after_close_witness:
  "\<exists>sys before job after. router_reach sys \<and> rt_log sys = before @ LogSent job # after
     \<and> LogInvalidated ''s1'' \<in> set before \<and> is_close_job job"
proof -
  let ?s = "closed_notice"
  let ?r0 = "new_notification_router (Some PlainSender)"
  let ?job = "\<lparr>nj_key = ''s1:close'', nj_text = render_signal_notification ?s False False, nj_chats = [7],
      nj_signal = Some ?s, nj_revalidate = False\<rparr>"
  let ?sys0 = "\<lparr>rt_router = ?r0, rt_held = [], rt_ready = [], rt_log = []\<rparr>"
  let ?r1 = "invalidate_signal ''s1'' ?r0"
  let ?sys1 = "?sys0\<lparr>rt_router := ?r1, rt_log := [LogInvalidated ''s1'']\<rparr>"
  let ?r2 = "fst (process_signal notice_env ?s False ?r1)"
  let ?sys2 = "?sys1\<lparr>rt_router := ?r2\<rparr>"
  let ?sys3 = "?sys2\<lparr>rt_router := ?r1, rt_held := [?job]\<rparr>"
  let ?sys4 = "?sys3\<lparr>rt_held := [], rt_ready := [?job]\<rparr>"
  let ?sys5 = "?sys4\<lparr>rt_ready := [], rt_log := [LogInvalidated ''s1'', LogSent ?job]\<rparr>"
  have r2: "?r2 = ?r1\<lparr>nr_pending := [(''s1:close'', ?job)]\<rparr>"
    by (simp add: process_signal_def notice_env_def new_notification_router_def invalidate_signal_def enqueue_def
        Let_def closed_notice_fields)
  have close: "is_close_job ?job" by (simp add: is_close_job_def has_suffix_def)
  have "router_reach ?sys0" by (rule router_reach.start)
  moreover have "router_next ?sys0 ?sys1" using rt_invalidate [of "''s1''" ?sys0] by simp
  moreover have "router_next ?sys1 ?sys2" using rt_process [of ?sys1 notice_env ?s False] by simp
  moreover have "take_pending ''s1:close'' ?r2 = (?r1, Some ?job)"
    by (simp add: r2 take_pending_def) (simp add: invalidate_signal_def new_notification_router_def)
  then have "router_next ?sys2 ?sys3" using rt_take [of "''s1:close''" ?sys2 ?r1 ?job] by simp
  moreover have "prepare_job notice_env None ?r1 ?job = Some ?job"
    using close by (simp add: prepare_job_def job_invalid_def)
  then have "router_next ?sys3 ?sys4" using rt_prepare [of ?sys3 "[]" ?job "[]" notice_env None ?job] by simp
  moreover have "deliver_job ?r1 ?job = Delivered ?job PlainSender"
    using close by (simp add: deliver_job_def job_invalid_def invalidate_signal_def new_notification_router_def)
  then have "router_next ?sys4 ?sys5" using rt_deliver [of ?sys4 "[]" ?job "[]" PlainSender] by simp
  ultimately have reach: "router_reach ?sys5" by (meson router_reach.step)
  have log: "rt_log ?sys5 = [LogInvalidated ''s1''] @ LogSent ?job # []" by simp
  have "is_close_job ?job"
    by (rule nothing_after_close [OF reach log, of ?s]) (simp_all add: closed_notice_fields)
  with reach log show ?thesis by (metis list.set_intros(1))
qed

end
