(* ===== verification/Persistence.thy ===== *)
theory Persistence
  imports Market_Types Coalescing
begin

text \<open>
  internal/app/signal_persistence_buffer.go and persistence_worker.go: the buffer that keeps
  the newest snapshot of each signal, the worker that writes batches of it to the
  repository, and the older worker that retries one signal at a time. The repository is a
  parameter (its \<open>SaveSignal\<close>) or, in the interleaved model, a map by signal id, since the
  statement it runs is an upsert. Snapshots are values, so the copies the code takes are
  the identity here; versions are natural numbers (the counter has 64 bits).
\<close>

section \<open>The buffer\<close>

record buffered_signal =
  bs_version :: nat
  bs_signal :: signal

record persistence_buffer =
  pb_items :: "(string, buffered_signal) gomap"
  pb_closed :: bool

definition new_persistence_buffer :: persistence_buffer where
  "new_persistence_buffer = \<lparr>pb_items = [], pb_closed = False\<rparr>"

text \<open>\<open>Put\<close>; the flag is the error "persistence buffer is closed".\<close>

definition put_signal :: "signal \<Rightarrow> persistence_buffer \<Rightarrow> persistence_buffer \<times> bool" where
  "put_signal s b =
     (if sg_id s = [] then (b, False)
      else if pb_closed b then (b, True)
      else let version = (case map_of (pb_items b) (sg_id s) of None \<Rightarrow> 0 | Some it \<Rightarrow> bs_version it)
           in (b\<lparr>pb_items := mput (sg_id s) \<lparr>bs_version = version + 1, bs_signal = s\<rparr> (pb_items b)\<rparr>, False))"

definition snapshot_batch ::
  "(string list \<Rightarrow> string list) \<Rightarrow> int \<Rightarrow> persistence_buffer \<Rightarrow> buffered_signal list" where
  "snapshot_batch ord limit b =
     (if limit \<le> 0 then []
      else map (\<lambda>k. the (map_of (pb_items b) k)) (take (nat limit) (ord (mkeys (pb_items b)))))"

text \<open>An item is dropped only when its version is still the one that was written.\<close>

fun ack :: "buffered_signal list \<Rightarrow> persistence_buffer \<Rightarrow> persistence_buffer" where
  "ack [] b = b"
| "ack (item # batch) b =
     (case map_of (pb_items b) (sg_id (bs_signal item)) of
        None \<Rightarrow> ack batch b
      | Some current \<Rightarrow>
          if bs_version current = bs_version item
          then ack batch (b\<lparr>pb_items := mdel (sg_id (bs_signal item)) (pb_items b)\<rparr>)
          else ack batch b)"

definition buffer_len :: "persistence_buffer \<Rightarrow> nat" where
  "buffer_len b = length (pb_items b)"

definition close_buffer :: "persistence_buffer \<Rightarrow> persistence_buffer" where
  "close_buffer b = b\<lparr>pb_closed := True\<rparr>"

section \<open>The flush loop\<close>

text \<open>\<open>save\<close> stands for \<open>SaveSignal\<close>: the new repository and whether the call succeeded.\<close>

fun save_all :: "(signal \<Rightarrow> 'r \<Rightarrow> 'r \<times> bool) \<Rightarrow> buffered_signal list \<Rightarrow> 'r \<Rightarrow> 'r \<times> bool" where
  "save_all save [] r = (r, True)"
| "save_all save (item # rest) r =
     (case save (bs_signal item) r of (r', ok) \<Rightarrow> if ok then save_all save rest r' else (r', False))"

fun flush_loop ::
  "nat \<Rightarrow> (string list \<Rightarrow> string list) \<Rightarrow> (signal \<Rightarrow> 'r \<Rightarrow> 'r \<times> bool) \<Rightarrow> int
   \<Rightarrow> persistence_buffer \<Rightarrow> 'r \<Rightarrow> (persistence_buffer \<times> 'r \<times> bool) option" where
  "flush_loop 0 ord save limit b r = None"
| "flush_loop (Suc fuel) ord save limit b r =
     (let batch = snapshot_batch ord limit b in
      if length batch = 0 then Some (b, r, True)
      else case save_all save batch r of
        (r', ok) \<Rightarrow> if ok then flush_loop fuel ord save limit (ack batch b) r' else Some (b, r', False))"

section \<open>Buffer facts\<close>

definition buffer_ok :: "persistence_buffer \<Rightarrow> bool" where
  "buffer_ok b \<longleftrightarrow> mwf (pb_items b) \<and> (\<forall>(k, it)\<in>set (pb_items b). sg_id (bs_signal it) = k \<and> k \<noteq> [])"

lemma buffer_ok_lookup: "buffer_ok b \<Longrightarrow> map_of (pb_items b) k = Some it \<Longrightarrow> sg_id (bs_signal it) = k"
  by (auto simp: buffer_ok_def dest!: map_of_SomeD)

lemma buffer_ok_new: "buffer_ok new_persistence_buffer"
  by (simp add: buffer_ok_def new_persistence_buffer_def)

lemma buffer_ok_closed [simp]: "buffer_ok (b\<lparr>pb_closed := c\<rparr>) = buffer_ok b"
  by (simp add: buffer_ok_def)

lemma buffer_ok_put: "buffer_ok b \<Longrightarrow> buffer_ok (fst (put_signal s b))"
  by (auto simp: buffer_ok_def put_signal_def Let_def mwf_mput dest!: mem_mput_D)

lemma buffer_ok_del: "buffer_ok b \<Longrightarrow> buffer_ok (b\<lparr>pb_items := mdel k (pb_items b)\<rparr>)"
  by (auto simp: buffer_ok_def mwf_mdel mem_mdel)

lemma buffer_ok_ack: "buffer_ok b \<Longrightarrow> buffer_ok (ack batch b)"
  by (induction batch b rule: ack.induct) (auto simp: buffer_ok_del split: option.splits)

lemma ack_lookup:
  "buffer_ok b \<Longrightarrow> map_of (pb_items (ack batch b)) k =
    (case map_of (pb_items b) k of
       None \<Rightarrow> None
     | Some it \<Rightarrow> if \<exists>x\<in>set batch. sg_id (bs_signal x) = k \<and> bs_version x = bs_version it then None else Some it)"
proof (induction batch b rule: ack.induct)
  case (2 item batch b)
  show ?case
  proof (cases "map_of (pb_items b) (sg_id (bs_signal item))")
    case None
    with 2 show ?thesis by (auto split: option.splits)
  next
    case (Some cur)
    with 2 buffer_ok_del show ?thesis by (auto simp: map_of_mdel split: option.splits)
  qed
qed (simp split: option.splits)

lemma pb_closed_ack [simp]: "pb_closed (ack batch b) = pb_closed b"
  by (induction batch b rule: ack.induct) (auto split: option.splits)

lemma put_signal_lookup:
  "sg_id s \<noteq> [] \<Longrightarrow> \<not> pb_closed b \<Longrightarrow>
   map_of (pb_items (fst (put_signal s b))) k =
     (if k = sg_id s then Some \<lparr>bs_version =
        (case map_of (pb_items b) k of None \<Rightarrow> 0 | Some it \<Rightarrow> bs_version it) + 1, bs_signal = s\<rparr>
      else map_of (pb_items b) k)"
  by (simp add: put_signal_def Let_def map_of_mput)

lemma put_signal_closed [simp]: "pb_closed (fst (put_signal s b)) = pb_closed b"
  by (simp add: put_signal_def Let_def)

interpretation signal_buffer: coalescing "\<lambda>s b. fst (put_signal s b)"
    "\<lambda>b k. map_option bs_signal (map_of (pb_items b) k)" sg_id "\<lambda>s. sg_id s \<noteq> []" "\<lambda>b. \<not> pb_closed b"
  by unfold_locales (auto simp: put_signal_def Let_def map_of_mput)

lemma snapshot_mem:
  assumes "order_ok ord" "it \<in> set (snapshot_batch ord limit b)"
  shows "\<exists>k. map_of (pb_items b) k = Some it"
proof -
  from assms(2) obtain k where k: "k \<in> set (take (nat limit) (ord (mkeys (pb_items b))))"
    "it = the (map_of (pb_items b) k)"
    by (auto simp: snapshot_batch_def split: if_splits)
  then have "k \<in> set (mkeys (pb_items b))" using assms(1) by (metis in_set_takeD order_ok_set)
  then have "map_of (pb_items b) k \<noteq> None" using mget_None [of "pb_items b" k] by blast
  with k(2) show ?thesis by auto
qed

lemma snapshot_distinct:
  assumes "order_ok ord" "buffer_ok b"
  shows "distinct (map (\<lambda>x. sg_id (bs_signal x)) (snapshot_batch ord limit b))"
proof -
  let ?ks = "take (nat limit) (ord (mkeys (pb_items b)))"
  have "sg_id (bs_signal (the (map_of (pb_items b) k))) = k" if "k \<in> set ?ks" for k
  proof -
    have "k \<in> set (mkeys (pb_items b))" using that assms(1) by (metis in_set_takeD order_ok_set)
    then have "map_of (pb_items b) k \<noteq> None" using mget_None [of "pb_items b" k] by blast
    then show ?thesis using buffer_ok_lookup [OF assms(2)] by auto
  qed
  then have "map (\<lambda>k. sg_id (bs_signal (the (map_of (pb_items b) k)))) ?ks = ?ks"
    by (simp add: map_idI)
  moreover have "distinct ?ks" using assms by (simp add: order_ok_distinct buffer_ok_def)
  ultimately show ?thesis by (simp add: snapshot_batch_def comp_def)
qed

lemma ack_batch_length:
  assumes "order_ok ord" "buffer_ok b" "snapshot_batch ord limit b \<noteq> []"
  shows "length (pb_items (ack (snapshot_batch ord limit b) b)) < length (pb_items b)"
proof -
  let ?batch = "snapshot_batch ord limit b"
  let ?b = "ack ?batch b"
  obtain it k where it: "it \<in> set ?batch" "map_of (pb_items b) k = Some it"
    using assms snapshot_mem [OF assms(1), of _ limit b] by (metis list.set_intros(1) neq_Nil_conv)
  have l: "length (pb_items c) = card (dom (map_of (pb_items c)))" if "buffer_ok c" for c
    using that unfolding buffer_ok_def dom_map_of_conv_image_fst
    by (metis distinct_card length_map list.set_map)
  have lk: "map_of (pb_items ?b) = (\<lambda>k. case map_of (pb_items b) k of None \<Rightarrow> None
      | Some it \<Rightarrow> if \<exists>x\<in>set ?batch. sg_id (bs_signal x) = k \<and> bs_version x = bs_version it then None else Some it)"
    by (rule ext) (rule ack_lookup [OF assms(2)])
  have "dom (map_of (pb_items ?b)) \<subseteq> dom (map_of (pb_items b))"
    unfolding lk by (auto split: option.splits)
  moreover have "k \<notin> dom (map_of (pb_items ?b))"
    unfolding lk using it buffer_ok_lookup [OF assms(2) it(2)] by (auto split: if_splits)
  ultimately have "dom (map_of (pb_items ?b)) \<subset> dom (map_of (pb_items b))" using it(2) by blast
  then show ?thesis unfolding l [OF assms(2)] l [OF buffer_ok_ack [OF assms(2)]]
    by (intro psubset_card_mono finite_dom_map_of)
qed

lemma snapshot_Nil: "order_ok ord \<Longrightarrow> 0 < limit \<Longrightarrow> snapshot_batch ord limit b = [] \<longleftrightarrow> pb_items b = []"
  using order_ok_length [of ord "mkeys (pb_items b)"] by (auto simp: snapshot_batch_def)

section \<open>Interleaving with the tracker\<close>

text \<open>
  The worker between its calls: the batch it is writing and the part still to write; the
  tracker may put snapshots at any moment. A failed save ends the flush without an ack.
\<close>

record flush_state =
  fl_buffer :: persistence_buffer
  fl_repo :: "(string, signal) gomap"
  fl_batch :: "buffered_signal list"
  fl_left :: "buffered_signal list"

datatype flush_op = FlPut signal | FlBatch "string list \<Rightarrow> string list" int | FlSaved | FlFailed | FlClose

fun flush_step :: "flush_op \<Rightarrow> flush_state \<Rightarrow> flush_state" where
  "flush_step (FlPut s) st = st\<lparr>fl_buffer := fst (put_signal s (fl_buffer st))\<rparr>"
| "flush_step (FlBatch ord limit) st =
     (if length (fl_left st) \<noteq> 0 then st
      else let batch = snapshot_batch ord limit (fl_buffer st) in st\<lparr>fl_batch := batch, fl_left := batch\<rparr>)"
| "flush_step FlSaved st =
     (case fl_left st of
        [] \<Rightarrow> st
      | item # rest \<Rightarrow>
          (let st1 = st\<lparr>fl_repo := mput (sg_id (bs_signal item)) (bs_signal item) (fl_repo st), fl_left := rest\<rparr>
           in if rest = [] then st1\<lparr>fl_buffer := ack (fl_batch st) (fl_buffer st), fl_batch := []\<rparr> else st1))"
| "flush_step FlFailed st = st\<lparr>fl_batch := [], fl_left := []\<rparr>"
| "flush_step FlClose st = st\<lparr>fl_buffer := close_buffer (fl_buffer st)\<rparr>"

definition empty_flush_state :: flush_state where
  "empty_flush_state = \<lparr>fl_buffer = new_persistence_buffer, fl_repo = [], fl_batch = [], fl_left = []\<rparr>"

fun flush_op_ok :: "flush_op \<Rightarrow> bool" where
  "flush_op_ok (FlBatch ord limit) = order_ok ord"
| "flush_op_ok _ = True"

text \<open>The newest snapshot of a signal the buffer has accepted.\<close>

definition accepted_puts :: "flush_op list \<Rightarrow> signal list" where
  "accepted_puts ops =
     concat (map (\<lambda>x. case x of FlPut s \<Rightarrow> if sg_id s \<noteq> [] then [s] else [] | _ \<Rightarrow> []) (takeWhile (\<lambda>x. x \<noteq> FlClose) ops))"

definition newest_put :: "flush_op list \<Rightarrow> string \<Rightarrow> signal option" where
  "newest_put ops k = find (\<lambda>s. sg_id s = k) (rev (accepted_puts ops))"

lemma newest_put_snoc:
  "newest_put (ops @ [x]) k =
    (case x of FlPut s \<Rightarrow> if FlClose \<notin> set ops \<and> sg_id s \<noteq> [] \<and> sg_id s = k then Some s else newest_put ops k
     | _ \<Rightarrow> newest_put ops k)"
proof (cases "FlClose \<in> set ops")
  case True
  then have "takeWhile (\<lambda>x. x \<noteq> FlClose) (ops @ [x]) = takeWhile (\<lambda>x. x \<noteq> FlClose) ops"
    by (rule takeWhile_append1) simp
  then have "accepted_puts (ops @ [x]) = accepted_puts ops" by (simp only: accepted_puts_def)
  with True show ?thesis by (simp add: newest_put_def split: flush_op.split)
next
  case False
  then have all: "takeWhile (\<lambda>x. x \<noteq> FlClose) (ops @ ys) = ops @ takeWhile (\<lambda>x. x \<noteq> FlClose) ys" for ys
    by (intro takeWhile_append2) auto
  have t: "takeWhile (\<lambda>x. x \<noteq> FlClose) ops = ops" using False by (simp add: takeWhile_eq_all_conv) blast
  have "accepted_puts (ops @ [x]) = accepted_puts ops @ accepted_puts [x]"
    unfolding accepted_puts_def all t by simp
  with False show ?thesis
    by (cases x) (simp_all add: newest_put_def, simp_all add: accepted_puts_def)
qed

text \<open>The items of the current batch that are already written.\<close>

definition written :: "flush_state \<Rightarrow> buffered_signal list \<Rightarrow> bool" where
  "written st done \<longleftrightarrow> fl_batch st = done @ fl_left st
     \<and> (\<forall>it\<in>set done. map_of (fl_repo st) (sg_id (bs_signal it)) = Some (bs_signal it))"

definition flush_inv :: "(string \<Rightarrow> signal option) \<Rightarrow> flush_state \<Rightarrow> bool" where
  "flush_inv newest st \<longleftrightarrow> buffer_ok (fl_buffer st)
     \<and> distinct (map (\<lambda>x. sg_id (bs_signal x)) (fl_batch st))
     \<and> (\<forall>it\<in>set (fl_batch st). \<exists>cur. map_of (pb_items (fl_buffer st)) (sg_id (bs_signal it)) = Some cur
          \<and> bs_version it \<le> bs_version cur \<and> (bs_version it = bs_version cur \<longrightarrow> cur = it))
     \<and> (\<exists>done. written st done)
     \<and> (\<forall>k s. newest k = Some s \<longrightarrow>
          (case map_of (pb_items (fl_buffer st)) k of
             Some it \<Rightarrow> bs_signal it = s | None \<Rightarrow> map_of (fl_repo st) k = Some s))"

lemma flush_inv_put:
  assumes inv: "flush_inv newest st" and s: "sg_id s \<noteq> []" "\<not> pb_closed (fl_buffer st)"
  shows "flush_inv (newest(sg_id s \<mapsto> s)) (flush_step (FlPut s) st)"
proof -
  let ?b = "fst (put_signal s (fl_buffer st))"
  note lk = put_signal_lookup [OF s]
  have a: "buffer_ok ?b" using inv by (simp add: flush_inv_def buffer_ok_put)
  have b: "\<forall>it\<in>set (fl_batch st). \<exists>cur. map_of (pb_items ?b) (sg_id (bs_signal it)) = Some cur
      \<and> bs_version it \<le> bs_version cur \<and> (bs_version it = bs_version cur \<longrightarrow> cur = it)"
  proof
    fix it assume it: "it \<in> set (fl_batch st)"
    then obtain cur where c: "map_of (pb_items (fl_buffer st)) (sg_id (bs_signal it)) = Some cur"
      "bs_version it \<le> bs_version cur" "bs_version it = bs_version cur \<longrightarrow> cur = it"
      using inv unfolding flush_inv_def by blast
    then show "\<exists>cur. map_of (pb_items ?b) (sg_id (bs_signal it)) = Some cur
      \<and> bs_version it \<le> bs_version cur \<and> (bs_version it = bs_version cur \<longrightarrow> cur = it)"
      by (cases "sg_id (bs_signal it) = sg_id s") (simp_all add: lk)
  qed
  have c: "\<forall>k x. (newest(sg_id s \<mapsto> s)) k = Some x \<longrightarrow>
      (case map_of (pb_items ?b) k of Some it \<Rightarrow> bs_signal it = x | None \<Rightarrow> map_of (fl_repo st) k = Some x)"
    using inv by (auto simp: lk flush_inv_def)
  obtain dn where "written st dn" using inv unfolding flush_inv_def by blast
  then have "written (st\<lparr>fl_buffer := ?b\<rparr>) dn" by (simp add: written_def)
  then have d: "\<exists>dn. written (st\<lparr>fl_buffer := ?b\<rparr>) dn" by blast
  have "distinct (map (\<lambda>x. sg_id (bs_signal x)) (fl_batch st))" using inv by (simp add: flush_inv_def)
  with a b c d show ?thesis unfolding flush_inv_def flush_step.simps by (simp cong: option.case_cong)
qed

text \<open>A batch that is completely saved may be acknowledged: what the ack removes is in the repository.\<close>

lemma acked_is_saved:
  assumes bok: "buffer_ok b"
    and cur: "\<And>it. it \<in> set batch \<Longrightarrow> \<exists>cur. map_of (pb_items b) (sg_id (bs_signal it)) = Some cur
      \<and> bs_version it \<le> bs_version cur \<and> (bs_version it = bs_version cur \<longrightarrow> cur = it)"
    and all: "\<forall>it\<in>set batch. map_of repo (sg_id (bs_signal it)) = Some (bs_signal it)"
    and newest: "case map_of (pb_items b) k of Some it \<Rightarrow> bs_signal it = s | None \<Rightarrow> map_of repo k = Some s"
  shows "case map_of (pb_items (ack batch b)) k of Some it \<Rightarrow> bs_signal it = s | None \<Rightarrow> map_of repo k = Some s"
proof (cases "map_of (pb_items b) k")
  case None
  then show ?thesis using newest by (simp add: ack_lookup [OF bok])
next
  case (Some it)
  have s: "bs_signal it = s" using newest Some by simp
  show ?thesis
  proof (cases "\<exists>x\<in>set batch. sg_id (bs_signal x) = k \<and> bs_version x = bs_version it")
    case True
    then obtain x where x: "x \<in> set batch" "sg_id (bs_signal x) = k" "bs_version x = bs_version it" by blast
    with cur [OF x(1)] Some have "it = x" by auto
    with bspec [OF all x(1)] x(2) s have "map_of repo k = Some s" by simp
    with True Some show ?thesis by (simp add: ack_lookup [OF bok])
  next
    case False
    then have "map_of (pb_items (ack batch b)) k = Some it" using Some by (simp add: ack_lookup [OF bok])
    with s show ?thesis by simp
  qed
qed

lemma flush_inv_saved:
  assumes inv: "flush_inv newest st" and left: "fl_left st = item # rest"
  shows "flush_inv newest (flush_step FlSaved st)"
proof -
  let ?id = "\<lambda>x. sg_id (bs_signal x)" and ?b = "fl_buffer st"
  obtain dn where dn: "fl_batch st = dn @ item # rest"
    "\<forall>it\<in>set dn. map_of (fl_repo st) (?id it) = Some (bs_signal it)"
    using inv left by (auto simp: flush_inv_def written_def)
  have dist: "distinct (map ?id (fl_batch st))" and bok: "buffer_ok ?b" using inv by (simp_all add: flush_inv_def)
  let ?repo = "mput (?id item) (bs_signal item) (fl_repo st)"
  have new: "\<forall>it\<in>set (dn @ [item]). map_of ?repo (?id it) = Some (bs_signal it)"
    using dn dist by (auto simp: map_of_mput rev_image_eqI)
  have cur: "\<exists>cur. map_of (pb_items ?b) (?id it) = Some cur \<and> bs_version it \<le> bs_version cur
      \<and> (bs_version it = bs_version cur \<longrightarrow> cur = it)" if "it \<in> set (fl_batch st)" for it
    using inv that unfolding flush_inv_def by blast
  have item: "\<exists>c. map_of (pb_items ?b) (?id item) = Some c" using cur [of item] dn(1) by auto
  have n: "case map_of (pb_items ?b) k of Some it \<Rightarrow> bs_signal it = s | None \<Rightarrow> map_of ?repo k = Some s"
    if "newest k = Some s" for k s
  proof -
    have "case map_of (pb_items ?b) k of Some it \<Rightarrow> bs_signal it = s | None \<Rightarrow> map_of (fl_repo st) k = Some s"
      using inv that unfolding flush_inv_def by blast
    then show ?thesis using item by (auto simp: map_of_mput split: option.splits)
  qed
  show ?thesis
  proof (cases "rest = []")
    case False
    have "written (st\<lparr>fl_repo := ?repo, fl_left := rest\<rparr>) (dn @ [item])" using dn(1) new by (simp add: written_def)
    then have w: "\<exists>dn. written (st\<lparr>fl_repo := ?repo, fl_left := rest\<rparr>) dn" by blast
    have eq: "flush_step FlSaved st = st\<lparr>fl_repo := ?repo, fl_left := rest\<rparr>" using left False by (simp add: Let_def)
    show ?thesis using bok dist cur w n unfolding eq flush_inv_def by (simp cong: option.case_cong)
  next
    case True
    let ?st = "st\<lparr>fl_repo := ?repo, fl_left := [], fl_buffer := ack (fl_batch st) ?b, fl_batch := []\<rparr>"
    have all: "\<forall>it\<in>set (fl_batch st). map_of ?repo (?id it) = Some (bs_signal it)" using new dn(1) True by simp
    have eq: "flush_step FlSaved st = ?st" using left True by (simp add: Let_def)
    have "written ?st []" by (simp add: written_def)
    then have "\<exists>dn. written ?st dn" by blast
    then show ?thesis using buffer_ok_ack [OF bok] acked_is_saved [OF bok cur all n]
      unfolding eq flush_inv_def by (simp cong: option.case_cong)
  qed
qed

lemma flush_inv_batch:
  assumes inv: "flush_inv newest st" and ord: "order_ok ord"
  shows "flush_inv newest (flush_step (FlBatch ord limit) st)"
proof (cases "length (fl_left st) = 0")
  case False
  then show ?thesis using inv by simp
next
  case True
  let ?batch = "snapshot_batch ord limit (fl_buffer st)"
  have bok: "buffer_ok (fl_buffer st)" using inv by (simp add: flush_inv_def)
  have "\<exists>cur. map_of (pb_items (fl_buffer st)) (sg_id (bs_signal it)) = Some cur
      \<and> bs_version it \<le> bs_version cur \<and> (bs_version it = bs_version cur \<longrightarrow> cur = it)"
    if it: "it \<in> set ?batch" for it
  proof -
    obtain k where k: "map_of (pb_items (fl_buffer st)) k = Some it" using snapshot_mem [OF ord it] by blast
    with buffer_ok_lookup [OF bok k] show ?thesis by auto
  qed
  moreover have "written (st\<lparr>fl_batch := ?batch, fl_left := ?batch\<rparr>) []" by (simp add: written_def)
  then have "\<exists>dn. written (st\<lparr>fl_batch := ?batch, fl_left := ?batch\<rparr>) dn" by blast
  moreover have eq: "flush_step (FlBatch ord limit) st = st\<lparr>fl_batch := ?batch, fl_left := ?batch\<rparr>"
    using True by (simp add: Let_def)
  ultimately show ?thesis using inv snapshot_distinct [OF ord bok] unfolding eq flush_inv_def by (simp cong: option.case_cong)
qed

lemma newest_put_other: "(\<And>s. x \<noteq> FlPut s) \<Longrightarrow> newest_put (ops @ [x]) = newest_put ops"
  by (cases x) (blast, simp_all add: newest_put_snoc fun_eq_iff)

lemma flush_inv_other:
  assumes "flush_inv newest st" and "flush_op_ok x" and "\<And>s. x \<noteq> FlPut s"
  shows "flush_inv newest (flush_step x st)"
proof (cases x)
  case (FlBatch ord limit)
  with assms(1,2) flush_inv_batch show ?thesis by (simp del: flush_step.simps)
next
  case FlSaved
  show ?thesis
  proof (cases "fl_left st")
    case Nil
    with assms(1) FlSaved show ?thesis by simp
  next
    case (Cons item rest)
    from flush_inv_saved [OF assms(1) this] FlSaved show ?thesis by (simp del: flush_step.simps)
  qed
next
  case FlFailed
  have "written (st\<lparr>fl_batch := [], fl_left := []\<rparr>) []" by (simp add: written_def)
  then have "\<exists>dn. written (st\<lparr>fl_batch := [], fl_left := []\<rparr>) dn" by blast
  with assms(1) FlFailed show ?thesis by (simp add: flush_inv_def cong: option.case_cong)
next
  case FlClose
  have "written (st\<lparr>fl_buffer := b\<rparr>) dn = written st dn" for b dn by (simp add: written_def)
  with assms(1) FlClose show ?thesis by (simp add: flush_inv_def close_buffer_def cong: option.case_cong)
qed (use assms(3) in blast)

lemma flush_inv_run:
  assumes "\<forall>x\<in>set ops. flush_op_ok x"
  shows "flush_inv (newest_put ops) (fold flush_step ops empty_flush_state)
    \<and> (pb_closed (fl_buffer (fold flush_step ops empty_flush_state)) \<longleftrightarrow> FlClose \<in> set ops)"
  using assms
proof (induction ops rule: rev_induct)
  case Nil
  have "written empty_flush_state []" by (simp add: written_def empty_flush_state_def)
  then have "\<exists>dn. written empty_flush_state dn" by blast
  then show ?case by (simp add: flush_inv_def empty_flush_state_def new_persistence_buffer_def
      buffer_ok_def newest_put_def accepted_puts_def)
next
  case (snoc x ops)
  let ?st = "fold flush_step ops empty_flush_state"
  have IH: "flush_inv (newest_put ops) ?st" "pb_closed (fl_buffer ?st) \<longleftrightarrow> FlClose \<in> set ops"
    using snoc by simp_all
  have step: "fold flush_step (ops @ [x]) empty_flush_state = flush_step x ?st" by simp
  have closed: "pb_closed (fl_buffer (flush_step x ?st)) \<longleftrightarrow> FlClose \<in> set (ops @ [x])"
    using IH(2) by (cases x) (auto simp: Let_def close_buffer_def split: list.splits)
  have "flush_inv (newest_put (ops @ [x])) (flush_step x ?st)"
  proof (cases "\<exists>s. x = FlPut s \<and> sg_id s \<noteq> [] \<and> FlClose \<notin> set ops")
    case True
    then obtain s where s: "x = FlPut s" "sg_id s \<noteq> []" "FlClose \<notin> set ops" by blast
    then have "newest_put (ops @ [x]) = (newest_put ops)(sg_id s \<mapsto> s)" by (auto simp: newest_put_snoc)
    with s IH flush_inv_put show ?thesis by simp
  next
    case False
    show ?thesis
    proof (cases "\<exists>s. x = FlPut s")
      case True
      then obtain s where s: "x = FlPut s" by blast
      with False IH(2) have "flush_step x ?st = ?st" by (auto simp: put_signal_def)
      moreover have "newest_put (ops @ [x]) = newest_put ops" using False s by (auto simp: newest_put_snoc)
      ultimately show ?thesis using IH(1) by simp
    qed (use flush_inv_other [OF IH(1)] newest_put_other [of x ops] snoc.prems in auto)
  qed
  with closed show ?case unfolding step by blast
qed

section \<open>The retry loop of the older worker\<close>

definition next_backoff :: "gdur \<Rightarrow> gdur" where
  "next_backoff b =
     (if b < 5 * nano_second
      then (if b * 2 > 5 * nano_second then 5 * nano_second else b * 2)
      else b)"

datatype persist_outcome = Persisted | Interrupted | StillRetrying

text \<open>Each attempt is described by whether the save succeeds and, if not, whether the shutdown
  comes before the timer; the second result lists the waits.\<close>

fun persist_loop :: "gdur \<Rightarrow> (bool \<times> bool) list \<Rightarrow> persist_outcome \<times> gdur list" where
  "persist_loop backoff [] = (StillRetrying, [])"
| "persist_loop backoff ((saved, shutdown) # rest) =
     (if saved then (Persisted, [])
      else if shutdown then (Interrupted, [backoff])
      else case persist_loop (next_backoff backoff) rest of (r, ws) \<Rightarrow> (r, backoff # ws))"

definition persist :: "(bool \<times> bool) list \<Rightarrow> persist_outcome \<times> gdur list" where
  "persist attempts = persist_loop (200 * 10 ^ 6) attempts"

definition backoff_at :: "nat \<Rightarrow> gdur" where
  "backoff_at i = min (5 * nano_second) (200 * 10 ^ 6 * 2 ^ i)"

lemma next_backoff_at: "next_backoff (backoff_at i) = backoff_at (Suc i)"
proof -
  have "0 < (200 * 10 ^ 6 * 2 ^ i :: int)" by simp
  then show ?thesis by (simp add: next_backoff_def backoff_at_def nano_second_def min_def)
qed

lemma persist_loop_spec:
  "persist_loop (backoff_at i) as =
    (case find (\<lambda>a. fst a \<or> snd a) as of
       None \<Rightarrow> (StillRetrying, map backoff_at [i..<i + length as])
     | Some a \<Rightarrow> (let n = length (takeWhile (\<lambda>a. \<not> fst a \<and> \<not> snd a) as) in
         if fst a then (Persisted, map backoff_at [i..<i + n])
         else (Interrupted, map backoff_at [i..<i + n + 1])))"
proof (induction as arbitrary: i)
  case (Cons a as)
  obtain saved shutdown where a: "a = (saved, shutdown)" by fastforce
  have up: "backoff_at i # map backoff_at [Suc i..<Suc i + n] = map backoff_at [i..<i + Suc n]" for n
    by (simp add: upt_conv_Cons del: upt_Suc)
  have up': "backoff_at i # map backoff_at [Suc i..<Suc (i + n)] = map backoff_at [i..<Suc (i + n)]" for n
    using up [of n] by (simp del: upt_Suc)
  show ?case
  proof (cases "saved \<or> shutdown")
    case True
    then show ?thesis by (auto simp: a)
  next
    case False
    then have step: "persist_loop (backoff_at i) (a # as) =
        (case persist_loop (backoff_at (Suc i)) as of (r, ws) \<Rightarrow> (r, backoff_at i # ws))"
      by (simp add: a next_backoff_at)
    show ?thesis
    proof (cases "find (\<lambda>a. fst a \<or> snd a) as")
      case None
      with False show ?thesis unfolding step Cons.IH by (simp add: a up' del: upt_Suc)
    next
      case (Some x)
      with False up' [of "length (takeWhile (\<lambda>a. \<not> fst a \<and> \<not> snd a) as)"]
        up' [of "Suc (length (takeWhile (\<lambda>a. \<not> fst a \<and> \<not> snd a) as))"] show ?thesis
        unfolding step Cons.IH by (simp add: a Let_def del: upt_Suc)
    qed
  qed
qed simp

section \<open>Properties\<close>

text \<open>
  C4. No snapshot is lost between the tracker and the database: at every moment of every
  interleaving of puts, batches, successful and failed saves, the newest accepted snapshot
  of every signal is either still in the buffer or is what the repository holds. In
  particular the acknowledgement of a batch never drops a snapshot that arrived while the
  batch was being written.
\<close>

theorem newest_snapshot_never_lost:
  assumes "\<forall>x\<in>set ops. flush_op_ok x" and "st = fold flush_step ops empty_flush_state"
    and "newest_put ops k = Some s"
  shows "case map_of (pb_items (fl_buffer st)) k of
           Some it \<Rightarrow> bs_signal it = s | None \<Rightarrow> map_of (fl_repo st) k = Some s"
  using flush_inv_run [OF assms(1)] assms(2,3) unfolding flush_inv_def by blast

lemma save_all_append: "save_all save xs r = (r1, True) \<Longrightarrow> save_all save (xs @ ys) r = save_all save ys r1"
  by (induction xs arbitrary: r) (auto split: prod.splits if_splits)

lemma save_all_fails:
  "save_all save xs r = (r', False) \<Longrightarrow>
   \<exists>ys x zs r2. xs = ys @ x # zs \<and> save_all save ys r = (r2, True) \<and> save (bs_signal x) r2 = (r', False)"
proof (induction xs arbitrary: r)
  case (Cons x xs)
  obtain r1 ok where s: "save (bs_signal x) r = (r1, ok)" by fastforce
  show ?case
  proof (cases ok)
    case True
    with Cons.prems s have "save_all save xs r1 = (r', False)" by simp
    from Cons.IH [OF this] obtain ys y zs r2 where "xs = ys @ y # zs" "save_all save ys r1 = (r2, True)" "save (bs_signal y) r2 = (r', False)"
      by blast
    with s True show ?thesis by (intro exI [of _ "x # ys"] exI [of _ y] exI [of _ zs] exI [of _ r2]) simp
  next
    case False
    with Cons.prems s show ?thesis by (intro exI [of _ "[]"] exI [of _ x] exI [of _ xs] exI [of _ r]) simp
  qed
qed simp

lemma ack_batch_lookup:
  assumes "order_ok ord" and "buffer_ok b"
  shows "map_of (pb_items (ack (snapshot_batch ord limit b) b)) k =
    (if k \<in> (\<lambda>it. sg_id (bs_signal it)) ` set (snapshot_batch ord limit b) then None else map_of (pb_items b) k)"
proof -
  have "map_of (pb_items b) (sg_id (bs_signal x)) = Some x" if "x \<in> set (snapshot_batch ord limit b)" for x
    using snapshot_mem [OF assms(1) that] buffer_ok_lookup [OF assms(2)] by blast
  then show ?thesis by (force simp: ack_lookup [OF assms(2)] split: option.splits)
qed


text \<open>
  The retry loop waits 200 ms, then twice as long after every failure, never more than
  5 s; it reports success exactly when the first attempt that ends the loop saved the
  signal, and failure exactly when the shutdown came first.
\<close>

theorem persist_backoff:
  "persist as =
    (case find (\<lambda>a. fst a \<or> snd a) as of
       None \<Rightarrow> (StillRetrying, map (\<lambda>i. min (5 * nano_second) (200 * 10 ^ 6 * 2 ^ i)) [0..<length as])
     | Some a \<Rightarrow> (let n = length (takeWhile (\<lambda>a. \<not> fst a \<and> \<not> snd a) as) in
         if fst a then (Persisted, map (\<lambda>i. min (5 * nano_second) (200 * 10 ^ 6 * 2 ^ i)) [0..<n])
         else (Interrupted, map (\<lambda>i. min (5 * nano_second) (200 * 10 ^ 6 * 2 ^ i)) [0..<n + 1])))"
proof -
  have b: "(\<lambda>i. min (5 * nano_second) (200 * 10 ^ 6 * 2 ^ i)) = backoff_at"
    by (simp add: fun_eq_iff backoff_at_def)
  have "persist as = persist_loop (backoff_at 0) as"
    by (simp add: persist_def backoff_at_def nano_second_def)
  then show ?thesis unfolding b using persist_loop_spec [of 0 as, unfolded add_0_left] by simp
qed

section \<open>Witnesses\<close>

definition sample_signal :: "dec \<Rightarrow> signal" where
  "sample_signal peak = signal_update_peak peak (new_arbitrage_signal ''s1'' (sample_event ''A'' ''B'' (3 / 100) 5 SignalOpened) 5)"

lemma sample_signal_id: "sg_id (sample_signal p) = ''s1''"
  by (simp add: sample_signal_def signal_update_peak_def new_arbitrage_signal_def Let_def)

text \<open>A snapshot that arrives while the first one is being written survives the ack.\<close>

theorem newest_snapshot_never_lost_witness:
  "case map_of (pb_items (fl_buffer (fold flush_step [FlPut (sample_signal (4 / 100)), FlBatch id 500,
       FlPut (sample_signal (5 / 100)), FlSaved] empty_flush_state))) ''s1'' of
     Some it \<Rightarrow> bs_signal it = sample_signal (5 / 100) | None \<Rightarrow> False"
proof -
  let ?ops = "[FlPut (sample_signal (4 / 100)), FlBatch id 500, FlPut (sample_signal (5 / 100)), FlSaved]"
  let ?st = "fold flush_step ?ops empty_flush_state"
  have n: "newest_put ?ops ''s1'' = Some (sample_signal (5 / 100))"
    by (simp add: newest_put_def accepted_puts_def sample_signal_id)
  have "map_of (pb_items (fl_buffer ?st)) ''s1'' \<noteq> None"
    by (simp add: empty_flush_state_def new_persistence_buffer_def put_signal_def sample_signal_id
        snapshot_batch_def Let_def)
  then obtain it where it: "map_of (pb_items (fl_buffer ?st)) ''s1'' = Some it" by blast
  have "\<forall>x\<in>set ?ops. flush_op_ok x" by (simp add: order_ok_id)
  from newest_snapshot_never_lost [OF this refl n] show ?thesis unfolding it option.case .
qed


end
