(* ===== verification/Tracker.thy ===== *)
theory Tracker
  imports Lifecycle Router Persistence
begin

text \<open>
  internal/app/tracker.go: the canonical signals. One goroutine handles the events of the
  aggregator in order, so \<open>HandleEvent\<close> is one step on the tracker together with its
  persistence sink and its router. The id of a new signal is an argument (uuid package),
  as is whether a channel sink accepts within its five seconds. Metrics and logs are left out.
\<close>

section \<open>State\<close>

datatype persistence_sink = BufferSink persistence_buffer | ChannelSink "signal list"

record tracker =
  tk_active :: "(string, signal) gomap"
  tk_sink :: "persistence_sink option"
  tk_router :: "router option"

record tracker_env =
  te_dec :: dec_lib
  te_config :: screener_config
  te_router :: router_env

definition new_tracker :: "persistence_sink option \<Rightarrow> router option \<Rightarrow> tracker" where
  "new_tracker sink router = \<lparr>tk_active = [], tk_sink = sink, tk_router = router\<rparr>"

text \<open>\<open>Put\<close> of either sink; the flag is its error.\<close>

definition sink_put :: "bool \<Rightarrow> signal \<Rightarrow> persistence_sink \<Rightarrow> persistence_sink \<times> bool" where
  "sink_put ready s sink =
     (case sink of
        BufferSink b \<Rightarrow> (case put_signal s b of (b', err) \<Rightarrow> (BufferSink b', err))
      | ChannelSink q \<Rightarrow> if ready then (ChannelSink (q @ [s]), False) else (ChannelSink q, True))"

definition active_snapshot :: "(signal list \<Rightarrow> signal list) \<Rightarrow> tracker \<Rightarrow> signal list" where
  "active_snapshot ord tk = ord (map snd (tk_active tk))"

definition active_count :: "tracker \<Rightarrow> nat" where
  "active_count tk = length (tk_active tk)"

definition signal_key :: "spread_event \<Rightarrow> string" where
  "signal_key e =
     (let buy = (if ev_buy_exchange e = [] then ev_exchange_a e else ev_buy_exchange e);
          sell = (if ev_sell_exchange e = [] then ev_exchange_b e else ev_sell_exchange e)
      in join_with '':'' [ev_symbol e, ev_type e, buy, sell, ev_buy_market e, ev_sell_market e])"

section \<open>The switch on the lifecycle\<close>

text \<open>The result of the section under the lock: the new map, the snapshot to persist, the
  snapshot to notify and the flag \<open>opened\<close>.\<close>

record transition =
  tr_active :: "(string, signal) gomap"
  tr_persist :: "signal option"
  tr_notify :: "signal option"
  tr_opened :: bool

definition no_change :: "(string, signal) gomap \<Rightarrow> transition" where
  "no_change active = \<lparr>tr_active = active, tr_persist = None, tr_notify = None, tr_opened = False\<rparr>"

definition open_transition :: "string \<Rightarrow> spread_event \<Rightarrow> (string, signal) gomap \<Rightarrow> transition" where
  "open_transition uuid event active =
     (let s = new_arbitrage_signal uuid event (ev_timestamp event)
      in \<lparr>tr_active = mput (signal_key event) s active, tr_persist = Some s, tr_notify = Some s, tr_opened = True\<rparr>)"

definition tracker_transition ::
  "tracker_env \<Rightarrow> string \<Rightarrow> spread_event \<Rightarrow> (string, signal) gomap \<Rightarrow> transition" where
  "tracker_transition E uuid event active =
     (let key = signal_key event; found = map_of active key in
      case ev_lifecycle event of
        SignalOpened \<Rightarrow>
          (case found of None \<Rightarrow> open_transition uuid event active | Some s \<Rightarrow> no_change active)
      | SignalUpdated \<Rightarrow>
          (case found of
             None \<Rightarrow> no_change active
           | Some s \<Rightarrow>
               if time_before (ev_timestamp event) (sg_opened_at s) then no_change active
               else let s' = signal_update event s
                    in (no_change (mput key s' active))\<lparr>tr_persist :=
                         (if sg_peak s' > sg_peak s then Some s' else None)\<rparr>)
      | SignalClosed \<Rightarrow>
          (case found of
             None \<Rightarrow> no_change active
           | Some s \<Rightarrow>
               if time_before (ev_timestamp event) (sg_opened_at s) then no_change active
               else let s' = signal_close (ev_timestamp event) (ev_spread event) (signal_update event s)
                    in \<lparr>tr_active = mdel key active, tr_persist = Some s', tr_notify = Some s', tr_opened = False\<rparr>)
      | NoLifecycle \<Rightarrow>
          (case found of
             None \<Rightarrow> open_transition uuid event active
           | Some s \<Rightarrow>
               if time_before (ev_timestamp event) (sg_opened_at s) then no_change active
               else let s' = signal_update event s;
                        raised = (no_change (mput key s' active))\<lparr>tr_persist :=
                          (if sg_peak s' > sg_peak s then Some s' else None)\<rparr>
                    in if ev_spread event \<le> get_close_threshold (te_dec E) (te_config E)
                       then let s'' = signal_close (ev_timestamp event) (ev_spread event) s'
                            in \<lparr>tr_active = mdel key active, tr_persist = Some s'', tr_notify = Some s'',
                                tr_opened = False\<rparr>
                       else raised))"

section \<open>Effects\<close>

definition persist_snapshot :: "bool \<Rightarrow> signal option \<Rightarrow> persistence_sink option \<Rightarrow> persistence_sink option" where
  "persist_snapshot ready snap sink =
     (case (snap, sink) of (Some s, Some k) \<Rightarrow> Some (fst (sink_put ready s k)) | _ \<Rightarrow> sink)"

definition notify_closed :: "router_env \<Rightarrow> signal \<Rightarrow> router \<Rightarrow> router" where
  "notify_closed E s r =
     (let r1 = invalidate_signal (sg_id s) r;
          r2 = drop_pending (sg_id s @ '':update'') r1;
          r3 = fst (process_signal E s False r2)
      in clear_signal_updates (sg_id s) r3)"

text \<open>After an open, the ids of the notified chats are kept in the active signal for the
  close message.\<close>

definition remember_chats :: "string \<Rightarrow> int list \<Rightarrow> (string, signal) gomap \<Rightarrow> (string, signal) gomap" where
  "remember_chats key ids active =
     (case map_of active key of
        None \<Rightarrow> active | Some s \<Rightarrow> mput key (s\<lparr>sg_notified := ids\<rparr>) active)"

definition handle_event :: "tracker_env \<Rightarrow> string \<Rightarrow> bool \<Rightarrow> spread_event \<Rightarrow> tracker \<Rightarrow> tracker" where
  "handle_event E uuid ready event tk =
     (if is_zero_time (ev_timestamp event) \<or> ev_symbol event = [] \<or> ev_spread event < 0 then tk
      else let tr = tracker_transition E uuid event (tk_active tk);
               tk1 = tk\<lparr>tk_active := tr_active tr,
                        tk_sink := persist_snapshot ready (tr_persist tr) (tk_sink tk)\<rparr>
           in case tk_router tk of
                None \<Rightarrow> tk1
              | Some r \<Rightarrow>
                  (case tr_notify tr of
                     Some s \<Rightarrow>
                       if tr_opened tr
                       then (case process_signal (te_router E) s True r of (r', ids) \<Rightarrow>
                               let tk2 = tk1\<lparr>tk_router := Some r'\<rparr>
                               in if length ids > 0 \<and> (case tr_persist tr of None \<Rightarrow> False | Some p \<Rightarrow> sg_active p)
                                  then tk2\<lparr>tk_active := remember_chats (signal_key event) ids (tk_active tk2)\<rparr>
                                  else tk2)
                       else tk1\<lparr>tk_router := Some (notify_closed (te_router E) s r)\<rparr>
                   | None \<Rightarrow>
                       (case tr_persist tr of
                          Some p \<Rightarrow>
                            if ev_lifecycle event = SignalUpdated
                            then tk1\<lparr>tk_router := Some (fst (process_signal_update (te_router E) p r))\<rparr>
                            else tk1
                        | None \<Rightarrow> tk1)))"

section \<open>The keys of the tracker\<close>

lemma signal_key_route [simp]: "signal_key e = route_key e"
  by (simp add: signal_key_def route_key_def)

definition tracked :: "tracker \<Rightarrow> string set" where
  "tracked tk = dom (map_of (tk_active tk))"

lemma dom_remember: "dom (map_of (remember_chats k ids active)) = dom (map_of active)"
  by (auto simp: remember_chats_def map_of_mput split: option.splits if_splits)

lemma tracked_handle:
  assumes "\<not> (ev_timestamp e = 0 \<or> ev_symbol e = [] \<or> ev_spread e < 0)"
  shows "tracked (handle_event E uuid ready e tk) = dom (map_of (tr_active (tracker_transition E uuid e (tk_active tk))))"
  using assms
  by (auto simp: tracked_def handle_event_def is_zero_time_def Let_def dom_remember split: option.splits prod.splits)

text \<open>Every active signal is active, well-formed and filed under its own route.\<close>

definition key_of_signal :: "signal \<Rightarrow> string" where
  "key_of_signal s = join_with '':'' [sg_symbol s, sg_type s, sg_buy_exchange s, sg_sell_exchange s,
     sg_buy_market s, sg_sell_market s]"

definition active_signals_ok :: "(string, signal) gomap \<Rightarrow> bool" where
  "active_signals_ok active \<longleftrightarrow> mwf active
     \<and> (\<forall>(k, s)\<in>set active. sg_active s \<and> signal_ok s \<and> key_of_signal s = k)"

lemma active_signals_put:
  "active_signals_ok active \<Longrightarrow> sg_active s \<Longrightarrow> signal_ok s \<Longrightarrow> key_of_signal s = k \<Longrightarrow>
   active_signals_ok (mput k s active)"
  by (auto simp: active_signals_ok_def mwf_mput dest!: mem_mput_D)

lemma active_signals_del: "active_signals_ok active \<Longrightarrow> active_signals_ok (mdel k active)"
  by (auto simp: active_signals_ok_def mwf_mdel mem_mdel)

lemma active_signals_lookup:
  "active_signals_ok active \<Longrightarrow> map_of active k = Some s \<Longrightarrow> sg_active s \<and> signal_ok s \<and> key_of_signal s = k"
  by (auto simp: active_signals_ok_def dest!: map_of_SomeD)

lemma key_of_new: "key_of_signal (new_arbitrage_signal uuid e ts) = route_key e"
  by (simp add: key_of_signal_def new_arbitrage_signal_def route_key_def Let_def)

lemma update_fields [simp]:
  "key_of_signal (signal_update e s) = key_of_signal s" "sg_active (signal_update e s) = sg_active s"
  "sg_opened_at (signal_update e s) = sg_opened_at s" "sg_id (signal_update e s) = sg_id s"
  by (simp_all add: key_of_signal_def signal_update_def)

lemma new_active [simp]: "sg_active (new_arbitrage_signal uuid e ts)"
  "sg_opened_at (new_arbitrage_signal uuid e ts) = ts" "sg_id (new_arbitrage_signal uuid e ts) = uuid"
  by (simp_all add: new_arbitrage_signal_def Let_def)

lemma transition_ok:
  "active_signals_ok active \<Longrightarrow> active_signals_ok (tr_active (tracker_transition E uuid e active))"
  by (auto simp: tracker_transition_def Let_def open_transition_def no_change_def key_of_new
      dest: active_signals_lookup split: lifecycle.splits option.splits
      intro!: active_signals_put active_signals_del signal_ok_new signal_ok_update)

lemma remember_ok: "active_signals_ok active \<Longrightarrow> active_signals_ok (remember_chats k ids active)"
  by (auto simp: remember_chats_def signal_ok_def key_of_signal_def split: option.splits
      dest: active_signals_lookup intro!: active_signals_put)

lemma handle_event_ok: "active_signals_ok (tk_active tk) \<Longrightarrow> active_signals_ok (tk_active (handle_event E uuid ready e tk))"
  using transition_ok [of "tk_active tk" E uuid e]
  by (auto simp: handle_event_def Let_def intro!: remember_ok split: option.splits prod.splits)

section \<open>The tracker follows the aggregator\<close>

text \<open>Events the tracker does not reject outright.\<close>

definition proper_event :: "spread_event \<Rightarrow> bool" where
  "proper_event e \<longleftrightarrow> ev_timestamp e \<noteq> 0 \<and> ev_symbol e \<noteq> [] \<and> 0 \<le> ev_spread e"

definition opened_by :: "tracker \<Rightarrow> gtime \<Rightarrow> bool" where
  "opened_by tk t \<longleftrightarrow> (\<forall>k s. map_of (tk_active tk) k = Some s \<longrightarrow> sg_opened_at s \<le> t)"

text \<open>The consumer side of the lifecycle contract: the keys it holds move with the automaton
  as long as no event is older than the lifecycles it refers to.\<close>

locale lifecycle_consumer =
  fixes consume :: "'c \<Rightarrow> 't \<Rightarrow> 't"
    and event_of :: "'c \<Rightarrow> spread_event"
    and held :: "'t \<Rightarrow> string set"
    and upto :: "'t \<Rightarrow> gtime \<Rightarrow> bool"
  assumes consume_held: "proper_event (event_of c) \<Longrightarrow> upto t (ev_timestamp (event_of c)) \<Longrightarrow>
      life_step (event_of c) (held t) = Some K \<Longrightarrow>
      held (consume c t) = K \<and> upto (consume c t) (ev_timestamp (event_of c))"
    and upto_mono: "upto t x \<Longrightarrow> x \<le> y \<Longrightarrow> upto t y"
begin

lemma run_consumer:
  "\<forall>c\<in>set cs. proper_event (event_of c) \<Longrightarrow> sorted (map (\<lambda>c. ev_timestamp (event_of c)) cs) \<Longrightarrow>
   \<forall>c\<in>set cs. upto t (ev_timestamp (event_of c)) \<Longrightarrow>
   life_run (map event_of cs) (held t) = Some K \<Longrightarrow> held (fold consume cs t) = K"
proof (induction cs arbitrary: t)
  case (Cons c cs)
  obtain K1 where k: "life_step (event_of c) (held t) = Some K1" "life_run (map event_of cs) K1 = Some K"
    using Cons.prems(4) by (auto split: option.splits)
  have c: "held (consume c t) = K1" "upto (consume c t) (ev_timestamp (event_of c))"
    using consume_held [OF _ _ k(1)] Cons.prems(1,3) by simp_all
  have "\<forall>d\<in>set cs. upto (consume c t) (ev_timestamp (event_of d))"
    using Cons.prems(2) upto_mono [OF c(2)] by auto
  with Cons.IH [of "consume c t"] Cons.prems(1,2) k(2) c(1) show ?case by simp
qed simp

end

lemma new_opened: "sg_opened_at (signal_close ts f s) = sg_opened_at s"
  by (simp add: signal_close_def Let_def)

lemma transition_follows:
  assumes "life_step e (dom (map_of active)) = Some K"
    and "\<And>k s. map_of active k = Some s \<Longrightarrow> sg_opened_at s \<le> ev_timestamp e"
  shows "dom (map_of (tr_active (tracker_transition E uuid e active))) = K"
    and "map_of (tr_active (tracker_transition E uuid e active)) k = Some s \<Longrightarrow> sg_opened_at s \<le> ev_timestamp e"
proof -
  have "\<not> time_before (ev_timestamp e) (sg_opened_at s)" if "map_of active k = Some s" for k s
    using assms(2) [OF that] by (simp add: time_before_def)
  then show "dom (map_of (tr_active (tracker_transition E uuid e active))) = K"
    using assms(1)
    by (auto simp: tracker_transition_def Let_def open_transition_def no_change_def map_of_mput map_of_mdel
        split: lifecycle.splits option.splits if_splits)
  show "map_of (tr_active (tracker_transition E uuid e active)) k = Some s \<Longrightarrow> sg_opened_at s \<le> ev_timestamp e"
    using assms
    by (auto simp: tracker_transition_def Let_def open_transition_def no_change_def map_of_mput map_of_mdel
        split: lifecycle.splits option.splits if_splits)
qed

lemma handle_active:
  assumes "proper_event e"
  shows "tk_active (handle_event E uuid ready e tk) = tr_active (tracker_transition E uuid e (tk_active tk))
    \<or> (\<exists>k ids. tk_active (handle_event E uuid ready e tk) =
         remember_chats k ids (tr_active (tracker_transition E uuid e (tk_active tk))))"
  using assms by (auto simp: handle_event_def proper_event_def is_zero_time_def Let_def split: option.splits prod.splits)

lemma remember_lookup: "map_of (remember_chats k' ids m) k =
    map_option (\<lambda>s. if k = k' then s\<lparr>sg_notified := ids\<rparr> else s) (map_of m k)"
  by (cases "map_of m k'"; cases "map_of m k") (auto simp: remember_chats_def map_of_mput)

lemma handle_sink:
  assumes "proper_event e"
  shows "tk_sink (handle_event E uuid ready e tk) =
    persist_snapshot ready (tr_persist (tracker_transition E uuid e (tk_active tk))) (tk_sink tk)"
proof -
  have p: "\<not> (is_zero_time (ev_timestamp e) \<or> ev_symbol e = [] \<or> ev_spread e < 0)"
    using assms by (simp add: proper_event_def is_zero_time_def)
  show ?thesis
  proof (cases "tk_router tk")
    case None
    with p show ?thesis by (simp add: handle_event_def Let_def)
  next
    case (Some r)
    let ?tr = "tracker_transition E uuid e (tk_active tk)"
    show ?thesis
    proof (cases "tr_notify ?tr")
      case None
      with p Some show ?thesis
        by (cases "tr_persist ?tr") (simp_all add: handle_event_def Let_def)
    next
      case (Some s)
      with p \<open>tk_router tk = Some r\<close> show ?thesis
        by (cases "process_signal (te_router E) s True r") (simp add: handle_event_def Let_def)
    qed
  qed
qed

type_synonym tracker_input = "tracker_env \<times> string \<times> bool \<times> spread_event"

definition tracker_step :: "tracker_input \<Rightarrow> tracker \<Rightarrow> tracker" where
  "tracker_step = (\<lambda>(E, uuid, ready, e) tk. handle_event E uuid ready e tk)"

definition input_event :: "tracker_input \<Rightarrow> spread_event" where
  "input_event = (\<lambda>(E, uuid, ready, e). e)"

interpretation tracker_consumer: lifecycle_consumer tracker_step input_event tracked opened_by
proof unfold_locales
  fix c :: tracker_input and tk K
  obtain E uuid ready e where c: "c = (E, uuid, ready, e)" by (metis prod_cases4)
  assume p: "proper_event (input_event c)" and u: "opened_by tk (ev_timestamp (input_event c))"
    and l: "life_step (input_event c) (tracked tk) = Some K"
  have e: "input_event c = e" by (simp add: c input_event_def)
  have l': "life_step e (dom (map_of (tk_active tk))) = Some K" using l by (simp add: e tracked_def)
  have u': "sg_opened_at s \<le> ev_timestamp e" if "map_of (tk_active tk) k = Some s" for k s
    using u that unfolding opened_by_def e by blast
  note tf = transition_follows [where E = E and uuid = uuid, OF l' u']
  have "tracked (tracker_step c tk) = K"
    using p tf(1) by (simp add: tracker_step_def c tracked_handle proper_event_def input_event_def not_less
        del: life_step.simps)
  moreover have "opened_by (tracker_step c tk) (ev_timestamp e)"
    using handle_active [OF p [unfolded e], of E uuid ready tk] tf(2)
    unfolding opened_by_def tracker_step_def c prod.case
    by (auto simp: remember_chats_def map_of_mput split: option.splits if_splits)
  ultimately show "tracked (tracker_step c tk) = K \<and> opened_by (tracker_step c tk) (ev_timestamp (input_event c))"
    by (simp add: e)
qed (auto simp: opened_by_def intro: order_trans)

lemma tracker_tracks:
  assumes "\<forall>c\<in>set cs. proper_event (input_event c)"
    and "sorted (map (\<lambda>c. ev_timestamp (input_event c)) cs)"
    and "life_run (map input_event cs) {} = Some K"
  shows "tracked (fold tracker_step cs (new_tracker sink router)) = K"
proof (rule tracker_consumer.run_consumer [OF assms(1,2)])
  show "\<forall>c\<in>set cs. opened_by (new_tracker sink router) (ev_timestamp (input_event c))"
    by (simp add: opened_by_def new_tracker_def)
  show "life_run (map input_event cs) (tracked (new_tracker sink router)) = Some K"
    using assms(3) by (simp add: tracked_def new_tracker_def)
qed

section \<open>Properties\<close>

text \<open>
  The tracker keeps the routes of the aggregator: fed with the events of a legal history
  whose timestamps do not go backwards, its active signals are exactly the routes the
  history leaves open, whatever configuration, users and ids it runs with.
\<close>

theorem tracker_follows_lifecycles:
  assumes "\<forall>c\<in>set cs. proper_event (input_event c)"
    and "sorted (map (\<lambda>c. ev_timestamp (input_event c)) cs)"
    and "life_run (map input_event cs) {} = Some K"
  shows "tracked (fold tracker_step cs (new_tracker sink router)) = K"
  using assms by (rule tracker_tracks)

text \<open>
  A close event that carries an earlier time than the opening of its signal is dropped:
  the signal stays active in the tracker although the aggregator has already removed the
  route, and nothing is persisted or sent.
\<close>

theorem early_close_dropped:
  assumes "map_of (tk_active tk) (route_key e) = Some s" and "ev_lifecycle e = SignalClosed"
    and "ev_timestamp e < sg_opened_at s"
  shows "handle_event E uuid ready e tk = tk"
proof -
  have "tracker_transition E uuid e (tk_active tk) = no_change (tk_active tk)"
    using assms by (simp add: tracker_transition_def time_before_def)
  then show ?thesis
    by (simp add: handle_event_def Let_def no_change_def persist_snapshot_def split: option.split)
qed

lemma open_persisted:
  assumes "proper_event e" and "tk_sink tk = Some (BufferSink b)" and "\<not> pb_closed b" and "uuid \<noteq> []"
    and "ev_lifecycle e = SignalOpened" and "map_of (tk_active tk) (route_key e) = None"
    and "tk' = handle_event E uuid ready e tk"
  shows "\<exists>b' it s. tk_sink tk' = Some (BufferSink b') \<and> map_of (pb_items b') uuid = Some it
         \<and> bs_signal it = new_arbitrage_signal uuid e (ev_timestamp e)
         \<and> map_of (tk_active tk') (route_key e) = Some s \<and> s\<lparr>sg_notified := []\<rparr> = bs_signal it"
proof -
  note sink = handle_sink [OF assms(1), of E uuid ready tk, folded assms(7)]
  note act = handle_active [OF assms(1), of E uuid ready tk, folded assms(7)]
  let ?s = "new_arbitrage_signal uuid e (ev_timestamp e)"
  have tr: "tracker_transition E uuid e (tk_active tk) = open_transition uuid e (tk_active tk)"
    using assms(5,6) by (simp add: tracker_transition_def)
  obtain b' where b': "fst (put_signal ?s b) = b'" by blast
  have "\<exists>it. map_of (pb_items b') uuid = Some it \<and> bs_signal it = ?s"
    using put_signal_lookup [of ?s b uuid] assms(3,4) unfolding b' [symmetric] by simp
  moreover have "tk_sink tk' = Some (BufferSink b')"
    unfolding sink tr using b' by (simp add: open_transition_def Let_def persist_snapshot_def assms(2)
        sink_put_def case_prod_beta)
  moreover have "\<exists>s. map_of (tk_active tk') (route_key e) = Some s \<and> s\<lparr>sg_notified := []\<rparr> = ?s"
  proof -
    have o: "map_of (tr_active (open_transition uuid e (tk_active tk))) (route_key e) = Some ?s"
      by (simp add: open_transition_def Let_def map_of_mput)
    have n: "sg_notified ?s = []" by (simp add: new_arbitrage_signal_def Let_def)
    from act show ?thesis unfolding tr by (elim disjE exE) (simp_all add: o n remember_lookup)
  qed
  ultimately show ?thesis by metis
qed

lemma close_persisted:
  assumes "proper_event e" and "active_signals_ok (tk_active tk)"
    and "tk_sink tk = Some (BufferSink b)" and "\<not> pb_closed b" and "sg_id s \<noteq> []"
    and "ev_lifecycle e = SignalClosed" and "map_of (tk_active tk) (route_key e) = Some s"
    and "sg_opened_at s \<le> ev_timestamp e" and "tk' = handle_event E uuid ready e tk"
  shows "\<exists>b' it. tk_sink tk' = Some (BufferSink b') \<and> map_of (pb_items b') (sg_id s) = Some it
         \<and> \<not> sg_active (bs_signal it) \<and> sg_closed_at (bs_signal it) = ev_timestamp e
         \<and> sg_final (bs_signal it) = ev_spread e \<and> sg_initial (bs_signal it) \<le> sg_peak (bs_signal it)
         \<and> map_of (tk_active tk') (route_key e) = None"
proof -
  note sink = handle_sink [OF assms(1), of E uuid ready tk, folded assms(9)]
  note act = handle_active [OF assms(1), of E uuid ready tk, folded assms(9)]
  let ?s = "signal_close (ev_timestamp e) (ev_spread e) (signal_update e s)"
  have s: "sg_active s" "signal_ok s" using active_signals_lookup [OF assms(2) assms(7)] by blast+
  have tr: "tracker_transition E uuid e (tk_active tk) = \<lparr>tr_active = mdel (route_key e) (tk_active tk),
      tr_persist = Some ?s, tr_notify = Some ?s, tr_opened = False\<rparr>"
    using assms(6-8) by (simp add: tracker_transition_def time_before_def Let_def)
  have id: "sg_id ?s = sg_id s" by (simp add: signal_close_def Let_def)
  obtain b' where b': "fst (put_signal ?s b) = b'" by blast
  have "\<exists>it. map_of (pb_items b') (sg_id s) = Some it \<and> bs_signal it = ?s"
    using put_signal_lookup [of ?s b "sg_id s"] assms(4,5) id unfolding b' [symmetric] by simp
  moreover have "tk_sink tk' = Some (BufferSink b')"
    unfolding sink tr using b' by (simp add: persist_snapshot_def assms(3) sink_put_def case_prod_beta)
  moreover have "\<not> sg_active ?s" "sg_closed_at ?s = ev_timestamp e" "sg_final ?s = ev_spread e"
    using s(1) assms(8) by (simp_all add: signal_close_def Let_def time_before_def)
  moreover have "signal_ok ?s" using s(2) by (intro signal_ok_close signal_ok_update)
  then have "sg_initial ?s \<le> sg_peak ?s" by (simp add: signal_ok_def)
  moreover have "map_of (tk_active tk') (route_key e) = None"
    using act unfolding tr by (auto simp: map_of_mdel remember_lookup)
  ultimately show ?thesis by metis
qed

text \<open>
  C11. Every open and every close reaches the persistence buffer: while the buffer is open,
  after an opening event the buffer holds the new active signal, and after a closing event
  of an active signal it holds the closed signal with the final spread and closing time of
  the event, its peak not below the opening spread.
\<close>

theorem lifecycle_persisted:
  assumes "proper_event e" and "active_signals_ok (tk_active tk)"
    and "tk_sink tk = Some (BufferSink b)" and "\<not> pb_closed b"
    and "\<forall>k s. map_of (tk_active tk) k = Some s \<longrightarrow> sg_id s \<noteq> []" and "uuid \<noteq> []"
    and "tk' = handle_event E uuid ready e tk"
  shows "(ev_lifecycle e = SignalOpened \<and> map_of (tk_active tk) (route_key e) = None \<longrightarrow>
      (\<exists>b' it s. tk_sink tk' = Some (BufferSink b') \<and> map_of (pb_items b') uuid = Some it
         \<and> bs_signal it = new_arbitrage_signal uuid e (ev_timestamp e)
         \<and> map_of (tk_active tk') (route_key e) = Some s \<and> s\<lparr>sg_notified := []\<rparr> = bs_signal it))
    \<and> (\<forall>s. ev_lifecycle e = SignalClosed \<and> map_of (tk_active tk) (route_key e) = Some s
         \<and> sg_opened_at s \<le> ev_timestamp e \<longrightarrow>
      (\<exists>b' it. tk_sink tk' = Some (BufferSink b') \<and> map_of (pb_items b') (sg_id s) = Some it
         \<and> \<not> sg_active (bs_signal it) \<and> sg_closed_at (bs_signal it) = ev_timestamp e
         \<and> sg_final (bs_signal it) = ev_spread e \<and> sg_initial (bs_signal it) \<le> sg_peak (bs_signal it)
         \<and> map_of (tk_active tk') (route_key e) = None))"
  using open_persisted [OF assms(1,3,4,6) _ _ assms(7)] close_persisted [OF assms(1-4) _ _ _ _ assms(7)] assms(5) by blast

section \<open>Witnesses\<close>

definition notice_event :: "lifecycle \<Rightarrow> gtime \<Rightarrow> spread_event" where
  "notice_event l t = \<lparr>ev_symbol = ''BTCUSDT'', ev_type = IntraExchange, ev_spread = 3 / 100,
     ev_buy_exchange = ''OKX'', ev_sell_exchange = ''OKX'', ev_exchange_a = ''OKX'', ev_exchange_b = ''OKX'',
     ev_buy_market = MarketTypeSpot, ev_sell_market = MarketTypeFutures, ev_buy_ask = 100, ev_sell_bid = 103,
     ev_volume = 900, ev_buy_rate = 0, ev_sell_rate = 0, ev_buy_next = 0, ev_sell_next = 0,
     ev_timestamp = t, ev_lifecycle = l\<rparr>"

definition notice_tracker_env :: tracker_env where
  "notice_tracker_env = \<lparr>te_dec = sample_lib, te_config = new_screener_config (1 / 100), te_router = notice_env\<rparr>"

lemma notice_event_fields [simp]:
  "ev_lifecycle (notice_event l t) = l" "ev_timestamp (notice_event l t) = t"
  "ev_spread (notice_event l t) = 3 / 100" "ev_symbol (notice_event l t) = ''BTCUSDT''"
  by (simp_all add: notice_event_def)

lemma notice_event_key: "route_key (notice_event l t) = route_key (notice_event SignalOpened 5)"
  by (simp add: notice_event_def route_key_def Let_def)

lemma notice_event_proper: "t \<noteq> 0 \<Longrightarrow> proper_event (notice_event l t)"
  by (simp add: proper_event_def)

definition notice_inputs :: "tracker_input list" where
  "notice_inputs = [(notice_tracker_env, ''s1'', True, notice_event SignalOpened 5),
     (notice_tracker_env, ''s2'', True, notice_event SignalUpdated 6),
     (notice_tracker_env, ''s3'', True, notice_event SignalClosed 7)]"

theorem tracker_follows_lifecycles_witness:
  "tracked (fold tracker_step notice_inputs (new_tracker None (Some (new_notification_router None)))) = {}"
  by (rule tracker_follows_lifecycles)
    (simp_all add: notice_inputs_def input_event_def notice_event_proper Let_def
      notice_event_key [of SignalUpdated] notice_event_key [of SignalClosed])

definition notice_active :: "(string, signal) gomap" where
  "notice_active = [(route_key (notice_event SignalOpened 5),
     new_arbitrage_signal ''s1'' (notice_event SignalOpened 5) 5)]"

definition notice_tracker :: tracker where
  "notice_tracker = \<lparr>tk_active = notice_active, tk_sink = Some (BufferSink new_persistence_buffer),
     tk_router = Some (new_notification_router None)\<rparr>"

text \<open>The signal was opened at 5 by one exchange; a tick of another exchange stamped 4 closes
  the route.\<close>

theorem early_close_dropped_witness:
  "handle_event notice_tracker_env ''s2'' True (notice_event SignalClosed 4) notice_tracker = notice_tracker"
  by (rule early_close_dropped [where s = "new_arbitrage_signal ''s1'' (notice_event SignalOpened 5) 5"])
    (simp_all add: notice_tracker_def notice_active_def notice_event_key [of SignalClosed])

lemma notice_active_ok: "active_signals_ok notice_active"
  by (simp add: active_signals_ok_def notice_active_def key_of_new signal_ok_new)

theorem lifecycle_persisted_witness:
  "\<exists>b' it. tk_sink (handle_event notice_tracker_env ''s2'' True (notice_event SignalClosed 7) notice_tracker)
      = Some (BufferSink b') \<and> map_of (pb_items b') ''s1'' = Some it \<and> \<not> sg_active (bs_signal it)
     \<and> sg_closed_at (bs_signal it) = 7"
proof -
  have "(\<forall>s. ev_lifecycle (notice_event SignalClosed 7) = SignalClosed
         \<and> map_of (tk_active notice_tracker) (route_key (notice_event SignalClosed 7)) = Some s
         \<and> sg_opened_at s \<le> ev_timestamp (notice_event SignalClosed 7) \<longrightarrow>
      (\<exists>b' it. tk_sink (handle_event notice_tracker_env ''s2'' True (notice_event SignalClosed 7) notice_tracker)
           = Some (BufferSink b') \<and> map_of (pb_items b') (sg_id s) = Some it
         \<and> \<not> sg_active (bs_signal it) \<and> sg_closed_at (bs_signal it) = ev_timestamp (notice_event SignalClosed 7)
         \<and> sg_final (bs_signal it) = ev_spread (notice_event SignalClosed 7)
         \<and> sg_initial (bs_signal it) \<le> sg_peak (bs_signal it)
         \<and> map_of (tk_active (handle_event notice_tracker_env ''s2'' True (notice_event SignalClosed 7) notice_tracker))
             (route_key (notice_event SignalClosed 7)) = None))"
    by (rule lifecycle_persisted [where b = new_persistence_buffer and uuid = "''s2''", THEN conjunct2])
      (use notice_active_ok in \<open>simp_all add: notice_event_proper notice_tracker_def new_persistence_buffer_def,
        simp_all add: notice_active_def\<close>)
  moreover have "map_of (tk_active notice_tracker) (route_key (notice_event SignalClosed 7))
      = Some (new_arbitrage_signal ''s1'' (notice_event SignalOpened 5) 5)"
    by (simp add: notice_tracker_def notice_active_def notice_event_key [of SignalClosed])
  ultimately show ?thesis by fastforce
qed

end
