(* ===== verification/Ingress.thy ===== *)
theory Ingress
  imports Market_Types Coalescing
begin

text \<open>
  internal/ingress/latest.go: one coalescing buffer per output channel, between the exchange
  adapters and the tick queue. A submission stores its tick under the lock and afterwards sends on
  the channel \<open>notify\<close>, which has room for one token; the goroutine of a state waits for a token,
  then takes keys one by one, and waits each time until the output channel accepts the tick or the
  state is stopped. All of these are separate steps here, so that submissions can interleave. A
  channel is identified by a number, \<open>None\<close> is nil.
\<close>

section \<open>State\<close>

type_synonym tick_key = "string \<times> string \<times> market_type"

definition tick_key :: "market_tick \<Rightarrow> tick_key" where
  "tick_key t = (mt_exchange t, mt_symbol t, mt_market t)"

text \<open>\<open>is_waking\<close> counts the submissions that have stored their tick and not yet sent on \<open>notify\<close>;
  \<open>is_token\<close> tells whether the channel \<open>notify\<close> is full. \<open>is_flushing\<close>: the goroutine is inside \<open>flush\<close>;
  \<open>is_held\<close> is the tick it has taken and tries to send; \<open>is_sent\<close> lists what the output channel has
  accepted. \<open>is_done\<close> and \<open>is_run_done\<close> are the closed channels of these names.\<close>

record ingress_state =
  is_latest :: "(tick_key, market_tick) gomap"
  is_waking :: nat
  is_token :: bool
  is_flushing :: bool
  is_stopped :: bool
  is_done :: bool
  is_run_done :: bool
  is_held :: "market_tick option"
  is_sent :: "market_tick list"

type_synonym ingress_registry = "(nat, ingress_state) gomap"

definition new_ingress_state :: ingress_state where
  "new_ingress_state = \<lparr>is_latest = [], is_waking = 0, is_token = False, is_flushing = False, is_stopped = False,
     is_done = False, is_run_done = False, is_held = None, is_sent = []\<rparr>"

section \<open>Operations on one state\<close>

definition ingress_put :: "market_tick \<Rightarrow> ingress_state \<Rightarrow> ingress_state" where
  "ingress_put t s =
     (if is_stopped s then s else s\<lparr>is_latest := mput (tick_key t) t (is_latest s)\<rparr>)"

text \<open>A submission up to its unlock, and its send on \<open>notify\<close>, which is dropped when the channel is full.\<close>

definition ingress_submit :: "market_tick \<Rightarrow> ingress_state \<Rightarrow> ingress_state" where
  "ingress_submit t s = (if is_stopped s then s else (ingress_put t s)\<lparr>is_waking := is_waking s + 1\<rparr>)"

definition ingress_wake :: "ingress_state \<Rightarrow> ingress_state" where
  "ingress_wake s = (if is_waking s = 0 then s else s\<lparr>is_waking := is_waking s - 1, is_token := True\<rparr>)"

text \<open>The goroutine at the select of \<open>run\<close>: it takes the token and begins a flush.\<close>

definition ingress_notified :: "ingress_state \<Rightarrow> ingress_state" where
  "ingress_notified s =
     (if is_run_done s \<or> is_flushing s \<or> \<not> is_token s then s else s\<lparr>is_token := False, is_flushing := True\<rparr>)"

text \<open>\<open>next\<close> takes an arbitrary key of the map; here the key is an argument. When the map is empty
  the flush returns.\<close>

definition ingress_next :: "tick_key \<Rightarrow> ingress_state \<Rightarrow> ingress_state" where
  "ingress_next k s =
     (case map_of (is_latest s) k of
        None \<Rightarrow> s
      | Some t \<Rightarrow>
          if \<not> is_flushing s \<or> is_held s \<noteq> None then s
          else s\<lparr>is_latest := mdel k (is_latest s), is_held := Some t\<rparr>)"

definition ingress_flushed :: "ingress_state \<Rightarrow> ingress_state" where
  "ingress_flushed s = (if is_held s = None \<and> is_latest s = [] then s\<lparr>is_flushing := False\<rparr> else s)"

definition ingress_deliver :: "ingress_state \<Rightarrow> ingress_state" where
  "ingress_deliver s =
     (case is_held s of
        None \<Rightarrow> s
      | Some t \<Rightarrow> s\<lparr>is_held := None, is_sent := is_sent s @ [t]\<rparr>)"

text \<open>The other arm of the select: the state is done, the tick goes back unless stopped, the flush returns.\<close>

definition ingress_give_back :: "ingress_state \<Rightarrow> ingress_state" where
  "ingress_give_back s =
     (if \<not> is_done s then s
      else case is_held s of
        None \<Rightarrow> s
      | Some t \<Rightarrow> ingress_put t (s\<lparr>is_held := None, is_flushing := False\<rparr>))"

text \<open>The goroutine leaves its loop: only when done, and not inside a flush.\<close>

definition ingress_exit :: "ingress_state \<Rightarrow> ingress_state" where
  "ingress_exit s = (if is_done s \<and> \<not> is_flushing s then s\<lparr>is_run_done := True\<rparr> else s)"

text \<open>The statements of \<open>DrainAndStop\<close> before it waits.\<close>

definition ingress_stop :: "ingress_state \<Rightarrow> ingress_state" where
  "ingress_stop s = s\<lparr>is_stopped := True, is_latest := [], is_done := True\<rparr>"

section \<open>The registry\<close>

definition load_or_store :: "nat \<Rightarrow> ingress_registry \<Rightarrow> ingress_state" where
  "load_or_store out reg = (case map_of reg out of None \<Rightarrow> new_ingress_state | Some s \<Rightarrow> s)"

definition submit :: "nat option \<Rightarrow> market_tick \<Rightarrow> ingress_registry \<Rightarrow> ingress_registry" where
  "submit ch t reg =
     (case ch of None \<Rightarrow> reg | Some out \<Rightarrow> mput out (ingress_wake (ingress_submit t (load_or_store out reg))) reg)"

definition drain_and_stop :: "nat option \<Rightarrow> ingress_registry \<Rightarrow> ingress_registry" where
  "drain_and_stop ch reg =
     (case ch of None \<Rightarrow> reg | Some out \<Rightarrow> mput out (ingress_stop (load_or_store out reg)) reg)"

definition forget :: "nat option \<Rightarrow> ingress_registry \<Rightarrow> ingress_registry" where
  "forget ch reg = (case ch of None \<Rightarrow> reg | Some out \<Rightarrow> mdel out reg)"

section \<open>The buffer coalesces\<close>

interpretation ingress_buffer: coalescing_queue ingress_put "\<lambda>s k. map_of (is_latest s) k" tick_key
    "\<lambda>t. True" "\<lambda>s. \<not> is_stopped s" "\<lambda>k s. s\<lparr>is_latest := mdel k (is_latest s)\<rparr>"
  by unfold_locales (auto simp: ingress_put_def gomap_simps)

section \<open>Runs\<close>

datatype ingress_op = InSubmit market_tick | InWake | InNotified | InNext tick_key | InFlushed | InDeliver
  | InGiveBack | InExit | InStop

fun ingress_step :: "ingress_op \<Rightarrow> ingress_state \<Rightarrow> ingress_state" where
  "ingress_step (InSubmit t) s = ingress_submit t s"
| "ingress_step InWake s = ingress_wake s"
| "ingress_step InNotified s = ingress_notified s"
| "ingress_step (InNext k) s = ingress_next k s"
| "ingress_step InFlushed s = ingress_flushed s"
| "ingress_step InDeliver s = ingress_deliver s"
| "ingress_step InGiveBack s = ingress_give_back s"
| "ingress_step InExit s = ingress_exit s"
| "ingress_step InStop s = ingress_stop s"

lemmas ingress_defs = ingress_put_def ingress_submit_def ingress_wake_def ingress_notified_def ingress_next_def
  ingress_flushed_def ingress_deliver_def ingress_give_back_def ingress_exit_def ingress_stop_def

text \<open>The steps that are not those of a producer or of the shutdown. A run of them is busy when every one
  of them has an effect.\<close>

fun internal :: "ingress_op \<Rightarrow> bool" where
  "internal (InSubmit t) = False"
| "internal InStop = False"
| "internal x = True"

fun busy_run :: "ingress_op list \<Rightarrow> ingress_state \<Rightarrow> bool" where
  "busy_run [] s = True"
| "busy_run (x # xs) s \<longleftrightarrow> internal x \<and> ingress_step x s \<noteq> s \<and> busy_run xs (ingress_step x s)"

text \<open>A bound on the length of such a run.\<close>

definition ingress_work :: "ingress_state \<Rightarrow> nat" where
  "ingress_work s = 3 * is_waking s + 2 * length (is_latest s) + (if is_held s = None then 0 else 1)
     + (if is_token s then 2 else 0) + (if is_flushing s then 1 else 0)"

text \<open>The ticks of one market among those submitted, sent, held or waiting.\<close>

definition submitted_for :: "tick_key \<Rightarrow> ingress_op list \<Rightarrow> market_tick list" where
  "submitted_for k ops = concat (map (\<lambda>x. case x of InSubmit t \<Rightarrow> if tick_key t = k then [t] else [] | _ \<Rightarrow> []) ops)"

definition stage_for :: "tick_key \<Rightarrow> ingress_state \<Rightarrow> market_tick list" where
  "stage_for k s = filter (\<lambda>t. tick_key t = k) (is_sent s)
     @ (case is_held s of Some t \<Rightarrow> if tick_key t = k then [t] else [] | None \<Rightarrow> [])
     @ (case map_of (is_latest s) k of Some t \<Rightarrow> [t] | None \<Rightarrow> [])"

text \<open>What is known while the state is not stopped. In particular a waiting tick is never forgotten: its
  submission has still to wake the goroutine, or the token is there, or a flush is under way.\<close>

definition ingress_ok :: "ingress_state \<Rightarrow> bool" where
  "ingress_ok s \<longleftrightarrow> \<not> is_stopped s \<and> \<not> is_done s \<and> \<not> is_run_done s
     \<and> (\<forall>(k, t)\<in>set (is_latest s). tick_key t = k) \<and> mwf (is_latest s)
     \<and> (is_held s \<noteq> None \<longrightarrow> is_flushing s)
     \<and> (is_latest s \<noteq> [] \<longrightarrow> is_waking s > 0 \<or> is_token s \<or> is_flushing s)"

lemma ingress_ok_step: "ingress_ok s \<Longrightarrow> x \<noteq> InStop \<Longrightarrow> ingress_ok (ingress_step x s)"
  by (cases x) (auto simp: ingress_ok_def ingress_defs mwf_mput mwf_mdel mem_mdel dest: mem_mput_D split: option.splits)

lemma stage_step:
  assumes "ingress_ok s" "x \<noteq> InStop"
  shows "stage_for k (ingress_step x s) =
    (case x of InSubmit t \<Rightarrow> if tick_key t = k then
        filter (\<lambda>t. tick_key t = k) (is_sent s)
          @ (case is_held s of Some t \<Rightarrow> if tick_key t = k then [t] else [] | None \<Rightarrow> []) @ [t]
        else stage_for k s
     | _ \<Rightarrow> stage_for k s)"
proof (cases x)
  case (InSubmit t)
  with assms show ?thesis by (simp add: ingress_ok_def stage_for_def ingress_submit_def ingress_put_def gomap_simps)
next
  case (InNext j)
  show ?thesis
  proof (cases "map_of (is_latest s) j")
    case (Some t)
    then have "tick_key t = j" using assms(1) by (auto simp: ingress_ok_def dest: map_of_SomeD)
    with Some InNext assms show ?thesis
      by (cases "is_held s"; cases "j = k") (simp_all add: ingress_ok_def stage_for_def ingress_next_def gomap_simps)
  qed (use InNext in \<open>simp add: ingress_next_def\<close>)
next
  case InDeliver
  then show ?thesis by (cases "is_held s") (simp_all add: stage_for_def ingress_deliver_def)
next
  case InGiveBack
  with assms(1) show ?thesis by (simp add: ingress_ok_def ingress_give_back_def)
qed (use assms in \<open>simp_all add: stage_for_def ingress_ok_def ingress_wake_def ingress_notified_def ingress_flushed_def
  ingress_exit_def\<close>)

text \<open>The goroutine is never stuck: as long as something waits or is held, a step has an effect; and every
  step that has one does a part of the work.\<close>

lemma mdel_length:
  assumes "mwf m" and "map_of m k = Some v" shows "Suc (length (mdel k m)) = length m"
proof -
  have k: "k \<in> set (mkeys m)" using assms(2) by (metis mget_None option.distinct(1))
  have "length (mdel k m) = card (set (mkeys (mdel k m)))" using distinct_card [OF mwf_mdel [OF assms(1)]] by simp
  also have "\<dots> = card (set (mkeys m)) - 1" using k by (simp add: mkeys_mdel del: set_map)
  also have "card (set (mkeys m)) = length m" using distinct_card [OF assms(1)] by simp
  finally show ?thesis using k by (cases m) auto
qed

lemma ingress_progress:
  assumes "ingress_ok s" and "is_held s \<noteq> None \<or> is_latest s \<noteq> []"
  shows "\<exists>x. internal x \<and> ingress_step x s \<noteq> s"
proof (cases "is_held s")
  case (Some t)
  then have "ingress_step InDeliver s \<noteq> s" by (auto simp: ingress_deliver_def dest: arg_cong [of _ _ is_held])
  then show ?thesis using internal.simps(7) by blast
next
  case None
  then obtain k t m where l: "is_latest s = (k, t) # m" using assms(2) by (cases "is_latest s") auto
  show ?thesis
  proof (cases "is_flushing s")
    case True
    then have "ingress_step (InNext k) s \<noteq> s" using l None
      by (auto simp: ingress_next_def dest: arg_cong [of _ _ is_held])
    then show ?thesis using internal.simps(5) by blast
  next
    case False
    show ?thesis
    proof (cases "is_token s")
      case True
      then have "ingress_step InNotified s \<noteq> s" using False assms(1)
        by (auto simp: ingress_notified_def ingress_ok_def dest: arg_cong [of _ _ is_flushing])
      then show ?thesis using internal.simps(4) by blast
    next
      case no: False
      then have "is_waking s > 0" using False assms(1) l by (simp add: ingress_ok_def)
      then have "ingress_step InWake s \<noteq> s" using no by (auto simp: ingress_wake_def dest: arg_cong [of _ _ is_token])
      then show ?thesis using internal.simps(3) by blast
    qed
  qed
qed

lemma ingress_works:
  assumes "ingress_ok s" and "internal x" and "ingress_step x s \<noteq> s"
  shows "ingress_work (ingress_step x s) < ingress_work s"
proof (cases x)
  case (InNext k)
  then obtain t where "map_of (is_latest s) k = Some t" "is_flushing s" "is_held s = None"
    using assms(3) by (auto simp: ingress_next_def split: option.splits if_splits)
  moreover have "Suc (length (mdel k (is_latest s))) = length (is_latest s)"
    using mdel_length [OF _ calculation(1)] assms(1) by (simp add: ingress_ok_def)
  ultimately show ?thesis by (simp add: InNext ingress_work_def ingress_next_def)
next
  case InFlushed
  with assms show ?thesis by (cases "is_flushing s") (auto simp: ingress_work_def ingress_flushed_def split: if_splits)
qed (use assms in \<open>auto simp: ingress_work_def ingress_defs ingress_ok_def split: option.splits if_splits\<close>)

lemma busy_run_internal: "busy_run xs s \<Longrightarrow> \<forall>x\<in>set xs. internal x"
  by (induction xs arbitrary: s) auto

lemma busy_run_bound:
  "ingress_ok s \<Longrightarrow> busy_run xs s \<Longrightarrow> ingress_ok (fold ingress_step xs s) \<and> length xs + ingress_work (fold ingress_step xs s) \<le> ingress_work s"
proof (induction xs arbitrary: s)
  case (Cons x xs)
  then have "x \<noteq> InStop" by auto
  with Cons ingress_ok_step [of s x] ingress_works [of s x] show ?case by force
qed simp

lemma stage_subseq:
  assumes "ingress_ok s" "\<forall>x\<in>set ops. x \<noteq> InStop"
  shows "ingress_ok (fold ingress_step ops s)
    \<and> subseq (stage_for k (fold ingress_step ops s)) (stage_for k s @ submitted_for k ops)
    \<and> (submitted_for k ops \<noteq> [] \<longrightarrow> stage_for k (fold ingress_step ops s) \<noteq> []
        \<and> last (stage_for k (fold ingress_step ops s)) = last (submitted_for k ops))"
  using assms(2)
proof (induction ops rule: rev_induct)
  case Nil
  then show ?case using assms(1) by (simp add: submitted_for_def)
next
  case (snoc x ops)
  let ?s = "fold ingress_step ops s"
  have IH: "ingress_ok ?s" "subseq (stage_for k ?s) (stage_for k s @ submitted_for k ops)"
    "submitted_for k ops \<noteq> [] \<Longrightarrow> stage_for k ?s \<noteq> [] \<and> last (stage_for k ?s) = last (submitted_for k ops)"
    using snoc by auto
  have x: "x \<noteq> InStop" using snoc.prems by simp
  note st = stage_step [OF IH(1) x, of k]
  show ?case
  proof (cases "\<exists>t. x = InSubmit t \<and> tick_key t = k")
    case True
    then obtain t where t: "x = InSubmit t" "tick_key t = k" by blast
    let ?pre = "filter (\<lambda>t. tick_key t = k) (is_sent ?s)
        @ (case is_held ?s of Some t \<Rightarrow> if tick_key t = k then [t] else [] | None \<Rightarrow> [])"
    have new: "stage_for k (ingress_step x ?s) = ?pre @ [t]" using st t by simp
    have "subseq ?pre (stage_for k ?s)"
      unfolding stage_for_def append.assoc [symmetric] by (rule subseq_rev_drop_many) simp
    then have "subseq ?pre (stage_for k s @ submitted_for k ops)" using IH(2) by (rule subseq_order.trans)
    then have "subseq (?pre @ [t]) ((stage_for k s @ submitted_for k ops) @ [t])"
      by (rule list_emb_append_mono) simp
    moreover have sub: "submitted_for k (ops @ [x]) = submitted_for k ops @ [t]"
      using t by (simp add: submitted_for_def)
    ultimately show ?thesis using ingress_ok_step [OF IH(1) x] new by simp
  next
    case False
    then have "submitted_for k (ops @ [x]) = submitted_for k ops"
      by (auto simp: submitted_for_def split: ingress_op.splits)
    moreover have "stage_for k (ingress_step x ?s) = stage_for k ?s"
      using st False by (auto split: ingress_op.splits)
    ultimately show ?thesis using IH ingress_ok_step [OF IH(1) x] by simp
  qed
qed

lemma ingress_ok_new: "ingress_ok new_ingress_state" and stage_new: "stage_for k new_ingress_state = []"
  by (simp_all add: ingress_ok_def new_ingress_state_def stage_for_def)

text \<open>After the goroutine has left, nothing reaches the channel and nothing is kept.\<close>

lemma ended_step:
  assumes "is_stopped s" "is_run_done s" "is_held s = None" "is_latest s = []"
  shows "is_stopped (ingress_step x s) \<and> is_run_done (ingress_step x s) \<and> is_held (ingress_step x s) = None
    \<and> is_latest (ingress_step x s) = [] \<and> is_sent (ingress_step x s) = is_sent s"
  using assms by (cases x) (auto simp: ingress_defs)

lemma ended_run:
  "is_stopped s \<and> is_run_done s \<and> is_held s = None \<and> is_latest s = [] \<Longrightarrow>
   is_sent (fold ingress_step ops s) = is_sent s \<and> is_latest (fold ingress_step ops s) = []"
  by (induction ops arbitrary: s) (simp_all add: ended_step)

definition stop_inv :: "ingress_state \<Rightarrow> bool" where
  "stop_inv s \<longleftrightarrow> (is_run_done s \<longrightarrow> \<not> is_flushing s \<and> is_done s) \<and> (is_held s \<noteq> None \<longrightarrow> is_flushing s)
     \<and> (is_done s \<longrightarrow> is_stopped s) \<and> (is_stopped s \<longrightarrow> is_latest s = [])"

lemma stop_inv_step: "stop_inv s \<Longrightarrow> stop_inv (ingress_step x s)"
  by (cases x) (auto simp: stop_inv_def ingress_defs split: option.splits)

interpretation ingress_machine: machine ingress_step stop_inv
  by unfold_locales (rule stop_inv_step)

section \<open>Properties\<close>

text \<open>
  C18. Coalescing loses only superseded ticks, and delivers the newest: until the stop, in every interleaving of
  submissions with their wake-ups and the goroutine's steps, the ticks of a market that the channel has
  accepted, followed by the one in flight and the one waiting, are a subsequence of the submitted ticks and end
  with the newest. From any moment on, when no tick is submitted and the reader of the channel goes on receiving, the
  wake-ups and the goroutine do a bounded number of steps, and when none of them has anything left to do the newest
  tick of the market is the last of it the channel has accepted.
\<close>

theorem ingress_delivers_newest:
  assumes "\<forall>x\<in>set ops. x \<noteq> InStop" and "s = fold ingress_step ops new_ingress_state"
    and "busy_run xs s" and "s' = fold ingress_step xs s"
  shows "subseq (stage_for k s) (submitted_for k ops)
    \<and> (submitted_for k ops \<noteq> [] \<longrightarrow> last (stage_for k s) = last (submitted_for k ops))
    \<and> length xs \<le> ingress_work s
    \<and> (submitted_for k ops \<noteq> [] \<longrightarrow> (\<forall>x. internal x \<longrightarrow> ingress_step x s' = s') \<longrightarrow>
         filter (\<lambda>t. tick_key t = k) (is_sent s') \<noteq> []
         \<and> last (filter (\<lambda>t. tick_key t = k) (is_sent s')) = last (submitted_for k ops))"
proof -
  note st = stage_subseq [OF ingress_ok_new assms(1), of k, folded assms(2)]
  have ok: "ingress_ok s" using st by blast
  note b = busy_run_bound [OF ok assms(3), folded assms(4)]
  have xs: "\<forall>x\<in>set xs. x \<noteq> InStop" "submitted_for k xs = []"
    using busy_run_internal [OF assms(3)] by (auto simp: submitted_for_def split: ingress_op.split)
  have nw: "submitted_for k (ops @ xs) = submitted_for k ops" using xs(2) by (simp add: submitted_for_def)
  have st': "submitted_for k ops \<noteq> [] \<longrightarrow> stage_for k s' \<noteq> [] \<and> last (stage_for k s') = last (submitted_for k ops)"
    using stage_subseq [OF ingress_ok_new, of "ops @ xs" k] assms(1) xs(1) by (simp add: nw assms(2,4) ball_Un)
  have "stage_for k s' = filter (\<lambda>t. tick_key t = k) (is_sent s')" if "\<forall>x. internal x \<longrightarrow> ingress_step x s' = s'"
  proof -
    have "is_held s' = None" "is_latest s' = []" using ingress_progress [of s'] b that by blast+
    then show ?thesis by (simp add: stage_for_def)
  qed
  then have "submitted_for k ops \<noteq> [] \<longrightarrow> (\<forall>x. internal x \<longrightarrow> ingress_step x s' = s') \<longrightarrow>
      filter (\<lambda>t. tick_key t = k) (is_sent s') \<noteq> [] \<and> last (filter (\<lambda>t. tick_key t = k) (is_sent s')) = last (submitted_for k ops)"
    using st' by metis
  moreover have "length xs \<le> ingress_work s" using b by linarith
  moreover have "subseq (stage_for k s) (submitted_for k ops)" using st by (simp add: stage_new)
  ultimately show ?thesis using st by blast
qed

text \<open>
  Once \<open>DrainAndStop\<close> has returned (the goroutine has left), no tick is ever delivered
  again and late submissions leave no trace, whatever a surviving connector still does.
\<close>

theorem ingress_silent_after_stop:
  assumes "is_run_done (fold ingress_step ops new_ingress_state)"
  shows "is_sent (fold ingress_step (ops @ later) new_ingress_state) = is_sent (fold ingress_step ops new_ingress_state)
    \<and> is_latest (fold ingress_step (ops @ later) new_ingress_state) = []"
proof -
  let ?s = "fold ingress_step ops new_ingress_state"
  have "stop_inv ?s"
    by (rule ingress_machine.run_inv) (simp add: stop_inv_def new_ingress_state_def)
  with assms have "is_stopped ?s \<and> is_run_done ?s \<and> is_held ?s = None \<and> is_latest ?s = []"
    unfolding stop_inv_def by blast
  from ended_run [OF this] show ?thesis by simp
qed

section \<open>Witnesses\<close>

definition plain_tick :: "dec \<Rightarrow> market_tick" where
  "plain_tick bid = \<lparr>mt_exchange = ''OKX'', mt_symbol = ''BTCUSDT'', mt_market = MarketTypeSpot,
     mt_bid = bid, mt_ask = bid + 1, mt_volume = 0, mt_event_time = 1, mt_received_at = 1, mt_timestamp = 1\<rparr>"

text \<open>The third tick replaces the second while the first is being sent; eight steps later all is quiet.\<close>

theorem ingress_delivers_newest_witness:
  "\<exists>s. s = fold ingress_step [InSubmit (plain_tick 100), InWake, InNotified, InNext (''OKX'', ''BTCUSDT'', MarketTypeSpot),
        InSubmit (plain_tick 101), InSubmit (plain_tick 102)] new_ingress_state
     \<and> filter (\<lambda>t. tick_key t = (''OKX'', ''BTCUSDT'', MarketTypeSpot))
         (is_sent (fold ingress_step [InDeliver, InWake, InWake, InNext (''OKX'', ''BTCUSDT'', MarketTypeSpot), InDeliver, InFlushed,
           InNotified, InFlushed] s)) = [plain_tick 100, plain_tick 102]
     \<and> length (is_sent (fold ingress_step [InDeliver] s)) = 1"
proof -
  let ?k = "(''OKX'', ''BTCUSDT'', MarketTypeSpot)"
  let ?ops = "[InSubmit (plain_tick 100), InWake, InNotified, InNext ?k, InSubmit (plain_tick 101), InSubmit (plain_tick 102)]"
  let ?xs = "[InDeliver, InWake, InWake, InNext ?k, InDeliver, InFlushed, InNotified, InFlushed]"
  have key: "tick_key (plain_tick b) = ?k" for b by (simp add: tick_key_def plain_tick_def)
  let ?s = "fold ingress_step ?ops new_ingress_state"
  have s: "?s = new_ingress_state\<lparr>is_latest := [(?k, plain_tick 102)], is_waking := 2, is_flushing := True, is_held := Some (plain_tick 100)\<rparr>"
    by (simp add: ingress_defs new_ingress_state_def key)
  have b: "busy_run ?xs ?s" unfolding s by (simp add: ingress_defs new_ingress_state_def)
  have e: "fold ingress_step ?xs ?s = new_ingress_state\<lparr>is_sent := [plain_tick 100, plain_tick 102]\<rparr>"
    unfolding s by (simp add: ingress_defs new_ingress_state_def)
  have q: "\<forall>x. internal x \<longrightarrow> ingress_step x (fold ingress_step ?xs ?s) = fold ingress_step ?xs ?s"
  proof (intro allI impI)
    fix x show "internal x \<Longrightarrow> ingress_step x (fold ingress_step ?xs ?s) = fold ingress_step ?xs ?s"
      unfolding e by (cases x) (simp_all add: ingress_defs new_ingress_state_def)
  qed
  have sub: "submitted_for ?k ?ops = [plain_tick 100, plain_tick 101, plain_tick 102]" by (simp add: submitted_for_def key)
  have "last (filter (\<lambda>t. tick_key t = ?k) (is_sent (fold ingress_step ?xs ?s))) = plain_tick 102"
    using ingress_delivers_newest [OF _ refl b refl, of ?k] q unfolding sub by simp
  moreover have "filter (\<lambda>t. tick_key t = ?k) (is_sent (fold ingress_step ?xs ?s)) = [plain_tick 100, plain_tick 102]"
    unfolding e by (simp add: key)
  moreover have "length (is_sent (fold ingress_step [InDeliver] ?s)) = 1"
    unfolding s by (simp add: ingress_deliver_def new_ingress_state_def)
  ultimately show ?thesis by blast
qed

theorem ingress_silent_after_stop_witness:
  "is_sent (fold ingress_step ([InStop, InExit] @ [InSubmit (plain_tick 100), InNext (tick_key (plain_tick 100)), InDeliver])
     new_ingress_state) = []"
  using ingress_silent_after_stop [of "[InStop, InExit]"
      "[InSubmit (plain_tick 100), InNext (tick_key (plain_tick 100)), InDeliver]"]
  by (simp add: ingress_stop_def ingress_exit_def new_ingress_state_def)

end
