(* ===== verification/Connectors.thy ===== *)
theory Connectors
  imports Funding
begin

text \<open>
  internal/app/connector_manager.go: the running exchange connectors. An entry is the
  goroutines started for one connector; it is a pointer in the code, so entries live in a
  store and the table maps a name to the index of its entry. \<open>AddConnector\<close>,
  \<open>RemoveConnector\<close> and the critical section of \<open>StopAll\<close> exclude one another
  (lifecycleMu), so each is one step of the manager; the step takes as an argument what happens while
  it waits: the goroutines that return, each at its own moment, the reports to the funding sink
  that the adapters make in between, and whether the wait ends in time.
\<close>

section \<open>Entries\<close>

datatype stream = StreamSpot | StreamFutures | StreamCandles | StreamFunding

text \<open>The optional interfaces of a connector value (the type assertions of the code).\<close>

record connector =
  cn_candles :: bool
  cn_funding :: bool

record connector_entry =
  en_name :: string
  en_started :: "stream list"
  en_running :: "stream list"
  en_cancelled :: bool

type_synonym entry_ref = nat

record connector_manager =
  cm_entries :: "(string, entry_ref) gomap"
  cm_store :: "connector_entry list"
  cm_stopped :: bool
  cm_stop_done :: bool
  cm_stop_err :: "string list"
  cm_stop_timeout :: gdur
  cm_funding_sink :: "funding_manager option"
  cm_candle_sink :: bool

datatype connector_error =
    ErrNameEmpty | ErrNilConnector | ErrManagerStopped | ErrStopOld string | ErrStop string | ErrNotFound string

section \<open>Construction\<close>

text \<open>The variadic extras: a candle sink, a slice of them (by its length), a stop timeout.\<close>

datatype manager_extra = ExtraCandleSink | ExtraCandleSinks nat | ExtraStopTimeout gdur

definition with_stop_timeout :: "gdur \<Rightarrow> connector_manager \<Rightarrow> connector_manager" where
  "with_stop_timeout d cm = (if d > 0 then cm\<lparr>cm_stop_timeout := d\<rparr> else cm)"

fun apply_extra :: "manager_extra \<Rightarrow> connector_manager \<Rightarrow> connector_manager" where
  "apply_extra ExtraCandleSink cm = cm\<lparr>cm_candle_sink := True\<rparr>"
| "apply_extra (ExtraCandleSinks n) cm = (if n > 0 then cm\<lparr>cm_candle_sink := True\<rparr> else cm)"
| "apply_extra (ExtraStopTimeout d) cm = with_stop_timeout d cm"

definition new_connector_manager :: "funding_manager option \<Rightarrow> manager_extra list \<Rightarrow> connector_manager" where
  "new_connector_manager sink extras = fold apply_extra extras
     \<lparr>cm_entries = [], cm_store = [], cm_stopped = False, cm_stop_done = False, cm_stop_err = [],
      cm_stop_timeout = 15 * nano_second, cm_funding_sink = sink, cm_candle_sink = False\<rparr>"

section \<open>Starting and stopping an entry\<close>

definition streams_of :: "connector_manager \<Rightarrow> connector \<Rightarrow> stream list" where
  "streams_of cm conn =
     [StreamSpot, StreamFutures]
     @ (if cn_candles conn \<and> cm_candle_sink cm then [StreamCandles] else [])
     @ (if cn_funding conn \<and> cm_funding_sink cm \<noteq> None then [StreamFunding] else [])"

definition new_connector_entry :: "string \<Rightarrow> connector \<Rightarrow> connector_manager \<Rightarrow> connector_entry" where
  "new_connector_entry name conn cm =
     \<lparr>en_name = name, en_started = streams_of cm conn, en_running = streams_of cm conn, en_cancelled = False\<rparr>"

text \<open>A goroutine returns: the funding one reports its stream unhealthy first.\<close>

definition stream_return :: "entry_ref \<Rightarrow> stream \<Rightarrow> connector_manager \<Rightarrow> connector_manager" where
  "stream_return i st cm =
     (if i < length (cm_store cm) \<and> st \<in> set (en_running (cm_store cm ! i))
      then let e = cm_store cm ! i
           in cm\<lparr>cm_store := (cm_store cm)[i := e\<lparr>en_running := remove1 st (en_running e)\<rparr>],
                 cm_funding_sink := (if st = StreamFunding
                    then map_option (set_stream_health (en_name e) False) (cm_funding_sink cm)
                    else cm_funding_sink cm)\<rparr>
      else cm)"

fun streams_return :: "entry_ref \<Rightarrow> stream list \<Rightarrow> connector_manager \<Rightarrow> connector_manager" where
  "streams_return i [] cm = cm"
| "streams_return i (st # sts) cm = streams_return i sts (stream_return i st cm)"

text \<open>
  What happens while \<open>stop\<close> waits: one goroutine of the entry returns, or an adapter (the one that is stopped or
  another) reports a funding rate or the health of a stream.
\<close>

datatype stop_event = StopReturn stream | StopFunding gtime string string dec gtime gtime | StopHealth string bool

fun stop_report :: "stop_event \<Rightarrow> funding_op option" where
  "stop_report (StopReturn st) = None"
| "stop_report (StopFunding now ex sy rate nxt event) = Some (OpUpdateFunding now ex sy rate nxt event)"
| "stop_report (StopHealth ex h) = Some (OpHealth ex h)"

definition report_to_sink :: "funding_op \<Rightarrow> connector_manager \<Rightarrow> connector_manager" where
  "report_to_sink x cm = cm\<lparr>cm_funding_sink := map_option (funding_step x) (cm_funding_sink cm)\<rparr>"

definition while_stopping :: "entry_ref \<Rightarrow> stop_event \<Rightarrow> connector_manager \<Rightarrow> connector_manager" where
  "while_stopping i x cm =
     (case x of StopReturn st \<Rightarrow> stream_return i st cm | _ \<Rightarrow> report_to_sink (the (stop_report x)) cm)"

text \<open>
  \<open>stop\<close>: cancel, then wait for the channel \<open>stopped\<close>, which closes when every goroutine has
  returned, or for the timer. The wait is the list of events and whether the channel closes first; then
  the goroutines that the events leave return after them. A timeout that is not positive waits without a
  timer. The flag of the result is the error.
\<close>

type_synonym stop_wait = "bool \<times> stop_event list"

definition entry_stop :: "stop_wait \<Rightarrow> entry_ref \<Rightarrow> connector_manager \<Rightarrow> connector_manager \<times> bool" where
  "entry_stop wait i cm =
     (let cm1 = cm\<lparr>cm_store := (cm_store cm)[i := (cm_store cm ! i)\<lparr>en_cancelled := True\<rparr>]\<rparr>;
          cm2 = fold (while_stopping i) (snd wait) cm1
      in if cm_stop_timeout cm \<le> 0 \<or> fst wait
         then (streams_return i (en_running (cm_store cm2 ! i)) cm2, False)
         else (cm2, True))"

section \<open>Operations\<close>

definition connector_count :: "connector_manager \<Rightarrow> nat" where
  "connector_count cm = length (cm_entries cm)"

definition connector_names :: "connector_manager \<Rightarrow> string list" where
  "connector_names cm = sort (mkeys (cm_entries cm))"

definition connector_name :: "string \<Rightarrow> string" where
  "connector_name name = to_upper (trim_space name)"

definition drop_entry :: "string \<Rightarrow> entry_ref \<Rightarrow> connector_manager \<Rightarrow> connector_manager" where
  "drop_entry name i cm =
     (if map_of (cm_entries cm) name = Some i then cm\<lparr>cm_entries := mdel name (cm_entries cm)\<rparr> else cm)"

definition start_entry :: "string \<Rightarrow> connector \<Rightarrow> connector_manager \<Rightarrow> connector_manager" where
  "start_entry name conn cm =
     cm\<lparr>cm_store := cm_store cm @ [new_connector_entry name conn cm],
        cm_entries := mput name (length (cm_store cm)) (cm_entries cm)\<rparr>"

definition add_connector ::
  "stop_wait \<Rightarrow> string \<Rightarrow> connector option \<Rightarrow> connector_manager \<Rightarrow> connector_manager \<times> connector_error option" where
  "add_connector wait name0 conn cm =
     (let name = connector_name name0 in
      if name = [] then (cm, Some ErrNameEmpty)
      else case conn of
        None \<Rightarrow> (cm, Some ErrNilConnector)
      | Some c \<Rightarrow>
          if cm_stopped cm then (cm, Some ErrManagerStopped)
          else case map_of (cm_entries cm) name of
            None \<Rightarrow> (start_entry name c cm, None)
          | Some old \<Rightarrow>
              (case entry_stop wait old cm of (cm1, err) \<Rightarrow>
                 if err then (cm1, Some (ErrStopOld name))
                 else (start_entry name c (drop_entry name old cm1), None)))"

definition remove_connector ::
  "stop_wait \<Rightarrow> string \<Rightarrow> connector_manager \<Rightarrow> connector_manager \<times> connector_error option" where
  "remove_connector wait name0 cm =
     (let name = connector_name name0 in
      if name = [] then (cm, Some ErrNameEmpty)
      else if cm_stopped cm then (cm, Some ErrManagerStopped)
      else case map_of (cm_entries cm) name of
        None \<Rightarrow> (cm, Some (ErrNotFound name))
      | Some i \<Rightarrow>
          (case entry_stop wait i cm of (cm1, err) \<Rightarrow>
             if err then (cm1, Some (ErrStop name)) else (drop_entry name i cm1, None)))"

text \<open>
  \<open>StopAll\<close> runs its body once and returns the stored error: the names of the connectors
  that outlived the timeout. \<open>wait\<close> gives for each entry what happens while it is awaited; the
  goroutines that stop the entries are independent, taken in the order \<open>ord\<close>.
\<close>

fun stop_entries ::
  "(entry_ref \<Rightarrow> stop_wait) \<Rightarrow> (string \<times> entry_ref) list \<Rightarrow> connector_manager \<Rightarrow> connector_manager \<times> string list" where
  "stop_entries wait [] cm = (cm, [])"
| "stop_entries wait ((name, i) # es) cm =
     (case entry_stop (wait i) i cm of (cm1, err) \<Rightarrow>
        case stop_entries wait es cm1 of (cm2, errs) \<Rightarrow> (cm2, (if err then [name] else []) @ errs))"

definition stop_all ::
  "((string \<times> entry_ref) list \<Rightarrow> (string \<times> entry_ref) list) \<Rightarrow> (entry_ref \<Rightarrow> stop_wait) \<Rightarrow>
   connector_manager \<Rightarrow> connector_manager \<times> string list" where
  "stop_all ord wait cm =
     (if cm_stop_done cm then (cm, cm_stop_err cm)
      else let entries = cm_entries cm in
        case stop_entries wait (ord entries) (cm\<lparr>cm_stopped := True, cm_entries := []\<rparr>) of (cm1, errs) \<Rightarrow>
          (cm1\<lparr>cm_stop_done := True, cm_stop_err := errs\<rparr>, errs))"

section \<open>Runs\<close>

text \<open>\<open>CmSink\<close> is any other use of the funding manager, by the adapters or the operator.\<close>

datatype manager_op =
    CmAdd stop_wait string "connector option" | CmRemove stop_wait string
  | CmStopAll "(string \<times> entry_ref) list \<Rightarrow> (string \<times> entry_ref) list" "entry_ref \<Rightarrow> stop_wait"
  | CmReturn entry_ref stream | CmSink funding_op

fun manager_step :: "manager_op \<Rightarrow> connector_manager \<Rightarrow> connector_manager" where
  "manager_step (CmAdd wait name conn) cm = fst (add_connector wait name conn cm)"
| "manager_step (CmRemove wait name) cm = fst (remove_connector wait name cm)"
| "manager_step (CmStopAll ord wait) cm = (if order_ok ord then fst (stop_all ord wait cm) else cm)"
| "manager_step (CmReturn i st) cm = stream_return i st cm"
| "manager_step (CmSink x) cm = report_to_sink x cm"

section \<open>Facts about one entry\<close>

abbreviation live :: "connector_manager \<Rightarrow> entry_ref \<Rightarrow> bool" where
  "live cm i \<equiv> i < length (cm_store cm) \<and> en_running (cm_store cm ! i) \<noteq> []"

lemma stream_return_frame [simp]:
  "cm_entries (stream_return i st cm) = cm_entries cm" "cm_stopped (stream_return i st cm) = cm_stopped cm"
  "cm_stop_done (stream_return i st cm) = cm_stop_done cm" "cm_stop_err (stream_return i st cm) = cm_stop_err cm"
  "cm_stop_timeout (stream_return i st cm) = cm_stop_timeout cm"
  "cm_candle_sink (stream_return i st cm) = cm_candle_sink cm"
  "length (cm_store (stream_return i st cm)) = length (cm_store cm)"
  by (simp_all add: stream_return_def Let_def)

lemma streams_return_frame [simp]:
  "cm_entries (streams_return i sts cm) = cm_entries cm" "cm_stopped (streams_return i sts cm) = cm_stopped cm"
  "cm_stop_done (streams_return i sts cm) = cm_stop_done cm" "cm_stop_err (streams_return i sts cm) = cm_stop_err cm"
  "cm_stop_timeout (streams_return i sts cm) = cm_stop_timeout cm"
  "length (cm_store (streams_return i sts cm)) = length (cm_store cm)"
  by (induction i sts cm rule: streams_return.induct) simp_all

lemma streams_return_store:
  "i < length (cm_store cm) \<Longrightarrow> en_running (cm_store cm ! i) = sts \<Longrightarrow>
   cm_store (streams_return i sts cm) = (cm_store cm)[i := (cm_store cm ! i)\<lparr>en_running := []\<rparr>]"
proof (induction i sts cm rule: streams_return.induct)
  case (1 i cm)
  then have "(cm_store cm ! i)\<lparr>en_running := []\<rparr> = cm_store cm ! i" by simp
  then show ?case by (simp only: streams_return.simps list_update_id)
next
  case (2 i st sts cm)
  have "cm_store (stream_return i st cm) = (cm_store cm)[i := (cm_store cm ! i)\<lparr>en_running := sts\<rparr>]"
    using "2.prems" by (simp add: stream_return_def Let_def)
  with 2 show ?case by simp
qed

lemma connector_name_idem [simp]: "connector_name (connector_name x) = connector_name x"
  by (simp add: connector_name_def)

lemma stream_return_unhealthy:
  "cm_funding_sink cm = Some g \<Longrightarrow> \<not> is_healthy g x \<Longrightarrow>
   \<exists>g'. cm_funding_sink (stream_return i st cm) = Some g' \<and> \<not> is_healthy g' x"
  by (simp add: stream_return_def Let_def is_healthy_set)

lemma streams_return_unhealthy:
  "cm_funding_sink cm = Some g \<Longrightarrow> \<not> is_healthy g x \<Longrightarrow>
   \<exists>g'. cm_funding_sink (streams_return i sts cm) = Some g' \<and> \<not> is_healthy g' x"
proof (induction i sts cm arbitrary: g rule: streams_return.induct)
  case (2 i st sts cm)
  from stream_return_unhealthy [OF "2.prems"] "2.IH" show ?case by auto
qed simp

lemma streams_return_sink:
  "i < length (cm_store cm) \<Longrightarrow> en_running (cm_store cm ! i) = sts \<Longrightarrow> StreamFunding \<in> set sts \<Longrightarrow>
   cm_funding_sink cm = Some fm \<Longrightarrow> connector_name x = en_name (cm_store cm ! i) \<Longrightarrow>
   connector_name x \<noteq> [] \<Longrightarrow>
   \<exists>fm'. cm_funding_sink (streams_return i sts cm) = Some fm' \<and> \<not> is_healthy fm' x"
proof (induction i sts cm arbitrary: fm rule: streams_return.induct)
  case (2 i st sts cm)
  show ?case
  proof (cases "st = StreamFunding")
    case True
    let ?fm = "set_stream_health (connector_name x) False fm"
    have "cm_funding_sink (stream_return i st cm) = Some ?fm"
      using "2.prems" True by (simp add: stream_return_def Let_def)
    moreover have "\<not> is_healthy ?fm x"
      using "2.prems"(6) by (simp add: is_healthy_set connector_name_def)
    ultimately show ?thesis using streams_return_unhealthy by simp
  next
    case False
    have "cm_store (stream_return i st cm) ! i = (cm_store cm ! i)\<lparr>en_running := sts\<rparr>"
      "cm_funding_sink (stream_return i st cm) = Some fm"
      using "2.prems" False by (simp_all add: stream_return_def Let_def)
    with 2 False show ?thesis by simp
  qed
qed simp

section \<open>The invariant\<close>

text \<open>\<open>shrinks cm cm'\<close>: the store of \<open>cm'\<close> has the same entries with fewer running
  goroutines and more cancellations.\<close>

definition shrinks :: "connector_manager \<Rightarrow> connector_manager \<Rightarrow> bool" where
  "shrinks cm cm' \<longleftrightarrow> length (cm_store cm') = length (cm_store cm)
     \<and> (\<forall>i<length (cm_store cm). en_name (cm_store cm' ! i) = en_name (cm_store cm ! i)
          \<and> (en_running (cm_store cm' ! i) \<noteq> [] \<longrightarrow> en_running (cm_store cm ! i) \<noteq> [])
          \<and> (en_cancelled (cm_store cm ! i) \<longrightarrow> en_cancelled (cm_store cm' ! i)))"

lemma shrinks_refl [simp]: "cm_store cm' = cm_store cm \<Longrightarrow> shrinks cm cm'"
  by (simp add: shrinks_def)

lemma shrinks_trans: "shrinks a b \<Longrightarrow> shrinks b c \<Longrightarrow> shrinks a c"
  by (auto simp: shrinks_def)

lemma stream_return_shrinks: "shrinks cm (stream_return i st cm)"
  by (auto simp: shrinks_def stream_return_def Let_def nth_list_update)

lemma streams_return_shrinks: "shrinks cm (streams_return i sts cm)"
  by (induction i sts cm rule: streams_return.induct) (auto intro: shrinks_trans stream_return_shrinks)

lemma report_to_sink_frame [simp]:
  "cm_entries (report_to_sink x cm) = cm_entries cm" "cm_stopped (report_to_sink x cm) = cm_stopped cm"
  "cm_stop_done (report_to_sink x cm) = cm_stop_done cm" "cm_stop_err (report_to_sink x cm) = cm_stop_err cm"
  "cm_stop_timeout (report_to_sink x cm) = cm_stop_timeout cm" "cm_store (report_to_sink x cm) = cm_store cm"
  by (simp_all add: report_to_sink_def)

lemma while_stopping_frame [simp]:
  "cm_entries (while_stopping i x cm) = cm_entries cm" "cm_stopped (while_stopping i x cm) = cm_stopped cm"
  "cm_stop_done (while_stopping i x cm) = cm_stop_done cm" "cm_stop_err (while_stopping i x cm) = cm_stop_err cm"
  "cm_stop_timeout (while_stopping i x cm) = cm_stop_timeout cm"
  "length (cm_store (while_stopping i x cm)) = length (cm_store cm)"
  by (simp_all add: while_stopping_def split: stop_event.split)

lemma stop_events_frame [simp]:
  "cm_entries (fold (while_stopping i) xs cm) = cm_entries cm" "cm_stopped (fold (while_stopping i) xs cm) = cm_stopped cm"
  "cm_stop_done (fold (while_stopping i) xs cm) = cm_stop_done cm" "cm_stop_err (fold (while_stopping i) xs cm) = cm_stop_err cm"
  "cm_stop_timeout (fold (while_stopping i) xs cm) = cm_stop_timeout cm"
  "length (cm_store (fold (while_stopping i) xs cm)) = length (cm_store cm)"
  by (induction xs arbitrary: cm) simp_all

lemma stop_events_shrinks: "shrinks cm (fold (while_stopping i) xs cm)"
proof (induction xs arbitrary: cm)
  case (Cons x xs)
  have "shrinks cm (while_stopping i x cm)"
    by (auto simp: while_stopping_def stream_return_shrinks split: stop_event.split)
  with Cons show ?case by (auto intro: shrinks_trans)
qed simp

lemma entry_stop_frame [simp]:
  "cm_entries (fst (entry_stop wait i cm)) = cm_entries cm" "cm_stopped (fst (entry_stop wait i cm)) = cm_stopped cm"
  "cm_stop_done (fst (entry_stop wait i cm)) = cm_stop_done cm"
  "cm_stop_err (fst (entry_stop wait i cm)) = cm_stop_err cm"
  "cm_stop_timeout (fst (entry_stop wait i cm)) = cm_stop_timeout cm"
  "length (cm_store (fst (entry_stop wait i cm))) = length (cm_store cm)"
  by (simp_all add: entry_stop_def Let_def)

text \<open>The cancelled entry while it is awaited.\<close>

definition cancel_entry :: "entry_ref \<Rightarrow> connector_manager \<Rightarrow> connector_manager" where
  "cancel_entry i cm = cm\<lparr>cm_store := (cm_store cm)[i := (cm_store cm ! i)\<lparr>en_cancelled := True\<rparr>]\<rparr>"

lemma entry_stop_cancel: "entry_stop wait i cm =
    (let cm2 = fold (while_stopping i) (snd wait) (cancel_entry i cm)
     in if cm_stop_timeout cm \<le> 0 \<or> fst wait then (streams_return i (en_running (cm_store cm2 ! i)) cm2, False) else (cm2, True))"
  by (simp add: entry_stop_def cancel_entry_def Let_def)

lemma cancel_entry_simps [simp]:
  "length (cm_store (cancel_entry i cm)) = length (cm_store cm)" "cm_funding_sink (cancel_entry i cm) = cm_funding_sink cm"
  "i < length (cm_store cm) \<Longrightarrow> cm_store (cancel_entry i cm) ! i = (cm_store cm ! i)\<lparr>en_cancelled := True\<rparr>"
  by (simp_all add: cancel_entry_def)

lemma cancel_entry_shrinks: "shrinks cm (cancel_entry i cm)"
  by (cases "i < length (cm_store cm)") (auto simp: shrinks_def cancel_entry_def nth_list_update list_update_beyond)

lemma entry_stop_shrinks: "shrinks (cancel_entry i cm) (fst (entry_stop wait i cm))" "shrinks cm (fst (entry_stop wait i cm))"
proof -
  show "shrinks (cancel_entry i cm) (fst (entry_stop wait i cm))"
    using shrinks_trans [OF stop_events_shrinks streams_return_shrinks] stop_events_shrinks
    by (simp add: entry_stop_cancel Let_def)
  then show "shrinks cm (fst (entry_stop wait i cm))" by (rule shrinks_trans [OF cancel_entry_shrinks])
qed

lemma entry_stop_entry:
  assumes "i < length (cm_store cm)"
  shows "en_cancelled (cm_store (fst (entry_stop wait i cm)) ! i)"
    "\<not> snd (entry_stop wait i cm) \<Longrightarrow> en_running (cm_store (fst (entry_stop wait i cm)) ! i) = []"
proof -
  have "i < length (cm_store (fst (entry_stop wait i cm)))" using assms by simp
  from entry_stop_shrinks(1) [of i cm wait] this show "en_cancelled (cm_store (fst (entry_stop wait i cm)) ! i)"
    using assms by (auto simp: shrinks_def)
  show "en_running (cm_store (fst (entry_stop wait i cm)) ! i) = []" if "\<not> snd (entry_stop wait i cm)"
    using that assms by (auto simp: entry_stop_cancel Let_def streams_return_store split: if_splits)
qed

definition manager_ok :: "connector_manager \<Rightarrow> bool" where
  "manager_ok cm \<longleftrightarrow> mwf (cm_entries cm)
     \<and> (\<forall>(n, i)\<in>set (cm_entries cm). i < length (cm_store cm) \<and> en_name (cm_store cm ! i) = n)
     \<and> (\<forall>i<length (cm_store cm). map_of (cm_entries cm) (en_name (cm_store cm ! i)) = Some i
          \<or> (en_cancelled (cm_store cm ! i) \<and> (cm_stopped cm \<or> en_running (cm_store cm ! i) = [])))
     \<and> (\<forall>i j. live cm i \<longrightarrow> live cm j \<longrightarrow> en_name (cm_store cm ! i) = en_name (cm_store cm ! j) \<longrightarrow> i = j)
     \<and> (\<forall>e\<in>set (cm_store cm). connector_name (en_name e) = en_name e)
     \<and> (cm_stopped cm \<longrightarrow> cm_entries cm = []) \<and> (cm_stop_done cm \<longleftrightarrow> cm_stopped cm)
     \<and> (\<forall>i. cm_stopped cm \<longrightarrow> live cm i \<longrightarrow> en_name (cm_store cm ! i) \<in> set (cm_stop_err cm))"

lemma manager_okD:
  assumes "manager_ok cm"
  shows "i < length (cm_store cm) \<Longrightarrow> map_of (cm_entries cm) (en_name (cm_store cm ! i)) = Some i
          \<or> (en_cancelled (cm_store cm ! i) \<and> (cm_stopped cm \<or> en_running (cm_store cm ! i) = []))"
    and "live cm i \<Longrightarrow> live cm j \<Longrightarrow> en_name (cm_store cm ! i) = en_name (cm_store cm ! j) \<Longrightarrow> i = j"
    and "i < length (cm_store cm) \<Longrightarrow> connector_name (en_name (cm_store cm ! i)) = en_name (cm_store cm ! i)"
    and "cm_stopped cm \<Longrightarrow> cm_entries cm = []" "cm_stop_done cm \<longleftrightarrow> cm_stopped cm" "mwf (cm_entries cm)"
    and "map_of (cm_entries cm) n = Some i \<Longrightarrow> i < length (cm_store cm) \<and> en_name (cm_store cm ! i) = n"
    and "cm_stopped cm \<Longrightarrow> live cm i \<Longrightarrow> en_name (cm_store cm ! i) \<in> set (cm_stop_err cm)"
  using assms unfolding manager_ok_def by (blast, blast, simp, blast, blast, blast, (auto dest!: map_of_SomeD)[1], blast)

lemma shrinksD:
  assumes "shrinks cm cm'" "i < length (cm_store cm')"
  shows "i < length (cm_store cm)" "en_name (cm_store cm' ! i) = en_name (cm_store cm ! i)"
    "en_running (cm_store cm ! i) = [] \<Longrightarrow> en_running (cm_store cm' ! i) = []"
    "en_cancelled (cm_store cm ! i) \<Longrightarrow> en_cancelled (cm_store cm' ! i)"
  using assms unfolding shrinks_def by auto

lemma manager_ok_shrinks:
  assumes "manager_ok cm" "shrinks cm cm'" "cm_entries cm' = cm_entries cm" "cm_stopped cm' = cm_stopped cm"
    "cm_stop_done cm' = cm_stop_done cm" "cm_stop_err cm' = cm_stop_err cm"
  shows "manager_ok cm'"
proof -
  note ok = manager_okD [OF assms(1)]
  note sh = shrinksD [OF assms(2)]
  have len: "length (cm_store cm') = length (cm_store cm)" using assms(2) by (simp add: shrinks_def)
  have names: "connector_name (en_name e) = en_name e" if "e \<in> set (cm_store cm')" for e
    using that ok(3) sh(1,2) by (auto simp: in_set_conv_nth)
  have entries: "i < length (cm_store cm') \<and> en_name (cm_store cm' ! i) = n" if "(n, i) \<in> set (cm_entries cm)" for n i
    using that ok(6,7) sh(2) len by simp
  have reg: "map_of (cm_entries cm) (en_name (cm_store cm' ! i)) = Some i
      \<or> (en_cancelled (cm_store cm' ! i) \<and> (cm_stopped cm \<or> en_running (cm_store cm' ! i) = []))"
    if "i < length (cm_store cm')" for i
    using ok(1) [of i] sh [OF that] by auto
  have uniq: "i = j" if "live cm' i" "live cm' j" "en_name (cm_store cm' ! i) = en_name (cm_store cm' ! j)" for i j
  proof -
    have "live cm i" "live cm j" using that sh(1,3) by blast+
    moreover have "en_name (cm_store cm ! i) = en_name (cm_store cm ! j)" using that sh(2) by simp
    ultimately show ?thesis by (rule ok(2))
  qed
  have err: "en_name (cm_store cm' ! i) \<in> set (cm_stop_err cm)" if "cm_stopped cm" "live cm' i" for i
    using ok(8) [of i] that sh(1,2) sh(3) [of i] by auto
  show ?thesis unfolding manager_ok_def assms(3-6)
    using ok(4-6) names entries reg uniq err by blast
qed

text \<open>After a stop in time the name is free: nothing of that name runs.\<close>

lemma manager_ok_drop:
  assumes "manager_ok cm" and "map_of (cm_entries cm) n = Some i" and "\<not> live cm i" and "en_cancelled (cm_store cm ! i)"
  shows "manager_ok (drop_entry n i cm)"
    and "\<forall>j. live (drop_entry n i cm) j \<longrightarrow> en_name (cm_store cm ! j) \<noteq> n"
proof -
  note ok = manager_okD [OF assms(1)]
  have i: "i < length (cm_store cm)" "en_name (cm_store cm ! i) = n"
    using ok(7) [OF assms(2)] by simp_all
  have reg: "map_of (mdel n (cm_entries cm)) (en_name (cm_store cm ! j)) = Some j
      \<or> (en_cancelled (cm_store cm ! j) \<and> (cm_stopped cm \<or> en_running (cm_store cm ! j) = []))"
    if "j < length (cm_store cm)" for j
  proof (cases "en_name (cm_store cm ! j) = n")
    case True
    with ok(1) [OF that] assms(2,3,4) i show ?thesis by (cases "j = i") (simp_all add: map_of_mdel)
  next
    case False
    with ok(1) [OF that] show ?thesis by (simp add: map_of_mdel)
  qed
  have free: "en_name (cm_store cm ! j) \<noteq> n" if "live cm j" for j
  proof
    assume n: "en_name (cm_store cm ! j) = n"
    with ok(1) [of j] that assms(2,3) have "cm_stopped cm" by auto
    with ok(4) assms(2) show False by simp
  qed
  have entries: "j < length (cm_store cm) \<and> en_name (cm_store cm ! j) = m"
    if "(m, j) \<in> set (mdel n (cm_entries cm))" for m j
    using that ok(6) ok(7) [of m j] by (auto simp: mem_mdel)
  have names: "connector_name (en_name e) = en_name e" if "e \<in> set (cm_store cm)" for e
    using that ok(3) by (auto simp: in_set_conv_nth)
  show "manager_ok (drop_entry n i cm)"
    unfolding manager_ok_def drop_entry_def using assms(2) ok(2,4,5,6,8) entries reg names
    by (simp add: mwf_mdel) blast
  show "\<forall>j. live (drop_entry n i cm) j \<longrightarrow> en_name (cm_store cm ! j) \<noteq> n"
    using free by (auto simp: drop_entry_def)
qed

lemma names_unique_snoc:
  assumes "\<And>i j. i < length es \<Longrightarrow> en_running (es ! i) \<noteq> [] \<Longrightarrow> j < length es \<Longrightarrow> en_running (es ! j) \<noteq> [] \<Longrightarrow>
      en_name (es ! i) = en_name (es ! j) \<Longrightarrow> i = j"
    and "\<And>j. j < length es \<Longrightarrow> en_running (es ! j) \<noteq> [] \<Longrightarrow> en_name (es ! j) \<noteq> en_name e"
    and "i < length (es @ [e])" "en_running ((es @ [e]) ! i) \<noteq> []"
    and "j < length (es @ [e])" "en_running ((es @ [e]) ! j) \<noteq> []"
    and "en_name ((es @ [e]) ! i) = en_name ((es @ [e]) ! j)"
  shows "i = j"
proof (cases "i < length es"; cases "j < length es")
  assume "i < length es" "j < length es"
  with assms(3-) show ?thesis using assms(1) [of i j] by (simp add: nth_append)
next
  assume "i < length es" "\<not> j < length es"
  with assms(3-) show ?thesis using assms(2) [of i] by (simp add: nth_append less_Suc_eq)
next
  assume "\<not> i < length es" "j < length es"
  with assms(3-) show ?thesis using assms(2) [of j] by (simp add: nth_append less_Suc_eq)
next
  assume "\<not> i < length es" "\<not> j < length es"
  with assms(3-) show ?thesis by simp
qed

lemma manager_ok_start:
  assumes "manager_ok cm" and "\<not> cm_stopped cm" and "map_of (cm_entries cm) n = None" and "connector_name n = n"
  shows "manager_ok (start_entry n c cm)"
proof -
  note ok = manager_okD [OF assms(1)]
  let ?e = "new_connector_entry n c cm" and ?k = "length (cm_store cm)"
  have nm: "en_name ?e = n" by (simp add: new_connector_entry_def)
  have free: "en_name (cm_store cm ! j) \<noteq> n" if "live cm j" for j
    using ok(1) [of j] that assms(2,3) by auto
  have names: "connector_name (en_name e) = en_name e" if "e \<in> set (cm_store cm @ [?e])" for e
    using that ok(3) assms(4) nm by (auto simp: in_set_conv_nth)
  have entries: "j < length (cm_store cm @ [?e]) \<and> en_name ((cm_store cm @ [?e]) ! j) = m"
    if "(m, j) \<in> set (mput n ?k (cm_entries cm))" for m j
    using mem_mput_D [OF that]
  proof
    assume "(m, j) \<in> set (cm_entries cm)"
    then have "j < ?k \<and> en_name (cm_store cm ! j) = m" using ok(6,7) by simp
    then show ?thesis by (simp add: nth_append)
  qed (simp add: nm)
  have reg: "map_of (mput n ?k (cm_entries cm)) (en_name ((cm_store cm @ [?e]) ! j)) = Some j
      \<or> (en_cancelled ((cm_store cm @ [?e]) ! j) \<and> (cm_stopped cm \<or> en_running ((cm_store cm @ [?e]) ! j) = []))"
    if "j < length (cm_store cm @ [?e])" for j
  proof (cases "j < ?k")
    case True
    with ok(1) [OF True] assms(3) show ?thesis by (auto simp: nth_append map_of_mput)
  next
    case False
    with that have "j = ?k" by simp
    then show ?thesis by (simp add: nm map_of_mput)
  qed
  have uniq: "i = j" if "i < length (cm_store cm @ [?e])" "en_running ((cm_store cm @ [?e]) ! i) \<noteq> []"
      "j < length (cm_store cm @ [?e])" "en_running ((cm_store cm @ [?e]) ! j) \<noteq> []"
      "en_name ((cm_store cm @ [?e]) ! i) = en_name ((cm_store cm @ [?e]) ! j)" for i j
    by (rule names_unique_snoc [OF _ _ that]) (use ok(2) free nm in auto)
  have wf: "mwf (mput n ?k (cm_entries cm))" using ok(6) by (rule mwf_mput)
  have fields: "cm_store (start_entry n c cm) = cm_store cm @ [?e]"
    "cm_entries (start_entry n c cm) = mput n ?k (cm_entries cm)" "cm_stopped (start_entry n c cm) = False"
    "cm_stop_done (start_entry n c cm) = False"
    using assms(2) ok(5) by (simp_all add: start_entry_def)
  show ?thesis unfolding manager_ok_def fields using wf entries reg uniq names assms(2) by blast
qed

lemma manager_ok_stop:
  "manager_ok cm \<Longrightarrow> i < length (cm_store cm) \<Longrightarrow> manager_ok (fst (entry_stop wait i cm))"
  by (rule manager_ok_shrinks [OF _ entry_stop_shrinks(2)]) simp_all

text \<open>A successful stop of a registered entry, followed by the removal from the table.\<close>

lemma stop_drop:
  assumes "manager_ok cm" and "map_of (cm_entries cm) n = Some i" and "entry_stop wait i cm = (cm1, False)"
  shows "manager_ok (drop_entry n i cm1)" and "map_of (cm_entries (drop_entry n i cm1)) n = None"
    and "cm_stopped (drop_entry n i cm1) = cm_stopped cm"
    and "\<forall>j. live (drop_entry n i cm1) j \<longrightarrow> en_name (cm_store cm1 ! j) \<noteq> n"
proof -
  have i: "i < length (cm_store cm)" using manager_okD(7) [OF assms(1,2)] by simp
  have cm1: "cm1 = fst (entry_stop wait i cm)" using assms(3) by simp
  have ok: "manager_ok cm1" unfolding cm1 by (rule manager_ok_stop [OF assms(1) i])
  have e: "map_of (cm_entries cm1) n = Some i" unfolding cm1 using assms(2) by simp
  have d: "\<not> live cm1 i" "en_cancelled (cm_store cm1 ! i)"
    using entry_stop_entry [OF i, of wait] arg_cong [OF assms(3), of snd] unfolding cm1 by simp_all
  show "manager_ok (drop_entry n i cm1)" and "\<forall>j. live (drop_entry n i cm1) j \<longrightarrow> en_name (cm_store cm1 ! j) \<noteq> n"
    using manager_ok_drop [OF ok e d] by blast+
  show "map_of (cm_entries (drop_entry n i cm1)) n = None" using e by (simp add: drop_entry_def map_of_mdel)
  show "cm_stopped (drop_entry n i cm1) = cm_stopped cm" unfolding cm1 by (simp add: drop_entry_def)
qed

lemma manager_ok_add: 
  assumes "manager_ok cm"
  shows "manager_ok (fst (add_connector wait name conn cm))"
proof (cases "connector_name name = [] \<or> conn = None \<or> cm_stopped cm")
  case True
  with assms show ?thesis by (auto simp: add_connector_def Let_def split: option.split)
next
  case False
  then obtain c where c: "conn = Some c" "connector_name name \<noteq> []" "\<not> cm_stopped cm" by auto
  show ?thesis
  proof (cases "map_of (cm_entries cm) (connector_name name)")
    case None
    with c manager_ok_start [OF assms] show ?thesis by (simp add: add_connector_def Let_def)
  next
    case (Some old)
    obtain cm1 err where st: "entry_stop wait old cm = (cm1, err)" by fastforce
    show ?thesis
    proof (cases err)
      case True
      have "manager_ok cm1" using manager_ok_stop [OF assms, of old wait] manager_okD(7) [OF assms Some] st by simp
      with True c Some st show ?thesis by (simp add: add_connector_def Let_def)
    next
      case False
      with st have st0: "entry_stop wait old cm = (cm1, False)" by simp
      note d = stop_drop [OF assms Some st0]
      have "manager_ok (start_entry (connector_name name) c (drop_entry (connector_name name) old cm1))"
        by (rule manager_ok_start [OF d(1) _ d(2)]) (use d(3) c in auto)
      with False c Some st show ?thesis by (simp add: add_connector_def Let_def)
    qed
  qed
qed

lemma manager_ok_remove:
  assumes "manager_ok cm"
  shows "manager_ok (fst (remove_connector wait name cm))"
proof (cases "connector_name name = [] \<or> cm_stopped cm \<or> map_of (cm_entries cm) (connector_name name) = None")
  case True
  with assms show ?thesis by (auto simp: remove_connector_def Let_def)
next
  case False
  then obtain i where i: "map_of (cm_entries cm) (connector_name name) = Some i" by blast
  obtain cm1 err where st: "entry_stop wait i cm = (cm1, err)" by fastforce
  have "manager_ok cm1" using manager_ok_stop [OF assms, of i wait] manager_okD(7) [OF assms i] st by simp
  then show ?thesis
    using False i st stop_drop(1) [OF assms i] by (cases err) (auto simp: remove_connector_def Let_def)
qed

text \<open>The loop of \<open>StopAll\<close>: it cancels every listed entry, and an entry that still runs
  afterwards is reported.\<close>

lemma stop_entries_facts:
  assumes "\<forall>(n, i)\<in>set es. i < length (cm_store cm)" and "stop_entries wait es cm = (cm', errs)"
  shows "shrinks cm cm' \<and> cm_entries cm' = cm_entries cm \<and> cm_stopped cm' = cm_stopped cm
    \<and> (\<forall>(n, i)\<in>set es. en_cancelled (cm_store cm' ! i) \<and> (en_running (cm_store cm' ! i) \<noteq> [] \<longrightarrow> n \<in> set errs))"
  using assms
proof (induction wait es cm arbitrary: cm' errs rule: stop_entries.induct)
  case (2 wait n i es cm)
  obtain cm1 err where st: "entry_stop (wait i) i cm = (cm1, err)" by fastforce
  obtain cm2 errs2 where rest: "stop_entries wait es cm1 = (cm2, errs2)" by fastforce
  have cm1: "cm1 = fst (entry_stop (wait i) i cm)" "err = snd (entry_stop (wait i) i cm)" using st by simp_all
  have i: "i < length (cm_store cm)" using "2.prems"(1) by simp
  have len: "length (cm_store cm1) = length (cm_store cm)" unfolding cm1 by simp
  have IH: "shrinks cm1 cm2 \<and> cm_entries cm2 = cm_entries cm1 \<and> cm_stopped cm2 = cm_stopped cm1
    \<and> (\<forall>(n, i)\<in>set es. en_cancelled (cm_store cm2 ! i) \<and> (en_running (cm_store cm2 ! i) \<noteq> [] \<longrightarrow> n \<in> set errs2))"
    using "2.IH" [OF st [symmetric] _ rest] "2.prems"(1) len by simp
  have res: "cm' = cm2" "errs = (if err then [n] else []) @ errs2"
    using "2.prems"(2) st rest by simp_all
  have sh: "shrinks cm cm2"
    using IH entry_stop_shrinks(2) unfolding cm1 by (blast intro: shrinks_trans)
  have e: "en_cancelled (cm_store cm1 ! i)" "en_running (cm_store cm1 ! i) \<noteq> [] \<longrightarrow> err"
    using entry_stop_entry [OF i, of "wait i"] unfolding cm1 by blast+
  have i2: "i < length (cm_store cm2)" using IH i len by (simp add: shrinks_def)
  have sh12: "shrinks cm1 cm2" using IH by blast
  have "en_cancelled (cm_store cm2 ! i) \<and> (en_running (cm_store cm2 ! i) \<noteq> [] \<longrightarrow> n \<in> set errs)"
    using e shrinksD [OF sh12 i2] res(2) by auto
  moreover have "cm_entries cm1 = cm_entries cm" "cm_stopped cm1 = cm_stopped cm" unfolding cm1 by simp_all
  ultimately show ?case using IH sh res by auto
qed simp

lemma manager_ok_stop_all:
  assumes "manager_ok cm" and "order_ok ord"
  shows "manager_ok (fst (stop_all ord wait cm))"
proof (cases "cm_stop_done cm")
  case True
  with assms show ?thesis by (simp add: stop_all_def)
next
  case False
  note ok = manager_okD [OF assms(1)]
  let ?cm0 = "cm\<lparr>cm_stopped := True, cm_entries := []\<rparr>"
  obtain cm1 errs where st: "stop_entries wait (ord (cm_entries cm)) ?cm0 = (cm1, errs)" by fastforce
  have es: "set (ord (cm_entries cm)) = set (cm_entries cm)" using assms(2) by (rule order_ok_set)
  have "\<forall>(n, i)\<in>set (ord (cm_entries cm)). i < length (cm_store ?cm0)" using ok(6,7) by (auto simp: es)
  note f = stop_entries_facts [OF this st]
  then have sh: "shrinks cm cm1" by (simp add: shrinks_def)
  note shD = shrinksD [OF sh]
  have settled: "en_cancelled (cm_store cm1 ! i) \<and> (en_running (cm_store cm1 ! i) \<noteq> [] \<longrightarrow> en_name (cm_store cm1 ! i) \<in> set errs)"
    if i: "i < length (cm_store cm1)" for i
  proof (cases "map_of (cm_entries cm) (en_name (cm_store cm ! i)) = Some i")
    case True
    then have "(en_name (cm_store cm ! i), i) \<in> set (ord (cm_entries cm))" by (simp add: es map_of_SomeD)
    then show ?thesis using f shD(2) [OF i] by auto
  next
    case no: False
    then have "en_cancelled (cm_store cm ! i) \<and> en_running (cm_store cm ! i) = []"
      using ok(1) [OF shD(1) [OF i]] ok(5) False by blast
    then show ?thesis using shD(3,4) [OF i] by simp
  qed
  have names: "connector_name (en_name e) = en_name e" if "e \<in> set (cm_store cm1)" for e
    using that ok(3) shD(1,2) by (auto simp: in_set_conv_nth)
  have uniq: "i = j" if "live cm1 i" "live cm1 j" "en_name (cm_store cm1 ! i) = en_name (cm_store cm1 ! j)" for i j
  proof -
    have "live cm i" "live cm j" using that shD(1,3) by blast+
    moreover have "en_name (cm_store cm ! i) = en_name (cm_store cm ! j)" using that shD(2) by simp
    ultimately show ?thesis by (rule ok(2))
  qed
  have res: "fst (stop_all ord wait cm) = cm1\<lparr>cm_stop_done := True, cm_stop_err := errs\<rparr>"
    using False st by (simp add: stop_all_def Let_def)
  have f': "cm_entries cm1 = []" "cm_stopped cm1" using f by simp_all
  show ?thesis unfolding res manager_ok_def using f' settled names uniq by simp
qed

lemma manager_ok_new: "manager_ok (new_connector_manager sink extras)"
proof -
  have "cm_entries (apply_extra x cm) = cm_entries cm \<and> cm_store (apply_extra x cm) = cm_store cm
      \<and> cm_stopped (apply_extra x cm) = cm_stopped cm \<and> cm_stop_done (apply_extra x cm) = cm_stop_done cm" for x cm
    by (cases x) (simp_all add: with_stop_timeout_def)
  then have "cm_entries (fold apply_extra extras cm) = cm_entries cm \<and> cm_store (fold apply_extra extras cm) = cm_store cm
      \<and> cm_stopped (fold apply_extra extras cm) = cm_stopped cm
      \<and> cm_stop_done (fold apply_extra extras cm) = cm_stop_done cm" for cm
    by (induction extras arbitrary: cm) simp_all
  then show ?thesis by (simp add: manager_ok_def new_connector_manager_def)
qed

lemma manager_step_ok: "manager_ok cm \<Longrightarrow> manager_ok (manager_step x cm)"
proof (cases x)
  case (CmReturn i st)
  then show "manager_ok cm \<Longrightarrow> ?thesis" by (auto intro: manager_ok_shrinks [OF _ stream_return_shrinks])
next
  case (CmSink y)
  then show "manager_ok cm \<Longrightarrow> ?thesis" by (auto intro: manager_ok_shrinks)
qed (simp_all add: manager_ok_add manager_ok_remove manager_ok_stop_all)

interpretation connectors: machine manager_step manager_ok
  by unfold_locales (rule manager_step_ok)

lemma streams_return_no_sink: "cm_funding_sink cm = None \<Longrightarrow> cm_funding_sink (streams_return i sts cm) = None"
  by (induction i sts cm rule: streams_return.induct) (simp_all add: stream_return_def Let_def)

text \<open>After the funding stream has returned, the reports met while stopping do not recover the exchange.\<close>

definition no_late_report :: "string \<Rightarrow> stop_wait \<Rightarrow> bool" where
  "no_late_report name wait \<longleftrightarrow>
     list_all (\<lambda>x. case stop_report x of None \<Rightarrow> True | Some y \<Rightarrow> no_recovery name y)
       (dropWhile (\<lambda>x. x \<noteq> StopReturn StreamFunding) (snd wait))"

lemma quiet_events_unhealthy:
  assumes "list_all (\<lambda>x. case stop_report x of None \<Rightarrow> True | Some y \<Rightarrow> no_recovery name y) xs"
    and "cm_funding_sink cm = Some fm" and "\<not> is_healthy fm name"
  shows "\<exists>fm'. cm_funding_sink (fold (while_stopping i) xs cm) = Some fm' \<and> \<not> is_healthy fm' name"
  using assms
proof (induction xs arbitrary: cm fm)
  case (Cons x xs)
  have "\<exists>fm1. cm_funding_sink (while_stopping i x cm) = Some fm1 \<and> \<not> is_healthy fm1 name"
  proof (cases "stop_report x")
    case None
    then obtain st where "x = StopReturn st" by (cases x) auto
    then show ?thesis using stream_return_unhealthy [OF Cons.prems(2,3)] by (simp add: while_stopping_def)
  next
    case (Some y)
    then have "while_stopping i x cm = report_to_sink y cm" by (cases x) (auto simp: while_stopping_def)
    then show ?thesis using Some Cons.prems no_recovery_step by (auto simp: report_to_sink_def)
  qed
  then show ?case using Cons.IH Cons.prems(1) by fastforce
qed simp

lemma stream_return_running:
  "i < length (cm_store cm) \<Longrightarrow> st' \<noteq> st \<Longrightarrow> st' \<in> set (en_running (cm_store cm ! i)) \<Longrightarrow>
   st' \<in> set (en_running (cm_store (stream_return i st cm) ! i))"
  by (simp add: stream_return_def Let_def)

lemma stop_events_running:
  assumes "i < length (cm_store cm)" and "StreamFunding \<in> set (en_running (cm_store cm ! i))" and "StopReturn StreamFunding \<notin> set xs"
  shows "StreamFunding \<in> set (en_running (cm_store (fold (while_stopping i) xs cm) ! i))"
  using assms
proof (induction xs arbitrary: cm)
  case (Cons x xs)
  have "StreamFunding \<in> set (en_running (cm_store (while_stopping i x cm) ! i))"
    using Cons.prems stream_return_running by (cases x) (auto simp: while_stopping_def)
  with Cons show ?case by simp
qed simp

lemma stop_events_sink: "(cm_funding_sink (fold (while_stopping i) xs cm) = None) = (cm_funding_sink cm = None)"
proof (induction xs arbitrary: cm)
  case (Cons x xs)
  have "(cm_funding_sink (while_stopping i x cm) = None) = (cm_funding_sink cm = None)"
    by (cases x) (simp_all add: while_stopping_def stream_return_def Let_def report_to_sink_def)
  with Cons show ?case by simp
qed simp

lemma entry_stop_funding:
  assumes "i < length (cm_store cm)" and "StreamFunding \<in> set (en_running (cm_store cm ! i))" and "no_late_report name wait"
    and "entry_stop wait i cm = (cm1, False)" and "cm_funding_sink cm1 = Some fm"
    and "connector_name name = en_name (cm_store cm ! i)" and "connector_name name \<noteq> []"
  shows "\<not> is_healthy fm name"
proof -
  let ?cm0 = "cancel_entry i cm" and ?stop = "while_stopping i"
  define cm2 where "cm2 = fold ?stop (snd wait) ?cm0"
  have cm1: "cm1 = streams_return i (en_running (cm_store cm2 ! i)) cm2"
    using assms(4) by (simp add: entry_stop_cancel Let_def cm2_def split: if_splits)
  have nm: "en_name (cm_store c ! i) = connector_name name" if "shrinks ?cm0 c" for c
    using that assms(1,6) by (simp add: shrinks_def)
  show ?thesis
  proof (cases "StopReturn StreamFunding \<in> set (snd wait)")
    case True
    then obtain pre post where e: "snd wait = pre @ StopReturn StreamFunding # post" "StopReturn StreamFunding \<notin> set pre"
      by (meson split_list_first)
    have q: "list_all (\<lambda>x. case stop_report x of None \<Rightarrow> True | Some y \<Rightarrow> no_recovery name y) post"
      using assms(3) e by (simp add: no_late_report_def dropWhile_append3)
    let ?c = "fold ?stop pre ?cm0"
    have r: "StreamFunding \<in> set (en_running (cm_store ?c ! i))"
      by (rule stop_events_running) (use assms(1,2) e(2) in simp_all)
    obtain g where g: "cm_funding_sink ?c = Some g"
      using assms(5) stop_events_sink [of i "snd wait" ?cm0] stop_events_sink [of i pre ?cm0] streams_return_no_sink [of cm2]
      by (cases "cm_funding_sink ?c") (auto simp: cm1 cm2_def)
    let ?g = "set_stream_health (connector_name name) False g"
    have s: "cm_funding_sink (stream_return i StreamFunding ?c) = Some ?g"
      using r g assms(1) nm [OF stop_events_shrinks] by (simp add: stream_return_def Let_def)
    have "\<not> is_healthy ?g name" using assms(7) by (simp add: is_healthy_set connector_name_def)
    from quiet_events_unhealthy [OF q s this] obtain g' where g': "cm_funding_sink cm2 = Some g'" "\<not> is_healthy g' name"
      by (auto simp: cm2_def e(1) while_stopping_def)
    from streams_return_unhealthy [OF g', of i "en_running (cm_store cm2 ! i)"] assms(5) show ?thesis by (auto simp: cm1)
  next
    case False
    have r: "StreamFunding \<in> set (en_running (cm_store cm2 ! i))"
      unfolding cm2_def by (rule stop_events_running) (use assms(1,2) False in simp_all)
    obtain g where g: "cm_funding_sink cm2 = Some g"
      using assms(5) streams_return_no_sink [of cm2] by (cases "cm_funding_sink cm2") (auto simp: cm1)
    have l: "i < length (cm_store cm2)" using assms(1) by (simp add: cm2_def)
    show ?thesis
      using streams_return_sink [OF l refl r g nm [OF stop_events_shrinks, of i "snd wait", folded cm2_def, symmetric] assms(7)] assms(5)
      by (auto simp: cm1)
  qed
qed

lemma remove_success:
  assumes "manager_ok cm" and "remove_connector wait name cm = (cm', None)"
  shows "\<exists>i cm1. map_of (cm_entries cm) (connector_name name) = Some i \<and> entry_stop wait i cm = (cm1, False)
    \<and> cm' = drop_entry (connector_name name) i cm1 \<and> connector_name name \<noteq> []"
  using assms(2) by (auto simp: remove_connector_def Let_def split: if_splits option.splits prod.splits)

section \<open>Properties\<close>

text \<open>
  C9. Whatever the operators and the connectors do (adds, replacements, removals, shutdown,
  streams that end at any time or outlive their stop timeout), at no moment do two
  connectors of the same exchange have running streams.
\<close>

theorem one_live_connector:
  assumes "cm = fold manager_step ops (new_connector_manager sink extras)"
    and "live cm i" and "live cm j" and "en_name (cm_store cm ! i) = en_name (cm_store cm ! j)"
  shows "i = j"
proof -
  have "manager_ok cm" unfolding assms(1) by (rule connectors.run_inv [OF manager_ok_new])
  from manager_okD(2) [OF this assms(2-4)] show ?thesis .
qed

text \<open>
  C21. A successful \<open>/rmex\<close> leaves no running stream of that exchange and no entry under its name, whatever happens
  while it waits. When its funding stream was still running and, after that stream has returned, no other stream
  of the exchange reports a funding rate or a recovery any more, neither before the end of the removal nor
  afterwards, then no futures pair with a leg on that exchange is profitable.
\<close>

theorem removed_exchange_blocked:
  assumes "cm = fold manager_step ops (new_connector_manager sink extras)"
    and "remove_connector wait name cm = (cm', None)"
  shows "(\<forall>i. live cm' i \<longrightarrow> en_name (cm_store cm' ! i) \<noteq> connector_name name)
    \<and> connector_name name \<notin> set (connector_names cm')
    \<and> (\<forall>i fm fops bx bs sx ss spread now.
         map_of (cm_entries cm) (connector_name name) = Some i \<and> StreamFunding \<in> set (en_running (cm_store cm ! i))
         \<and> no_late_report name wait
         \<and> cm_funding_sink cm' = Some fm \<and> (\<forall>x\<in>set fops. no_recovery name x) \<and> (bx = name \<or> sx = name)
         \<longrightarrow> \<not> ar_profitable (evaluate_futures_pair (fold funding_step fops fm) bx bs sx ss spread now))"
proof -
  have ok: "manager_ok cm" unfolding assms(1) by (rule connectors.run_inv [OF manager_ok_new])
  from remove_success [OF ok assms(2)] obtain k cm1
    where k: "map_of (cm_entries cm) (connector_name name) = Some k" "entry_stop wait k cm = (cm1, False)"
      "cm' = drop_entry (connector_name name) k cm1" "connector_name name \<noteq> []" by blast
  note d = stop_drop [OF ok k(1,2), folded k(3)]
  have st: "cm_store cm' = cm_store cm1" "cm_funding_sink cm' = cm_funding_sink cm1" by (simp_all add: k(3) drop_entry_def)
  have i: "k < length (cm_store cm)" "en_name (cm_store cm ! k) = connector_name name"
    using manager_okD(7) [OF ok k(1)] by simp_all
  have blocked: "\<not> is_healthy fm name"
    if "StreamFunding \<in> set (en_running (cm_store cm ! k))" "no_late_report name wait" "cm_funding_sink cm1 = Some fm" for fm
    by (rule entry_stop_funding [OF i(1) that(1,2) k(2) that(3) i(2) [symmetric] k(4)])
  have "connector_name name \<notin> set (connector_names cm')"
    using d(2) by (simp add: connector_names_def map_of_eq_None_iff)
  moreover have "\<not> ar_profitable (evaluate_futures_pair (fold funding_step fops fm) bx bs sx ss spread now)"
    if "StreamFunding \<in> set (en_running (cm_store cm ! k))" "no_late_report name wait" "cm_funding_sink cm' = Some fm"
      "\<forall>x\<in>set fops. no_recovery name x" "bx = name \<or> sx = name" for fm fops bx bs sx ss spread now
  proof -
    have "\<not> is_healthy (fold funding_step fops fm) name"
      using that(1-3) st(2) blocked no_recovery_run [OF that(4)] by simp
    with that(5) show ?thesis unfolding pair_profitable usable_record_def by blast
  qed
  ultimately show ?thesis using d(4) k(1) st(1) by (metis option.inject)
qed

text \<open>
  Shutdown is final: after \<open>StopAll\<close>, whatever is called afterwards, no connector is
  started or listed, every connector ever started is cancelled, a connector that still runs
  is named in the error of \<open>StopAll\<close>, and further calls return that same error.
\<close>

theorem shutdown_is_final:
  assumes "cm = fold manager_step ops (new_connector_manager sink extras)" and "order_ok ord"
    and "stop_all ord wait cm = (cm1, errs)" and "cm' = fold manager_step later cm1"
  shows "cm_entries cm' = [] \<and> length (cm_store cm') = length (cm_store cm1)
    \<and> (\<forall>e\<in>set (cm_store cm'). en_cancelled e)
    \<and> (\<forall>i. live cm' i \<longrightarrow> en_name (cm_store cm' ! i) \<in> set errs)
    \<and> stop_all ord wait cm' = (cm', errs)"
proof -
  define inv where "inv c \<longleftrightarrow> manager_ok c \<and> cm_stop_done c \<and> cm_stop_err c = errs
    \<and> length (cm_store c) = length (cm_store cm1)" for c
  have ok: "manager_ok cm" unfolding assms(1) by (rule connectors.run_inv [OF manager_ok_new])
  have "inv cm1"
    using manager_ok_stop_all [OF ok assms(2), of wait] assms(3)
    by (auto simp: inv_def stop_all_def Let_def split: if_splits prod.splits)
  moreover have "inv (manager_step x c)" if "inv c" for x c
  proof -
    have c: "cm_stop_done c" "cm_stopped c" using that manager_okD(5) by (auto simp: inv_def)
    have "cm_stop_done (manager_step x c) = cm_stop_done c \<and> cm_stop_err (manager_step x c) = cm_stop_err c
      \<and> length (cm_store (manager_step x c)) = length (cm_store c)"
      using c by (cases x) (simp_all add: add_connector_def remove_connector_def stop_all_def Let_def split: option.split)
    then show ?thesis using that manager_step_ok [of c x] by (simp add: inv_def)
  qed
  then have "inv (fold manager_step later c)" if "inv c" for c
    using that by (induction later arbitrary: c) simp_all
  ultimately have inv: "inv cm'" unfolding assms(4) by blast
  then have ok': "manager_ok cm'" "cm_stop_done cm'" "cm_stop_err cm' = errs"
    "length (cm_store cm') = length (cm_store cm1)" by (simp_all add: inv_def)
  note okD = manager_okD [OF ok'(1)]
  have stopped: "cm_stopped cm'" using ok'(2) okD(5) by simp
  then have "cm_entries cm' = []" by (rule okD(4))
  moreover have "en_cancelled e" if e: "e \<in> set (cm_store cm')" for e
  proof -
    obtain i where i: "i < length (cm_store cm')" "cm_store cm' ! i = e" using e by (auto simp: in_set_conv_nth)
    have "map_of (cm_entries cm') (en_name e) = None" by (simp add: \<open>cm_entries cm' = []\<close>)
    then show ?thesis using okD(1) [OF i(1), unfolded i(2)] by simp
  qed
  moreover have "en_name (cm_store cm' ! i) \<in> set errs" if "live cm' i" for i
    using okD(8) [OF stopped that] ok'(3) by simp
  moreover have "stop_all ord wait cm' = (cm', errs)" using ok'(2,3) by (simp add: stop_all_def)
  ultimately show ?thesis using ok'(4) by blast
qed

section \<open>Witnesses\<close>

definition sample_connector :: connector where
  "sample_connector = \<lparr>cn_candles = True, cn_funding = True\<rparr>"

text \<open>OKX is replaced while running, MEXC is added and outlives its removal.\<close>

definition sample_manager_ops :: "manager_op list" where
  "sample_manager_ops = [CmAdd (True, []) ''OKX'' (Some sample_connector),
     CmAdd (True, [StopReturn StreamSpot]) ''OKX'' (Some sample_connector),
     CmAdd (True, []) ''MEXC'' (Some sample_connector), CmRemove (False, []) ''MEXC'']"

definition sample_manager :: connector_manager where
  "sample_manager = fold manager_step sample_manager_ops
     (new_connector_manager (Some sample_funding) [ExtraCandleSink, ExtraStopTimeout 5])"

lemma sample_connector_names: "connector_name ''OKX'' = ''OKX''" "connector_name ''MEXC'' = ''MEXC''"
  by (simp_all add: connector_name_def string_eval)

lemmas manager_eval = add_connector_def remove_connector_def stop_all_def Let_def
      sample_connector_names entry_stop_def start_entry_def drop_entry_def new_connector_entry_def streams_of_def
      stream_return_def while_stopping_def report_to_sink_def sample_connector_def new_connector_manager_def with_stop_timeout_def

lemma sample_manager_store:
  "map en_name (cm_store sample_manager) = [''OKX'', ''OKX'', ''MEXC'']"
  "map en_running (cm_store sample_manager) =
     [[], [StreamSpot, StreamFutures, StreamCandles, StreamFunding], [StreamSpot, StreamFutures, StreamCandles, StreamFunding]]"
  "cm_entries sample_manager = [(''OKX'', 1), (''MEXC'', 2)]"
  by (simp_all add: sample_manager_def sample_manager_ops_def manager_eval)

text \<open>While OKX is stopped its funding stream returns before the others, and MEXC reports a rate.\<close>

definition sample_wait :: stop_wait where
  "sample_wait = (True, [StopReturn StreamSpot, StopReturn StreamFunding, StopFunding 5 ''MEXC'' ''BTCUSDT'' 0 9 5, StopReturn StreamFutures])"

lemma sample_manager_remove:
  "\<exists>cm' fm. remove_connector sample_wait ''OKX'' sample_manager = (cm', None) \<and> cm_funding_sink cm' = Some fm"
  by (simp add: sample_manager_def sample_manager_ops_def sample_wait_def manager_eval)

theorem one_live_connector_witness:
  "{i. live sample_manager i \<and> en_name (cm_store sample_manager ! i) = en_name (cm_store sample_manager ! 1)} = {1}"
proof -
  have len: "length (cm_store sample_manager) = 3" using arg_cong [OF sample_manager_store(1), of length] by simp
  have "en_running (cm_store sample_manager ! 1) = map en_running (cm_store sample_manager) ! 1" using len by simp
  then have l: "live sample_manager 1" using len by (simp add: sample_manager_store)
  have "i = 1" if "live sample_manager i" "en_name (cm_store sample_manager ! i) = en_name (cm_store sample_manager ! 1)" for i
    by (rule one_live_connector [OF sample_manager_def that(1) l that(2)])
  then show ?thesis using l by blast
qed

theorem removed_exchange_blocked_witness:
  "\<exists>cm' fm. remove_connector sample_wait ''OKX'' sample_manager = (cm', None) \<and> cm_funding_sink cm' = Some fm
     \<and> \<not> ar_profitable (evaluate_futures_pair fm ''OKX'' ''MEXC'' ''BTCUSDT'' ''BTCUSDT'' (3 / 100) 6)"
proof -
  have len: "length (cm_store sample_manager) = 3" using arg_cong [OF sample_manager_store(1), of length] by simp
  have "en_running (cm_store sample_manager ! 1) = map en_running (cm_store sample_manager) ! 1"
    using len by simp
  then have f: "StreamFunding \<in> set (en_running (cm_store sample_manager ! 1))" by (simp add: sample_manager_store)
  have q: "no_late_report ''OKX'' sample_wait" by (simp add: no_late_report_def sample_wait_def sample_names)
  obtain cm' fm where r: "remove_connector sample_wait ''OKX'' sample_manager = (cm', None)" "cm_funding_sink cm' = Some fm"
    using sample_manager_remove by blast
  from removed_exchange_blocked [OF sample_manager_def r(1)]
  have "\<forall>i fm fops bx bs sx ss spread now.
         map_of (cm_entries sample_manager) (connector_name ''OKX'') = Some i
         \<and> StreamFunding \<in> set (en_running (cm_store sample_manager ! i)) \<and> no_late_report ''OKX'' sample_wait
         \<and> cm_funding_sink cm' = Some fm \<and> (\<forall>x\<in>set fops. no_recovery ''OKX'' x) \<and> (bx = ''OKX'' \<or> sx = ''OKX'')
         \<longrightarrow> \<not> ar_profitable (evaluate_futures_pair (fold funding_step fops fm) bx bs sx ss spread now)" by blast
  from this [rule_format, of 1 fm "[]"] f r q show ?thesis
    by (simp add: sample_manager_store sample_connector_names)
qed

text \<open>
  The condition on late reports is needed: for BYBIT the rates come with the ticker stream. Its funding stream
  returns at once when the context ends and marks the exchange as unhealthy; when the ticker stream reads one more
  message before it returns, the exchange is healthy again after the removal, and its rate is used.
\<close>

definition bybit_manager :: connector_manager where
  "bybit_manager = fold manager_step [CmAdd (True, []) ''BYBIT'' (Some sample_connector)]
     (new_connector_manager (Some sample_funding) [ExtraCandleSink, ExtraStopTimeout 5])"

lemma bybit_names: "connector_name ''BYBIT'' = ''BYBIT''" "to_upper (trim_space ''BYBIT'') = ''BYBIT''"
  "normalize_funding_key ''BYBIT'' ''BTCUSDT'' = (''BYBIT'', ''BTCUSDT'')"
  by (simp_all add: connector_name_def string_eval normalize_funding_key_def remove_chars_def)

theorem late_report_revives_funding:
  "\<exists>cm' fm. remove_connector (True, [StopReturn StreamFunding, StopFunding 6 ''BYBIT'' ''BTCUSDT'' (1 / 1000) 9 6]) ''BYBIT'' bybit_manager = (cm', None)
     \<and> connector_names cm' = [] \<and> cm_funding_sink cm' = Some fm \<and> is_healthy fm ''BYBIT''
     \<and> ar_profitable (evaluate_futures_pair fm ''BYBIT'' ''BTCUSDT'' ''OKX'' ''BTCUSDT'' (3 / 100) 6)"
proof -
  let ?w = "(True, [StopReturn StreamFunding, StopFunding 6 ''BYBIT'' ''BTCUSDT'' (1 / 1000) 9 6])"
  let ?p = "default_funding_config\<lparr>fc_min_spread := 1 / 100\<rparr>"
  let ?fm0 = "set_stream_health ''BYBIT'' False sample_funding"
  obtain fm where u: "update_funding 6 ''BYBIT'' ''BTCUSDT'' (1 / 1000) 9 6 ?fm0 = Inr fm"
    by (simp add: update_funding_def bybit_names set_stream_health_def sample_funding_def Let_def)
  have r: "\<exists>cm'. remove_connector ?w ''BYBIT'' bybit_manager = (cm', None) \<and> cm_entries cm' = [] \<and> cm_funding_sink cm' = Some fm"
    using u by (simp add: bybit_manager_def manager_eval bybit_names)
  have f: "fm_config fm = Some ?p" "is_healthy fm ''BYBIT''" "is_healthy fm ''OKX''"
    "get_funding fm ''BYBIT'' ''BTCUSDT'' = Some \<lparr>fr_exchange = ''BYBIT'', fr_symbol = ''BTCUSDT'', fr_rate = 1 / 1000,
       fr_next = 9, fr_event_time = 6, fr_received = 6\<rparr>"
    "get_funding fm ''OKX'' ''BTCUSDT'' = Some \<lparr>fr_exchange = ''OKX'', fr_symbol = ''BTCUSDT'', fr_rate = 1 / 1000,
       fr_next = 9, fr_event_time = 5, fr_received = 5\<rparr>"
    using u by (auto simp: update_funding_def bybit_names set_stream_health_def sample_funding_def Let_def is_healthy_def get_funding_def
        sample_names map_of_mput)
  have "usable_record fm ?p ''BYBIT'' ''BTCUSDT'' 6 \<lparr>fr_exchange = ''BYBIT'', fr_symbol = ''BTCUSDT'', fr_rate = 1 / 1000,
       fr_next = 9, fr_event_time = 6, fr_received = 6\<rparr>"
    "usable_record fm ?p ''OKX'' ''BTCUSDT'' 6 \<lparr>fr_exchange = ''OKX'', fr_symbol = ''BTCUSDT'', fr_rate = 1 / 1000,
       fr_next = 9, fr_event_time = 5, fr_received = 5\<rparr>"
    using f by (simp_all add: usable_record_def record_is_stale_def staleness_for_def default_funding_config_def nano_second_def
        time_sub_def is_zero_time_def)
  then have "ar_profitable (evaluate_futures_pair fm ''BYBIT'' ''BTCUSDT'' ''OKX'' ''BTCUSDT'' (3 / 100) 6)"
    unfolding pair_profitable using f(1) by force
  with r f(2) show ?thesis by (auto simp: connector_names_def)
qed

theorem shutdown_is_final_witness:
  "\<exists>cm1. stop_all rev (\<lambda>i. (i \<noteq> 2, [])) sample_manager = (cm1, [''MEXC''])
     \<and> cm_entries (manager_step (CmAdd (True, []) ''OKX'' (Some sample_connector)) cm1) = []"
proof -
  obtain cm1 where st: "stop_all rev (\<lambda>i. (i \<noteq> 2, [])) sample_manager = (cm1, [''MEXC''])"
    by (simp add: sample_manager_def sample_manager_ops_def manager_eval)
  have "manager_step (CmAdd (True, []) ''OKX'' (Some sample_connector)) cm1
      = fold manager_step [CmAdd (True, []) ''OKX'' (Some sample_connector)] cm1" by simp
  from shutdown_is_final [OF sample_manager_def order_ok_rev st this] st show ?thesis by blast
qed

end
