(* ===== verification/Repo.thy ===== *)
theory Repo
  imports Users
begin

text \<open>
  internal/adapters/postgres (repo.go, schema.sql): the three tables and the statements of the
  repository. A table is a map from its primary key; a statement either applies to the whole
  table or not at all. What PostgreSQL does with a value stored in a column is a parameter
  (\<open>pg_lib\<close>), as is whether the connection holds (\<open>db_outcome\<close>, where an error may hide a
  write that was applied). Connection pooling and the schema migration are not modelled.
\<close>

section \<open>Tables\<close>

record user_row =
  ur_username :: string
  ur_min_spread :: string
  ur_min_volume :: string
  ur_timeframe :: string
  ur_min_funding_minutes :: int
  ur_update_step :: string
  ur_bot_id :: int

record signal_row =
  sr_symbol :: string
  sr_spread_type :: string
  sr_exchange_a :: string
  sr_exchange_b :: string
  sr_buy_exchange :: string
  sr_sell_exchange :: string
  sr_buy_market :: string
  sr_sell_market :: string
  sr_opened_at :: gtime
  sr_closed_at :: "gtime option"
  sr_is_active :: bool
  sr_initial_spread :: string
  sr_peak_spread :: string
  sr_final_spread :: "string option"
  sr_quote_volume :: string
  sr_buy_funding_rate :: string
  sr_sell_funding_rate :: string
  sr_buy_next_funding_at :: "gtime option"
  sr_sell_next_funding_at :: "gtime option"
  sr_duration_ms :: int

record database =
  db_users :: "(int, user_row) gomap"
  db_signals :: "(string, signal_row) gomap"
  db_settings :: "(string, string) gomap"

text \<open>
  The database engine: \<open>pg_numeric p s t\<close> is the text read back from a NUMERIC(p, s) column
  after storing the text \<open>t\<close> (None when the value is rejected), \<open>pg_time\<close> a stored time,
  \<open>pg_avg\<close> the average as the driver delivers it.
\<close>

record pg_lib =
  pg_numeric :: "nat \<Rightarrow> nat \<Rightarrow> string \<Rightarrow> string option"
  pg_time :: "gtime \<Rightarrow> gtime"
  pg_avg :: "dec list \<Rightarrow> dec option"

datatype db_outcome = DbOk | DbLost | DbFail

text \<open>\<open>Exec\<close>: the new table, or None when the statement violates a column; the flag is the error.\<close>

definition pg_exec :: "db_outcome \<Rightarrow> 't option \<Rightarrow> 't \<Rightarrow> 't \<times> bool" where
  "pg_exec out new old =
     (case new of
        None \<Rightarrow> (old, True)
      | Some t \<Rightarrow> (case out of DbOk \<Rightarrow> (t, False) | DbLost \<Rightarrow> (t, True) | DbFail \<Rightarrow> (old, True)))"

definition pg_varchar :: "nat \<Rightarrow> string \<Rightarrow> string option" where
  "pg_varchar n s = (if length s \<le> n then Some s else None)"

definition pg_integer :: "int \<Rightarrow> int option" where
  "pg_integer x = (if - (2 ^ 31) \<le> x \<and> x < 2 ^ 31 then Some x else None)"

section \<open>Settings\<close>

text \<open>The three results of \<open>GetSetting\<close>: the value and its presence, or an error.\<close>

definition get_setting :: "db_outcome \<Rightarrow> string \<Rightarrow> database \<Rightarrow> unit + string option" where
  "get_setting out key db = (if out = DbOk then Inr (map_of (db_settings db) key) else Inl ())"

definition set_setting :: "db_outcome \<Rightarrow> string \<Rightarrow> string \<Rightarrow> database \<Rightarrow> database \<times> bool" where
  "set_setting out key v db =
     (case pg_exec out (Some (mput key v (db_settings db))) (db_settings db) of
        (t, err) \<Rightarrow> (db\<lparr>db_settings := t\<rparr>, err))"

section \<open>Users\<close>

definition user_row_of :: "dec_lib \<Rightarrow> pg_lib \<Rightarrow> user \<Rightarrow> user_row option" where
  "user_row_of D P u =
     (case (pg_varchar 100 (us_username u), pg_numeric P 20 8 (lib_string D (us_min_spread u)),
            pg_numeric P 30 8 (lib_string D (us_min_volume u)), pg_varchar 10 (us_timeframe u),
            pg_integer (us_min_funding_minutes u), pg_numeric P 20 8 (lib_string D (us_update_step u))) of
        (Some name, Some spread, Some volume, Some tf, Some mins, Some step) \<Rightarrow>
          Some \<lparr>ur_username = name, ur_min_spread = spread, ur_min_volume = volume, ur_timeframe = tf,
                ur_min_funding_minutes = mins, ur_update_step = step, ur_bot_id = us_bot_id u\<rparr>
      | _ \<Rightarrow> None)"

definition save_user :: "dec_lib \<Rightarrow> pg_lib \<Rightarrow> db_outcome \<Rightarrow> user \<Rightarrow> database \<Rightarrow> database \<times> bool" where
  "save_user D P out u db =
     (case pg_exec out (map_option (\<lambda>r. mput (us_chat_id u) r (db_users db)) (user_row_of D P u)) (db_users db) of
        (t, err) \<Rightarrow> (db\<lparr>db_users := t\<rparr>, err))"

definition delete_user :: "db_outcome \<Rightarrow> int \<Rightarrow> database \<Rightarrow> database \<times> bool" where
  "delete_user out chat db =
     (case pg_exec out (Some (mdel chat (db_users db))) (db_users db) of
        (t, err) \<Rightarrow> (db\<lparr>db_users := t\<rparr>, err))"

text \<open>\<open>scanUser\<close>: the update step is scanned into a local text and not assigned.\<close>

definition scan_user :: "dec_lib \<Rightarrow> int \<times> user_row \<Rightarrow> user option" where
  "scan_user D = (\<lambda>(chat, r).
     (case lib_parse D (ur_min_spread r) of
        None \<Rightarrow> None
      | Some spread \<Rightarrow>
          (case lib_parse D (ur_min_volume r) of
             None \<Rightarrow> None
           | Some volume \<Rightarrow>
               Some \<lparr>us_chat_id = chat, us_username = ur_username r, us_min_spread = spread, us_min_volume = volume,
                     us_timeframe = ur_timeframe r, us_min_funding_minutes = ur_min_funding_minutes r,
                     us_update_step = 0, us_bot_id = ur_bot_id r\<rparr>)))"

fun scan_users :: "dec_lib \<Rightarrow> (int \<times> user_row) list \<Rightarrow> user list option" where
  "scan_users D [] = Some []"
| "scan_users D (r # rs) =
     (case scan_user D r of
        None \<Rightarrow> None
      | Some u \<Rightarrow> map_option ((#) u) (scan_users D rs))"

text \<open>Rows come in an arbitrary order; a broken connection is an error even after some rows.\<close>

definition load_all_users ::
  "dec_lib \<Rightarrow> ((int \<times> user_row) list \<Rightarrow> (int \<times> user_row) list) \<Rightarrow> db_outcome \<Rightarrow> database \<Rightarrow> unit + user list" where
  "load_all_users D ord out db =
     (case scan_users D (ord (db_users db)) of
        None \<Rightarrow> Inl ()
      | Some us \<Rightarrow> if out = DbOk then Inr us else Inl ())"

definition get_user_by_chat_id :: "dec_lib \<Rightarrow> db_outcome \<Rightarrow> int \<Rightarrow> database \<Rightarrow> unit + user option" where
  "get_user_by_chat_id D out chat db =
     (if out \<noteq> DbOk then Inl ()
      else case map_of (db_users db) chat of
        None \<Rightarrow> Inr None
      | Some r \<Rightarrow> (case scan_user D (chat, r) of None \<Rightarrow> Inl () | Some u \<Rightarrow> Inr (Some u)))"

section \<open>Signals\<close>

definition next_funding_ptr :: "gtime \<Rightarrow> gtime option" where
  "next_funding_ptr t = (if is_zero_time t then None else Some t)"

text \<open>Integer division of Go truncates toward zero.\<close>

definition go_quot :: "int \<Rightarrow> int \<Rightarrow> int" where
  "go_quot a b = sgn a * sgn b * (\<bar>a\<bar> div \<bar>b\<bar>)"

definition signal_row_of :: "dec_lib \<Rightarrow> pg_lib \<Rightarrow> signal \<Rightarrow> signal_row option" where
  "signal_row_of D P s =
     (let num = (\<lambda>p v. pg_numeric P (fst p) (snd p) (lib_string D v)) in
      if list_all (\<lambda>x. pg_varchar 50 x \<noteq> None) [sg_symbol s, sg_type s, sg_exchange_a s, sg_exchange_b s,
             sg_buy_exchange s, sg_sell_exchange s]
         \<and> list_all (\<lambda>x. pg_varchar 20 x \<noteq> None) [sg_buy_market s, sg_sell_market s]
      then (case (num (20, 8) (sg_initial s), num (20, 8) (sg_peak s), num (20, 8) (sg_final s),
                  num (30, 8) (sg_volume s), num (20, 12) (sg_buy_rate s), num (20, 12) (sg_sell_rate s)) of
              (Some initial, Some peak, Some final, Some volume, Some br, Some sr) \<Rightarrow>
                Some \<lparr>sr_symbol = sg_symbol s, sr_spread_type = sg_type s, sr_exchange_a = sg_exchange_a s,
                  sr_exchange_b = sg_exchange_b s, sr_buy_exchange = sg_buy_exchange s,
                  sr_sell_exchange = sg_sell_exchange s, sr_buy_market = sg_buy_market s,
                  sr_sell_market = sg_sell_market s, sr_opened_at = pg_time P (sg_opened_at s),
                  sr_closed_at = (if is_zero_time (sg_closed_at s) then None else Some (pg_time P (sg_closed_at s))),
                  sr_is_active = sg_active s, sr_initial_spread = initial, sr_peak_spread = peak,
                  sr_final_spread = Some final, sr_quote_volume = volume, sr_buy_funding_rate = br,
                  sr_sell_funding_rate = sr,
                  sr_buy_next_funding_at = map_option (pg_time P) (next_funding_ptr (sg_buy_next s)),
                  sr_sell_next_funding_at = map_option (pg_time P) (next_funding_ptr (sg_sell_next s)),
                  sr_duration_ms = go_quot (sg_duration s) 1000000\<rparr>
            | _ \<Rightarrow> None)
      else None)"

text \<open>INSERT ... ON CONFLICT (id) DO UPDATE: the listed columns take the new values.\<close>

definition upsert_signal_row :: "signal_row \<Rightarrow> signal_row option \<Rightarrow> signal_row" where
  "upsert_signal_row r old =
     (case old of
        None \<Rightarrow> r
      | Some o' \<Rightarrow> o'\<lparr>sr_closed_at := sr_closed_at r, sr_is_active := sr_is_active r,
          sr_peak_spread := sr_peak_spread r, sr_final_spread := sr_final_spread r,
          sr_quote_volume := sr_quote_volume r, sr_buy_funding_rate := sr_buy_funding_rate r,
          sr_sell_funding_rate := sr_sell_funding_rate r, sr_buy_next_funding_at := sr_buy_next_funding_at r,
          sr_sell_next_funding_at := sr_sell_next_funding_at r, sr_duration_ms := sr_duration_ms r\<rparr>)"

definition save_signal :: "dec_lib \<Rightarrow> pg_lib \<Rightarrow> db_outcome \<Rightarrow> signal \<Rightarrow> database \<Rightarrow> database \<times> bool" where
  "save_signal D P out s db =
     (case pg_exec out
        (map_option (\<lambda>r. mput (sg_id s) (upsert_signal_row r (map_of (db_signals db) (sg_id s))) (db_signals db))
          (signal_row_of D P s)) (db_signals db) of
        (t, err) \<Rightarrow> (db\<lparr>db_signals := t\<rparr>, err))"

text \<open>The UPDATE of \<open>ReconcileActiveSignals\<close>, with \<open>now\<close> the time of the transaction.\<close>

definition reconcile_row :: "gtime \<Rightarrow> signal_row \<Rightarrow> signal_row" where
  "reconcile_row now r =
     (if sr_is_active r
      then r\<lparr>sr_is_active := False, sr_closed_at := Some now, sr_final_spread := None,
             sr_duration_ms := max 0 ((now - sr_opened_at r) div 1000000)\<rparr>
      else r)"

definition reconcile_active_signals :: "db_outcome \<Rightarrow> gtime \<Rightarrow> database \<Rightarrow> database \<times> bool" where
  "reconcile_active_signals out now db =
     (case pg_exec out (Some (map (\<lambda>(k, r). (k, reconcile_row now r)) (db_signals db))) (db_signals db) of
        (t, err) \<Rightarrow> (db\<lparr>db_signals := t\<rparr>, err))"

record signal_summary =
  ss_symbol :: string
  ss_spread_type :: string
  ss_buy_exchange :: string
  ss_sell_exchange :: string
  ss_peak_spread :: dec
  ss_opened_at :: gtime
  ss_closed_at :: gtime
  ss_duration :: gdur

definition summary_of :: "dec_lib \<Rightarrow> signal_row \<Rightarrow> signal_summary" where
  "summary_of D r = \<lparr>ss_symbol = sr_symbol r, ss_spread_type = sr_spread_type r,
     ss_buy_exchange = sr_buy_exchange r, ss_sell_exchange = sr_sell_exchange r,
     ss_peak_spread = (case lib_parse D (sr_peak_spread r) of Some d \<Rightarrow> d | None \<Rightarrow> 0),
     ss_opened_at = sr_opened_at r, ss_closed_at = the (sr_closed_at r),
     ss_duration = sr_duration_ms r * 1000000\<rparr>"

text \<open>\<open>ord\<close> is the order in which the engine meets rows closed at the same time.\<close>

definition clamp_limit :: "int \<Rightarrow> int" where
  "clamp_limit limit = (let l = (if limit \<le> 0 then 10 else limit) in if l > 50 then 50 else l)"

definition recent_closed_signals ::
  "dec_lib \<Rightarrow> (signal_row list \<Rightarrow> signal_row list) \<Rightarrow> db_outcome \<Rightarrow> int \<Rightarrow> database \<Rightarrow> unit + signal_summary list" where
  "recent_closed_signals D ord out limit db =
     (if out \<noteq> DbOk then Inl ()
      else let closed = filter (\<lambda>r. \<not> sr_is_active r \<and> sr_closed_at r \<noteq> None) (ord (map snd (db_signals db)));
               newest = sort_key (\<lambda>r. - the (sr_closed_at r)) closed
           in Inr (map (summary_of D) (take (nat (clamp_limit limit)) newest)))"

record signal_stats =
  st_opened :: nat
  st_closed :: nat
  st_avg_peak :: dec
  st_avg_duration :: gdur

text \<open>The averages of the rows closed in the window: the peak spread as the driver delivers
  it and the duration in milliseconds, cut to whole nanoseconds.\<close>

definition signal_stats_24h :: "dec_lib \<Rightarrow> pg_lib \<Rightarrow> db_outcome \<Rightarrow> gtime \<Rightarrow> database \<Rightarrow> unit + signal_stats" where
  "signal_stats_24h D P out now db =
     (if out \<noteq> DbOk then Inl ()
      else let rows = map snd (db_signals db); since = now - 24 * nano_hour;
               closed = filter (\<lambda>r. case sr_closed_at r of None \<Rightarrow> False | Some t \<Rightarrow> t > since) rows
           in Inr \<lparr>st_opened = length (filter (\<lambda>r. sr_opened_at r > since) rows), st_closed = length closed,
                   st_avg_peak = (case pg_avg P (List.map_filter (\<lambda>r. lib_parse D (sr_peak_spread r)) closed) of
                                    Some d \<Rightarrow> d | None \<Rightarrow> 0),
                   st_avg_duration = (case pg_avg P (map (\<lambda>r. of_int (sr_duration_ms r)) closed) of
                                        Some d \<Rightarrow> \<lfloor>d * 1000000\<rfloor> | None \<Rightarrow> 0)\<rparr>)"

section \<open>Facts about the statements\<close>

text \<open>A NUMERIC column keeps a value when the text read back denotes it.\<close>

definition column_ok :: "dec_lib \<Rightarrow> pg_lib \<Rightarrow> nat \<Rightarrow> nat \<Rightarrow> dec \<Rightarrow> bool" where
  "column_ok D P p sc v \<longleftrightarrow>
     (case pg_numeric P p sc (lib_string D v) of None \<Rightarrow> False | Some t \<Rightarrow> lib_parse D t = Some v)"

text \<open>The users the columns of the table can hold.\<close>

definition storable :: "dec_lib \<Rightarrow> pg_lib \<Rightarrow> user \<Rightarrow> bool" where
  "storable D P u \<longleftrightarrow> length (us_username u) \<le> 100 \<and> length (us_timeframe u) \<le> 10
     \<and> - (2 ^ 31) \<le> us_min_funding_minutes u \<and> us_min_funding_minutes u < 2 ^ 31
     \<and> column_ok D P 20 8 (us_min_spread u) \<and> column_ok D P 30 8 (us_min_volume u)
     \<and> column_ok D P 20 8 (us_update_step u)"

text \<open>
  What the table makes of a user: the number read back from a NUMERIC column, which rounds, and
  the user \<open>scanUser\<close> delivers for the row that \<open>SaveUser\<close> writes; None where a column refuses the
  value, respectively where the text read back is no number.
\<close>

definition column_value :: "dec_lib \<Rightarrow> pg_lib \<Rightarrow> nat \<Rightarrow> nat \<Rightarrow> dec \<Rightarrow> dec option" where
  "column_value D P p sc v = Option.bind (pg_numeric P p sc (lib_string D v)) (lib_parse D)"

definition fits_columns :: "dec_lib \<Rightarrow> pg_lib \<Rightarrow> user \<Rightarrow> bool" where
  "fits_columns D P u \<longleftrightarrow> length (us_username u) \<le> 100 \<and> length (us_timeframe u) \<le> 10
     \<and> - (2 ^ 31) \<le> us_min_funding_minutes u \<and> us_min_funding_minutes u < 2 ^ 31
     \<and> pg_numeric P 20 8 (lib_string D (us_min_spread u)) \<noteq> None
     \<and> pg_numeric P 30 8 (lib_string D (us_min_volume u)) \<noteq> None
     \<and> pg_numeric P 20 8 (lib_string D (us_update_step u)) \<noteq> None"

definition read_back :: "dec_lib \<Rightarrow> pg_lib \<Rightarrow> user \<Rightarrow> user option" where
  "read_back D P u =
     (case (column_value D P 20 8 (us_min_spread u), column_value D P 30 8 (us_min_volume u)) of
        (Some spread, Some volume) \<Rightarrow> Some (u\<lparr>us_min_spread := spread, us_min_volume := volume, us_update_step := 0\<rparr>)
      | _ \<Rightarrow> None)"

lemma fits_columns_row:
  "fits_columns D P u \<Longrightarrow> \<exists>r. user_row_of D P u = Some r \<and> scan_user D (us_chat_id u, r) = read_back D P u"
  by (auto simp: fits_columns_def user_row_of_def scan_user_def read_back_def column_value_def pg_varchar_def pg_integer_def
      split: option.split)

lemma not_fits_columns_row: "\<not> fits_columns D P u \<Longrightarrow> user_row_of D P u = None"
  by (auto simp: fits_columns_def user_row_of_def pg_varchar_def pg_integer_def split: option.splits)

lemma storable_read_back: "storable D P u \<Longrightarrow> fits_columns D P u \<and> read_back D P u = Some (u\<lparr>us_update_step := 0\<rparr>)"
  by (auto simp: storable_def fits_columns_def read_back_def column_value_def column_ok_def split: option.splits)

lemma scan_users_set:
  "scan_users D rs = Some us \<Longrightarrow> set us = {u. \<exists>r\<in>set rs. scan_user D r = Some u}"
proof (induction rs arbitrary: us)
  case (Cons r rs)
  then show ?case by (auto split: option.splits)
qed simp

lemma scan_users_all: "scan_users D rs = Some us \<Longrightarrow> r \<in> set rs \<Longrightarrow> scan_user D r \<noteq> None"
  by (induction rs arbitrary: us) (auto split: option.splits)

lemma scan_users_total:
  "\<forall>r\<in>set rs. scan_user D r \<noteq> None \<Longrightarrow> \<exists>us. scan_users D rs = Some us"
  by (induction rs) auto

lemma save_signal_row:
  "save_signal D P out s db = (db', False) \<Longrightarrow>
   \<exists>r. signal_row_of D P s = Some r \<and> db' = db\<lparr>db_signals :=
      mput (sg_id s) (upsert_signal_row r (map_of (db_signals db) (sg_id s))) (db_signals db)\<rparr>"
  by (auto simp: save_signal_def pg_exec_def split: option.splits db_outcome.splits prod.splits)

text \<open>The columns that say which signal a row is, and those that say how it went.\<close>

definition identity_columns where
  "identity_columns r = (sr_symbol r, sr_spread_type r, (sr_exchange_a r, sr_exchange_b r),
     (sr_buy_exchange r, sr_sell_exchange r, sr_buy_market r, sr_sell_market r), sr_opened_at r, sr_initial_spread r)"

definition progress_columns where
  "progress_columns r = (sr_closed_at r, sr_is_active r, sr_peak_spread r, sr_final_spread r, sr_quote_volume r,
     (sr_buy_funding_rate r, sr_sell_funding_rate r, sr_buy_next_funding_at r, sr_sell_next_funding_at r),
     sr_duration_ms r)"

lemma upsert_columns:
  "progress_columns (upsert_signal_row r old) = progress_columns r"
  "identity_columns (upsert_signal_row r old) = identity_columns (case old of None \<Rightarrow> r | Some o' \<Rightarrow> o')"
  by (simp_all add: upsert_signal_row_def progress_columns_def identity_columns_def split: option.split)

lemma reconcile_identity [simp]: "identity_columns (reconcile_row now r) = identity_columns r"
  by (simp add: reconcile_row_def identity_columns_def)

datatype signal_write = WriteSignal db_outcome signal | WriteReconcile db_outcome gtime

fun write_step :: "dec_lib \<Rightarrow> pg_lib \<Rightarrow> signal_write \<Rightarrow> database \<Rightarrow> database" where
  "write_step D P (WriteSignal out s) db = fst (save_signal D P out s db)"
| "write_step D P (WriteReconcile out now) db = fst (reconcile_active_signals out now db)"

lemma pg_exec_cases:
  "fst (pg_exec out new old) = old \<or> new = Some (fst (pg_exec out new old))"
  by (auto simp: pg_exec_def split: option.split db_outcome.split)

lemma write_step_identity:
  assumes "map_of (db_signals db) k = Some r"
  shows "\<exists>r'. map_of (db_signals (write_step D P w db)) k = Some r' \<and> identity_columns r' = identity_columns r"
proof (cases w)
  case (WriteSignal out s)
  let ?new = "map_option (\<lambda>r. mput (sg_id s) (upsert_signal_row r (map_of (db_signals db) (sg_id s))) (db_signals db))
      (signal_row_of D P s)"
  have step: "db_signals (write_step D P w db) = fst (pg_exec out ?new (db_signals db))"
    by (simp add: WriteSignal save_signal_def case_prod_beta)
  show ?thesis
    using pg_exec_cases [of out ?new "db_signals db"] assms
    by (auto simp: step map_of_mput upsert_columns)
next
  case (WriteReconcile out now)
  let ?new = "Some (map (\<lambda>(k, r). (k, reconcile_row now r)) (db_signals db))"
  have step: "db_signals (write_step D P w db) = fst (pg_exec out ?new (db_signals db))"
    by (simp add: WriteReconcile reconcile_active_signals_def case_prod_beta)
  show ?thesis
    using pg_exec_cases [of out ?new "db_signals db"] assms by (auto simp: step mget_map)
qed

lemma sorted_wrt_take_drop:
  "sorted_wrt Q xs \<Longrightarrow> sorted_wrt Q (take n xs) \<and> (\<forall>x\<in>set (take n xs). \<forall>y\<in>set (drop n xs). Q x y)"
  by (metis append_take_drop_id sorted_wrt_append)

lemma in_take_or_drop: "x \<in> set xs \<Longrightarrow> x \<in> set (take n xs) \<or> x \<in> set (drop n xs)"
  by (metis Un_iff append_take_drop_id set_append)

lemma mdel_rows: "mwf m \<Longrightarrow> set (mput k v m) = insert (k, v) {x \<in> set m. fst x \<noteq> k}"
  using mem_mput_mwf by fastforce

section \<open>Properties\<close>

text \<open>
  A stored signal keeps its identity: through any run of saves (of any signals, with any
  fate of the connection) and of restarts, the row of an id keeps its route, opening time and
  initial spread.
\<close>

theorem row_keeps_identity:
  assumes "map_of (db_signals db) k = Some r"
  shows "\<exists>r'. map_of (db_signals (fold (write_step D P) ws db)) k = Some r' \<and> identity_columns r' = identity_columns r"
  using assms
proof (induction ws arbitrary: db r)
  case (Cons w ws)
  obtain r1 where r1: "map_of (db_signals (write_step D P w db)) k = Some r1" "identity_columns r1 = identity_columns r"
    using write_step_identity [OF Cons.prems] by blast
  from Cons.IH [OF r1(1)] r1(2) show ?case by simp
qed simp

text \<open>
  \<open>SaveSignal\<close>, when it reports success, leaves exactly one row for the id of the
  snapshot: its progress (closing time, activity, peak, final spread, volume, funding,
  duration) is that of the snapshot, its identity that of the row there was before, or of
  the snapshot for a new signal; no other row and no other table changes.
\<close>

theorem save_signal_spec:
  assumes "save_signal D P out s db = (db', False)"
  shows "\<exists>r row. signal_row_of D P s = Some r \<and> map_of (db_signals db') (sg_id s) = Some row
    \<and> progress_columns row = progress_columns r
    \<and> identity_columns row = identity_columns (case map_of (db_signals db) (sg_id s) of None \<Rightarrow> r | Some o' \<Rightarrow> o')
    \<and> (\<forall>k. k \<noteq> sg_id s \<longrightarrow> map_of (db_signals db') k = map_of (db_signals db) k)
    \<and> db_users db' = db_users db \<and> db_settings db' = db_settings db"
proof -
  obtain r where r: "signal_row_of D P s = Some r" "db' = db\<lparr>db_signals :=
      mput (sg_id s) (upsert_signal_row r (map_of (db_signals db) (sg_id s))) (db_signals db)\<rparr>"
    using save_signal_row [OF assms] by blast
  then show ?thesis by (simp add: map_of_mput upsert_columns)
qed

text \<open>
  Restart: after a successful \<open>ReconcileActiveSignals\<close> no row is active; a row that was
  active is closed at that time with no final spread and a duration that is not negative; a
  row that was closed already is unchanged.
\<close>

theorem reconcile_closes_all:
  assumes "reconcile_active_signals out now db = (db', False)"
  shows "mkeys (db_signals db') = mkeys (db_signals db)
    \<and> (\<forall>(k, r)\<in>set (db_signals db'). \<not> sr_is_active r)
    \<and> (\<forall>k r. map_of (db_signals db) k = Some r \<longrightarrow> (\<exists>r'. map_of (db_signals db') k = Some r'
         \<and> identity_columns r' = identity_columns r
         \<and> (if sr_is_active r then sr_closed_at r' = Some now \<and> sr_final_spread r' = None \<and> 0 \<le> sr_duration_ms r'
             else r' = r)))"
proof -
  have db': "db_signals db' = map (\<lambda>(k, r). (k, reconcile_row now r)) (db_signals db)"
    using assms by (auto simp: reconcile_active_signals_def pg_exec_def split: db_outcome.splits)
  have "\<not> sr_is_active (reconcile_row now r)" for r by (simp add: reconcile_row_def)
  moreover have "if sr_is_active r
      then sr_closed_at (reconcile_row now r) = Some now \<and> sr_final_spread (reconcile_row now r) = None
        \<and> 0 \<le> sr_duration_ms (reconcile_row now r)
      else reconcile_row now r = r" for r
    by (simp add: reconcile_row_def)
  ultimately show ?thesis by (auto simp: db' mget_map)
qed

lemma load_after_save:
  assumes "order_ok ord" and "mwf (db_users db)" and "load_all_users D ord DbOk db = Inr us"
    and "scan_user D (us_chat_id u, r) = Some v"
  shows "\<exists>us'. load_all_users D ord DbOk (db\<lparr>db_users := mput (us_chat_id u) r (db_users db)\<rparr>) = Inr us'
    \<and> set us' = insert v {w \<in> set us. us_chat_id w \<noteq> us_chat_id u}"
proof -
  let ?rows = "mput (us_chat_id u) r (db_users db)"
  have us: "scan_users D (ord (db_users db)) = Some us"
    using assms(3) by (auto simp: load_all_users_def split: option.splits)
  have rows: "set (ord (db_users db)) = set (db_users db)" by (rule order_ok_set [OF assms(1)])
  have rows': "set (ord ?rows) = insert (us_chat_id u, r) {x \<in> set (db_users db). fst x \<noteq> us_chat_id u}"
    using order_ok_set [OF assms(1)] mdel_rows [OF assms(2)] by simp
  have all: "scan_user D x \<noteq> None" if "x \<in> set (db_users db)" for x
    using scan_users_all [OF us] that rows by simp
  then obtain us' where us': "scan_users D (ord ?rows) = Some us'"
    using scan_users_total [of "ord ?rows" D] rows' assms(4) by auto
  have chat: "us_chat_id w = fst x" if "scan_user D x = Some w" for x w
    using that by (auto simp: scan_user_def split: prod.splits option.splits)
  have "set us' = insert v {w \<in> set us. us_chat_id w \<noteq> us_chat_id u}"
    unfolding scan_users_set [OF us'] scan_users_set [OF us] rows rows' using assms(4) chat by auto blast
  then show ?thesis using us' by (simp add: load_all_users_def)
qed

lemma load_after_bad_row:
  assumes "order_ok ord" and "scan_user D (k, r) = None"
  shows "load_all_users D ord out (db\<lparr>db_users := mput k r (db_users db)\<rparr>) = Inl ()"
proof -
  have "(k, r) \<in> set (ord (mput k r (db_users db)))"
    unfolding order_ok_set [OF assms(1)] by (rule map_of_SomeD) (simp add: map_of_mput)
  then have "scan_users D (ord (mput k r (db_users db))) = None"
    using scan_users_all assms(2) by fastforce
  then show ?thesis by (simp add: load_all_users_def)
qed

text \<open>
  C26. What a restart reads back after \<open>SaveUser\<close>, the statement being executed: a user a column
  refuses is reported as an error and leaves the table as it was. Any other is stored without an error, and
  the users loaded afterwards are those loaded before with the user of that chat replaced by
  what the columns keep of the saved one: spread and volume as NUMERIC(20,8) and
  NUMERIC(30,8) render them, the update step zero, because \<open>scanUser\<close> reads that column without
  assigning it; when the text of a column is no number the whole load fails. When the columns keep the
  values exactly, the saved user itself comes back, up to the update step.
\<close>

theorem saved_user_reloaded:
  assumes "order_ok ord" and "mwf (db_users db)" and "load_all_users D ord DbOk db = Inr us"
    and "save_user D P DbOk u db = (db', err)"
  shows "(if \<not> fits_columns D P u then err \<and> db' = db
     else \<not> err \<and> (case read_back D P u of
         None \<Rightarrow> load_all_users D ord DbOk db' = Inl ()
       | Some v \<Rightarrow> \<exists>us'. load_all_users D ord DbOk db' = Inr us'
           \<and> set us' = insert v {w \<in> set us. us_chat_id w \<noteq> us_chat_id u}))
    \<and> (storable D P u \<longrightarrow> fits_columns D P u \<and> read_back D P u = Some (u\<lparr>us_update_step := 0\<rparr>))"
proof (cases "fits_columns D P u")
  case True
  then obtain r where r: "user_row_of D P u = Some r" "scan_user D (us_chat_id u, r) = read_back D P u"
    using fits_columns_row by blast
  then have db': "db' = db\<lparr>db_users := mput (us_chat_id u) r (db_users db)\<rparr> \<and> \<not> err"
    using assms(4) by (simp add: save_user_def pg_exec_def)
  show ?thesis
  proof (cases "read_back D P u")
    case None
    with r(2) have "load_all_users D ord DbOk db' = Inl ()" using db' load_after_bad_row [OF assms(1)] by simp
    with None True db' show ?thesis using storable_read_back [of D P u] by auto
  next
    case (Some v)
    with r(2) have "\<exists>us'. load_all_users D ord DbOk db' = Inr us' \<and> set us' = insert v {w \<in> set us. us_chat_id w \<noteq> us_chat_id u}"
      using db' load_after_save [OF assms(1-3), of u r v] by simp
    with Some True db' show ?thesis using storable_read_back [of D P u] by simp
  qed
next
  case False
  then show ?thesis using assms(4) not_fits_columns_row [of D P u] storable_read_back [of D P u]
    by (auto simp: save_user_def pg_exec_def)
qed

text \<open>
  \<open>/signals\<close> shows closed signals only, at most as many as asked for (10 by default, 50 at
  most), newest first, and none of the closed signals left out was closed later than one
  that is shown.
\<close>

theorem recent_closed_newest:
  assumes "order_ok ord" and "recent_closed_signals D ord DbOk limit db = Inr out"
  shows "int (length out) \<le> clamp_limit limit \<and> sorted_wrt (\<lambda>a b. ss_closed_at b \<le> ss_closed_at a) out
    \<and> (\<forall>x\<in>set out. \<exists>(k, r)\<in>set (db_signals db). \<not> sr_is_active r \<and> sr_closed_at r = Some (ss_closed_at x) \<and> x = summary_of D r)
    \<and> (\<forall>(k, r)\<in>set (db_signals db). \<forall>t. \<not> sr_is_active r \<and> sr_closed_at r = Some t \<and> summary_of D r \<notin> set out
         \<longrightarrow> (\<forall>x\<in>set out. t \<le> ss_closed_at x))"
proof -
  let ?P = "\<lambda>r. \<not> sr_is_active r \<and> sr_closed_at r \<noteq> None" and ?key = "\<lambda>r. - the (sr_closed_at r)"
  let ?all = "sort_key ?key (filter ?P (ord (map snd (db_signals db))))" and ?n = "nat (clamp_limit limit)"
  have out: "out = map (summary_of D) (take ?n ?all)"
    using assms(2) by (simp add: recent_closed_signals_def Let_def)
  have mem: "r \<in> set ?all \<longleftrightarrow> r \<in> snd ` set (db_signals db) \<and> ?P r" for r
    using order_ok_set [OF assms(1)] by auto
  have pos: "0 \<le> clamp_limit limit" by (simp add: clamp_limit_def Let_def)
  have closed: "ss_closed_at (summary_of D r) = the (sr_closed_at r)" for r by (simp add: summary_of_def)
  have sorted: "sorted_wrt (\<lambda>a b. ?key a \<le> ?key b) ?all"
    using sorted_sort_key [of ?key] by (simp add: sorted_map)
  have split: "sorted_wrt (\<lambda>a b. ?key a \<le> ?key b) (take ?n ?all)"
    "\<forall>x\<in>set (take ?n ?all). \<forall>y\<in>set (drop ?n ?all). ?key x \<le> ?key y"
    using sorted_wrt_take_drop [OF sorted, of ?n] by blast+
  have "int (length out) \<le> clamp_limit limit" using pos by (simp add: out)
  moreover have "sorted_wrt (\<lambda>a b. ss_closed_at b \<le> ss_closed_at a) out"
    using split(1) by (simp add: out sorted_wrt_map closed)
  moreover have "\<exists>(k, r)\<in>set (db_signals db). \<not> sr_is_active r \<and> sr_closed_at r = Some (ss_closed_at x) \<and> x = summary_of D r"
    if x: "x \<in> set out" for x
  proof -
    obtain r where r: "r \<in> set ?all" "x = summary_of D r" using x by (auto simp: out dest: in_set_takeD)
    then obtain k where "(k, r) \<in> set (db_signals db)" "?P r" using mem by auto
    with r(2) show ?thesis by (auto simp: closed)
  qed
  moreover have "t \<le> ss_closed_at x" if "(k, r) \<in> set (db_signals db)" "\<not> sr_is_active r" "sr_closed_at r = Some t"
      "summary_of D r \<notin> set out" and x: "x \<in> set out" for k r t x
  proof -
    have "r \<in> snd ` set (db_signals db)" using that(1) by (rule rev_image_eqI) simp
    then have "r \<in> set ?all" using that(2,3) mem by simp
    then have "r \<in> set (take ?n ?all) \<or> r \<in> set (drop ?n ?all)" by (rule in_take_or_drop)
    moreover have "r \<notin> set (take ?n ?all)" using that(4) unfolding out set_map by blast
    ultimately have r: "r \<in> set (drop ?n ?all)" by blast
    obtain y where y: "y \<in> set (take ?n ?all)" "x = summary_of D y" using x unfolding out set_map by blast
    have "?key y \<le> ?key r" using split(2) y(1) r by blast
    then show ?thesis using that(3) by (simp add: y(2) closed)
  qed
  ultimately show ?thesis by blast
qed

section \<open>Witnesses\<close>

definition sample_pg :: pg_lib where
  "sample_pg = \<lparr>pg_numeric = (\<lambda>p sc t. Some t), pg_time = id, pg_avg = (\<lambda>vs. None)\<rparr>"

definition empty_database :: database where
  "empty_database = \<lparr>db_users = [], db_signals = [], db_settings = []\<rparr>"

definition stored_signal :: signal where
  "stored_signal = \<lparr>sg_id = ''s1'', sg_symbol = ''BTCUSDT'', sg_type = IntraExchange,
     sg_buy_exchange = ''OKX'', sg_sell_exchange = ''OKX'', sg_exchange_a = ''OKX'', sg_exchange_b = ''OKX'',
     sg_buy_market = MarketTypeSpot, sg_sell_market = MarketTypeFutures, sg_opened_at = 5, sg_closed_at = 0,
     sg_active = True, sg_initial = 3 / 100, sg_peak = 3 / 100, sg_final = 0, sg_duration = 0, sg_volume = 900,
     sg_buy_rate = 0, sg_sell_rate = 0, sg_buy_next = 0, sg_sell_next = 0, sg_notified = []\<rparr>"

lemma stored_signal_row: "\<exists>r. signal_row_of sample_lib sample_pg stored_signal = Some r \<and> sr_is_active r"
  by (simp add: signal_row_of_def Let_def stored_signal_def sample_pg_def pg_varchar_def IntraExchange_def
      MarketTypeSpot_def MarketTypeFutures_def)

lemma stored_signal_saved:
  "\<exists>db r. save_signal sample_lib sample_pg DbOk stored_signal empty_database = (db, False)
     \<and> db_signals db = [(''s1'', r)] \<and> sr_is_active r"
  using stored_signal_row
  by (auto simp: save_signal_def pg_exec_def empty_database_def upsert_signal_row_def)
    (simp_all add: stored_signal_def)

theorem row_keeps_identity_witness:
  "\<exists>db r r'. save_signal sample_lib sample_pg DbOk stored_signal empty_database = (db, False)
     \<and> map_of (db_signals db) ''s1'' = Some r
     \<and> map_of (db_signals (fold (write_step sample_lib sample_pg) [WriteReconcile DbOk 9] db)) ''s1'' = Some r'
     \<and> identity_columns r' = identity_columns r"
proof -
  obtain db r where db: "save_signal sample_lib sample_pg DbOk stored_signal empty_database = (db, False)"
    "db_signals db = [(''s1'', r)]" using stored_signal_saved by blast
  then have "map_of (db_signals db) ''s1'' = Some r" by simp
  from row_keeps_identity [OF this] db this show ?thesis by blast
qed

theorem save_signal_spec_witness:
  "\<exists>db row. save_signal sample_lib sample_pg DbOk stored_signal empty_database = (db, False)
     \<and> map_of (db_signals db) (sg_id stored_signal) = Some row"
  using stored_signal_saved save_signal_spec by blast

theorem reconcile_closes_all_witness:
  "\<exists>db db' r. save_signal sample_lib sample_pg DbOk stored_signal empty_database = (db, False)
     \<and> reconcile_active_signals DbOk 9 db = (db', False) \<and> map_of (db_signals db') ''s1'' = Some r
     \<and> sr_closed_at r = Some 9"
proof -
  obtain db r where db: "save_signal sample_lib sample_pg DbOk stored_signal empty_database = (db, False)"
    "db_signals db = [(''s1'', r)]" "sr_is_active r" using stored_signal_saved by blast
  obtain db' where db': "reconcile_active_signals DbOk 9 db = (db', False)"
    by (simp add: reconcile_active_signals_def pg_exec_def)
  from reconcile_closes_all [OF db'] db(2,3) have "\<exists>r'. map_of (db_signals db') ''s1'' = Some r' \<and> sr_closed_at r' = Some 9"
    by (metis map_of_Cons_code(2))
  with db db' show ?thesis by blast
qed

definition stored_user :: user where
  "stored_user = \<lparr>us_chat_id = 7, us_username = ''u'', us_min_spread = 1 / 2000, us_min_volume = 1 / 2000,
     us_timeframe = TF_24h, us_min_funding_minutes = 30, us_update_step = 1 / 2000, us_bot_id = 0\<rparr>"

text \<open>An engine whose columns keep three digits after the point.\<close>

definition coarse_pg :: pg_lib where
  "coarse_pg = sample_pg\<lparr>pg_numeric := (\<lambda>p sc t. Some (take 13 t))\<rparr>"

lemma stored_user_ok: "storable sample_lib sample_pg stored_user"
  by (simp add: storable_def stored_user_def column_ok_def sample_pg_def sample_text TF_24h_def)

lemma stored_user_coarse:
  "fits_columns sample_lib coarse_pg stored_user"
  "read_back sample_lib coarse_pg stored_user =
     Some (stored_user\<lparr>us_min_spread := 0, us_min_volume := 0, us_update_step := 0\<rparr>)"
  by (simp_all add: fits_columns_def read_back_def column_value_def stored_user_def coarse_pg_def TF_24h_def
      sample_text sample_lib_def sample_string_0005 sample_parse_def digit_value_def)

theorem saved_user_reloaded_witness:
  "\<exists>db1 db2 us1 us2. save_user sample_lib sample_pg DbOk stored_user empty_database = (db1, False)
     \<and> load_all_users sample_lib rev DbOk db1 = Inr us1 \<and> set us1 = {stored_user\<lparr>us_update_step := 0\<rparr>}
     \<and> save_user sample_lib coarse_pg DbOk stored_user empty_database = (db2, False)
     \<and> load_all_users sample_lib rev DbOk db2 = Inr us2
     \<and> set us2 = {stored_user\<lparr>us_min_spread := 0, us_min_volume := 0, us_update_step := 0\<rparr>}"
proof -
  obtain db1 e1 db2 e2 where db: "save_user sample_lib sample_pg DbOk stored_user empty_database = (db1, e1)"
    "save_user sample_lib coarse_pg DbOk stored_user empty_database = (db2, e2)" by fastforce
  have m: "mwf (db_users empty_database)" and l: "load_all_users sample_lib rev DbOk empty_database = Inr []"
    by (simp_all add: load_all_users_def empty_database_def)
  have "\<not> e1 \<and> (\<exists>us. load_all_users sample_lib rev DbOk db1 = Inr us \<and> set us = {stored_user\<lparr>us_update_step := 0\<rparr>})"
    using saved_user_reloaded [OF order_ok_rev m l db(1)] storable_read_back [OF stored_user_ok] by simp
  moreover have "\<not> e2 \<and> (\<exists>us. load_all_users sample_lib rev DbOk db2 = Inr us
      \<and> set us = {stored_user\<lparr>us_min_spread := 0, us_min_volume := 0, us_update_step := 0\<rparr>})"
    using saved_user_reloaded [OF order_ok_rev m l db(2)] stored_user_coarse by simp
  ultimately show ?thesis using db by auto
qed

definition closed_row :: signal_row where
  "closed_row = \<lparr>sr_symbol = ''BTCUSDT'', sr_spread_type = ''X'', sr_exchange_a = ''OKX'', sr_exchange_b = ''OKX'',
     sr_buy_exchange = ''OKX'', sr_sell_exchange = ''OKX'', sr_buy_market = ''SPOT'', sr_sell_market = ''FUTURES'',
     sr_opened_at = 5, sr_closed_at = Some 9, sr_is_active = False, sr_initial_spread = ''0.03'',
     sr_peak_spread = ''0.05'', sr_final_spread = None, sr_quote_volume = ''900'', sr_buy_funding_rate = ''0'',
     sr_sell_funding_rate = ''0'', sr_buy_next_funding_at = None, sr_sell_next_funding_at = None, sr_duration_ms = 0\<rparr>"

theorem recent_closed_newest_witness:
  "\<exists>out. recent_closed_signals sample_lib rev DbOk 1
     (empty_database\<lparr>db_signals := [(''a'', closed_row), (''b'', closed_row\<lparr>sr_closed_at := Some 12\<rparr>)]\<rparr>) = Inr out
     \<and> int (length out) \<le> 1"
proof -
  obtain out where o1: "recent_closed_signals sample_lib rev DbOk 1
     (empty_database\<lparr>db_signals := [(''a'', closed_row), (''b'', closed_row\<lparr>sr_closed_at := Some 12\<rparr>)]\<rparr>) = Inr out"
    by (simp add: recent_closed_signals_def Let_def)
  from recent_closed_newest [OF order_ok_rev o1] have "int (length out) \<le> clamp_limit 1" by blast
  with o1 show ?thesis by (simp add: clamp_limit_def)
qed

end
