(* ===== verification/Commands.thy ===== *)
theory Commands
  imports Connectors Repo Tracker
begin

text \<open>
  internal/app/app.go, the application record and its chat commands (\<open>HandleCommand\<close>).
  The funding manager is the sink of the connector manager, the router and the persistence
  buffer belong to the tracker: the code shares these objects by pointer, the model keeps
  each in one place. Commands are handled one at a time. The texts of the replies are
  values of the datatype \<open>reply\<close> with what they display.
\<close>

section \<open>The application\<close>

record application =
  ap_conns :: connector_manager
  ap_aggregator :: aggregator
  ap_tracker :: tracker
  ap_tracker_chan :: "spread_event list"
  ap_volume :: volume_engine
  ap_config :: screener_config
  ap_admins :: "int list"
  ap_users :: user_manager
  ap_db :: database
  ap_user_repo :: bool
  ap_settings_repo :: bool
  ap_stats_repo :: bool
  ap_signals_repo :: bool
  ap_factory :: "(string \<Rightarrow> connector option) option"
  ap_telegram :: "sender option"
  ap_started :: bool
  ap_accepting :: bool

text \<open>\<open>NewApplication\<close> always hands a funding manager to the connector manager.\<close>

definition app_funding :: "application \<Rightarrow> funding_manager" where
  "app_funding a = the (cm_funding_sink (ap_conns a))"

definition set_app_funding :: "funding_manager \<Rightarrow> application \<Rightarrow> application" where
  "set_app_funding fm a = a\<lparr>ap_conns := (ap_conns a)\<lparr>cm_funding_sink := Some fm\<rparr>\<rparr>"

definition SupportedExchanges :: "string list" where
  "SupportedExchanges = [''BINANCE'', ''BINGX'', ''BITGET'', ''BYBIT'', ''GATEIO'', ''KUCOIN'', ''MEXC'', ''OKX'']"

definition settingsKeyHardSpread :: string where "settingsKeyHardSpread = ''hard_min_spread''"
definition settingsKeyFees :: string where "settingsKeyFees = ''fees''"

text \<open>The optional abilities of the repositories: users, settings, statistics, history.\<close>

record repo_abilities =
  ra_users :: bool
  ra_settings :: bool
  ra_stats :: bool
  ra_signals :: bool

definition new_application ::
  "screener_config option \<Rightarrow> repo_abilities \<Rightarrow> database \<Rightarrow> funding_error + application" where
  "new_application cfg0 ra db =
     (let cfg = (case cfg0 of None \<Rightarrow> new_screener_config (1 / 100) | Some c \<Rightarrow> c);
          fcfg = default_funding_config\<lparr>fc_min_spread := get_hard_min_spread cfg\<rparr>
      in case new_funding_manager fcfg of
           Inl e \<Rightarrow> Inl e
         | Inr fm \<Rightarrow>
             Inr \<lparr>ap_conns = new_connector_manager (Some fm) [ExtraCandleSink],
                  ap_aggregator = empty_aggregator,
                  ap_tracker = new_tracker (Some (BufferSink new_persistence_buffer)) (Some (new_notification_router None)),
                  ap_tracker_chan = [], ap_volume = new_volume_engine, ap_config = cfg, ap_admins = [], ap_users = new_user_manager,
                  ap_db = db, ap_user_repo = ra_users ra, ap_settings_repo = ra_settings ra,
                  ap_stats_repo = ra_stats ra, ap_signals_repo = ra_signals ra, ap_factory = None,
                  ap_telegram = None, ap_started = False, ap_accepting = False\<rparr>)"

definition set_admin_ids :: "int list \<Rightarrow> application \<Rightarrow> application" where
  "set_admin_ids ids a = a\<lparr>ap_admins := ids\<rparr>"

definition admin_chat_ids :: "application \<Rightarrow> int list" where
  "admin_chat_ids a = ap_admins a"

definition is_admin :: "int \<Rightarrow> application \<Rightarrow> bool" where
  "is_admin chat a = list_ex (\<lambda>i. chat = i) (ap_admins a)"

definition set_connector_factory :: "(string \<Rightarrow> connector option) option \<Rightarrow> application \<Rightarrow> application" where
  "set_connector_factory f a = (case f of None \<Rightarrow> a | Some g \<Rightarrow> a\<lparr>ap_factory := Some g\<rparr>)"

definition set_app_telegram :: "sender option \<Rightarrow> application \<Rightarrow> application" where
  "set_app_telegram tg a = a\<lparr>ap_telegram := tg, ap_tracker := (ap_tracker a)
     \<lparr>tk_router := map_option (set_telegram_sender tg) (tk_router (ap_tracker a))\<rparr>\<rparr>"

definition route_bot :: "application \<Rightarrow> int \<Rightarrow> int" where
  "route_bot a chat = (case get_user (ap_users a) chat of Some u \<Rightarrow> us_bot_id u | None \<Rightarrow> 0)"

section \<open>Persistence helpers\<close>

text \<open>What one command meets: the decimal package, the database, the outcome of its one
  database call, the clock, map and row orders, and whether a connector stops in time.\<close>

record command_env =
  ce_dec :: dec_lib
  ce_pg :: pg_lib
  ce_out :: db_outcome
  ce_now :: gtime
  ce_fee_order :: "(string \<times> dec) list \<Rightarrow> (string \<times> dec) list"
  ce_row_order :: "signal_row list \<Rightarrow> signal_row list"
  ce_signal_order :: "signal list \<Rightarrow> signal list"
  ce_stop_wait :: stop_wait

definition persist_setting :: "command_env \<Rightarrow> string \<Rightarrow> string \<Rightarrow> application \<Rightarrow> application \<times> bool" where
  "persist_setting E key v a =
     (if \<not> ap_settings_repo a then (a, False)
      else case set_setting (ce_out E) key v (ap_db a) of (db, err) \<Rightarrow> (a\<lparr>ap_db := db\<rparr>, err))"

definition persist_user :: "command_env \<Rightarrow> user \<Rightarrow> application \<Rightarrow> application \<times> bool" where
  "persist_user E u a =
     (if \<not> ap_user_repo a then (a, True)
      else case save_user (ce_dec E) (ce_pg E) (ce_out E) u (ap_db a) of (db, err) \<Rightarrow> (a\<lparr>ap_db := db\<rparr>, err))"

definition remove_stored_user :: "command_env \<Rightarrow> int \<Rightarrow> application \<Rightarrow> application \<times> bool" where
  "remove_stored_user E chat a =
     (if \<not> ap_user_repo a then (a, True)
      else case delete_user (ce_out E) chat (ap_db a) of (db, err) \<Rightarrow> (a\<lparr>ap_db := db\<rparr>, err))"

section \<open>Replies\<close>

datatype refusal = Stopped | AccessDenied | NotSubscribed | UnknownCommand | AlreadySubscribed

datatype bad_argument = BadPercent | BadNumber | TooLarge | BadVolume | VolumeTooLarge | BadStep
  | BadMinutes | BadTimeframe | BelowAdminMinimum

datatype failure = SubscribeNotSaved | UnsubscribeNotSaved | SettingsNotSaved | FloorNotSaved | FeesNotSaved
  | FeesRejected fee_error | FundingConfigFailed funding_error | AddFailed string connector_error
  | RemoveFailed string connector_error

datatype success = Welcome string | Goodbye | SpreadSet dec | VolumeSet dec | UpdatesOff | UpdatesEvery dec
  | FundingTimeSet int | TimeframeSet timeframe | FloorSet dec | FeesSet string | Added string | Removed string

datatype report = Help | FeesShown string | NoStats | StatsFailed | StatsShown signal_stats nat
  | NoHistory | HistoryFailed | HistoryShown nat "signal list" "signal_summary list" | NoFactory | NotSupported string

datatype reply = Refused refusal | Usage string | Bad bad_argument | Failed failure | Ok success | Report report

text \<open>\<open>strconv.Atoi\<close> on 64-bit platforms.\<close>

fun atoi_digits :: "int \<Rightarrow> string \<Rightarrow> int option" where
  "atoi_digits n [] = Some n"
| "atoi_digits n (c # cs) =
     (if 0 \<le> digit_value c \<and> digit_value c \<le> 9 then atoi_digits (10 * n + digit_value c) cs else None)"

definition atoi :: "string \<Rightarrow> int option" where
  "atoi s =
     (let (neg, t) = (case s of [] \<Rightarrow> (False, [])
                       | c # cs \<Rightarrow> if c = CHR ''-'' then (True, cs) else if c = CHR ''+'' then (False, cs) else (False, s))
      in if t = [] then None
         else case atoi_digits 0 t of
           None \<Rightarrow> None
         | Some n \<Rightarrow> let v = (if neg then - n else n)
                     in if - (2 ^ 63) \<le> v \<and> v < 2 ^ 63 then Some v else None)"

section \<open>The commands\<close>

definition cmd_start :: "command_env \<Rightarrow> int \<Rightarrow> int \<Rightarrow> string \<Rightarrow> bool \<Rightarrow> application \<Rightarrow> application \<times> reply" where
  "cmd_start E botid chat username subscribed a =
     (if subscribed then (a, Refused AlreadySubscribed)
      else let u = \<lparr>us_chat_id = chat, us_username = username, us_min_spread = get_hard_min_spread (ap_config a),
                    us_min_volume = 0, us_timeframe = TF_15m, us_min_funding_minutes = 30, us_update_step = 0,
                    us_bot_id = botid\<rparr>
           in case persist_user E u a of (a1, err) \<Rightarrow>
                if err then (a1, Failed SubscribeNotSaved)
                else (a1\<lparr>ap_users := set_user u (ap_users a1)\<rparr>, Ok (Welcome username)))"

definition cmd_stop :: "command_env \<Rightarrow> int \<Rightarrow> application \<Rightarrow> application \<times> reply" where
  "cmd_stop E chat a =
     (case remove_stored_user E chat a of (a1, err) \<Rightarrow>
        if err then (a1, Failed UnsubscribeNotSaved)
        else (a1\<lparr>ap_users := remove_user chat (ap_users a1)\<rparr>, Ok Goodbye))"

text \<open>The common end of the commands that change one setting of the user.\<close>

definition save_settings :: "command_env \<Rightarrow> user \<Rightarrow> reply \<Rightarrow> application \<Rightarrow> application \<times> reply" where
  "save_settings E u ok a =
     (case persist_user E u a of (a1, err) \<Rightarrow>
        if err then (a1, Failed SettingsNotSaved) else (a1\<lparr>ap_users := set_user u (ap_users a1)\<rparr>, ok))"

definition cmd_sethardspread :: "command_env \<Rightarrow> string list \<Rightarrow> application \<Rightarrow> application \<times> reply" where
  "cmd_sethardspread E args a =
     (case args of
        [] \<Rightarrow> (a, Usage ''sethardspread'')
      | arg # _ \<Rightarrow>
          (case lib_parse (ce_dec E) arg of
             None \<Rightarrow> (a, Bad BadPercent)
           | Some v \<Rightarrow>
               if v < 0 \<or> v > 100 then (a, Bad BadPercent)
               else let spread = lib_div (ce_dec E) v 100 in
                 if spread < 1 / 100 then (a, Bad BelowAdminMinimum)
                 else case update_config (default_funding_config\<lparr>fc_min_spread := spread\<rparr>) (app_funding a) of
                   Inl e \<Rightarrow> (a, Failed (FundingConfigFailed e))
                 | Inr fm \<Rightarrow>
                     (case set_hard_min_spread spread (ap_config a) of (cfg, applied) \<Rightarrow>
                        case persist_setting E settingsKeyHardSpread (lib_string (ce_dec E) applied)
                               ((set_app_funding fm a)\<lparr>ap_config := cfg\<rparr>) of (a1, err) \<Rightarrow>
                          if err then (a1, Failed FloorNotSaved) else (a1, Ok (FloorSet applied)))))"

definition cmd_setcross :: "command_env \<Rightarrow> user \<Rightarrow> string list \<Rightarrow> application \<Rightarrow> application \<times> reply" where
  "cmd_setcross E u args a =
     (case args of
        [] \<Rightarrow> (a, Usage ''setcross'')
      | arg # _ \<Rightarrow>
          (case lib_parse (ce_dec E) arg of
             None \<Rightarrow> (a, Bad BadNumber)
           | Some v \<Rightarrow>
               if v < 0 then (a, Bad BadNumber)
               else if v > 100 then (a, Bad TooLarge)
               else let spread0 = lib_div (ce_dec E) v 100;
                        spread = (if spread0 < get_hard_min_spread (ap_config a)
                                  then get_hard_min_spread (ap_config a) else spread0)
                    in save_settings E (u\<lparr>us_min_spread := spread\<rparr>) (Ok (SpreadSet spread)) a))"

definition cmd_setvol :: "command_env \<Rightarrow> user \<Rightarrow> string list \<Rightarrow> application \<Rightarrow> application \<times> reply" where
  "cmd_setvol E u args a =
     (case args of
        [] \<Rightarrow> (a, Usage ''setvol'')
      | arg # _ \<Rightarrow>
          (case lib_parse (ce_dec E) arg of
             None \<Rightarrow> (a, Bad BadVolume)
           | Some v \<Rightarrow>
               if v < 0 then (a, Bad BadVolume)
               else if v > 1000000000 then (a, Bad VolumeTooLarge)
               else save_settings E (u\<lparr>us_min_volume := v\<rparr>) (Ok (VolumeSet v)) a))"

definition cmd_setupdates :: "command_env \<Rightarrow> user \<Rightarrow> string list \<Rightarrow> application \<Rightarrow> application \<times> reply" where
  "cmd_setupdates E u args a =
     (case args of
        [] \<Rightarrow> (a, Usage ''setupdates'')
      | arg # _ \<Rightarrow>
          (case lib_parse (ce_dec E) arg of
             None \<Rightarrow> (a, Bad BadStep)
           | Some v \<Rightarrow>
               if v < 0 \<or> v > 100 then (a, Bad BadStep)
               else let step = lib_div (ce_dec E) v 100
                    in save_settings E (u\<lparr>us_update_step := step\<rparr>) (Ok (if step = 0 then UpdatesOff else UpdatesEvery v)) a))"

definition cmd_setfundingtime :: "command_env \<Rightarrow> user \<Rightarrow> string list \<Rightarrow> application \<Rightarrow> application \<times> reply" where
  "cmd_setfundingtime E u args a =
     (case args of
        [] \<Rightarrow> (a, Usage ''setfundingtime'')
      | arg # _ \<Rightarrow>
          (case atoi arg of
             None \<Rightarrow> (a, Bad BadMinutes)
           | Some mins \<Rightarrow>
               if mins < 0 \<or> mins > 10080 then (a, Bad BadMinutes)
               else save_settings E (u\<lparr>us_min_funding_minutes := mins\<rparr>) (Ok (FundingTimeSet mins)) a))"

definition valid_timeframe :: "timeframe \<Rightarrow> bool" where
  "valid_timeframe tf \<longleftrightarrow> tf \<in> set [TF_1m, TF_5m, TF_15m, TF_30m, TF_1h, TF_4h, TF_24h]"

definition cmd_settimeframe :: "command_env \<Rightarrow> user \<Rightarrow> string list \<Rightarrow> application \<Rightarrow> application \<times> reply" where
  "cmd_settimeframe E u args a =
     (case args of
        [] \<Rightarrow> (a, Usage ''settimeframe'')
      | arg # _ \<Rightarrow>
          (let tf = to_lower arg in
           if \<not> valid_timeframe tf then (a, Bad BadTimeframe)
           else save_settings E (u\<lparr>us_timeframe := tf\<rparr>) (Ok (TimeframeSet tf)) a))"

definition cmd_setfees :: "command_env \<Rightarrow> string list \<Rightarrow> application \<Rightarrow> application \<times> reply" where
  "cmd_setfees E args a =
     (if args = [] then (a, Report (FeesShown (fees_string (ce_dec E) (ap_config a))))
      else case parse_fees (ce_dec E) (join_with '','' args) of
        Inl e \<Rightarrow> (a, Failed (FeesRejected e))
      | Inr parsed \<Rightarrow>
          (let cfg = fold (\<lambda>(k, v). set_fee k v) (ce_fee_order E parsed) (ap_config a) in
           case persist_setting E settingsKeyFees (fees_string (ce_dec E) cfg) (a\<lparr>ap_config := cfg\<rparr>) of (a1, err) \<Rightarrow>
             if err then (a1, Failed FeesNotSaved) else (a1, Ok (FeesSet (fees_string (ce_dec E) cfg)))))"

definition cmd_stats :: "command_env \<Rightarrow> application \<Rightarrow> report" where
  "cmd_stats E a =
     (if \<not> ap_stats_repo a then NoStats
      else case signal_stats_24h (ce_dec E) (ce_pg E) (ce_out E) (ce_now E) (ap_db a) of
        Inl _ \<Rightarrow> StatsFailed
      | Inr st \<Rightarrow> StatsShown st (active_count (ap_tracker a)))"

text \<open>The last five of the active signals, the latest of the list first.\<close>

definition cmd_signals :: "command_env \<Rightarrow> application \<Rightarrow> report" where
  "cmd_signals E a =
     (if \<not> ap_signals_repo a then NoHistory
      else case recent_closed_signals (ce_dec E) (ce_row_order E) (ce_out E) 10 (ap_db a) of
        Inl _ \<Rightarrow> HistoryFailed
      | Inr recent \<Rightarrow>
          (let active = active_snapshot (ce_signal_order E) (ap_tracker a)
           in HistoryShown (length active) (take 5 (rev active)) recent))"

definition cmd_addex :: "command_env \<Rightarrow> string list \<Rightarrow> application \<Rightarrow> application \<times> reply" where
  "cmd_addex E args a =
     (case args of
        [] \<Rightarrow> (a, Usage ''addex'')
      | arg # _ \<Rightarrow>
          (let name = to_upper arg in
           case ap_factory a of
             None \<Rightarrow> (a, Report NoFactory)
           | Some factory \<Rightarrow>
               (case factory name of
                  None \<Rightarrow> (a, Report (NotSupported name))
                | Some conn \<Rightarrow>
                    (case add_connector (ce_stop_wait E) name (Some conn) (ap_conns a) of (cm, err) \<Rightarrow>
                       (a\<lparr>ap_conns := cm\<rparr>, case err of None \<Rightarrow> Ok (Added name) | Some e \<Rightarrow> Failed (AddFailed name e))))))"

definition cmd_rmex :: "command_env \<Rightarrow> string list \<Rightarrow> application \<Rightarrow> application \<times> reply" where
  "cmd_rmex E args a =
     (case args of
        [] \<Rightarrow> (a, Usage ''rmex'')
      | arg # _ \<Rightarrow>
          (let name = to_upper arg in
           case remove_connector (ce_stop_wait E) name (ap_conns a) of (cm, err) \<Rightarrow>
             (a\<lparr>ap_conns := cm\<rparr>, case err of None \<Rightarrow> Ok (Removed name) | Some e \<Rightarrow> Failed (RemoveFailed name e))))"

definition is_admin_cmd :: "string \<Rightarrow> bool" where
  "is_admin_cmd cmd \<longleftrightarrow> cmd \<in> set [''addex'', ''rmex'', ''sethardspread'', ''setfees'', ''stats'']"

text \<open>The switch. The admin commands are dispatched without a user; the others with the
  user of the chat.\<close>

definition user_command ::
  "command_env \<Rightarrow> user \<Rightarrow> string \<Rightarrow> string list \<Rightarrow> application \<Rightarrow> application \<times> reply" where
  "user_command E u cmd args a =
     (if cmd = ''setcross'' then cmd_setcross E u args a
      else if cmd = ''setvol'' then cmd_setvol E u args a
      else if cmd = ''setupdates'' then cmd_setupdates E u args a
      else if cmd = ''setfundingtime'' then cmd_setfundingtime E u args a
      else if cmd = ''settimeframe'' then cmd_settimeframe E u args a
      else if cmd = ''signals'' then (a, Report (cmd_signals E a))
      else if cmd = ''help'' then (a, Report Help)
      else (a, Refused UnknownCommand))"

definition admin_command :: "command_env \<Rightarrow> string \<Rightarrow> string list \<Rightarrow> application \<Rightarrow> application \<times> reply" where
  "admin_command E cmd args a =
     (if cmd = ''sethardspread'' then cmd_sethardspread E args a
      else if cmd = ''setfees'' then cmd_setfees E args a
      else if cmd = ''stats'' then (a, Report (cmd_stats E a))
      else if cmd = ''addex'' then cmd_addex E args a
      else cmd_rmex E args a)"

definition handle_command ::
  "command_env \<Rightarrow> int \<Rightarrow> int \<Rightarrow> string \<Rightarrow> string \<Rightarrow> string list \<Rightarrow> application \<Rightarrow> application \<times> reply" where
  "handle_command E botid chat username cmd args a =
     (if \<not> ap_accepting a then (a, Refused Stopped)
      else if is_admin_cmd cmd \<and> \<not> is_admin chat a then (a, Refused AccessDenied)
      else if is_admin_cmd cmd then admin_command E cmd args a
      else if cmd = ''start'' then cmd_start E botid chat username (get_user (ap_users a) chat \<noteq> None) a
      else case get_user (ap_users a) chat of
        None \<Rightarrow> (a, Refused NotSubscribed)
      | Some u \<Rightarrow> if cmd = ''stop'' then cmd_stop E chat a else user_command E u cmd args a)"

section \<open>What each command can change\<close>

text \<open>Commands of a user: the user's own entry in memory and in the table, nothing else.\<close>

definition user_frame :: "int \<Rightarrow> application \<Rightarrow> application \<Rightarrow> bool" where
  "user_frame chat a a' \<longleftrightarrow> a' = a\<lparr>ap_users := ap_users a', ap_db := (ap_db a)\<lparr>db_users := db_users (ap_db a')\<rparr>\<rparr>
     \<and> (\<forall>c. c \<noteq> chat \<longrightarrow> get_user (ap_users a') c = get_user (ap_users a) c
          \<and> map_of (db_users (ap_db a')) c = map_of (db_users (ap_db a)) c)"

lemma user_frame_refl [simp]: "user_frame chat a a"
  by (simp add: user_frame_def)

text \<open>A change of memory is a change just stored.\<close>

definition written_through :: "command_env \<Rightarrow> int \<Rightarrow> application \<Rightarrow> application \<Rightarrow> bool" where
  "written_through E chat a a' \<longleftrightarrow>
     ap_users a' = ap_users a
     \<or> (\<exists>u. us_chat_id u = chat \<and> ap_users a' = set_user u (ap_users a)
          \<and> save_user (ce_dec E) (ce_pg E) (ce_out E) u (ap_db a) = (ap_db a', False))
     \<or> (ap_users a' = remove_user chat (ap_users a) \<and> delete_user (ce_out E) chat (ap_db a) = (ap_db a', False))"

lemma written_through_refl [simp]: "written_through E chat a a"
  by (simp add: written_through_def)

lemma save_user_frame:
  "save_user D P out u db = (db', err) \<Longrightarrow> db' = db\<lparr>db_users := db_users db'\<rparr>
     \<and> (\<forall>c. c \<noteq> us_chat_id u \<longrightarrow> map_of (db_users db') c = map_of (db_users db) c)"
  by (auto simp: save_user_def pg_exec_def map_of_mput split: option.splits db_outcome.splits)

lemma delete_user_frame:
  "delete_user out chat db = (db', err) \<Longrightarrow> db' = db\<lparr>db_users := db_users db'\<rparr>
     \<and> (\<forall>c. c \<noteq> chat \<longrightarrow> map_of (db_users db') c = map_of (db_users db) c)"
  by (auto simp: delete_user_def pg_exec_def map_of_mdel split: option.splits db_outcome.splits)

lemma save_settings_effect:
  assumes "us_chat_id u = chat"
  shows "user_frame chat a (fst (save_settings E u ok a)) \<and> written_through E chat a (fst (save_settings E u ok a))"
proof (cases "ap_user_repo a")
  case True
  obtain db err where st: "save_user (ce_dec E) (ce_pg E) (ce_out E) u (ap_db a) = (db, err)" by fastforce
  with True assms save_user_frame [OF st] show ?thesis
    by (cases err) (auto simp: save_settings_def persist_user_def user_frame_def written_through_def get_user_set)
qed (simp add: save_settings_def persist_user_def)

text \<open>A subscription stores the new user like any other change of settings.\<close>

definition fresh_user :: "int \<Rightarrow> int \<Rightarrow> string \<Rightarrow> application \<Rightarrow> user" where
  "fresh_user botid chat name a = \<lparr>us_chat_id = chat, us_username = name, us_min_spread = get_hard_min_spread (ap_config a),
     us_min_volume = 0, us_timeframe = TF_15m, us_min_funding_minutes = 30, us_update_step = 0, us_bot_id = botid\<rparr>"

lemma cmd_start_save:
  "fst (cmd_start E botid chat name sub a) = (if sub then a else fst (save_settings E (fresh_user botid chat name a) r a))"
  by (simp add: cmd_start_def save_settings_def fresh_user_def Let_def split: prod.split)

lemma cmd_start_effect:
  "user_frame chat a (fst (cmd_start E botid chat name sub a)) \<and> written_through E chat a (fst (cmd_start E botid chat name sub a))"
  using save_settings_effect [of "fresh_user botid chat name a" chat a E undefined]
  by (simp add: cmd_start_save [where r = undefined]) (simp add: fresh_user_def)

lemma cmd_stop_effect:
  "user_frame chat a (fst (cmd_stop E chat a)) \<and> written_through E chat a (fst (cmd_stop E chat a))"
proof (cases "ap_user_repo a")
  case True
  obtain db err where st: "delete_user (ce_out E) chat (ap_db a) = (db, err)" by fastforce
  with True delete_user_frame [OF st] show ?thesis
    by (cases err) (auto simp: cmd_stop_def remove_stored_user_def user_frame_def written_through_def get_user_remove)
qed (simp add: cmd_stop_def remove_stored_user_def)

lemma user_command_effect:
  assumes "us_chat_id u = chat"
  shows "user_frame chat a (fst (user_command E u cmd args a)) \<and> written_through E chat a (fst (user_command E u cmd args a))"
proof -
  have s: "user_frame chat a (fst (save_settings E u' ok a)) \<and> written_through E chat a (fst (save_settings E u' ok a))"
    if "us_chat_id u' = chat" for u' ok
    by (rule save_settings_effect [OF that])
  show ?thesis
    using assms unfolding user_command_def cmd_setcross_def cmd_setvol_def cmd_setupdates_def cmd_setfundingtime_def
      cmd_settimeframe_def Let_def
    by (simp add: s split: list.split option.split)
qed

text \<open>Commands of an administrator leave the users and their table alone.\<close>

lemma admin_command_effect:
  "ap_users (fst (admin_command E cmd args a)) = ap_users a
   \<and> db_users (ap_db (fst (admin_command E cmd args a))) = db_users (ap_db a)
   \<and> ap_admins (fst (admin_command E cmd args a)) = ap_admins a"
proof -
  have p: "ap_users (fst (persist_setting E k v b)) = ap_users b" "db_users (ap_db (fst (persist_setting E k v b))) = db_users (ap_db b)"
    "ap_admins (fst (persist_setting E k v b)) = ap_admins b" for k v b
    by (simp_all add: persist_setting_def set_setting_def split: prod.split)
  have "ap_users (fst (cmd_sethardspread E args a)) = ap_users a
    \<and> db_users (ap_db (fst (cmd_sethardspread E args a))) = db_users (ap_db a)
    \<and> ap_admins (fst (cmd_sethardspread E args a)) = ap_admins a"
    by (simp add: cmd_sethardspread_def Let_def case_prod_beta p set_app_funding_def split: list.split option.split sum.split)
  moreover have "ap_users (fst (cmd_setfees E args a)) = ap_users a
    \<and> db_users (ap_db (fst (cmd_setfees E args a))) = db_users (ap_db a)
    \<and> ap_admins (fst (cmd_setfees E args a)) = ap_admins a"
    by (simp add: cmd_setfees_def Let_def case_prod_beta p split: sum.split)
  moreover have "ap_users (fst (cmd_addex E args a)) = ap_users a \<and> ap_db (fst (cmd_addex E args a)) = ap_db a
    \<and> ap_admins (fst (cmd_addex E args a)) = ap_admins a"
    by (simp add: cmd_addex_def Let_def case_prod_beta split: list.split option.split)
  moreover have "ap_users (fst (cmd_rmex E args a)) = ap_users a \<and> ap_db (fst (cmd_rmex E args a)) = ap_db a
    \<and> ap_admins (fst (cmd_rmex E args a)) = ap_admins a"
    by (simp add: cmd_rmex_def Let_def case_prod_beta split: list.split)
  ultimately show ?thesis by (simp add: admin_command_def)
qed

lemma handle_command_cases:
  "(\<exists>r. handle_command E botid chat name cmd args a = (a, r))
   \<or> (is_admin chat a \<and> is_admin_cmd cmd \<and> handle_command E botid chat name cmd args a = admin_command E cmd args a)
   \<or> (\<exists>sub. handle_command E botid chat name cmd args a = cmd_start E botid chat name sub a)
   \<or> handle_command E botid chat name cmd args a = cmd_stop E chat a
   \<or> (\<exists>u. get_user (ap_users a) chat = Some u
        \<and> handle_command E botid chat name cmd args a = user_command E u cmd args a)"
proof (cases "ap_accepting a \<and> (is_admin_cmd cmd \<longrightarrow> is_admin chat a)")
  case False
  then have "\<exists>r. handle_command E botid chat name cmd args a = (a, r)" by (auto simp: handle_command_def)
  then show ?thesis by (rule disjI1)
next
  case True
  show ?thesis
  proof (cases "is_admin_cmd cmd \<or> cmd = ''start''")
    case True
    with \<open>ap_accepting a \<and> _\<close> show ?thesis by (cases "is_admin_cmd cmd") (auto simp: handle_command_def)
  next
    case False
    with True have h: "handle_command E botid chat name cmd args a = (case get_user (ap_users a) chat of
        None \<Rightarrow> (a, Refused NotSubscribed)
      | Some u \<Rightarrow> if cmd = ''stop'' then cmd_stop E chat a else user_command E u cmd args a)"
      by (simp add: handle_command_def)
    show ?thesis unfolding h by (cases "get_user (ap_users a) chat"; cases "cmd = ''stop''") simp_all
  qed
qed

section \<open>The invariant\<close>

text \<open>The minimum of the funding manager is the hard floor of the configuration.\<close>

definition funding_at_floor :: "screener_config \<Rightarrow> funding_manager \<Rightarrow> bool" where
  "funding_at_floor cfg fm \<longleftrightarrow> funding_ok fm
     \<and> (case fm_config fm of None \<Rightarrow> False | Some p \<Rightarrow> fc_min_spread p = get_hard_min_spread cfg)"

definition app_ok :: "application \<Rightarrow> bool" where
  "app_ok a \<longleftrightarrow> config_ok (ap_config a) \<and> users_ok (ap_users a) \<and> manager_ok (ap_conns a)
     \<and> (case cm_funding_sink (ap_conns a) of None \<Rightarrow> False | Some fm \<Rightarrow> funding_at_floor (ap_config a) fm)"

lemma app_ok_funding: "app_ok a \<Longrightarrow> cm_funding_sink (ap_conns a) = Some (app_funding a) \<and> funding_at_floor (ap_config a) (app_funding a)"
  by (auto simp: app_ok_def app_funding_def split: option.splits)

lemma funding_at_floor_health: "funding_at_floor cfg fm \<Longrightarrow> funding_at_floor cfg (set_stream_health ex h fm)"
  by (simp add: funding_at_floor_def funding_ok_health)

text \<open>Starting and stopping connectors keeps the funding manager and its configuration.\<close>

definition sink_kept :: "screener_config \<Rightarrow> connector_manager \<Rightarrow> bool" where
  "sink_kept cfg cm \<longleftrightarrow> (case cm_funding_sink cm of None \<Rightarrow> False | Some fm \<Rightarrow> funding_at_floor cfg fm)"

lemma sink_kept_same: "cm_funding_sink cm' = cm_funding_sink cm \<Longrightarrow> sink_kept cfg cm \<Longrightarrow> sink_kept cfg cm'"
  by (simp add: sink_kept_def)

lemma sink_kept_return: "sink_kept cfg cm \<Longrightarrow> sink_kept cfg (stream_return i st cm)"
  by (auto simp: sink_kept_def stream_return_def Let_def funding_at_floor_health split: option.splits)

lemma sink_kept_returns: "sink_kept cfg cm \<Longrightarrow> sink_kept cfg (streams_return i sts cm)"
  by (induction i sts cm rule: streams_return.induct) (simp_all add: sink_kept_return)

lemma report_at_floor:
  assumes "funding_at_floor cfg fm" and "stop_report x = Some y" shows "funding_at_floor cfg (funding_step y fm)"
proof -
  have "fm_config (funding_step y fm) = fm_config fm"
    using assms(2) by (cases x) (auto simp: update_funding_def set_stream_health_def Let_def split: option.splits sum.splits)
  with assms(1) show ?thesis by (simp add: funding_at_floor_def funding_step_ok)
qed

lemma sink_kept_stopping: "sink_kept cfg cm \<Longrightarrow> sink_kept cfg (fold (while_stopping i) xs cm)"
proof (induction xs arbitrary: cm)
  case (Cons x xs)
  have "sink_kept cfg (while_stopping i x cm)"
    using Cons.prems sink_kept_return report_at_floor [of cfg _ x]
    by (cases x) (auto simp: while_stopping_def report_to_sink_def sink_kept_def simp del: funding_step.simps split: option.splits)
  with Cons show ?case by simp
qed simp

lemma sink_kept_stop: "sink_kept cfg cm \<Longrightarrow> sink_kept cfg (fst (entry_stop wait i cm))"
  by (auto simp: entry_stop_cancel Let_def intro!: sink_kept_returns sink_kept_stopping intro: sink_kept_same [rotated])

lemma sink_kept_entry: "sink_kept cfg cm \<Longrightarrow> entry_stop wait i cm = (cm1, err) \<Longrightarrow> sink_kept cfg cm1"
  using sink_kept_stop [of cfg cm wait i] by simp

lemma sink_kept_add: "sink_kept cfg cm \<Longrightarrow> sink_kept cfg (fst (add_connector wait name conn cm))"
  by (auto simp: add_connector_def Let_def start_entry_def drop_entry_def dest: sink_kept_entry
      intro: sink_kept_same [rotated] split: option.split prod.split)

lemma sink_kept_remove: "sink_kept cfg cm \<Longrightarrow> sink_kept cfg (fst (remove_connector wait name cm))"
  by (auto simp: remove_connector_def Let_def drop_entry_def dest: sink_kept_entry
      intro: sink_kept_same [rotated] split: option.split prod.split)

lemma app_ok_sink: "app_ok a \<longleftrightarrow> config_ok (ap_config a) \<and> users_ok (ap_users a) \<and> manager_ok (ap_conns a)
    \<and> sink_kept (ap_config a) (ap_conns a)"
  by (simp add: app_ok_def sink_kept_def)

section \<open>Runs of commands\<close>

type_synonym command_input = "command_env \<times> int \<times> int \<times> string \<times> string \<times> string list"

definition command_step :: "command_input \<Rightarrow> application \<Rightarrow> application" where
  "command_step = (\<lambda>(E, botid, chat, name, cmd, args) a. fst (handle_command E botid chat name cmd args a))"

lemma user_frame_ok: "app_ok a \<Longrightarrow> user_frame chat a a' \<Longrightarrow> users_ok (ap_users a') \<Longrightarrow> app_ok a'"
  unfolding user_frame_def app_ok_sink by (erule conjE, erule ssubst) simp

lemma written_users_ok: "written_through E chat a a' \<Longrightarrow> users_ok (ap_users a) \<Longrightarrow> users_ok (ap_users a')"
  by (auto simp: written_through_def users_ok_set users_ok_remove)

lemma user_effect_ok: "app_ok a \<Longrightarrow> user_frame chat a a' \<and> written_through E chat a a' \<Longrightarrow> app_ok a'"
  using user_frame_ok written_users_ok by (blast intro: app_ok_def [THEN iffD1, THEN conjunct2, THEN conjunct1])

lemma persist_setting_ok: "app_ok (fst (persist_setting E k v a)) = app_ok a"
  by (simp add: persist_setting_def app_ok_sink split: prod.split)

lemma set_fees_ok:
  "config_ok cfg \<Longrightarrow> config_ok (fold (\<lambda>(k, v). set_fee k v) kvs cfg)
     \<and> sc_hard_min_spread (fold (\<lambda>(k, v). set_fee k v) kvs cfg) = sc_hard_min_spread cfg"
proof (induction kvs arbitrary: cfg)
  case (Cons kv kvs)
  obtain k v where kv: "kv = (k, v)" by fastforce
  have "config_ok (set_fee k v cfg)" by (rule config_ok_set_fee [OF Cons.prems])
  moreover have "sc_hard_min_spread (set_fee k v cfg) = sc_hard_min_spread cfg" by (simp add: set_fee_def Let_def)
  ultimately show ?case using Cons.IH by (simp add: kv)
qed simp

text \<open>Both copies of the floor are set together.\<close>

lemma update_config_floor:
  "update_config (default_funding_config\<lparr>fc_min_spread := v\<rparr>) fm = Inr fm' \<Longrightarrow>
   fm_config fm' = Some (default_funding_config\<lparr>fc_min_spread := v\<rparr>)"
  by (auto simp: update_config_def Let_def config_normalize_def default_funding_config_def nano_second_def
      split: option.splits)

lemma set_floor_ok:
  assumes "app_ok a" and "1 / 100 \<le> v"
    and "update_config (default_funding_config\<lparr>fc_min_spread := v\<rparr>) (app_funding a) = Inr fm"
  shows "app_ok ((set_app_funding fm a)\<lparr>ap_config := fst (set_hard_min_spread v (ap_config a))\<rparr>)
    \<and> get_hard_min_spread (fst (set_hard_min_spread v (ap_config a))) = v"
proof -
  have f: "funding_ok (app_funding a)" using app_ok_funding [OF assms(1)] by (simp add: funding_at_floor_def)
  have "funding_ok fm" using funding_step_ok [OF f, of "OpConfig (default_funding_config\<lparr>fc_min_spread := v\<rparr>)"] assms(3) by simp
  moreover have v: "get_hard_min_spread (fst (set_hard_min_spread v (ap_config a))) = v"
    using assms(2) by (simp add: get_hard_min_spread_def set_hard_min_spread_def hard_min_spread_def Let_def)
  moreover have "config_ok (fst (set_hard_min_spread v (ap_config a)))"
    using assms(1) config_ok_set_hard by (simp add: app_ok_def)
  moreover have "manager_ok (ap_conns a)" using assms(1) by (simp add: app_ok_def)
  then have "manager_ok ((ap_conns a)\<lparr>cm_funding_sink := Some fm\<rparr>)"
    by (rule manager_ok_shrinks) simp_all
  ultimately show ?thesis using assms(1) update_config_floor [OF assms(3)]
    by (simp add: app_ok_def set_app_funding_def funding_at_floor_def)
qed

lemma set_config_ok:
  assumes "app_ok a" and "config_ok cfg" and "sc_hard_min_spread cfg = sc_hard_min_spread (ap_config a)"
  shows "app_ok (a\<lparr>ap_config := cfg\<rparr>)"
  using assms by (auto simp: app_ok_def funding_at_floor_def get_hard_min_spread_def split: option.splits)

lemma admin_ok:
  assumes "app_ok a"
  shows "app_ok (fst (admin_command E cmd args a))"
proof -
  have sink: "sink_kept (ap_config a) (ap_conns a)" "manager_ok (ap_conns a)" using assms by (simp_all add: app_ok_sink)
  have "app_ok (fst (cmd_addex E args a))"
    using assms sink_kept_add [OF sink(1)] manager_ok_add [OF sink(2)]
    by (auto simp: cmd_addex_def Let_def case_prod_beta app_ok_sink split: list.split option.split)
  moreover have "app_ok (fst (cmd_rmex E args a))"
    using assms sink_kept_remove [OF sink(1)] manager_ok_remove [OF sink(2)]
    by (auto simp: cmd_rmex_def Let_def case_prod_beta app_ok_sink split: list.split option.split)
  moreover have "app_ok (fst (cmd_setfees E args a))"
  proof -
    have "app_ok (a\<lparr>ap_config := fold (\<lambda>(k, v). set_fee k v) kvs (ap_config a)\<rparr>)" for kvs
      using set_config_ok [OF assms] set_fees_ok assms by (simp add: app_ok_def)
    then show ?thesis using assms
      by (simp add: cmd_setfees_def Let_def case_prod_beta persist_setting_ok split: sum.split)
  qed
  moreover have "app_ok (fst (cmd_sethardspread E args a))"
  proof -
    have "app_ok ((set_app_funding fm a)\<lparr>ap_config := fst (set_hard_min_spread v (ap_config a))\<rparr>)"
      if "1 / 100 \<le> v" "update_config (default_funding_config\<lparr>fc_min_spread := v\<rparr>) (app_funding a) = Inr fm" for v fm
      using set_floor_ok [OF assms that] by simp
    then show ?thesis using assms
      by (simp add: cmd_sethardspread_def Let_def case_prod_beta persist_setting_ok split: list.split option.split sum.split)
  qed
  ultimately show ?thesis using assms by (simp add: admin_command_def)
qed

lemma command_step_ok: "app_ok a \<Longrightarrow> app_ok (command_step x a)"
proof -
  obtain E botid chat name cmd args where x: "x = (E, botid, chat, name, cmd, args)" by (cases x)
  assume ok: "app_ok a"
  then have u: "us_chat_id u = chat" if "get_user (ap_users a) chat = Some u" for u
    using get_user_chat that by (auto simp: app_ok_def)
  from handle_command_cases [of E botid chat name cmd args a] show ?thesis
  proof (elim disjE exE conjE)
    fix u assume "get_user (ap_users a) chat = Some u"
      "handle_command E botid chat name cmd args a = user_command E u cmd args a"
    then show ?thesis using user_effect_ok [OF ok user_command_effect [OF u]] by (simp add: command_step_def x)
  qed (use ok admin_ok user_effect_ok [OF ok cmd_start_effect] user_effect_ok [OF ok cmd_stop_effect]
       in \<open>simp_all add: command_step_def x\<close>)
qed

interpretation commands: machine command_step app_ok
  by unfold_locales (rule command_step_ok)

lemma app_ok_new: "new_application cfg ra db = Inr a \<Longrightarrow> (\<forall>c. cfg = Some c \<longrightarrow> config_ok c) \<Longrightarrow> app_ok a"
proof -
  assume n: "new_application cfg ra db = Inr a" and c: "\<forall>c. cfg = Some c \<longrightarrow> config_ok c"
  let ?cfg = "case cfg of None \<Rightarrow> new_screener_config (1 / 100) | Some c \<Rightarrow> c"
  let ?f = "default_funding_config\<lparr>fc_min_spread := get_hard_min_spread ?cfg\<rparr>"
  obtain fm where fm: "new_funding_manager ?f = Inr fm" using n by (auto simp: new_application_def Let_def split: sum.splits)
  have cfg: "config_ok ?cfg" using c config_ok_new by (simp split: option.split)
  have "fm_config fm = Some ?f"
    using fm by (auto simp: new_funding_manager_def Let_def config_normalize_def default_funding_config_def nano_second_def
        split: option.splits)
  then have "funding_at_floor ?cfg fm" using funding_ok_new [OF fm] by (simp add: funding_at_floor_def)
  moreover have "cm_funding_sink (new_connector_manager (Some fm) [ExtraCandleSink]) = Some fm"
    by (simp add: new_connector_manager_def)
  moreover have "a = a" ..
  ultimately show "app_ok a"
    using n fm cfg by (auto simp: new_application_def Let_def app_ok_sink sink_kept_def manager_ok_new users_ok_new)
qed

text \<open>What every setting of a user is kept within.\<close>

definition user_in_bounds :: "user \<Rightarrow> bool" where
  "user_in_bounds u \<longleftrightarrow> hard_min_spread \<le> us_min_spread u \<and> 0 \<le> us_min_volume u \<and> us_min_volume u \<le> 1000000000
     \<and> valid_timeframe (us_timeframe u) \<and> 0 \<le> us_min_funding_minutes u \<and> us_min_funding_minutes u \<le> 10080
     \<and> 0 \<le> us_update_step u"

definition all_in_bounds :: "user_manager \<Rightarrow> bool" where
  "all_in_bounds um \<longleftrightarrow> (\<forall>c u. get_user um c = Some u \<longrightarrow> user_in_bounds u)"

lemma in_bounds_set: "all_in_bounds um \<Longrightarrow> user_in_bounds u \<Longrightarrow> all_in_bounds (set_user u um)"
  by (auto simp: all_in_bounds_def get_user_set)

lemma in_bounds_remove: "all_in_bounds um \<Longrightarrow> all_in_bounds (remove_user c um)"
  by (auto simp: all_in_bounds_def get_user_remove)

lemma save_settings_users:
  "ap_users (fst (save_settings E u ok a)) = ap_users a \<or> ap_users (fst (save_settings E u ok a)) = set_user u (ap_users a)"
  by (auto simp: save_settings_def persist_user_def split: prod.split)

lemma save_settings_bounds:
  "all_in_bounds (ap_users a) \<Longrightarrow> user_in_bounds u \<Longrightarrow> all_in_bounds (ap_users (fst (save_settings E u ok a)))"
  using save_settings_users [of E u ok a] in_bounds_set by fastforce

lemma user_command_bounds:
  assumes "all_in_bounds (ap_users a)" and "config_ok (ap_config a)" and "div_ok (ce_dec E)" and "user_in_bounds u"
  shows "all_in_bounds (ap_users (fst (user_command E u cmd args a)))"
proof -
  have s: "all_in_bounds (ap_users (fst (save_settings E u' ok a)))" if "user_in_bounds u'" for u' ok
    by (rule save_settings_bounds [OF assms(1) that])
  have fl: "hard_min_spread \<le> get_hard_min_spread (ap_config a)" using assms(2) by (simp add: config_ok_def get_hard_min_spread_def)
  have u: "us_min_spread u \<ge> hard_min_spread" "0 \<le> us_min_volume u" "us_min_volume u \<le> 1000000000"
    "valid_timeframe (us_timeframe u)" "0 \<le> us_min_funding_minutes u" "us_min_funding_minutes u \<le> 10080"
    "0 \<le> us_update_step u" using assms(4) by (simp_all add: user_in_bounds_def)
  have d: "0 \<le> lib_div (ce_dec E) v 100" if "\<not> v < 0" for v
    using div_ok_nonneg [OF assms(3), of v 100] that by simp
  have "all_in_bounds (ap_users (fst (cmd_setcross E u args a)))"
    using assms(1) fl u unfolding cmd_setcross_def Let_def
    by (simp add: s user_in_bounds_def split: list.split option.split)
  moreover have "all_in_bounds (ap_users (fst (cmd_setvol E u args a)))"
    using assms(1) u unfolding cmd_setvol_def by (simp add: s user_in_bounds_def split: list.split option.split)
  moreover have "all_in_bounds (ap_users (fst (cmd_setupdates E u args a)))"
    using assms(1) u d unfolding cmd_setupdates_def Let_def by (simp add: s user_in_bounds_def split: list.split option.split)
  moreover have "all_in_bounds (ap_users (fst (cmd_setfundingtime E u args a)))"
    using assms(1) u unfolding cmd_setfundingtime_def by (simp add: s user_in_bounds_def split: list.split option.split)
  moreover have "all_in_bounds (ap_users (fst (cmd_settimeframe E u args a)))"
    using assms(1) u unfolding cmd_settimeframe_def Let_def by (simp add: s user_in_bounds_def split: list.split)
  ultimately show ?thesis using assms(1) by (simp add: user_command_def)
qed

lemma start_bounds:
  assumes "all_in_bounds (ap_users a)" and "config_ok (ap_config a)"
  shows "all_in_bounds (ap_users (fst (cmd_start E botid chat name sub a)))"
proof -
  have "user_in_bounds (fresh_user botid chat name a)" using assms(2)
    by (simp add: user_in_bounds_def fresh_user_def config_ok_def get_hard_min_spread_def valid_timeframe_def)
  then show ?thesis using assms(1) save_settings_bounds [OF assms(1)]
    by (simp add: cmd_start_save [where r = undefined])
qed

lemma command_bounds:
  assumes "app_ok a" and "all_in_bounds (ap_users a)" and "div_ok (ce_dec E)"
  shows "all_in_bounds (ap_users (fst (handle_command E botid chat name cmd args a)))"
proof -
  have cfg: "config_ok (ap_config a)" using assms(1) by (simp add: app_ok_def)
  from handle_command_cases [of E botid chat name cmd args a] show ?thesis
  proof (elim disjE exE conjE)
    fix u assume "get_user (ap_users a) chat = Some u"
      "handle_command E botid chat name cmd args a = user_command E u cmd args a"
    moreover from this(1) have "user_in_bounds u" using assms(2) by (simp add: all_in_bounds_def)
    ultimately show ?thesis using user_command_bounds [OF assms(2) cfg assms(3)] by simp
  next
    assume "handle_command E botid chat name cmd args a = cmd_stop E chat a"
    then show ?thesis using assms(2) in_bounds_remove
      by (auto simp: cmd_stop_def remove_stored_user_def split: prod.split)
  qed (use assms(2) start_bounds [OF assms(2) cfg] admin_command_effect in simp_all)
qed

text \<open>Memory and table agree on whether a chat is subscribed.\<close>

definition same_chat :: "int \<Rightarrow> application \<Rightarrow> bool" where
  "same_chat c a \<longleftrightarrow> (get_user (ap_users a) c = None) = (map_of (db_users (ap_db a)) c = None)"

lemma save_failed_same:
  "save_user D P out u db = (db', True) \<Longrightarrow> out \<noteq> DbLost \<Longrightarrow> db' = db"
  by (auto simp: save_user_def pg_exec_def split: option.splits db_outcome.splits)

lemma save_done_chat:
  "save_user D P out u db = (db', False) \<Longrightarrow> map_of (db_users db') (us_chat_id u) \<noteq> None"
  by (auto simp: save_user_def pg_exec_def map_of_mput split: option.splits db_outcome.splits)

lemma delete_failed_same: "delete_user out c db = (db', True) \<Longrightarrow> out \<noteq> DbLost \<Longrightarrow> db' = db"
  by (auto simp: delete_user_def pg_exec_def split: db_outcome.splits)

lemma delete_done_chat: "delete_user out c db = (db', False) \<Longrightarrow> map_of (db_users db') c = None"
  by (auto simp: delete_user_def pg_exec_def map_of_mdel split: db_outcome.splits)

lemma save_settings_chats:
  assumes "same_chat c a" and "ce_out E \<noteq> DbLost"
  shows "same_chat c (fst (save_settings E u ok a))"
proof (cases "ap_user_repo a")
  case True
  obtain db err where st: "save_user (ce_dec E) (ce_pg E) (ce_out E) u (ap_db a) = (db, err)" by fastforce
  show ?thesis
  proof (cases err)
    case True
    with st have "db = ap_db a" using save_failed_same assms(2) by simp
    with True st assms(1) \<open>ap_user_repo a\<close> show ?thesis by (simp add: save_settings_def persist_user_def same_chat_def)
  next
    case False
    with st have "save_user (ce_dec E) (ce_pg E) (ce_out E) u (ap_db a) = (db, False)" by simp
    note f = save_done_chat [OF this] save_user_frame [OF this]
    have "(get_user (set_user u (ap_users a)) c = None) = (map_of (db_users db) c = None)"
      using f assms(1) by (cases "c = us_chat_id u") (simp_all add: get_user_set same_chat_def)
    with False st \<open>ap_user_repo a\<close> show ?thesis by (simp add: save_settings_def persist_user_def same_chat_def)
  qed
qed (use assms in \<open>simp add: save_settings_def persist_user_def\<close>)

lemma stop_chats:
  assumes "same_chat c a" and "ce_out E \<noteq> DbLost"
  shows "same_chat c (fst (cmd_stop E chat a))"
proof (cases "ap_user_repo a")
  case True
  obtain db err where st: "delete_user (ce_out E) chat (ap_db a) = (db, err)" by fastforce
  show ?thesis
  proof (cases err)
    case True
    with st have "db = ap_db a" using delete_failed_same assms(2) by simp
    with True st assms(1) \<open>ap_user_repo a\<close> show ?thesis by (simp add: cmd_stop_def remove_stored_user_def same_chat_def)
  next
    case False
    with st have "delete_user (ce_out E) chat (ap_db a) = (db, False)" by simp
    note f = delete_done_chat [OF this] delete_user_frame [OF this]
    have "(get_user (remove_user chat (ap_users a)) c = None) = (map_of (db_users db) c = None)"
      using f assms(1) by (cases "c = chat") (simp_all add: get_user_remove same_chat_def)
    with False st \<open>ap_user_repo a\<close> show ?thesis by (simp add: cmd_stop_def remove_stored_user_def same_chat_def)
  qed
qed (use assms in \<open>simp add: cmd_stop_def remove_stored_user_def\<close>)

lemma user_command_chats:
  assumes "same_chat c a" and "ce_out E \<noteq> DbLost"
  shows "same_chat c (fst (user_command E u cmd args a))"
  using assms(1) save_settings_chats [OF assms] unfolding user_command_def cmd_setcross_def cmd_setvol_def
    cmd_setupdates_def cmd_setfundingtime_def cmd_settimeframe_def Let_def
  by (simp split: list.split option.split)

lemma command_chats:
  assumes "same_chat c a" and "ce_out E \<noteq> DbLost"
  shows "same_chat c (fst (handle_command E botid chat name cmd args a))"
proof -
  have start: "same_chat c (fst (cmd_start E botid chat name sub a))" for sub
    using assms(1) save_settings_chats [OF assms] by (simp add: cmd_start_save [where r = undefined])
  have admin: "same_chat c (fst (admin_command E cmd args a))"
    using admin_command_effect [of E cmd args a] assms(1) by (simp add: same_chat_def)
  from handle_command_cases [of E botid chat name cmd args a] show ?thesis
    by (elim disjE exE conjE) (simp_all add: assms(1) admin start stop_chats [OF assms] user_command_chats [OF assms])
qed

text \<open>A command of another chat touches neither.\<close>

lemma other_chats_kept:
  assumes "app_ok a" and "c \<noteq> chat"
  shows "get_user (ap_users (fst (handle_command E botid chat name cmd args a))) c = get_user (ap_users a) c
    \<and> map_of (db_users (ap_db (fst (handle_command E botid chat name cmd args a)))) c = map_of (db_users (ap_db a)) c"
proof -
  have user: "us_chat_id u = chat" if "get_user (ap_users a) chat = Some u" for u
    using get_user_chat that assms(1) by (auto simp: app_ok_def)
  have frame: "get_user (ap_users a') c = get_user (ap_users a) c \<and> map_of (db_users (ap_db a')) c = map_of (db_users (ap_db a)) c"
    if "user_frame chat a a'" for a'
    using that assms(2) unfolding user_frame_def by blast
  from handle_command_cases [of E botid chat name cmd args a] show ?thesis
  proof (elim disjE exE conjE)
    fix u assume "get_user (ap_users a) chat = Some u"
      and h: "handle_command E botid chat name cmd args a = user_command E u cmd args a"
    then show ?thesis unfolding h by (intro frame conjunct1 [OF user_command_effect] user)
  next
    fix sub assume h: "handle_command E botid chat name cmd args a = cmd_start E botid chat name sub a"
    show ?thesis unfolding h by (intro frame conjunct1 [OF cmd_start_effect])
  next
    assume "handle_command E botid chat name cmd args a = admin_command E cmd args a"
    then show ?thesis using admin_command_effect [of E cmd args a] by simp
  next
    assume h: "handle_command E botid chat name cmd args a = cmd_stop E chat a"
    show ?thesis unfolding h by (intro frame conjunct1 [OF cmd_stop_effect])
  qed simp
qed

section \<open>Properties\<close>

text \<open>
  C10. Who may change what: a command never touches a user other than the one who sends it, in
  memory or in the table; the configuration, the connectors, the operator settings and the
  stored signals change only when the sender is an administrator; and the list of
  administrators never changes.
\<close>

theorem command_authority:
  assumes "app_ok a" and "handle_command E botid chat name cmd args a = (a', r)"
  shows "(\<forall>c. c \<noteq> chat \<longrightarrow> get_user (ap_users a') c = get_user (ap_users a) c
            \<and> map_of (db_users (ap_db a')) c = map_of (db_users (ap_db a)) c)
    \<and> ap_admins a' = ap_admins a
    \<and> (is_admin chat a \<or> (ap_config a' = ap_config a \<and> ap_conns a' = ap_conns a
          \<and> db_settings (ap_db a') = db_settings (ap_db a) \<and> db_signals (ap_db a') = db_signals (ap_db a)))"
proof -
  have a': "a' = fst (handle_command E botid chat name cmd args a)" using assms(2) by simp
  have user: "us_chat_id u = chat" if "get_user (ap_users a) chat = Some u" for u
    using get_user_chat that assms(1) by (auto simp: app_ok_def)
  have frame: ?thesis if "user_frame chat a a'"
  proof -
    have f: "a' = a\<lparr>ap_users := ap_users a', ap_db := (ap_db a)\<lparr>db_users := db_users (ap_db a')\<rparr>\<rparr>"
      using that by (simp add: user_frame_def)
    have "ap_admins a' = ap_admins a" "ap_config a' = ap_config a" "ap_conns a' = ap_conns a"
      "ap_db a' = (ap_db a)\<lparr>db_users := db_users (ap_db a')\<rparr>" by (subst f, simp)+
    moreover from this(4) have "db_settings (ap_db a') = db_settings (ap_db a)" "db_signals (ap_db a') = db_signals (ap_db a)"
      by (metis database.select_convs(2,3) database.surjective database.update_convs(1))+
    ultimately show ?thesis using that by (simp add: user_frame_def)
  qed
  from handle_command_cases [of E botid chat name cmd args a] show ?thesis
  proof (elim disjE exE conjE)
    fix u assume "get_user (ap_users a) chat = Some u"
      "handle_command E botid chat name cmd args a = user_command E u cmd args a"
    then show ?thesis using frame user_command_effect [OF user] a' by simp
  next
    fix sub assume "handle_command E botid chat name cmd args a = cmd_start E botid chat name sub a"
    then show ?thesis using frame cmd_start_effect a' by simp
  next
    assume "is_admin chat a" "handle_command E botid chat name cmd args a = admin_command E cmd args a"
    then show ?thesis using admin_command_effect [of E cmd args a] a' by simp
  next
    assume "handle_command E botid chat name cmd args a = cmd_stop E chat a"
    then show ?thesis using frame cmd_stop_effect a' by simp
  qed (simp add: a')
qed

text \<open>
  Users are written through: a command changes the users in memory only by the user it has
  just stored, or by the removal it has just stored, and only when the repository reported
  success.
\<close>

theorem users_written_through:
  assumes "app_ok a" and "handle_command E botid chat name cmd args a = (a', r)" and "ap_users a' \<noteq> ap_users a"
  shows "(\<exists>u. us_chat_id u = chat \<and> ap_users a' = set_user u (ap_users a)
          \<and> save_user (ce_dec E) (ce_pg E) (ce_out E) u (ap_db a) = (ap_db a', False))
    \<or> (ap_users a' = remove_user chat (ap_users a) \<and> delete_user (ce_out E) chat (ap_db a) = (ap_db a', False))"
proof -
  have a': "a' = fst (handle_command E botid chat name cmd args a)" using assms(2) by simp
  have user: "us_chat_id u = chat" if "get_user (ap_users a) chat = Some u" for u
    using get_user_chat that assms(1) by (auto simp: app_ok_def)
  from handle_command_cases [of E botid chat name cmd args a] have "written_through E chat a a'"
  proof (elim disjE exE conjE)
    assume "handle_command E botid chat name cmd args a = admin_command E cmd args a"
    then show ?thesis using admin_command_effect [of E cmd args a] by (simp add: a' written_through_def)
  qed (simp_all add: a' cmd_start_effect cmd_stop_effect user_command_effect user)
  then show ?thesis using assms(3) by (simp add: written_through_def)
qed

text \<open>
  C25. Memory and table agree on who is subscribed, chat by chat: if they agree on a chat to begin
  with, they agree on it after any sequence of commands of any chats, provided that no command
  of that chat meets a lost answer, a database error reported for a write that was applied.
  What happens to the database calls of other chats does not matter.
\<close>

theorem subscribers_match_table:
  assumes "app_ok a" and "(get_user (ap_users a) c = None) = (map_of (db_users (ap_db a)) c = None)"
    and "\<forall>(E, botid, chat, name, cmd, args)\<in>set cmds. chat = c \<longrightarrow> ce_out E \<noteq> DbLost"
  shows "(get_user (ap_users (fold command_step cmds a)) c = None)
    = (map_of (db_users (ap_db (fold command_step cmds a))) c = None)"
proof -
  have "same_chat c (fold command_step cmds a)"
    using assms(1,3) assms(2) [folded same_chat_def]
  proof (induction cmds arbitrary: a)
    case (Cons x cmds)
    obtain E botid chat name cmd args where x: "x = (E, botid, chat, name, cmd, args)" by (cases x)
    have "same_chat c (command_step x a)"
    proof (cases "chat = c")
      case True
      then have "ce_out E \<noteq> DbLost" using Cons.prems(2) x by simp
      then show ?thesis unfolding x command_step_def prod.case by (rule command_chats [OF Cons.prems(3)])
    next
      case False
      then show ?thesis using Cons.prems(3) other_chats_kept [OF Cons.prems(1), of c chat E botid name cmd args]
        by (simp add: x command_step_def same_chat_def)
    qed
    with Cons.IH [OF command_step_ok [OF Cons.prems(1)]] Cons.prems(2) show ?case by simp
  qed simp
  then show ?thesis by (simp add: same_chat_def)
qed

text \<open>
  The proviso is needed: when the answer to the insert of a new user is lost, the chat is told that it
  is not subscribed and is not in memory, but it has a row, which the next start loads.
\<close>

theorem lost_answer_subscribes:
  assumes "ap_user_repo a" and "get_user (ap_users a) chat = None" and "ce_out E = DbLost"
    and "fits_columns (ce_dec E) (ce_pg E) (fresh_user botid chat name a)"
  shows "\<exists>a'. cmd_start E botid chat name False a = (a', Failed SubscribeNotSaved)
    \<and> get_user (ap_users a') chat = None \<and> map_of (db_users (ap_db a')) chat \<noteq> None"
proof -
  obtain r where "user_row_of (ce_dec E) (ce_pg E) (fresh_user botid chat name a) = Some r"
    using fits_columns_row [OF assms(4)] by blast
  with assms(1-3) show ?thesis
    by (simp add: cmd_start_def persist_user_def save_user_def pg_exec_def fresh_user_def map_of_mput)
qed

text \<open>
  C24. Settings stay in their ranges: whatever arguments users send, every subscribed user has a
  minimum spread of at least one per cent, a volume between 0 and 10^9, a timeframe of the
  list, a funding distance of 0 to 10080 minutes and a step that is not negative.
\<close>

theorem settings_in_bounds:
  assumes "app_ok a" and "all_in_bounds (ap_users a)"
    and "\<forall>(E, botid, chat, name, cmd, args)\<in>set cmds. div_ok (ce_dec E)"
    and "get_user (ap_users (fold command_step cmds a)) c = Some u"
  shows "1 / 100 \<le> us_min_spread u \<and> 0 \<le> us_min_volume u \<and> us_min_volume u \<le> 10 ^ 9
    \<and> us_timeframe u \<in> {TF_1m, TF_5m, TF_15m, TF_30m, TF_1h, TF_4h, TF_24h}
    \<and> 0 \<le> us_min_funding_minutes u \<and> us_min_funding_minutes u \<le> 10080 \<and> 0 \<le> us_update_step u"
proof -
  have "all_in_bounds (ap_users (fold command_step cmds a))"
    using assms(1-3)
  proof (induction cmds arbitrary: a)
    case (Cons x cmds)
    obtain E botid chat name cmd args where x: "x = (E, botid, chat, name, cmd, args)" by (cases x)
    have "all_in_bounds (ap_users (command_step x a))"
      unfolding x command_step_def prod.case by (rule command_bounds [OF Cons.prems(1,2)]) (use Cons.prems(3) x in auto)
    with Cons.IH [OF command_step_ok [OF Cons.prems(1)]] Cons.prems(3) show ?case by simp
  qed simp
  with assms(4) show ?thesis by (auto simp: all_in_bounds_def user_in_bounds_def hard_min_spread_def valid_timeframe_def)
qed

section \<open>Witnesses\<close>

definition sample_command_env :: command_env where
  "sample_command_env = \<lparr>ce_dec = sample_lib, ce_pg = sample_pg, ce_out = DbOk, ce_now = 6, ce_fee_order = id,
     ce_row_order = id, ce_signal_order = id, ce_stop_wait = (True, [])\<rparr>"

definition member :: user where
  "member = \<lparr>us_chat_id = 7, us_username = ''u'', us_min_spread = 2 / 100, us_min_volume = 500,
     us_timeframe = TF_24h, us_min_funding_minutes = 0, us_update_step = 1 / 100, us_bot_id = 0\<rparr>"

definition sample_app :: application where
  "sample_app = \<lparr>ap_conns = new_connector_manager (Some sample_funding) [], ap_aggregator = empty_aggregator,
     ap_tracker = new_tracker None None, ap_tracker_chan = [], ap_volume = new_volume_engine,
     ap_config = new_screener_config (1 / 100), ap_admins = [1], ap_users = [(7, member)],
     ap_db = empty_database\<lparr>db_users := [(7, the (user_row_of sample_lib sample_pg member))]\<rparr>,
     ap_user_repo = True, ap_settings_repo = True, ap_stats_repo = True, ap_signals_repo = True,
     ap_factory = None, ap_telegram = None, ap_started = True, ap_accepting = True\<rparr>"

lemma sample_app_ok: "app_ok sample_app"
proof -
  have c: "config_ok (new_screener_config (1 / 100))" by (rule config_ok_new)
  have "funding_at_floor (new_screener_config (1 / 100)) sample_funding"
    using sample_funding_ok by (simp add: funding_at_floor_def sample_funding_def get_hard_min_spread_def
        new_screener_config_def hard_min_spread_def)
  moreover have "users_ok [(7, member)]" by (simp add: users_ok_def member_def)
  moreover have "cm_funding_sink (new_connector_manager (Some sample_funding) []) = Some sample_funding"
    by (simp add: new_connector_manager_def)
  ultimately show ?thesis using c by (simp add: app_ok_sink sample_app_def sink_kept_def manager_ok_new)
qed

lemma sample_app_bounds: "all_in_bounds (ap_users sample_app)"
  by (simp add: all_in_bounds_def sample_app_def get_user_def user_in_bounds_def member_def hard_min_spread_def
      valid_timeframe_def)

abbreviation sample_command :: command_input where
  "sample_command \<equiv> (sample_command_env, 0, 7, ''u'', ''setfundingtime'', [''45''])"

lemma sample_command_reply:
  "\<exists>a'. handle_command sample_command_env 0 7 ''u'' ''setfundingtime'' [''45''] sample_app = (a', Ok (FundingTimeSet 45))
     \<and> get_user (ap_users a') 7 = Some (member\<lparr>us_min_funding_minutes := 45\<rparr>)"
proof -
  have "atoi ''45'' = Some 45" by (simp add: atoi_def digit_value_def Let_def)
  moreover have "user_row_of sample_lib sample_pg (member\<lparr>us_min_funding_minutes := 45\<rparr>) \<noteq> None"
    by (simp add: user_row_of_def sample_pg_def member_def pg_varchar_def pg_integer_def TF_24h_def)
  ultimately show ?thesis
    by (auto simp: handle_command_def is_admin_cmd_def sample_app_def get_user_def user_command_def cmd_setfundingtime_def
        save_settings_def persist_user_def save_user_def pg_exec_def sample_command_env_def set_user_def member_def)
qed

theorem command_authority_witness:
  "\<exists>a'. handle_command sample_command_env 0 7 ''u'' ''setfundingtime'' [''45''] sample_app = (a', Ok (FundingTimeSet 45))
     \<and> ap_config a' = ap_config sample_app"
proof -
  have "\<not> is_admin 7 sample_app" by (simp add: is_admin_def sample_app_def)
  then show ?thesis using sample_command_reply command_authority [OF sample_app_ok] by blast
qed

theorem users_written_through_witness:
  "\<exists>a' u. handle_command sample_command_env 0 7 ''u'' ''setfundingtime'' [''45''] sample_app = (a', Ok (FundingTimeSet 45))
     \<and> save_user sample_lib sample_pg DbOk u (ap_db sample_app) = (ap_db a', False)"
proof -
  obtain a' where h: "handle_command sample_command_env 0 7 ''u'' ''setfundingtime'' [''45''] sample_app = (a', Ok (FundingTimeSet 45))"
    "get_user (ap_users a') 7 = Some (member\<lparr>us_min_funding_minutes := 45\<rparr>)" using sample_command_reply by blast
  have "get_user (ap_users sample_app) 7 = Some member" by (simp add: sample_app_def get_user_def)
  moreover have "member\<lparr>us_min_funding_minutes := 45\<rparr> \<noteq> member"
    by (metis user.select_convs(6) user.update_convs(6) member_def zero_neq_numeral)
  ultimately have ne: "ap_users a' \<noteq> ap_users sample_app" using h(2) by auto
  have "get_user (remove_user 7 (ap_users sample_app)) 7 = None" by (simp add: get_user_remove)
  then have "ap_users a' \<noteq> remove_user 7 (ap_users sample_app)" using h(2) by auto
  with users_written_through [OF sample_app_ok h(1) ne] h(1) show ?thesis by (auto simp: sample_command_env_def)
qed

theorem subscribers_match_table_witness:
  "map_of (db_users (ap_db (fold command_step [sample_command, (sample_command_env\<lparr>ce_out := DbLost\<rparr>, 0, 8, ''v'', ''start'', [])]
     sample_app))) 7 \<noteq> None"
proof -
  let ?lost = "(sample_command_env\<lparr>ce_out := DbLost\<rparr>, 0, 8, ''v'', ''start'', []) :: command_input"
  have same: "(get_user (ap_users sample_app) 7 = None) = (map_of (db_users (ap_db sample_app)) 7 = None)"
    by (simp add: sample_app_def get_user_def)
  have there: "get_user (ap_users (fold command_step [sample_command, ?lost] sample_app)) 7 \<noteq> None"
    using sample_command_reply other_chats_kept [OF command_step_ok [OF sample_app_ok, of sample_command], of 7 8]
    by (auto simp: command_step_def)
  have "\<forall>(E, botid, chat, name, cmd, args)\<in>set [sample_command, ?lost]. chat = 7 \<longrightarrow> ce_out E \<noteq> DbLost"
    by (simp add: sample_command_env_def)
  from subscribers_match_table [OF sample_app_ok same this] there show ?thesis by argo
qed

theorem settings_in_bounds_witness:
  "\<exists>u. get_user (ap_users (fold command_step [sample_command] sample_app)) 7 = Some u \<and> us_min_funding_minutes u \<le> 10080"
proof -
  obtain u where u: "get_user (ap_users (fold command_step [sample_command] sample_app)) 7 = Some u"
    using sample_command_reply by (auto simp: command_step_def)
  from settings_in_bounds [OF sample_app_ok sample_app_bounds _ u] u show ?thesis
    by (simp add: sample_command_env_def sample_div_ok)
qed

end
