(* ===== verification/Startup.thy ===== *)
theory Startup
  imports Commands
begin

text \<open>
  internal/app/app.go, \<open>Run\<close> up to the moment commands are accepted: closing the signals a
  crash left open, restoring the operator settings and the users, starting the connectors.
  Also what the metrics server asks of the application: forwarding alerts and the status page.
\<close>

section \<open>Start\<close>

record start_env =
  se_dec :: dec_lib
  se_row_order :: "(int \<times> user_row) list \<Rightarrow> (int \<times> user_row) list"
  se_now :: gtime
  se_reconciles :: bool
  se_reconcile :: db_outcome
  se_floor_read :: db_outcome
  se_fees_read :: db_outcome
  se_users_read :: db_outcome
  se_stop_wait :: stop_wait

definition load_hard_spread :: "start_env \<Rightarrow> application \<Rightarrow> application" where
  "load_hard_spread S a =
     (case get_setting (se_floor_read S) settingsKeyHardSpread (ap_db a) of
        Inr (Some v) \<Rightarrow>
          (case lib_parse (se_dec S) v of
             None \<Rightarrow> a
           | Some d \<Rightarrow>
               if \<not> d < 1 / 100
               then (case update_config (default_funding_config\<lparr>fc_min_spread := d\<rparr>) (app_funding a) of
                       Inl _ \<Rightarrow> a
                     | Inr fm \<Rightarrow> (set_app_funding fm a)\<lparr>ap_config := fst (set_hard_min_spread d (ap_config a))\<rparr>)
               else a)
      | _ \<Rightarrow> a)"

definition load_fees :: "start_env \<Rightarrow> application \<Rightarrow> application" where
  "load_fees S a =
     (case get_setting (se_fees_read S) settingsKeyFees (ap_db a) of
        Inr (Some v) \<Rightarrow>
          (case apply_fees (se_dec S) v (ap_config a) of Inl _ \<Rightarrow> a | Inr cfg \<Rightarrow> a\<lparr>ap_config := cfg\<rparr>)
      | _ \<Rightarrow> a)"

definition load_operator_settings :: "start_env \<Rightarrow> application \<Rightarrow> application" where
  "load_operator_settings S a = (if \<not> ap_settings_repo a then a else load_fees S (load_hard_spread S a))"

definition sanitize_user :: "screener_config \<Rightarrow> user \<Rightarrow> user" where
  "sanitize_user cfg u0 =
     (let u1 = (if us_min_spread u0 < get_hard_min_spread cfg then u0\<lparr>us_min_spread := get_hard_min_spread cfg\<rparr> else u0);
          u2 = (if us_min_volume u1 < 0 then u1\<lparr>us_min_volume := 0\<rparr> else u1);
          u3 = (if us_min_funding_minutes u2 < 0 then u2\<lparr>us_min_funding_minutes := 0\<rparr> else u2);
          u4 = (if us_update_step u3 < 0 then u3\<lparr>us_update_step := 0\<rparr> else u3)
      in if \<not> valid_timeframe (us_timeframe u4) then u4\<lparr>us_timeframe := TF_15m\<rparr> else u4)"

definition load_users :: "start_env \<Rightarrow> application \<Rightarrow> application option" where
  "load_users S a =
     (if \<not> ap_user_repo a then None
      else case load_all_users (se_dec S) (se_row_order S) (se_users_read S) (ap_db a) of
        Inl _ \<Rightarrow> None
      | Inr us \<Rightarrow> Some (a\<lparr>ap_users := fold (\<lambda>u. set_user (sanitize_user (ap_config a) u)) us (ap_users a)\<rparr>))"

datatype run_error = AlreadyStarted | NoRepository | ReconcileFailed | UsersNotLoaded | NotProvided string
  | ConnectorNotStarted string connector_error

fun start_connectors ::
  "stop_wait \<Rightarrow> (string \<Rightarrow> connector option) \<Rightarrow> string list \<Rightarrow> connector_manager \<Rightarrow> connector_manager \<times> run_error option" where
  "start_connectors wait factory [] cm = (cm, None)"
| "start_connectors wait factory (name # names) cm =
     (case factory name of
        None \<Rightarrow> (cm, Some (NotProvided name))
      | Some conn \<Rightarrow>
          (case add_connector wait name (Some conn) cm of (cm1, err) \<Rightarrow>
             case err of
               Some e \<Rightarrow> (cm1, Some (ConnectorNotStarted name e))
             | None \<Rightarrow> start_connectors wait factory names cm1))"

text \<open>\<open>defer a.router.Close()\<close>.\<close>

definition close_app_router :: "application \<Rightarrow> application" where
  "close_app_router a =
     a\<lparr>ap_tracker := (ap_tracker a)\<lparr>tk_router := map_option close_router (tk_router (ap_tracker a))\<rparr>\<rparr>"

text \<open>\<open>Run\<close> gets a repository once more and takes its abilities when it has them; the \<open>started\<close>
  flag is given back on the first three errors only. A connector that cannot be started ends
  \<open>Run\<close> after \<open>cleanup\<close>, which is the shutdown of the running system.\<close>

definition take_abilities :: "repo_abilities \<Rightarrow> application \<Rightarrow> application" where
  "take_abilities ra a =
     a\<lparr>ap_settings_repo := ra_settings ra \<or> ap_settings_repo a, ap_stats_repo := ra_stats ra \<or> ap_stats_repo a\<rparr>"

definition run_start :: "start_env \<Rightarrow> repo_abilities option \<Rightarrow> application \<Rightarrow> application \<times> run_error option" where
  "run_start S repo a0 =
     (if ap_started a0 then (a0, Some AlreadyStarted)
      else case repo of
        None \<Rightarrow> (a0, Some NoRepository)
      | Some ra \<Rightarrow>
          (case (if se_reconciles S then reconcile_active_signals (se_reconcile S) (se_now S) (ap_db a0) else (ap_db a0, False))
           of (db, err) \<Rightarrow>
             if err then (a0\<lparr>ap_db := db\<rparr>, Some ReconcileFailed)
             else let a = load_operator_settings S (take_abilities ra (a0\<lparr>ap_db := db, ap_started := True\<rparr>)) in
               case load_users S a of
                 None \<Rightarrow> (close_app_router a, Some UsersNotLoaded)
               | Some a1 \<Rightarrow>
                   (case ap_factory a1 of
                      None \<Rightarrow> (a1\<lparr>ap_accepting := True\<rparr>, None)
                    | Some factory \<Rightarrow>
                        (case start_connectors (se_stop_wait S) factory SupportedExchanges (ap_conns a1) of (cm, e) \<Rightarrow>
                           case e of
                             Some e \<Rightarrow> (a1\<lparr>ap_conns := cm\<rparr>, Some e)
                           | None \<Rightarrow> (a1\<lparr>ap_conns := cm, ap_accepting := True\<rparr>, None)))))"

section \<open>Alerts and status\<close>

record alert_message =
  am_status :: string
  am_labels :: "(string, string) gomap"
  am_annotations :: "(string, string) gomap"

text \<open>Reading a key a Go map does not hold gives the empty string.\<close>

definition label :: "string \<Rightarrow> (string, string) gomap \<Rightarrow> string" where
  "label k m = (case map_of m k of None \<Rightarrow> [] | Some v \<Rightarrow> v)"

record alert_line =
  al_resolved :: bool
  al_name :: string
  al_status :: string
  al_summary :: "string option"
  al_description :: "string option"

definition alert_line_of :: "alert_message \<Rightarrow> alert_line" where
  "alert_line_of m =
     (let name = label ''alertname'' (am_labels m);
          summary = label ''summary'' (am_annotations m);
          descr = label ''description'' (am_annotations m)
      in \<lparr>al_resolved = (am_status m = ''resolved''), al_name = (if name = [] then ''ALERT'' else name),
          al_status = am_status m, al_summary = (if summary \<noteq> [] then Some summary else None),
          al_description = (if descr \<noteq> [] then Some descr else None)\<rparr>)"

text \<open>What is broadcast, and to whom.\<close>

definition handle_alerts :: "alert_message list \<Rightarrow> application \<Rightarrow> (alert_line list \<times> int list) option" where
  "handle_alerts alerts a =
     (let admins = admin_chat_ids a in
      if length admins = 0 then None
      else case ap_telegram a of
        None \<Rightarrow> None
      | Some tg \<Rightarrow> Some (map alert_line_of alerts, admins))"

record status_page =
  sp_active_signals :: nat
  sp_connected :: nat
  sp_exchanges :: "string list option"
  sp_funding_age :: "(string \<times> gdur option) list"

text \<open>\<open>d.Round(time.Second)\<close> of a duration that is not negative.\<close>

definition round_second :: "gdur \<Rightarrow> gdur" where
  "round_second d = (d + nano_second div 2) div nano_second * nano_second"

definition status_snapshot :: "gtime \<Rightarrow> application \<Rightarrow> status_page" where
  "status_snapshot now a =
     (let names = connector_names (ap_conns a) in
      \<lparr>sp_active_signals = active_count (ap_tracker a), sp_connected = connector_count (ap_conns a),
       sp_exchanges = (if length names > 0 then Some names else None),
       sp_funding_age = map (\<lambda>ex. let d = funding_age now (app_funding a) ex
                                  in (ex, if d \<ge> 0 then Some (round_second d) else None)) SupportedExchanges\<rparr>)"

section \<open>What a start keeps\<close>

lemma load_hard_spread_ok: "app_ok a \<Longrightarrow> app_ok (load_hard_spread S a)"
  using set_floor_ok [of a] by (auto simp: load_hard_spread_def not_less split: sum.split option.split)

lemma apply_fees_floor: "apply_fees D raw c = Inr c' \<Longrightarrow> sc_hard_min_spread c' = sc_hard_min_spread c"
  by (auto simp: apply_fees_def split: sum.splits if_splits)

lemma load_fees_ok: "app_ok a \<Longrightarrow> app_ok (load_fees S a)"
  using config_ok_apply_fees [of "ap_config a"] apply_fees_floor
  by (auto simp: load_fees_def app_ok_def [of a] intro!: set_config_ok split: sum.split option.split)

lemma load_settings_frame:
  "ap_users (load_operator_settings S a) = ap_users a" "ap_db (load_operator_settings S a) = ap_db a"
  "ap_user_repo (load_operator_settings S a) = ap_user_repo a" "ap_factory (load_operator_settings S a) = ap_factory a"
  by (simp_all add: load_operator_settings_def load_fees_def load_hard_spread_def set_app_funding_def
      split: sum.split option.split)

lemma load_operator_ok: "app_ok a \<Longrightarrow> app_ok (load_operator_settings S a)"
  by (simp add: load_operator_settings_def load_fees_ok load_hard_spread_ok)

lemma sanitize_chat [simp]: "us_chat_id (sanitize_user cfg u) = us_chat_id u"
  by (simp add: sanitize_user_def Let_def)

lemma sanitize_ranges:
  "get_hard_min_spread cfg \<le> us_min_spread (sanitize_user cfg u) \<and> 0 \<le> us_min_volume (sanitize_user cfg u)
   \<and> 0 \<le> us_min_funding_minutes (sanitize_user cfg u) \<and> 0 \<le> us_update_step (sanitize_user cfg u)
   \<and> valid_timeframe (us_timeframe (sanitize_user cfg u))"
  by (simp add: sanitize_user_def Let_def) (simp add: valid_timeframe_def)

lemma set_users_lookup:
  "get_user (fold (\<lambda>u. set_user (f u)) us um) c =
    (case find (\<lambda>u. us_chat_id (f u) = c) (rev us) of Some u \<Rightarrow> Some (f u) | None \<Rightarrow> get_user um c)"
  by (induction us rule: rev_induct) (auto simp: get_user_set)

lemma set_users_ok: "users_ok um \<Longrightarrow> users_ok (fold (\<lambda>u. set_user (f u)) us um)"
  by (induction us arbitrary: um) (simp_all add: users_ok_set)

text \<open>The users in memory after the load: those of the table, sanitised.\<close>

lemma load_users_lookup:
  assumes "load_users S a = Some a'" and "order_ok (se_row_order S)" and "mwf (db_users (ap_db a))" and "ap_users a = []"
  shows "get_user (ap_users a') c = map_option (sanitize_user (ap_config a))
    (case map_of (db_users (ap_db a)) c of None \<Rightarrow> None | Some r \<Rightarrow> scan_user (se_dec S) (c, r))"
    and "map_of (db_users (ap_db a)) c = Some r \<Longrightarrow> scan_user (se_dec S) (c, r) \<noteq> None"
proof -
  obtain us where us: "scan_users (se_dec S) (se_row_order S (db_users (ap_db a))) = Some us"
    "a' = a\<lparr>ap_users := fold (\<lambda>u. set_user (sanitize_user (ap_config a) u)) us (ap_users a)\<rparr>"
    using assms(1) by (auto simp: load_users_def load_all_users_def split: if_splits option.splits sum.splits)
  have rows: "set (se_row_order S (db_users (ap_db a))) = set (db_users (ap_db a))" by (rule order_ok_set [OF assms(2)])
  have set: "set us = {u. \<exists>r\<in>set (db_users (ap_db a)). scan_user (se_dec S) r = Some u}"
    using scan_users_set [OF us(1)] by (simp add: rows)
  show all: "scan_user (se_dec S) (c, r) \<noteq> None" if "map_of (db_users (ap_db a)) c = Some r" for r
    using scan_users_all [OF us(1), of "(c, r)"] map_of_SomeD [OF that] by (simp add: rows)
  have chat: "us_chat_id u = fst x" if "scan_user (se_dec S) x = Some u" for x u
    using that by (auto simp: scan_user_def split: prod.splits option.splits)
  have member: "u \<in> set us \<and> us_chat_id u = c \<longleftrightarrow>
      (\<exists>r. map_of (db_users (ap_db a)) c = Some r \<and> scan_user (se_dec S) (c, r) = Some u)" for u
    unfolding set using chat assms(3) by (force simp: map_of_eq_Some_iff)
  have get: "get_user (ap_users a') c = (case find (\<lambda>u. us_chat_id u = c) (rev us) of
      Some u \<Rightarrow> Some (sanitize_user (ap_config a) u) | None \<Rightarrow> None)"
    using set_users_lookup [of "sanitize_user (ap_config a)" us "ap_users a" c]
    by (cases "find (\<lambda>u. us_chat_id u = c) (rev us)") (simp_all add: us(2) assms(4), simp add: get_user_def)
  show "get_user (ap_users a') c = map_option (sanitize_user (ap_config a))
    (case map_of (db_users (ap_db a)) c of None \<Rightarrow> None | Some r \<Rightarrow> scan_user (se_dec S) (c, r))"
  proof (cases "find (\<lambda>u. us_chat_id u = c) (rev us)")
    case None
    then have "\<not> (u \<in> set us \<and> us_chat_id u = c)" for u by (auto simp: find_None_iff)
    with all show ?thesis unfolding get None by (auto simp: member split: option.split)
  next
    case (Some u)
    then have "u \<in> set us \<and> us_chat_id u = c" using nth_mem [of _ "rev us"] by (force simp: find_Some_iff)
    with Some show ?thesis unfolding get by (auto simp: member)
  qed
qed

lemma load_users_frame:
  assumes "load_users S a = Some a'"
  shows "app_ok a \<Longrightarrow> app_ok a'" "ap_db a' = ap_db a" "ap_config a' = ap_config a" "ap_conns a' = ap_conns a"
    "ap_started a' = ap_started a" "ap_factory a' = ap_factory a"
  using assms by (auto simp: load_users_def app_ok_sink set_users_ok split: if_splits sum.splits)

lemma start_connectors_ok:
  "sink_kept cfg cm \<Longrightarrow> manager_ok cm \<Longrightarrow>
   sink_kept cfg (fst (start_connectors wait factory names cm)) \<and> manager_ok (fst (start_connectors wait factory names cm))"
proof (induction wait factory names cm rule: start_connectors.induct)
  case (2 wait factory name names cm)
  show ?case
  proof (cases "factory name")
    case (Some conn)
    obtain cm1 err where r: "add_connector wait name (Some conn) cm = (cm1, err)" by fastforce
    have "sink_kept cfg cm1 \<and> manager_ok cm1"
      using sink_kept_add [OF 2(2), of wait name "Some conn"] manager_ok_add [OF 2(3), of wait name "Some conn"] r by simp
    with 2(1) [OF Some r [symmetric]] Some r show ?thesis by (cases err) simp_all
  qed (use 2 in simp)
qed simp

text \<open>The parts of a successful start.\<close>

lemma run_start_cases:
  assumes "run_start S repo a0 = (a, None)"
  obtains ra db a1 cm where "repo = Some ra"
    "(if se_reconciles S then reconcile_active_signals (se_reconcile S) (se_now S) (ap_db a0) else (ap_db a0, False)) = (db, False)"
    "load_users S (load_operator_settings S (take_abilities ra (a0\<lparr>ap_db := db, ap_started := True\<rparr>))) = Some a1"
    "a = a1\<lparr>ap_conns := cm, ap_accepting := True\<rparr>"
    "cm = ap_conns a1 \<or> (\<exists>factory. cm = fst (start_connectors (se_stop_wait S) factory SupportedExchanges (ap_conns a1)))"
proof -
  obtain ra where ra: "repo = Some ra" using assms by (cases repo) (simp_all add: run_start_def split: if_splits)
  obtain db err where rec: "(if se_reconciles S then reconcile_active_signals (se_reconcile S) (se_now S) (ap_db a0)
      else (ap_db a0, False)) = (db, err)" by fastforce
  let ?a = "load_operator_settings S (take_abilities ra (a0\<lparr>ap_db := db, ap_started := True\<rparr>))"
  have ok: "\<not> ap_started a0" "\<not> err" using assms rec by (auto simp: run_start_def ra split: if_splits)
  then obtain a1 where a1: "load_users S ?a = Some a1"
    using assms rec by (cases "load_users S ?a") (simp_all add: run_start_def ra Let_def)
  note run = assms [unfolded run_start_def ra option.case rec prod.case Let_def a1, simplified ok, simplified]
  show thesis
  proof (cases "ap_factory a1")
    case None
    have "a = a1\<lparr>ap_conns := ap_conns a1, ap_accepting := True\<rparr>" using run None by simp
    from that [OF ra _ a1 this] rec ok show thesis by simp
  next
    case (Some factory)
    obtain cm e where sc: "start_connectors (se_stop_wait S) factory SupportedExchanges (ap_conns a1) = (cm, e)" by fastforce
    have "a = a1\<lparr>ap_conns := cm, ap_accepting := True\<rparr>" using run Some sc by (cases e) simp_all
    from that [OF ra _ a1 this] rec ok sc show thesis by (metis fst_conv)
  qed
qed

text \<open>The floor between the command that stores it and the start that loads it.\<close>

lemma sethardspread_stored:
  "cmd_sethardspread E args a = (a', Ok (FloorSet v)) \<Longrightarrow> ap_settings_repo a \<Longrightarrow>
   map_of (db_settings (ap_db a')) settingsKeyHardSpread = Some (lib_string (ce_dec E) v) \<and> 1 / 100 \<le> v"
  by (auto simp: cmd_sethardspread_def persist_setting_def set_setting_def pg_exec_def set_app_funding_def map_of_mput
      set_hard_min_spread_def hard_min_spread_def Let_def
      split: list.splits option.splits sum.splits prod.splits if_splits db_outcome.splits)

lemma load_hard_spread_floor:
  assumes "app_ok a" and "map_of (db_settings (ap_db a)) settingsKeyHardSpread = Some s" and "se_floor_read S = DbOk"
    and "lib_parse (se_dec S) s = Some v" and "1 / 100 \<le> v"
  shows "get_hard_min_spread (ap_config (load_hard_spread S a)) = v"
proof -
  have "get_setting (se_floor_read S) settingsKeyHardSpread (ap_db a) = Inr (Some s)"
    using assms(2,3) by (simp add: get_setting_def)
  moreover obtain fm where "update_config (default_funding_config\<lparr>fc_min_spread := v\<rparr>) (app_funding a) = Inr fm"
    using assms(5) by (simp add: update_config_def Let_def config_normalize_def default_funding_config_def nano_second_def
        config_validate_def)
  ultimately show ?thesis using set_floor_ok [OF assms(1,5)] assms(4,5) by (simp add: load_hard_spread_def)
qed

lemma load_fees_floor: "get_hard_min_spread (ap_config (load_fees S a)) = get_hard_min_spread (ap_config a)"
  by (simp add: load_fees_def get_hard_min_spread_def apply_fees_floor split: sum.split option.split)

lemma run_start_ok:
  assumes "app_ok a0" and "run_start S repo a0 = (a, None)" shows "app_ok a"
proof -
  from run_start_cases [OF assms(2)] obtain ra db a1 cm where p:
    "load_users S (load_operator_settings S (take_abilities ra (a0\<lparr>ap_db := db, ap_started := True\<rparr>))) = Some a1"
    "a = a1\<lparr>ap_conns := cm, ap_accepting := True\<rparr>"
    "cm = ap_conns a1 \<or> (\<exists>factory. cm = fst (start_connectors (se_stop_wait S) factory SupportedExchanges (ap_conns a1)))"
    by metis
  have "app_ok (load_operator_settings S (take_abilities ra (a0\<lparr>ap_db := db, ap_started := True\<rparr>)))"
    using load_operator_ok assms(1) by (simp add: take_abilities_def app_ok_sink)
  from load_users_frame(1) [OF p(1) this] have a1: "app_ok a1" .
  then have "sink_kept (ap_config a1) cm \<and> manager_ok cm"
    using p(3) start_connectors_ok [of _ _ "se_stop_wait S"] by (auto simp: app_ok_sink)
  with a1 show ?thesis by (simp add: p(2) app_ok_sink)
qed

section \<open>Properties\<close>

text \<open>
  C23. After a successful start no stored signal is left active, the subscribed chats are exactly
  those of the users table, every user's settings are within range with a spread not below
  the floor in force, the funding manager works with that floor, and commands are accepted.
\<close>

theorem start_restores:
  assumes "app_ok a0" and "ap_users a0 = []" and "mwf (db_users (ap_db a0))" and "order_ok (se_row_order S)"
    and "se_reconciles S" and "run_start S repo a0 = (a, None)"
  shows "(\<forall>(k, r)\<in>set (db_signals (ap_db a)). \<not> sr_is_active r)
    \<and> (\<forall>c. (get_user (ap_users a) c = None) = (map_of (db_users (ap_db a0)) c = None))
    \<and> (\<forall>c u. get_user (ap_users a) c = Some u \<longrightarrow>
         get_hard_min_spread (ap_config a) \<le> us_min_spread u \<and> 0 \<le> us_min_volume u
         \<and> us_timeframe u \<in> {TF_1m, TF_5m, TF_15m, TF_30m, TF_1h, TF_4h, TF_24h}
         \<and> 0 \<le> us_min_funding_minutes u \<and> 0 \<le> us_update_step u)
    \<and> funding_at_floor (ap_config a) (app_funding a) \<and> ap_accepting a"
proof -
  from run_start_cases [OF assms(6)] obtain ra db a1 cm where p: "repo = Some ra"
    "reconcile_active_signals (se_reconcile S) (se_now S) (ap_db a0) = (db, False)"
    "load_users S (load_operator_settings S (take_abilities ra (a0\<lparr>ap_db := db, ap_started := True\<rparr>))) = Some a1"
    "a = a1\<lparr>ap_conns := cm, ap_accepting := True\<rparr>"
    "cm = ap_conns a1 \<or> (\<exists>factory. cm = fst (start_connectors (se_stop_wait S) factory SupportedExchanges (ap_conns a1)))"
    using assms(5) by (metis (full_types))
  let ?b = "load_operator_settings S (take_abilities ra (a0\<lparr>ap_db := db, ap_started := True\<rparr>))"
  have db: "db_users db = db_users (ap_db a0)" "\<forall>(k, r)\<in>set (db_signals db). \<not> sr_is_active r"
    using p(2) by (auto simp: reconcile_active_signals_def pg_exec_def reconcile_row_def split: db_outcome.splits if_splits)
  have b: "app_ok ?b" "ap_users ?b = []" "ap_db ?b = db"
    using load_operator_ok assms(1,2) by (simp_all add: load_settings_frame take_abilities_def app_ok_sink)
  note f = load_users_frame [OF p(3)]
  have a: "ap_config a = ap_config ?b" "ap_users a = ap_users a1" "ap_db a = db" "ap_accepting a"
    using f b(3) by (simp_all add: p(4))
  note look = load_users_lookup [OF p(3) assms(4) _ b(2), unfolded b(3) db(1), OF assms(3)]
  have "sink_kept (ap_config a1) (ap_conns a1)" "manager_ok (ap_conns a1)" using f(1) [OF b(1)] by (simp_all add: app_ok_sink)
  then have "sink_kept (ap_config a1) cm" using start_connectors_ok p(5) by blast
  then have "funding_at_floor (ap_config a) (app_funding a)"
    by (auto simp: sink_kept_def app_funding_def p(4) split: option.splits)
  moreover have "(get_user (ap_users a) c = None) = (map_of (db_users (ap_db a0)) c = None)" for c
    using look(2) by (simp add: a(2) look(1) split: option.split)
  moreover have "get_hard_min_spread (ap_config a) \<le> us_min_spread u \<and> 0 \<le> us_min_volume u
      \<and> us_timeframe u \<in> {TF_1m, TF_5m, TF_15m, TF_30m, TF_1h, TF_4h, TF_24h}
      \<and> 0 \<le> us_min_funding_minutes u \<and> 0 \<le> us_update_step u" if "get_user (ap_users a) c = Some u" for c u
    using that sanitize_ranges [of "ap_config ?b"] unfolding a(1,2) look(1) valid_timeframe_def by auto
  ultimately show ?thesis using a db(2) by simp
qed

text \<open>
  The floor survives a restart: once \<open>/sethardspread\<close> has reported success, an application
  made anew over the database and started works with that floor, in the configuration and
  in the funding manager, as long as the decimal package reads back the text it printed.
\<close>

theorem floor_survives_restart:
  assumes "app_ok a" and "ap_settings_repo a"
    and "handle_command E botid chat name ''sethardspread'' args a = (a', Ok (FloorSet v))"
    and "lib_parse (se_dec S) (lib_string (ce_dec E) v) = Some v"
    and "new_application cfg ra (ap_db a') = Inr b" and "\<forall>c. cfg = Some c \<longrightarrow> config_ok c"
    and "ra_settings ra" and "se_floor_read S = DbOk" and "run_start S (Some ra) b = (b', None)"
  shows "get_hard_min_spread (ap_config b') = v \<and> 1 / 100 \<le> v
    \<and> (\<exists>p. fm_config (app_funding b') = Some p \<and> fc_min_spread p = v)"
proof -
  have "cmd_sethardspread E args a = (a', Ok (FloorSet v))"
    using assms(3) by (auto simp: handle_command_def is_admin_cmd_def admin_command_def split: if_splits)
  note st = sethardspread_stored [OF this assms(2)]
  have b: "app_ok b" "ap_db b = ap_db a'" by (rule app_ok_new [OF assms(5,6)])
      (use assms(5) in \<open>auto simp: new_application_def Let_def split: sum.splits\<close>)
  from run_start_cases [OF assms(9)] obtain ra' db b1 cm where p: "Some ra = Some ra'"
    "(if se_reconciles S then reconcile_active_signals (se_reconcile S) (se_now S) (ap_db b) else (ap_db b, False)) = (db, False)"
    "load_users S (load_operator_settings S (take_abilities ra' (b\<lparr>ap_db := db, ap_started := True\<rparr>))) = Some b1"
    "b' = b1\<lparr>ap_conns := cm, ap_accepting := True\<rparr>"
    "cm = ap_conns b1 \<or> (\<exists>factory. cm = fst (start_connectors (se_stop_wait S) factory SupportedExchanges (ap_conns b1)))" .
  let ?c = "take_abilities ra' (b\<lparr>ap_db := db, ap_started := True\<rparr>)"
  have "db_settings db = db_settings (ap_db b)"
    using p(2) by (auto simp: reconcile_active_signals_def pg_exec_def split: db_outcome.splits if_splits)
  then have set: "map_of (db_settings (ap_db ?c)) settingsKeyHardSpread = Some (lib_string (ce_dec E) v)"
    using st b(2) by (simp add: take_abilities_def)
  have c: "app_ok ?c" "ap_settings_repo ?c" using b(1) p(1) assms(7) by (simp_all add: take_abilities_def app_ok_sink)
  have fl: "get_hard_min_spread (ap_config (load_operator_settings S ?c)) = v"
    using load_hard_spread_floor [OF c(1) set assms(8,4)] st c(2)
    by (simp add: load_operator_settings_def load_fees_floor)
  note f = load_users_frame [OF p(3)]
  have "sink_kept (ap_config b1) (ap_conns b1)" "manager_ok (ap_conns b1)"
    using f(1) [OF load_operator_ok [OF c(1)]] by (simp_all add: app_ok_sink)
  then have "sink_kept (ap_config b1) cm" using start_connectors_ok p(5) by blast
  moreover have "get_hard_min_spread (ap_config b1) = v" using fl f(3) by simp
  ultimately show ?thesis using st
    by (auto simp: p(4) sink_kept_def funding_at_floor_def app_funding_def split: option.splits)
qed

section \<open>Witnesses\<close>

definition sample_start_env :: start_env where
  "sample_start_env = \<lparr>se_dec = sample_lib, se_row_order = rev, se_now = 9, se_reconciles = True, se_reconcile = DbOk,
     se_floor_read = DbOk, se_fees_read = DbOk, se_users_read = DbOk, se_stop_wait = (True, [])\<rparr>"

definition all_abilities :: repo_abilities where
  "all_abilities = \<lparr>ra_users = True, ra_settings = True, ra_stats = True, ra_signals = True\<rparr>"

text \<open>One subscribed user whose stored spread is below the floor.\<close>

definition low_row :: user_row where
  "low_row = \<lparr>ur_username = ''u'', ur_min_spread = ''000000000.0005'', ur_min_volume = ''000000000.0005'',
     ur_timeframe = ''2h'', ur_min_funding_minutes = - 5, ur_update_step = ''0'', ur_bot_id = 0\<rparr>"

definition stopped_app :: application where
  "stopped_app = sample_app\<lparr>ap_users := [], ap_db := empty_database\<lparr>db_users := [(7, low_row)]\<rparr>, ap_started := False,
     ap_accepting := False\<rparr>"

lemma stopped_app_ok: "app_ok stopped_app"
  using sample_app_ok by (simp add: stopped_app_def app_ok_sink users_ok_def)

lemma stopped_app_starts: "\<exists>a. run_start sample_start_env (Some all_abilities) stopped_app = (a, None)"
proof -
  have "scan_user sample_lib (7, low_row) \<noteq> None" by (simp add: scan_user_def low_row_def sample_text)
  then show ?thesis
    by (auto simp: run_start_def stopped_app_def sample_app_def sample_start_env_def all_abilities_def
        reconcile_active_signals_def pg_exec_def empty_database_def load_users_def load_all_users_def load_operator_settings_def
        load_fees_def load_hard_spread_def get_setting_def take_abilities_def Let_def)
qed

theorem start_restores_witness:
  "\<exists>a u. run_start sample_start_env (Some all_abilities) stopped_app = (a, None)
     \<and> get_user (ap_users a) 7 = Some u \<and> get_hard_min_spread (ap_config a) \<le> us_min_spread u"
proof -
  obtain a where a: "run_start sample_start_env (Some all_abilities) stopped_app = (a, None)" using stopped_app_starts by blast
  have s: "ap_users stopped_app = []" "db_users (ap_db stopped_app) = [(7, low_row)]" by (simp_all add: stopped_app_def)
  have "mwf (db_users (ap_db stopped_app))" "order_ok (se_row_order sample_start_env)" "se_reconciles sample_start_env"
    using order_ok_rev by (simp_all add: s sample_start_env_def)
  from start_restores [OF stopped_app_ok s(1) this a] have
    "get_user (ap_users a) 7 \<noteq> None" "\<And>u. get_user (ap_users a) 7 = Some u \<Longrightarrow> get_hard_min_spread (ap_config a) \<le> us_min_spread u"
    by (simp_all add: s)
  with a show ?thesis by blast
qed

lemma sample_half:
  "lib_parse sample_lib ''50'' = Some 50" "lib_div sample_lib 50 100 = 1 / 2"
  "lib_parse sample_lib (lib_string sample_lib (1 / 2)) = Some (1 / 2)"
proof -
  show "lib_parse sample_lib ''50'' = Some 50" by (simp add: sample_lib_def sample_parse_def digit_value_def)
  have "50 / 100 * 10 ^ 16 = (of_int 5000000000000000 :: rat)" by simp
  then show "lib_div sample_lib 50 100 = 1 / 2" unfolding sample_div by (simp only: round_of_int) simp
  have "lib_string sample_lib (1 / 2) = ''000000000.5000''"
    by (simp add: sample_lib_def sample_string_def digits_of_numeral char_of_def Let_def bit_Suc_0_iff)
  then show "lib_parse sample_lib (lib_string sample_lib (1 / 2)) = Some (1 / 2)"
    by (simp add: sample_lib_def sample_parse_def digit_value_def)
qed

definition admin_app :: application where
  "admin_app = sample_app\<lparr>ap_users := [], ap_db := empty_database\<rparr>"

lemma new_app_starts:
  assumes "new_application None all_abilities db = Inr b" and "db_users db = []"
  shows "\<exists>a. run_start sample_start_env (Some all_abilities) b = (a, None)"
proof -
  have fields: "\<not> ap_started b" "ap_users b = []" "ap_user_repo b" "ap_factory b = None" "ap_db b = db"
    using assms(1) by (auto simp: new_application_def Let_def all_abilities_def new_user_manager_def split: sum.splits)
  obtain db' where "reconcile_active_signals DbOk 9 db = (db', False)" "db_users db' = []"
    by (simp add: assms(2) reconcile_active_signals_def pg_exec_def)
  moreover from this have "load_all_users sample_lib rev DbOk db' = Inr []" by (simp add: load_all_users_def)
  ultimately show ?thesis
    using fields by (auto simp: run_start_def sample_start_env_def load_users_def load_settings_frame Let_def
        take_abilities_def)
qed

theorem floor_survives_restart_witness:
  "\<exists>a b b'. handle_command sample_command_env 0 1 ''root'' ''sethardspread'' [''50''] admin_app = (a, Ok (FloorSet (1 / 2)))
     \<and> new_application None all_abilities (ap_db a) = Inr b \<and> run_start sample_start_env (Some all_abilities) b = (b', None)
     \<and> get_hard_min_spread (ap_config b') = 1 / 2"
proof -
  have ok: "app_ok admin_app" using sample_app_ok by (simp add: admin_app_def app_ok_sink users_ok_def)
  let ?k = "settingsKeyHardSpread" let ?t = "lib_string sample_lib (1 / 2)"
  obtain a where a: "handle_command sample_command_env 0 1 ''root'' ''sethardspread'' [''50''] admin_app = (a, Ok (FloorSet (1 / 2)))"
    "ap_db a = empty_database\<lparr>db_settings := [(?k, ?t)]\<rparr>"
    by (auto simp: handle_command_def is_admin_cmd_def is_admin_def admin_command_def admin_app_def sample_app_def
        sample_command_env_def cmd_sethardspread_def sample_half update_config_def Let_def config_normalize_def
        default_funding_config_def nano_second_def config_validate_def set_hard_min_spread_def hard_min_spread_def
        persist_setting_def set_setting_def pg_exec_def set_app_funding_def empty_database_def)
  obtain b where b: "new_application None all_abilities (ap_db a) = Inr b"
    by (simp add: new_application_def Let_def new_funding_manager_def config_normalize_def default_funding_config_def
        nano_second_def config_validate_def get_hard_min_spread_def new_screener_config_def hard_min_spread_def)
  obtain b' where b': "run_start sample_start_env (Some all_abilities) b = (b', None)"
    using new_app_starts [OF b] a(2) by (auto simp: empty_database_def)
  have "get_hard_min_spread (ap_config b') = 1 / 2"
    using floor_survives_restart [OF ok _ a(1) _ b _ _ _ b'] sample_half(3)
    by (simp add: admin_app_def sample_app_def sample_start_env_def sample_command_env_def all_abilities_def)
  with a(1) b b' show ?thesis by blast
qed

end
