(* ===== verification/System.thy ===== *)
theory System
  imports Tick_Spec Tracker Ingress Startup
begin

text \<open>
  internal/app/app.go, the application while it runs: the goroutines between the tick channel
  and the database, joined by queues, and their shutdown. One step is one atomic action of one
  goroutine: a tick dispatched to an ingestion worker, a tick processed under the lock of
  its shard, one event sent to the channel of the tracker (a worker sends after it has given
  the lock back, so sends of different goroutines interleave), one event handled by the
  tracker, one turn of the janitor, one command, one report of an adapter. The channels are
  unbounded here: a full one blocks its sender and loses nothing.
\<close>

section \<open>Dispatching ticks\<close>

text \<open>\<open>Run\<close> starts twice as many ingestion workers as there are processors, from 8 to 128.\<close>

definition worker_count :: "int \<Rightarrow> int" where
  "worker_count cpus =
     (let w = cpus * 2; w1 = (if w < 8 then 8 else w) in if w1 > 128 then 128 else w1)"

definition dispatch_index :: "nat \<Rightarrow> string \<Rightarrow> nat" where
  "dispatch_index n symbol = unat (checksum_ieee symbol mod word_of_nat n)"

definition dispatch_tick :: "market_tick \<Rightarrow> market_tick list list \<Rightarrow> market_tick list list" where
  "dispatch_tick t queues =
     (let idx = dispatch_index (length queues) (mt_symbol t) in queues[idx := queues ! idx @ [t]])"

section \<open>The workers\<close>

record tick_env =
  ti_dec :: dec_lib
  ti_clock :: gtime
  ti_order :: "string list \<Rightarrow> string list"
  ti_user_order :: "user list \<Rightarrow> user list"

definition agg_env_of :: "tick_env \<Rightarrow> application \<Rightarrow> agg_env" where
  "agg_env_of T a = \<lparr>ae_dec = ti_dec T, ae_config = ap_config a, ae_funding = Some (app_funding a),
     ae_users = Some (ap_users a), ae_volume = Some (ap_volume a), ae_ttl = default_price_ttl, ae_clock = ti_clock T,
     ae_order = ti_order T, ae_user_order = ti_user_order T\<rparr>"

record handling =
  hd_dec :: dec_lib
  hd_uuid :: string
  hd_ready :: bool
  hd_now :: gtime
  hd_user_order :: "user list \<Rightarrow> user list"

definition tracker_env_of :: "handling \<Rightarrow> application \<Rightarrow> tracker_env" where
  "tracker_env_of H a = \<lparr>te_dec = hd_dec H, te_config = ap_config a,
     te_router = \<lparr>re_dec = hd_dec H, re_users = Some (ap_users a), re_volume = Some (ap_volume a),
                  re_config = Some (ap_config a), re_now = hd_now H, re_user_order = hd_user_order H\<rparr>\<rparr>"

section \<open>State and steps\<close>

text \<open>\<open>cleanup\<close> goes through these phases in order.\<close>

datatype phase = Serving | IntakeStopped | WorkersStopped | RoutesFlushed | Closed

text \<open>\<open>rn_outbox i\<close> holds the events goroutine \<open>i\<close> has still to send; the janitor, and after it
  the goroutine of \<open>Run\<close>, has the number after those of the ingestion workers.\<close>

record running =
  rn_app :: application
  rn_ticks :: "market_tick list"
  rn_queues :: "market_tick list list"
  rn_outbox :: "nat \<Rightarrow> spread_event list"
  rn_phase :: phase

definition running_of :: "nat \<Rightarrow> application \<Rightarrow> running" where
  "running_of n a = \<lparr>rn_app = a, rn_ticks = [], rn_queues = replicate n [], rn_outbox = (\<lambda>_. []), rn_phase = Serving\<rparr>"

definition janitor_id :: "running \<Rightarrow> nat" where
  "janitor_id s = length (rn_queues s)"

definition workers_idle :: "running \<Rightarrow> bool" where
  "workers_idle s \<longleftrightarrow> list_all (\<lambda>i. rn_outbox s i = []) [0..<length (rn_queues s)]"

datatype worker_op = Dispatch | Ingest nat tick_env | SendEvent nat | JanitorTurn tick_env gtime | Track handling

fun worker_step :: "worker_op \<Rightarrow> running \<Rightarrow> running" where
  "worker_step Dispatch s =
     (case rn_ticks s of
        [] \<Rightarrow> s
      | t # ts \<Rightarrow>
          if length (rn_queues s) = 0 \<or> rn_phase s \<notin> {Serving, IntakeStopped} then s
          else s\<lparr>rn_ticks := ts, rn_queues := dispatch_tick t (rn_queues s)\<rparr>)"
| "worker_step (Ingest i T) s =
     (if \<not> i < length (rn_queues s) \<or> rn_outbox s i \<noteq> [] \<or> rn_phase s \<notin> {Serving, IntakeStopped} then s
      else case rn_queues s ! i of
        [] \<Rightarrow> s
      | t # ts \<Rightarrow>
          (case process_tick (agg_env_of T (rn_app s)) t (ap_aggregator (rn_app s)) of (ag, evs) \<Rightarrow>
             s\<lparr>rn_app := (rn_app s)\<lparr>ap_aggregator := ag\<rparr>, rn_queues := (rn_queues s)[i := ts],
               rn_outbox := (rn_outbox s)(i := evs)\<rparr>))"
| "worker_step (SendEvent i) s =
     (if janitor_id s < i then s
      else case rn_outbox s i of
        [] \<Rightarrow> s
      | e # es \<Rightarrow> s\<lparr>rn_app := (rn_app s)\<lparr>ap_tracker_chan := ap_tracker_chan (rn_app s) @ [e]\<rparr>,
                     rn_outbox := (rn_outbox s)(i := es)\<rparr>)"
| "worker_step (JanitorTurn T now) s =
     (if rn_phase s \<noteq> Serving \<or> rn_outbox s (janitor_id s) \<noteq> [] then s
      else case janitor_turn now (agg_env_of T (rn_app s), ap_aggregator (rn_app s)) of ((E, ag), evs) \<Rightarrow>
        s\<lparr>rn_app := (set_app_funding (the (ae_funding E)) (rn_app s))\<lparr>ap_volume := the (ae_volume E), ap_aggregator := ag\<rparr>,
          rn_outbox := (rn_outbox s)(janitor_id s := evs)\<rparr>)"
| "worker_step (Track H) s =
     (case ap_tracker_chan (rn_app s) of
        [] \<Rightarrow> s
      | e # es \<Rightarrow>
          s\<lparr>rn_app := (rn_app s)\<lparr>ap_tracker_chan := es, ap_tracker :=
               handle_event (tracker_env_of H (rn_app s)) (hd_uuid H) (hd_ready H) e (ap_tracker (rn_app s))\<rparr>\<rparr>)"

text \<open>The persistence worker's \<open>flush\<close>; its interleaving with the tracker is in Persistence.
  The fuel is one above the number of buffered signals.\<close>

record save_env =
  sv_dec :: dec_lib
  sv_pg :: pg_lib
  sv_out :: "signal \<Rightarrow> db_outcome"
  sv_order :: "string list \<Rightarrow> string list"

definition repo_save :: "save_env \<Rightarrow> signal \<Rightarrow> database \<Rightarrow> database \<times> bool" where
  "repo_save V sig db = (case save_signal (sv_dec V) (sv_pg V) (sv_out V sig) sig db of (db', err) \<Rightarrow> (db', \<not> err))"

definition flush_signals :: "save_env \<Rightarrow> application \<Rightarrow> application" where
  "flush_signals V a =
     (case tk_sink (ap_tracker a) of
        Some (BufferSink b) \<Rightarrow>
          (case flush_loop (Suc (buffer_len b)) (sv_order V) (repo_save V) 500 b (ap_db a) of
             None \<Rightarrow> a
           | Some (b', db', ok) \<Rightarrow>
               a\<lparr>ap_db := db', ap_tracker := (ap_tracker a)\<lparr>tk_sink := Some (BufferSink b')\<rparr>\<rparr>)
      | _ \<Rightarrow> a)"

definition close_persistence :: "application \<Rightarrow> application" where
  "close_persistence a =
     (case tk_sink (ap_tracker a) of
        Some (BufferSink b) \<Rightarrow> a\<lparr>ap_tracker := (ap_tracker a)\<lparr>tk_sink := Some (BufferSink (close_buffer b))\<rparr>\<rparr>
      | _ \<Rightarrow> a)"

datatype outside_op = Arrive market_tick | Command command_input
  | FundingReport gtime string string dec gtime gtime | HealthReport string bool | CandleReport gtime market_candle
  | FlushSignals save_env

fun outside_step :: "outside_op \<Rightarrow> running \<Rightarrow> running" where
  "outside_step (Arrive t) s =
     (if rn_phase s \<notin> {Serving, IntakeStopped} then s else s\<lparr>rn_ticks := rn_ticks s @ [t]\<rparr>)"
| "outside_step (Command x) s = s\<lparr>rn_app := command_step x (rn_app s)\<rparr>"
| "outside_step (FundingReport now ex sy rate nxt event) s =
     s\<lparr>rn_app := set_app_funding
        (funding_step (OpUpdateFunding now ex sy rate nxt event) (app_funding (rn_app s))) (rn_app s)\<rparr>"
| "outside_step (HealthReport ex h) s =
     s\<lparr>rn_app := set_app_funding (funding_step (OpHealth ex h) (app_funding (rn_app s))) (rn_app s)\<rparr>"
| "outside_step (CandleReport now c) s =
     s\<lparr>rn_app := (rn_app s)\<lparr>ap_volume := update_candle now c (ap_volume (rn_app s))\<rparr>\<rparr>"
| "outside_step (FlushSignals V) s = s\<lparr>rn_app := flush_signals V (rn_app s)\<rparr>"

text \<open>The stages of \<open>cleanup\<close>. The first waits for the janitor, the second for the ingestion
  workers, whose ticks are dropped; the flush of the routes may be cut by its timeout; the last
  waits until the tracker has emptied its channel.\<close>

datatype stop_op = StopIntake "(string \<times> entry_ref) list \<Rightarrow> (string \<times> entry_ref) list" "entry_ref \<Rightarrow> stop_wait"
  | StopWorkers | FlushRoutes "string list \<Rightarrow> string list" gtime | FlushTimeout | CloseDown save_env

fun stop_step :: "stop_op \<Rightarrow> running \<Rightarrow> running" where
  "stop_step (StopIntake ord wait) s =
     (if rn_phase s \<noteq> Serving \<or> rn_outbox s (janitor_id s) \<noteq> [] then s
      else s\<lparr>rn_app := (rn_app s)\<lparr>ap_accepting := False, ap_conns := fst (stop_all ord wait (ap_conns (rn_app s)))\<rparr>,
             rn_phase := IntakeStopped\<rparr>)"
| "stop_step StopWorkers s =
     (if rn_phase s \<noteq> IntakeStopped \<or> \<not> workers_idle s then s
      else s\<lparr>rn_ticks := [], rn_queues := map (\<lambda>q. []) (rn_queues s), rn_phase := WorkersStopped\<rparr>)"
| "stop_step (FlushRoutes ord now) s =
     (if rn_phase s \<noteq> WorkersStopped \<or> rn_outbox s (janitor_id s) \<noteq> [] then s
      else case flush_active ord now now (ap_aggregator (rn_app s)) of (ag, evs) \<Rightarrow>
        s\<lparr>rn_app := (rn_app s)\<lparr>ap_aggregator := ag\<rparr>, rn_outbox := (rn_outbox s)(janitor_id s := evs),
          rn_phase := RoutesFlushed\<rparr>)"
| "stop_step FlushTimeout s =
     (if rn_phase s \<noteq> RoutesFlushed then s else s\<lparr>rn_outbox := (rn_outbox s)(janitor_id s := [])\<rparr>)"
| "stop_step (CloseDown V) s =
     (if rn_phase s \<noteq> RoutesFlushed \<or> rn_outbox s (janitor_id s) \<noteq> [] \<or> ap_tracker_chan (rn_app s) \<noteq> [] then s
      else s\<lparr>rn_app := close_app_router (flush_signals V (close_persistence (rn_app s))), rn_phase := Closed\<rparr>)"

datatype run_op = Worker worker_op | Outside outside_op | Stop stop_op

fun run_step :: "run_op \<Rightarrow> running \<Rightarrow> running" where
  "run_step (Worker x) s = worker_step x s"
| "run_step (Outside x) s = outside_step x s"
| "run_step (Stop x) s = stop_step x s"

section \<open>Events in flight\<close>

definition event_symbol :: "spread_event \<Rightarrow> string" where
  "event_symbol e = key_symbol (route_key e)"

definition of_symbol :: "string \<Rightarrow> string set \<Rightarrow> string set" where
  "of_symbol symbol K = {k \<in> K. key_symbol k = symbol}"

abbreviation about :: "string \<Rightarrow> spread_event list \<Rightarrow> spread_event list" where
  "about symbol evs \<equiv> filter (\<lambda>e. event_symbol e = symbol) evs"

text \<open>The events of one symbol that the tracker has not handled: those in its channel, those of
  the symbol's worker, those of the janitor.\<close>

definition in_flight :: "string \<Rightarrow> running \<Rightarrow> spread_event list" where
  "in_flight symbol s = about symbol (ap_tracker_chan (rn_app s)
     @ rn_outbox s (dispatch_index (janitor_id s) symbol) @ rn_outbox s (janitor_id s))"

text \<open>Ticks whose symbol is in normal form, as the adapters send them.\<close>

definition tick_fit :: "market_tick \<Rightarrow> bool" where
  "tick_fit t \<longleftrightarrow> normalize_symbol (mt_symbol t) = mt_symbol t \<and> CHR '':'' \<notin> set (mt_symbol t)"

text \<open>An event the tracker does not drop: not older than the signal it is about.\<close>

definition timely :: "spread_event \<Rightarrow> tracker \<Rightarrow> bool" where
  "timely e tk \<longleftrightarrow> proper_event e
     \<and> (case map_of (tk_active tk) (route_key e) of None \<Rightarrow> True | Some sig \<Rightarrow> sg_opened_at sig \<le> ev_timestamp e)"

text \<open>Steps whose sends keep the order of the events of each symbol: no worker takes a tick of a
  symbol while the janitor still has to send the closing of one of its routes, and the janitor does not
  overtake the worker. The flush of the routes is not cut, and the tracker drops no event.\<close>

fun orderly :: "run_op \<Rightarrow> running \<Rightarrow> bool" where
  "orderly (Worker (Ingest i T)) s \<longleftrightarrow> order_ok (ti_order T)
     \<and> (i < length (rn_queues s) \<longrightarrow> (case rn_queues s ! i of [] \<Rightarrow> True | t # ts \<Rightarrow> about (mt_symbol t) (rn_outbox s (janitor_id s)) = []))"
| "orderly (Worker (SendEvent i)) s \<longleftrightarrow>
     (case rn_outbox s i of [] \<Rightarrow> True
      | e # es \<Rightarrow> i = janitor_id s \<longrightarrow> about (event_symbol e) (rn_outbox s (dispatch_index (janitor_id s) (event_symbol e))) = [])"
| "orderly (Worker (JanitorTurn T now)) s \<longleftrightarrow> order_ok (ti_order T)"
| "orderly (Worker (Track H)) s \<longleftrightarrow>
     (case ap_tracker_chan (rn_app s) of [] \<Rightarrow> True | e # es \<Rightarrow> timely e (ap_tracker (rn_app s)))"
| "orderly (Outside (Arrive t)) s \<longleftrightarrow> tick_fit t"
| "orderly (Stop (StopIntake ord wait)) s \<longleftrightarrow> order_ok ord"
| "orderly (Stop (FlushRoutes ord now)) s \<longleftrightarrow> order_ok ord"
| "orderly (Stop FlushTimeout) s \<longleftrightarrow> False"
| "orderly _ s \<longleftrightarrow> True"

fun orderly_run :: "run_op list \<Rightarrow> running \<Rightarrow> bool" where
  "orderly_run [] s \<longleftrightarrow> True"
| "orderly_run (x # xs) s \<longleftrightarrow> orderly x s \<and> orderly_run xs (run_step x s)"

definition pipeline_ok :: "running \<Rightarrow> bool" where
  "pipeline_ok s \<longleftrightarrow> agg_ok (ap_aggregator (rn_app s)) \<and> janitor_id s \<noteq> 0 \<and> janitor_id s \<le> 128
     \<and> (\<forall>i<janitor_id s. \<forall>t\<in>set (rn_queues s ! i). tick_fit t \<and> dispatch_index (janitor_id s) (mt_symbol t) = i)
     \<and> (\<forall>t\<in>set (rn_ticks s). tick_fit t)
     \<and> (\<forall>i<janitor_id s. \<forall>e\<in>set (rn_outbox s i). dispatch_index (janitor_id s) (event_symbol e) = i)
     \<and> (\<forall>sy. life_run (in_flight sy s) (of_symbol sy (tracked (ap_tracker (rn_app s))))
           = Some (of_symbol sy (open_keys (ap_aggregator (rn_app s)))))"

section \<open>Lifecycles of one symbol\<close>

lemma of_symbol_simps [simp]:
  "of_symbol sy (insert k K) = (if key_symbol k = sy then insert k (of_symbol sy K) else of_symbol sy K)"
  "of_symbol sy (K - {k}) = of_symbol sy K - {k}" "of_symbol sy {} = {}"
  "k \<in> of_symbol sy K \<longleftrightarrow> k \<in> K \<and> key_symbol k = sy"
  by (auto simp: of_symbol_def)

lemma life_step_symbol:
  assumes "life_step e K = Some K'"
  shows "if event_symbol e = sy then life_step e (of_symbol sy K) = Some (of_symbol sy K')
    else of_symbol sy K' = of_symbol sy K"
  using assms by (auto simp: event_symbol_def of_symbol_def Let_def split: lifecycle.splits if_splits)

lemma life_run_symbol:
  "life_run evs K = Some K' \<Longrightarrow> life_run (about sy evs) (of_symbol sy K) = Some (of_symbol sy K')"
proof (induction evs arbitrary: K)
  case (Cons e evs)
  then obtain K1 where k: "life_step e K = Some K1" "life_run evs K1 = Some K'" by (auto split: option.splits)
  from life_step_symbol [OF k(1), of sy] Cons.IH [OF k(2)] show ?case by (auto split: if_splits)
qed simp

text \<open>A step on the part of one symbol is a step on the whole set.\<close>

lemma life_step_whole:
  assumes "life_step e (of_symbol (event_symbol e) K) = Some K1"
  shows "\<exists>K'. life_step e K = Some K' \<and> of_symbol (event_symbol e) K' = K1
    \<and> (\<forall>sy. sy \<noteq> event_symbol e \<longrightarrow> of_symbol sy K' = of_symbol sy K)"
proof -
  have "\<exists>K'. life_step e K = Some K'"
    using assms by (auto simp: event_symbol_def Let_def split: lifecycle.splits if_splits)
  then obtain K' where k: "life_step e K = Some K'" by blast
  have "of_symbol (event_symbol e) K' = K1"
    using life_step_symbol [OF k, of "event_symbol e"] assms by simp
  moreover have "of_symbol sy K' = of_symbol sy K" if "sy \<noteq> event_symbol e" for sy
    using life_step_symbol [OF k, of sy] that by simp
  ultimately show ?thesis using k by blast
qed

lemma dispatch_index_less: "0 < n \<Longrightarrow> n < 2 ^ 32 \<Longrightarrow> dispatch_index n symbol < n"
proof -
  assume "0 < n" "n < 2 ^ 32"
  then have u: "unat (word_of_nat n :: 32 word) = n" by (simp add: unat_of_nat)
  then have "(word_of_nat n :: 32 word) \<noteq> 0" using \<open>0 < n\<close> by (metis less_irrefl unat_0)
  then have "unat (checksum_ieee symbol mod word_of_nat n) < unat (word_of_nat n :: 32 word)"
    by (simp add: unat_mod \<open>0 < n\<close> u)
  then show ?thesis by (simp add: dispatch_index_def u)
qed

lemma close_missing_prefix:
  "close_missing pfx current now keys active = (active', events) \<Longrightarrow> active_ok active \<Longrightarrow>
   \<forall>e\<in>set events. has_prefix (route_key e) pfx"
proof (induction pfx current now keys active arbitrary: active' events rule: close_missing.induct)
  case (2 pfx current now key keys active)
  show ?case
  proof (cases "\<not> has_prefix key pfx \<or> key \<in> current")
    case False
    then have hit: "\<not> (\<not> has_prefix key pfx \<or> key \<in> current)" by simp
    have del: "active_ok (mdel key active)" by (rule active_ok_del [OF "2.prems"(2)])
    show ?thesis
    proof (cases "map_of active key")
      case (Some st)
      obtain a1 e1 where r: "close_missing pfx current now keys (mdel key active) = (a1, e1)" by fastforce
      have "route_key (rs_last st) = key" by (rule active_ok_lookup [OF "2.prems"(2) Some])
      with "2.IH"(3) [OF hit Some r del] "2.prems"(1) hit Some r show ?thesis by auto
    qed (use 2 hit del in \<open>auto split: if_splits\<close>)
  qed (use 2 in auto)
qed simp

lemma process_tick_symbol:
  assumes "agg_ok ag" and "order_ok (ae_order E)" and "CHR '':'' \<notin> set (normalize_symbol (mt_symbol t))"
  shows "\<forall>e\<in>set (snd (process_tick E t ag)). event_symbol e = normalize_symbol (mt_symbol t)"
proof (cases "\<not> valid_tick t \<or> mt_symbol (normalize_tick t) = []
    \<or> late_tick (normalize_tick t) (book_for (ag_shards ag (shard_for (mt_symbol (normalize_tick t)))) (mt_symbol (normalize_tick t)))")
  case True
  then show ?thesis by (auto simp: process_tick_def Let_def)
next
  case False
  let ?t = "normalize_tick t" and ?sh = "ag_shards ag (shard_for (normalize_symbol (mt_symbol t)))"
  let ?sym = "normalize_symbol (mt_symbol t)" and ?now = "tick_now (normalize_tick t)"
  let ?book = "store_quote ?t (book_for ?sh ?sym)"
  let ?evs = "tick_candidates E ?book (mt_exchange ?t) ?sym ?now"
  have sh: "shard_ok (shard_for ?sym) ?sh" using assms(1) by (simp add: agg_ok_def)
  have book: "book_ok ?book"
    by (rule store_quote_ok [OF book_for_ok [OF sh]]) (use False in \<open>auto simp: valid_tick_def\<close>)
  have act: "active_ok (sh_active ?sh)" using sh by (simp add: shard_ok_def)
  obtain a1 c1 e1 where f: "fold (observe_eligible E) ?evs (sh_active ?sh, {}, []) = (a1, c1, e1)" by (metis prod_cases3)
  obtain a2 e2 where cl: "close_missing (?sym @ '':'') c1 ?now (ae_order E (mkeys a1)) a1 = (a2, e2)" by fastforce
  have out: "snd (process_tick E t ag) = e1 @ e2" using False f cl by (simp add: process_tick_def Let_def tick_shard_def)
  have ob: "active_ok a1" "\<forall>e\<in>set e1. route_key e \<in> route_key ` set ?evs"
    using observe_all_life [OF act _ f, of "open_routes (sh_active ?sh)"] by simp_all
  have "event_symbol e = ?sym" if e: "e \<in> set e1" for e
  proof -
    obtain ev where ev: "ev \<in> set ?evs" "route_key e = route_key ev" using ob(2) e by auto
    have "ev_symbol ev = ?sym" by (rule tick_candidates_symbol(1) [OF book assms(2) ev(1)])
    then show ?thesis using ev(2) assms(3) by (simp add: event_symbol_def key_symbol_route)
  qed
  moreover have "event_symbol e = ?sym" if "e \<in> set e2" for e
    using close_missing_prefix [OF cl ob(1)] that prefix_key_symbol [OF assms(3)] by (simp add: event_symbol_def)
  ultimately show ?thesis by (auto simp: out)
qed

section \<open>The invariant of the pipeline\<close>

text \<open>A step is quiet when it leaves the aggregator, the channel, the outboxes and the keys of the tracker alone.\<close>

lemma pipeline_ok_quiet:
  assumes "pipeline_ok s" and "ap_aggregator (rn_app s') = ap_aggregator (rn_app s)"
    and "ap_tracker_chan (rn_app s') = ap_tracker_chan (rn_app s)"
    and "tracked (ap_tracker (rn_app s')) = tracked (ap_tracker (rn_app s))"
    and "rn_outbox s' = rn_outbox s" and "length (rn_queues s') = length (rn_queues s)"
    and "\<forall>i<janitor_id s. \<forall>t\<in>set (rn_queues s' ! i). t \<in> set (rn_queues s ! i) \<or> tick_fit t \<and> dispatch_index (janitor_id s) (mt_symbol t) = i"
    and "\<forall>t\<in>set (rn_ticks s'). t \<in> set (rn_ticks s) \<or> tick_fit t"
  shows "pipeline_ok s'"
proof -
  have j: "janitor_id s' = janitor_id s" using assms(6) by (simp add: janitor_id_def)
  have "in_flight sy s' = in_flight sy s" for sy using assms(3,5) j by (simp add: in_flight_def)
  then show ?thesis using assms j unfolding pipeline_ok_def by (simp only: j) blast
qed

lemma dispatch_pipeline:
  assumes "pipeline_ok s" shows "pipeline_ok (worker_step Dispatch s)"
proof (cases "rn_ticks s = [] \<or> rn_phase s \<notin> {Serving, IntakeStopped}")
  case True
  then show ?thesis using assms by (cases "rn_ticks s") auto
next
  case False
  then obtain t ts where t: "rn_ticks s = t # ts" by (cases "rn_ticks s") auto
  let ?n = "janitor_id s"
  have n: "0 < ?n" "?n < 2 ^ 32" and fit: "tick_fit t" using assms t by (simp_all add: pipeline_ok_def)
  have idx: "dispatch_index ?n (mt_symbol t) < ?n" by (rule dispatch_index_less [OF n])
  have "worker_step Dispatch s = s\<lparr>rn_ticks := ts, rn_queues := dispatch_tick t (rn_queues s)\<rparr>"
    using False t n by (simp add: janitor_id_def)
  then show ?thesis
    by (rule ssubst) (rule pipeline_ok_quiet [OF assms],
      use t fit idx in \<open>auto simp: dispatch_tick_def Let_def janitor_id_def nth_list_update split: if_splits\<close>)
qed

lemma pipeline_okD:
  assumes "pipeline_ok s"
  shows "agg_ok (ap_aggregator (rn_app s))" "0 < janitor_id s" "janitor_id s < 2 ^ 32"
    "life_run (in_flight sy s) (of_symbol sy (tracked (ap_tracker (rn_app s)))) = Some (of_symbol sy (open_keys (ap_aggregator (rn_app s))))"
    "dispatch_index (janitor_id s) sy < janitor_id s"
  using assms dispatch_index_less [of "janitor_id s" sy] by (simp_all add: pipeline_ok_def)

lemma about_other: "\<forall>e\<in>set evs. event_symbol e = a \<Longrightarrow> b \<noteq> a \<Longrightarrow> about b evs = []"
  by (simp add: filter_empty_conv)

lemma about_own: "\<forall>e\<in>set evs. event_symbol e = a \<Longrightarrow> about a evs = evs"
  by simp

lemma ingest_pipeline:
  assumes "pipeline_ok s" and "orderly (Worker (Ingest i T)) s"
  shows "pipeline_ok (worker_step (Ingest i T) s)"
proof (cases "\<not> i < length (rn_queues s) \<or> rn_outbox s i \<noteq> [] \<or> rn_phase s \<notin> {Serving, IntakeStopped} \<or> rn_queues s ! i = []")
  case True
  then show ?thesis using assms by (cases "rn_queues s ! i") auto
next
  case False
  let ?n = "janitor_id s" and ?ag = "ap_aggregator (rn_app s)" and ?E = "agg_env_of T (rn_app s)"
  from False have i: "i < ?n" "rn_outbox s i = []" by (simp_all add: janitor_id_def)
  obtain t ts where q: "rn_queues s ! i = t # ts" using False by (cases "rn_queues s ! i") auto
  obtain ag evs where p: "process_tick ?E t ?ag = (ag, evs)" by fastforce
  let ?s = "s\<lparr>rn_app := (rn_app s)\<lparr>ap_aggregator := ag\<rparr>, rn_queues := (rn_queues s)[i := ts], rn_outbox := (rn_outbox s)(i := evs)\<rparr>"
  have st: "worker_step (Ingest i T) s = ?s" using False q p by simp
  have fit: "tick_fit t" "dispatch_index ?n (mt_symbol t) = i" using assms(1) i(1) q by (auto simp: pipeline_ok_def)
  have ord: "order_ok (ae_order ?E)" using assms(2) by (simp add: agg_env_of_def)
  have none: "about (mt_symbol t) (rn_outbox s ?n) = []" using assms(2) i(1) q by (simp add: janitor_id_def)
  have col: "CHR '':'' \<notin> set (normalize_symbol (mt_symbol t))" using fit(1) by (simp add: tick_fit_def)
  note life = process_tick_life [OF pipeline_okD(1) [OF assms(1)] ord col, unfolded p fst_conv snd_conv]
  have sym: "\<forall>e\<in>set evs. event_symbol e = mt_symbol t"
    using process_tick_symbol [OF pipeline_okD(1) [OF assms(1)] ord col] fit(1) by (simp add: p tick_fit_def)
  have run: "life_run (in_flight sy ?s) (of_symbol sy (tracked (ap_tracker (rn_app s)))) = Some (of_symbol sy (open_keys ag))" for sy
  proof (cases "sy = mt_symbol t")
    case True
    have "in_flight sy ?s = in_flight sy s @ evs"
      using i fit(2) none sym by (simp add: in_flight_def janitor_id_def True)
    then show ?thesis
      using life_run_trans [OF pipeline_okD(4) [OF assms(1)] life_run_symbol [OF life(2), of sy]] about_own [OF sym] True by simp
  next
    case False
    have "in_flight sy ?s = in_flight sy s"
      using i about_other [OF sym False] by (simp add: in_flight_def janitor_id_def)
    then show ?thesis
      using pipeline_okD(4) [OF assms(1), of sy] life_run_symbol [OF life(2), of sy] about_other [OF sym False] by simp
  qed
  have "dispatch_index ?n (event_symbol e) = j" if "j < ?n" "e \<in> set (((rn_outbox s)(i := evs)) j)" for j e
    using that assms(1) sym fit(2) by (cases "j = i") (auto simp: pipeline_ok_def)
  moreover have "tick_fit u \<and> dispatch_index ?n (mt_symbol u) = j" if "j < ?n" "u \<in> set ((rn_queues s)[i := ts] ! j)" for j u
    using that assms(1) q by (cases "j = i") (auto simp: pipeline_ok_def janitor_id_def)
  ultimately show ?thesis unfolding st using assms(1) life(1) run by (simp add: pipeline_ok_def janitor_id_def)
qed

lemma send_pipeline:
  assumes "pipeline_ok s" and "orderly (Worker (SendEvent i)) s"
  shows "pipeline_ok (worker_step (SendEvent i) s)"
proof (cases "janitor_id s < i \<or> rn_outbox s i = []")
  case in_range: False
  let ?n = "janitor_id s"
  obtain e es where Cons: "rn_outbox s i = e # es" using in_range by (cases "rn_outbox s i") auto
  let ?s = "s\<lparr>rn_app := (rn_app s)\<lparr>ap_tracker_chan := ap_tracker_chan (rn_app s) @ [e]\<rparr>, rn_outbox := (rn_outbox s)(i := es)\<rparr>"
  have st: "worker_step (SendEvent i) s = ?s" using in_range by (simp add: Cons)
  have fl: "in_flight sy ?s = in_flight sy s" for sy
  proof (cases "i < ?n")
    case True
    then have "dispatch_index ?n (event_symbol e) = i" using assms(1) Cons by (simp add: pipeline_ok_def)
    then show ?thesis using True Cons by (auto simp: in_flight_def janitor_id_def)
  next
    case False
    then have i: "i = ?n" "about (event_symbol e) (rn_outbox s (dispatch_index ?n (event_symbol e))) = []"
      using assms(2) Cons in_range by auto
    then show ?thesis using Cons pipeline_okD(5) [OF assms(1), of sy] by (auto simp: in_flight_def janitor_id_def)
  qed
  have "dispatch_index ?n (event_symbol e') = j" if "j < ?n" "e' \<in> set (((rn_outbox s)(i := es)) j)" for j e'
    using that assms(1) Cons by (auto simp: pipeline_ok_def split: if_splits)
  then show ?thesis unfolding st using assms(1) fl by (simp add: pipeline_ok_def janitor_id_def)
qed (use assms in auto)

lemma janitor_turn_life:
  assumes "agg_ok ag" and "order_ok (ae_order E)" and "janitor_turn now (E, ag) = ((E', ag'), evs)"
  shows "agg_ok ag' \<and> life_run evs (open_keys ag) = Some (open_keys ag')"
proof -
  obtain E1 where E1: "each_shard (janitor_shard E1 now) [0..<num_shards] ag = (ag', evs)" "ae_order E1 = ae_order E"
    using assms(3) by (auto simp: janitor_turn_def janitor_def Let_def split: prod.splits)
  have "agg_ok (fst (each_shard (janitor_shard E1 now) [0..<num_shards] ag)) \<and>
      life_run (snd (each_shard (janitor_shard E1 now) [0..<num_shards] ag)) (open_keys ag)
        = Some (open_keys (fst (each_shard (janitor_shard E1 now) [0..<num_shards] ag)))"
    by (rule each_shard_life [OF janitor_shard_ok assms(1)]) (simp_all add: E1(2) assms(2))
  then show ?thesis by (simp add: E1(1))
qed

text \<open>New events of goroutine \<open>Run\<close> or the janitor go behind everything in flight.\<close>

lemma outbox_pipeline:
  assumes "pipeline_ok s" and "rn_outbox s (janitor_id s) = []"
    and "agg_ok ag" and "life_run evs (open_keys (ap_aggregator (rn_app s))) = Some (open_keys ag)"
    and "ap_aggregator a = ag" and "ap_tracker_chan a = ap_tracker_chan (rn_app s)" and "ap_tracker a = ap_tracker (rn_app s)"
  shows "pipeline_ok (s\<lparr>rn_app := a, rn_outbox := (rn_outbox s)(janitor_id s := evs)\<rparr>)"
proof -
  let ?s = "s\<lparr>rn_app := a, rn_outbox := (rn_outbox s)(janitor_id s := evs)\<rparr>"
  have "in_flight sy ?s = in_flight sy s @ about sy evs" for sy
    using pipeline_okD(5) [OF assms(1), of sy] assms(2,6) by (simp add: in_flight_def janitor_id_def)
  then have "life_run (in_flight sy ?s) (of_symbol sy (tracked (ap_tracker a))) = Some (of_symbol sy (open_keys ag))" for sy
    using life_run_trans [OF pipeline_okD(4) [OF assms(1)] life_run_symbol [OF assms(4), of sy]] by (simp add: assms(7))
  then show ?thesis using assms(1,3,5) by (simp add: pipeline_ok_def janitor_id_def)
qed

lemma janitor_pipeline:
  assumes "pipeline_ok s" and "orderly (Worker (JanitorTurn T now)) s"
  shows "pipeline_ok (worker_step (JanitorTurn T now) s)"
proof (cases "rn_phase s \<noteq> Serving \<or> rn_outbox s (janitor_id s) \<noteq> []")
  case False
  obtain E ag evs where j: "janitor_turn now (agg_env_of T (rn_app s), ap_aggregator (rn_app s)) = ((E, ag), evs)"
    by (metis surj_pair)
  have life: "agg_ok ag" "life_run evs (open_keys (ap_aggregator (rn_app s))) = Some (open_keys ag)"
    using janitor_turn_life [OF pipeline_okD(1) [OF assms(1)] _ j] assms(2) by (simp_all add: agg_env_of_def)
  have "rn_phase s = Serving" "rn_outbox s (janitor_id s) = []" using False by simp_all
  then show ?thesis
    using outbox_pipeline [OF assms(1) _ life, of "(set_app_funding (the (ae_funding E)) (rn_app s))
        \<lparr>ap_volume := the (ae_volume E), ap_aggregator := ag\<rparr>"] j
    by (simp add: set_app_funding_def)
qed (use assms in simp)

lemma transition_key:
  assumes "life_step e (dom (map_of active)) = Some K"
    and "\<And>sig. map_of active (route_key e) = Some sig \<Longrightarrow> sg_opened_at sig \<le> ev_timestamp e"
  shows "dom (map_of (tr_active (tracker_transition E uuid e active))) = K"
proof -
  have "\<not> time_before (ev_timestamp e) (sg_opened_at sig)" if "map_of active (route_key e) = Some sig" for sig
    using assms(2) [OF that] by (simp add: time_before_def)
  then show ?thesis using assms(1)
    by (auto simp: tracker_transition_def Let_def open_transition_def no_change_def map_of_mput map_of_mdel
        split: lifecycle.splits option.splits if_splits)
qed

lemma track_pipeline:
  assumes "pipeline_ok s" and "orderly (Worker (Track H)) s"
  shows "pipeline_ok (worker_step (Track H) s)"
proof (cases "ap_tracker_chan (rn_app s)")
  case (Cons e es)
  let ?tk = "ap_tracker (rn_app s)" and ?sy = "event_symbol e"
  define tk where "tk = handle_event (tracker_env_of H (rn_app s)) (hd_uuid H) (hd_ready H) e ?tk"
  let ?s = "s\<lparr>rn_app := (rn_app s)\<lparr>ap_tracker_chan := es, ap_tracker := tk\<rparr>\<rparr>"
  have st: "worker_step (Track H) s = ?s" by (simp add: Cons tk_def)
  have t: "proper_event e" "\<And>sig. map_of (tk_active ?tk) (route_key e) = Some sig \<Longrightarrow> sg_opened_at sig \<le> ev_timestamp e"
    using assms(2) Cons by (simp_all add: timely_def)
  have fl: "in_flight sy s = (if sy = ?sy then e # in_flight sy ?s else in_flight sy ?s)" for sy
    using Cons by (auto simp: in_flight_def janitor_id_def)
  from pipeline_okD(4) [OF assms(1), of ?sy] fl [of ?sy] obtain K1 where k1: "life_step e (of_symbol ?sy (tracked ?tk)) = Some K1"
    "life_run (in_flight ?sy ?s) K1 = Some (of_symbol ?sy (open_keys (ap_aggregator (rn_app s))))"
    by (auto simp del: life_step.simps split: option.splits)
  from life_step_whole [OF k1(1)] obtain K where k: "life_step e (tracked ?tk) = Some K" "of_symbol ?sy K = K1"
    "\<And>sy. sy \<noteq> ?sy \<Longrightarrow> of_symbol sy K = of_symbol sy (tracked ?tk)" by blast
  have "tracked tk = dom (map_of (tr_active (tracker_transition (tracker_env_of H (rn_app s)) (hd_uuid H) e (tk_active ?tk))))"
    unfolding tk_def by (rule tracked_handle) (use t(1) in \<open>auto simp: proper_event_def\<close>)
  then have tk: "tracked tk = K" using transition_key [OF k(1) [unfolded tracked_def] t(2)] by simp
  have "life_run (in_flight sy ?s) (of_symbol sy (tracked tk)) = Some (of_symbol sy (open_keys (ap_aggregator (rn_app s))))" for sy
    using k1(2) k(2,3) tk pipeline_okD(4) [OF assms(1), of sy] fl [of sy] by (cases "sy = ?sy") simp_all
  then show ?thesis unfolding st using assms(1) by (simp add: pipeline_ok_def janitor_id_def)
qed (use assms in simp)

lemma pipeline_ok_phase [simp]: "pipeline_ok (s\<lparr>rn_phase := p\<rparr>) = pipeline_ok s"
  by (simp add: pipeline_ok_def janitor_id_def in_flight_def)

text \<open>Changes of the application that leave the three objects of the pipeline alone.\<close>

definition same_pipeline :: "application \<Rightarrow> application \<Rightarrow> bool" where
  "same_pipeline a a' \<longleftrightarrow> ap_aggregator a' = ap_aggregator a \<and> ap_tracker_chan a' = ap_tracker_chan a
     \<and> tracked (ap_tracker a') = tracked (ap_tracker a)"

lemma same_pipeline_refl [simp]: "same_pipeline a a"
  by (simp add: same_pipeline_def)

lemma same_pipeline_trans [trans]: "same_pipeline a b \<Longrightarrow> same_pipeline b c \<Longrightarrow> same_pipeline a c"
  by (simp add: same_pipeline_def)

lemma pipeline_ok_app: "pipeline_ok s \<Longrightarrow> same_pipeline (rn_app s) a \<Longrightarrow> pipeline_ok (s\<lparr>rn_app := a\<rparr>)"
  by (rule pipeline_ok_quiet [of s]) (auto simp: same_pipeline_def)

lemma user_frame_pipeline: "user_frame chat a a' \<Longrightarrow> same_pipeline a a'"
  unfolding user_frame_def by (erule conjE, erule ssubst) (simp add: same_pipeline_def)

lemma admin_pipeline: "same_pipeline a (fst (admin_command E cmd args a))"
proof -
  have "same_pipeline a (fst (cmd_sethardspread E args a))"
    unfolding cmd_sethardspread_def Let_def
    by (auto simp: case_prod_beta same_pipeline_def set_app_funding_def persist_setting_def split: list.split option.split sum.split)
  moreover have "same_pipeline a (fst (cmd_setfees E args a))"
    unfolding cmd_setfees_def Let_def
    by (auto simp: case_prod_beta same_pipeline_def persist_setting_def split: sum.split)
  moreover have "same_pipeline a (fst (cmd_addex E args a))" "same_pipeline a (fst (cmd_rmex E args a))"
    by (simp_all add: cmd_addex_def cmd_rmex_def Let_def case_prod_beta same_pipeline_def split: list.split option.split)
  ultimately show ?thesis by (simp add: admin_command_def)
qed

lemma command_pipeline: 
  assumes "app_ok a" shows "same_pipeline a (command_step x a)"
proof -
  obtain E botid chat name cmd args where x: "x = (E, botid, chat, name, cmd, args)" by (cases x)
  have u: "us_chat_id u = chat" if "get_user (ap_users a) chat = Some u" for u
    using get_user_chat that assms by (auto simp: app_ok_def)
  note start = cmd_start_effect [THEN conjunct1, THEN user_frame_pipeline]
    and stop = cmd_stop_effect [THEN conjunct1, THEN user_frame_pipeline]
    and own = user_command_effect [OF u, THEN conjunct1, THEN user_frame_pipeline]
  from handle_command_cases [of E botid chat name cmd args a] show ?thesis
    unfolding x command_step_def prod.case
    by (elim disjE exE conjE) (simp_all add: admin_pipeline start stop own)
qed

lemma flush_signals_pipeline: "same_pipeline a (flush_signals V a)"
  by (simp add: flush_signals_def same_pipeline_def tracked_def split: option.split persistence_sink.split prod.split)

lemma close_persistence_pipeline: "same_pipeline a (close_persistence a)"
  by (simp add: close_persistence_def same_pipeline_def tracked_def split: option.split persistence_sink.split)

lemma close_app_router_pipeline: "same_pipeline a (close_app_router a)"
  by (simp add: close_app_router_def same_pipeline_def tracked_def)

lemma stop_pipeline:
  assumes "pipeline_ok s" and "orderly (Stop x) s" shows "pipeline_ok (stop_step x s)"
proof (cases x)
  case (StopIntake ord wait)
  then show ?thesis using assms pipeline_ok_app [OF assms(1), of "(rn_app s)\<lparr>ap_accepting := False,
      ap_conns := fst (stop_all ord wait (ap_conns (rn_app s)))\<rparr>"] by (simp add: same_pipeline_def)
next
  case StopWorkers
  have "pipeline_ok (s\<lparr>rn_ticks := [], rn_queues := map (\<lambda>q. []) (rn_queues s), rn_phase := WorkersStopped\<rparr>)"
    by (rule pipeline_ok_quiet [OF assms(1)]) (simp_all add: janitor_id_def)
  with assms(1) StopWorkers show ?thesis by simp
next
  case (FlushRoutes ord now)
  show ?thesis
  proof (cases "rn_phase s = WorkersStopped \<and> rn_outbox s (janitor_id s) = []")
    case True
    obtain ag evs where f: "flush_active ord now now (ap_aggregator (rn_app s)) = (ag, evs)" by fastforce
    have "agg_ok ag \<and> life_run evs (open_keys (ap_aggregator (rn_app s))) = Some (open_keys ag)"
      using agg_step_life [OF pipeline_okD(1) [OF assms(1)], of "OpFlush ord now now"] assms(2) FlushRoutes f by simp
    then have "pipeline_ok (s\<lparr>rn_app := (rn_app s)\<lparr>ap_aggregator := ag\<rparr>, rn_outbox := (rn_outbox s)(janitor_id s := evs)\<rparr>)"
      by (intro outbox_pipeline [OF assms(1)]) (simp_all add: True)
    then have "pipeline_ok ((s\<lparr>rn_app := (rn_app s)\<lparr>ap_aggregator := ag\<rparr>, rn_outbox := (rn_outbox s)(janitor_id s := evs)\<rparr>)
        \<lparr>rn_phase := RoutesFlushed\<rparr>)" by simp
    with True f FlushRoutes show ?thesis by simp
  qed (use assms FlushRoutes in auto)
next
  case (CloseDown V)
  have "same_pipeline (rn_app s) (close_app_router (flush_signals V (close_persistence (rn_app s))))"
    using close_persistence_pipeline flush_signals_pipeline close_app_router_pipeline same_pipeline_trans by meson
  from pipeline_ok_app [OF assms(1) this] have "pipeline_ok ((s\<lparr>rn_app := close_app_router
      (flush_signals V (close_persistence (rn_app s)))\<rparr>)\<lparr>rn_phase := Closed\<rparr>)" by simp
  with assms(1) CloseDown show ?thesis by simp
qed (use assms in simp)

lemma outside_pipeline:
  assumes "pipeline_ok s" and "app_ok (rn_app s)" and "orderly (Outside x) s" shows "pipeline_ok (outside_step x s)"
proof (cases x)
  case (Arrive t)
  have "pipeline_ok (s\<lparr>rn_ticks := rn_ticks s @ [t]\<rparr>)"
    by (rule pipeline_ok_quiet [OF assms(1)]) (use assms(3) Arrive in auto)
  with assms(1) Arrive show ?thesis by simp
qed (use pipeline_ok_app [OF assms(1)] command_pipeline [OF assms(2)] flush_signals_pipeline
     in \<open>simp_all add: same_pipeline_def set_app_funding_def\<close>)

section \<open>The invariant of the application\<close>

lemma floor_step:
  assumes "\<forall>c. x \<noteq> OpConfig c" shows "funding_at_floor cfg fm \<Longrightarrow> funding_at_floor cfg (funding_step x fm)"
proof -
  have "fm_config (funding_step x fm) = fm_config fm"
    using assms by (cases x) (auto simp: update_funding_def set_stream_health_def evict_stale_def Let_def split: option.split sum.splits)
  then show "funding_at_floor cfg fm \<Longrightarrow> ?thesis" by (simp add: funding_at_floor_def funding_step_ok)
qed

lemma app_ok_funding_step:
  assumes "app_ok a" and "\<forall>c. x \<noteq> OpConfig c"
  shows "app_ok (set_app_funding (funding_step x (app_funding a)) a)"
proof -
  have "manager_ok (ap_conns a)" using assms(1) by (simp add: app_ok_def)
  then have "manager_ok ((ap_conns a)\<lparr>cm_funding_sink := Some fm\<rparr>)" for fm by (rule manager_ok_shrinks) simp_all
  then show ?thesis using assms(1) floor_step [OF assms(2)] app_ok_funding [OF assms(1)]
    by (simp add: set_app_funding_def app_ok_def)
qed

text \<open>Changes that leave the configuration, the users and the connectors alone.\<close>

lemma app_ok_same:
  "app_ok a \<Longrightarrow> ap_config b = ap_config a \<Longrightarrow> ap_users b = ap_users a \<Longrightarrow> ap_conns b = ap_conns a \<Longrightarrow> app_ok b"
  by (simp add: app_ok_sink)

lemma sink_kept_entries:
  "sink_kept cfg cm \<Longrightarrow> sink_kept cfg (fst (stop_entries wait es cm))"
proof (induction wait es cm rule: stop_entries.induct)
  case (2 wait n i es cm)
  obtain cm1 err where st: "entry_stop (wait i) i cm = (cm1, err)" by fastforce
  from 2(1) [OF st [symmetric]] sink_kept_entry [OF 2(2) st] st show ?case by (simp add: case_prod_beta)
qed simp

lemma sink_kept_stop_all: "sink_kept cfg cm \<Longrightarrow> sink_kept cfg (fst (stop_all ord wait cm))"
proof -
  assume k: "sink_kept cfg cm"
  then have "sink_kept cfg (fst (stop_entries wait (ord (cm_entries cm)) (cm\<lparr>cm_stopped := True, cm_entries := []\<rparr>)))"
    by (intro sink_kept_entries) (simp add: sink_kept_def)
  with k show ?thesis
    by (simp add: stop_all_def Let_def case_prod_beta sink_kept_def)
qed

lemma flush_signals_app: "ap_config (flush_signals V a) = ap_config a" "ap_users (flush_signals V a) = ap_users a"
  "ap_conns (flush_signals V a) = ap_conns a" "ap_accepting (flush_signals V a) = ap_accepting a"
  by (simp_all add: flush_signals_def split: option.split persistence_sink.split prod.split)

lemma close_persistence_app: "ap_config (close_persistence a) = ap_config a" "ap_users (close_persistence a) = ap_users a"
  "ap_conns (close_persistence a) = ap_conns a" "ap_accepting (close_persistence a) = ap_accepting a"
  by (simp_all add: close_persistence_def split: option.split persistence_sink.split)

lemma janitor_turn_env:
  assumes "janitor_turn now (E, ag) = ((E', ag'), evs)"
  shows "ae_funding E' = map_option (evict_stale now) (ae_funding E)"
  using assms by (auto simp: janitor_turn_def Let_def split: prod.splits)

lemma janitor_app_ok: "app_ok (rn_app s) \<Longrightarrow> app_ok (rn_app (worker_step (JanitorTurn T now) s))"
proof -
  assume a: "app_ok (rn_app s)"
  obtain E ag evs where j: "janitor_turn now (agg_env_of T (rn_app s), ap_aggregator (rn_app s)) = ((E, ag), evs)"
    by (metis surj_pair)
  have "ae_funding E = Some (funding_step (OpEvict now) (app_funding (rn_app s)))"
    using janitor_turn_env [OF j] by (simp add: agg_env_of_def)
  then show ?thesis using a j app_ok_funding_step [OF a, of "OpEvict now"]
    by (auto intro: app_ok_same [where a = "set_app_funding (evict_stale now (app_funding (rn_app s))) (rn_app s)"])
qed

lemma run_app_ok:
  assumes "app_ok (rn_app s)" and "\<forall>ord wait. x = Stop (StopIntake ord wait) \<longrightarrow> order_ok ord"
  shows "app_ok (rn_app (run_step x s))"
proof (cases x)
  case (Worker w)
  show ?thesis
  proof (cases w)
    case (JanitorTurn T now)
    with Worker janitor_app_ok [OF assms(1)] show ?thesis by (simp only: run_step.simps)
  qed (use Worker assms(1) in \<open>auto intro: app_ok_same split: list.split prod.split\<close>)
next
  case (Outside w)
  then show ?thesis using assms(1) command_step_ok app_ok_funding_step [OF assms(1)]
    by (cases w) (auto intro: app_ok_same simp: flush_signals_app simp del: funding_step.simps)
next
  case (Stop w)
  show ?thesis
  proof (cases w)
    case (StopIntake ord wait)
    then show ?thesis using assms Stop sink_kept_stop_all manager_ok_stop_all by (simp add: app_ok_sink)
  next
    case (CloseDown V)
    then show ?thesis using assms(1) Stop
      by (auto intro: app_ok_same simp: close_app_router_def flush_signals_app close_persistence_app)
  qed (use Stop assms(1) in \<open>auto intro: app_ok_same split: prod.split\<close>)
qed

section \<open>The phases\<close>

definition phase_ok :: "running \<Rightarrow> bool" where
  "phase_ok s \<longleftrightarrow> (rn_phase s \<noteq> Serving \<longrightarrow> \<not> ap_accepting (rn_app s))
     \<and> (rn_phase s \<notin> {Serving, RoutesFlushed} \<longrightarrow> rn_outbox s (janitor_id s) = [])
     \<and> (rn_phase s \<notin> {Serving, IntakeStopped} \<longrightarrow> (\<forall>i<janitor_id s. rn_outbox s i = []))
     \<and> (rn_phase s \<in> {RoutesFlushed, Closed} \<longrightarrow> open_keys (ap_aggregator (rn_app s)) = {})
     \<and> (rn_phase s = Closed \<longrightarrow> ap_tracker_chan (rn_app s) = [])"

lemma refused_command: "\<not> ap_accepting a \<Longrightarrow> command_step x a = a"
  by (simp add: command_step_def handle_command_def split: prod.split)

lemma phase_early: "rn_phase s \<in> {Serving, IntakeStopped} \<Longrightarrow>
  phase_ok s \<longleftrightarrow> (rn_phase s = IntakeStopped \<longrightarrow> \<not> ap_accepting (rn_app s) \<and> rn_outbox s (janitor_id s) = [])"
  by (auto simp: phase_ok_def)

lemma phase_worker: "phase_ok s \<Longrightarrow> phase_ok (worker_step x s)"
proof (cases x)
  case Dispatch
  then show "phase_ok s \<Longrightarrow> ?thesis"
    by (cases "rn_ticks s") (auto simp: phase_ok_def janitor_id_def dispatch_tick_def Let_def)
next
  case (Ingest i T)
  then show "phase_ok s \<Longrightarrow> ?thesis"
  proof (cases "\<not> i < length (rn_queues s) \<or> rn_outbox s i \<noteq> [] \<or> rn_phase s \<notin> {Serving, IntakeStopped} \<or> rn_queues s ! i = []")
    case False
    then obtain t ts where q: "rn_queues s ! i = t # ts" by (cases "rn_queues s ! i") auto
    obtain ag evs where p: "process_tick (agg_env_of T (rn_app s)) t (ap_aggregator (rn_app s)) = (ag, evs)" by fastforce
    have "rn_phase s \<in> {Serving, IntakeStopped}" "i \<noteq> janitor_id s" using False by (auto simp: janitor_id_def)
    then show "phase_ok s \<Longrightarrow> ?thesis" using False Ingest q p by (simp add: phase_early janitor_id_def)
  qed (cases "rn_queues s ! i"; simp)
next
  case (SendEvent i)
  then show "phase_ok s \<Longrightarrow> ?thesis"
    by (cases "rn_outbox s i") (auto simp: phase_ok_def janitor_id_def not_less le_less)
next
  case (JanitorTurn T now)
  then show "phase_ok s \<Longrightarrow> ?thesis"
    by (auto simp: phase_ok_def janitor_id_def case_prod_beta)
next
  case (Track H)
  then show "phase_ok s \<Longrightarrow> ?thesis"
    by (cases "ap_tracker_chan (rn_app s)") (auto simp: phase_ok_def janitor_id_def)
qed

lemma phase_outside: 
  assumes "phase_ok s" and "app_ok (rn_app s)" shows "phase_ok (outside_step x s)"
proof (cases x)
  case (Command c)
  have "same_pipeline (rn_app s) (command_step c (rn_app s))" by (rule command_pipeline [OF assms(2)])
  moreover have "rn_phase s \<noteq> Serving \<Longrightarrow> command_step c (rn_app s) = rn_app s"
    using assms(1) refused_command by (simp add: phase_ok_def)
  ultimately show ?thesis using assms(1) Command
    by (cases "rn_phase s = Serving") (auto simp: phase_ok_def janitor_id_def)
next
  case (FlushSignals V)
  then show ?thesis using assms(1) flush_signals_pipeline [of "rn_app s" V]
    by (auto simp: phase_ok_def janitor_id_def flush_signals_app same_pipeline_def)
qed (use assms(1) in \<open>auto simp: phase_ok_def janitor_id_def set_app_funding_def\<close>)

lemma phase_stop:
  assumes "phase_ok s" and "agg_ok (ap_aggregator (rn_app s))" shows "phase_ok (stop_step x s)"
proof (cases x)
  case (FlushRoutes ord now)
  then show ?thesis using assms open_keys_flush [OF assms(2), of ord now now]
    by (auto simp: phase_ok_def janitor_id_def case_prod_beta)
next
  case StopWorkers
  then show ?thesis using assms(1) by (auto simp: phase_ok_def janitor_id_def workers_idle_def list_all_iff)
next
  case (CloseDown V)
  have "same_pipeline (rn_app s) (close_app_router (flush_signals V (close_persistence (rn_app s))))"
    using close_persistence_pipeline flush_signals_pipeline close_app_router_pipeline same_pipeline_trans by meson
  moreover have "ap_accepting (close_app_router (flush_signals V (close_persistence a))) = ap_accepting a" for a
    by (simp add: close_app_router_def flush_signals_app close_persistence_app)
  ultimately show ?thesis using assms(1) CloseDown by (auto simp: phase_ok_def janitor_id_def same_pipeline_def)
qed (use assms(1) in \<open>auto simp: phase_ok_def janitor_id_def\<close>)

section \<open>Runs\<close>

definition system_ok :: "running \<Rightarrow> bool" where
  "system_ok s \<longleftrightarrow> pipeline_ok s \<and> app_ok (rn_app s) \<and> phase_ok s"

lemma system_step:
  assumes "system_ok s" and "orderly x s" shows "system_ok (run_step x s)"
proof -
  have ok: "pipeline_ok s" "app_ok (rn_app s)" "phase_ok s" using assms(1) by (simp_all add: system_ok_def)
  have "pipeline_ok (run_step x s)"
  proof (cases x)
    case (Worker w)
    with assms(2) ok(1) show ?thesis
      by (cases w) (simp_all only: run_step.simps dispatch_pipeline ingest_pipeline send_pipeline janitor_pipeline track_pipeline)
  qed (use ok assms(2) in \<open>simp_all only: run_step.simps outside_pipeline stop_pipeline\<close>)
  moreover have "app_ok (rn_app (run_step x s))"
    by (rule run_app_ok [OF ok(2)]) (use assms(2) in auto)
  moreover have "phase_ok (run_step x s)"
    using phase_worker phase_outside phase_stop ok pipeline_okD(1) [OF ok(1)] by (cases x) simp_all
  ultimately show ?thesis by (simp add: system_ok_def)
qed

lemma system_run: "system_ok s \<Longrightarrow> orderly_run ops s \<Longrightarrow> system_ok (fold run_step ops s)"
  by (induction ops arbitrary: s) (simp_all add: system_step)

text \<open>An application that has just started: nothing is tracked or in flight.\<close>

definition fresh_pipeline :: "application \<Rightarrow> bool" where
  "fresh_pipeline a \<longleftrightarrow> ap_aggregator a = empty_aggregator \<and> tk_active (ap_tracker a) = [] \<and> ap_tracker_chan a = []"

lemma worker_count_range: "8 \<le> worker_count cpus \<and> worker_count cpus \<le> 128"
  by (simp add: worker_count_def Let_def)

lemma system_ok_fresh:
  assumes "app_ok a" and "fresh_pipeline a"
  shows "system_ok (running_of (nat (worker_count cpus)) a)"
proof -
  let ?n = "nat (worker_count cpus)"
  have n: "?n \<noteq> 0" "?n \<le> 128" using worker_count_range [of cpus] by linarith+
  have "of_symbol sy {} = {}" for sy by simp
  moreover have "tracked (ap_tracker a) = {}" using assms(2) by (simp add: fresh_pipeline_def tracked_def)
  ultimately have "pipeline_ok (running_of ?n a)" using n assms(2)
    by (simp add: pipeline_ok_def running_of_def janitor_id_def in_flight_def fresh_pipeline_def agg_ok_empty open_keys_empty)
  moreover have "phase_ok (running_of ?n a)" by (simp add: phase_ok_def running_of_def)
  ultimately show ?thesis using assms(1) by (simp add: system_ok_def running_of_def)
qed

section \<open>Properties\<close>

text \<open>
  C1. The goroutines agree: whatever interleaving of ticks, sends, janitor turns, tracker steps,
  commands, adapter reports, database flushes and stages of the shutdown the application has gone through from
  an empty pipeline, for a symbol of
  which no event is in flight the tracker's active signals are exactly the routes the
  aggregator holds active. The run has to be orderly (\<open>orderly_run\<close>), on four points the program leaves to
  chance: the janitor's closing of a route of a symbol and the events the symbol's worker sends do not overtake each other
  (\<open>overtaken_close_loses_route\<close>); no event is older than the signal it is about when the tracker handles it
  (\<open>early_close_dropped\<close>); the sends of the shutdown's flush of the routes are not cut by its timeout
  (\<open>cut_flush_keeps_signals\<close>); and the symbols of arriving ticks are in normal form, as the adapters send them. The orders of
  the loops over maps are permutations.
\<close>

theorem running_agreement:
  assumes "app_ok a" and "fresh_pipeline a" and "s = fold run_step ops (running_of (nat (worker_count cpus)) a)"
    and "orderly_run ops (running_of (nat (worker_count cpus)) a)" and "in_flight (key_symbol k) s = []"
  shows "k \<in> tracked (ap_tracker (rn_app s)) \<longleftrightarrow> k \<in> open_keys (ap_aggregator (rn_app s))"
proof -
  have "system_ok s" unfolding assms(3) by (rule system_run [OF system_ok_fresh [OF assms(1,2)] assms(4)])
  then have "pipeline_ok s" by (simp add: system_ok_def)
  from pipeline_okD(4) [OF this, of "key_symbol k"] assms(5)
  have "of_symbol (key_symbol k) (tracked (ap_tracker (rn_app s))) = of_symbol (key_symbol k) (open_keys (ap_aggregator (rn_app s)))"
    by simp
  then show ?thesis by (auto simp: set_eq_iff)
qed

text \<open>Nothing is tracked once the shutdown is through.\<close>

lemma closed_tracks_nothing:
  assumes "system_ok s" and "rn_phase s = Closed" shows "tracked (ap_tracker (rn_app s)) = {}"
proof -
  have ok: "pipeline_ok s" "phase_ok s" using assms(1) by (simp_all add: system_ok_def)
  have e: "open_keys (ap_aggregator (rn_app s)) = {}" "ap_tracker_chan (rn_app s) = []"
    "rn_outbox s (janitor_id s) = []" "\<forall>i<janitor_id s. rn_outbox s i = []"
    using ok(2) assms(2) by (simp_all add: phase_ok_def)
  have "of_symbol sy (tracked (ap_tracker (rn_app s))) = {}" for sy
  proof -
    have "in_flight sy s = []" using e pipeline_okD(5) [OF ok(1), of sy] by (simp add: in_flight_def)
    then show ?thesis using pipeline_okD(4) [OF ok(1), of sy] e(1) by simp
  qed
  then show ?thesis by (auto simp: of_symbol_def)
qed

text \<open>
  C7. A completed shutdown leaves nothing open: after any orderly run that ends with all stages of
  \<open>cleanup\<close>, no route is active in the aggregator, no signal is active in the tracker, the
  channel between them is empty and commands are refused. Orderly is as above: the order of the sends about
  a symbol is kept, no event is older than its signal, and the flush of the routes runs to its end before its timeout.
\<close>

theorem shutdown_leaves_nothing:
  assumes "app_ok a" and "fresh_pipeline a" and "s = fold run_step ops (running_of (nat (worker_count cpus)) a)"
    and "orderly_run ops (running_of (nat (worker_count cpus)) a)" and "rn_phase s = Closed"
  shows "tracked (ap_tracker (rn_app s)) = {} \<and> open_keys (ap_aggregator (rn_app s)) = {}
    \<and> ap_tracker_chan (rn_app s) = [] \<and> \<not> ap_accepting (rn_app s)"
proof -
  have ok: "system_ok s" unfolding assms(3) by (rule system_run [OF system_ok_fresh [OF assms(1,2)] assms(4)])
  then show ?thesis using closed_tracks_nothing [OF ok assms(5)] assms(5) by (simp add: system_ok_def phase_ok_def)
qed

text \<open>When the timeout cuts the flush of the routes, the signals of the routes it has closed stay tracked for good.\<close>

theorem cut_flush_keeps_signals:
  assumes "rn_phase s = RoutesFlushed" and "ap_tracker_chan (rn_app s) = []"
    and "s' = fold run_step [Stop FlushTimeout, Stop (CloseDown V)] s"
  shows "rn_phase s' = Closed \<and> tracked (ap_tracker (rn_app s')) = tracked (ap_tracker (rn_app s))"
proof -
  have "same_pipeline (rn_app s) (close_app_router (flush_signals V (close_persistence (rn_app s))))"
    using close_persistence_pipeline flush_signals_pipeline close_app_router_pipeline same_pipeline_trans by meson
  then show ?thesis using assms by (simp add: janitor_id_def same_pipeline_def)
qed

text \<open>
  One floor everywhere: whatever the application goes through after its start, orderly or not,
  the funding manager works with the hard floor of the configuration, at least one per cent.
\<close>

theorem funding_follows_floor:
  assumes "new_application cfg ra db = Inr b" and "\<forall>c. cfg = Some c \<longrightarrow> config_ok c"
    and "run_start S (Some ra) b = (a, None)"
    and "\<forall>ord wait. Stop (StopIntake ord wait) \<in> set ops \<longrightarrow> order_ok ord"
    and "a' = rn_app (fold run_step ops (running_of n a))"
  shows "\<exists>p. fm_config (app_funding a') = Some p \<and> fc_min_spread p = get_hard_min_spread (ap_config a') \<and> 1 / 100 \<le> fc_min_spread p"
proof -
  have "app_ok a" by (rule run_start_ok [OF app_ok_new [OF assms(1,2)] assms(3)])
  then have "app_ok (rn_app (running_of n a))" by (simp add: running_of_def)
  then have ok: "app_ok a'" unfolding assms(5) using assms(4)
  proof (induction ops arbitrary: a rule: rev_induct)
    case (snoc x xs)
    have "app_ok (rn_app (fold run_step xs (running_of n a)))" using snoc by auto
    then have "app_ok (rn_app (run_step x (fold run_step xs (running_of n a))))" by (rule run_app_ok) (use snoc.prems in auto)
    then show ?case by simp
  qed simp
  then have "hard_min_spread \<le> get_hard_min_spread (ap_config a')"
    by (simp add: app_ok_def config_ok_def get_hard_min_spread_def)
  then show ?thesis using app_ok_funding [OF ok]
    by (auto simp: funding_at_floor_def hard_min_spread_def split: option.splits)
qed

text \<open>
  Why the order matters: when the janitor's closing of a route and the worker's reopening of it
  reach the tracker in the wrong order, the tracker ignores the opening, then closes the
  signal, and is left without a route the aggregator holds active. In the right order it follows.
\<close>

theorem overtaken_close_loses_route:
  assumes "map_of (tk_active tk) (route_key op) = Some sig" and "route_key cl = route_key op"
    and "ev_lifecycle op = SignalOpened" and "ev_lifecycle cl = SignalClosed"
    and "proper_event op" and "proper_event cl" and "sg_opened_at sig \<le> ev_timestamp cl"
  shows "route_key op \<notin> tracked (handle_event E u r cl (handle_event E u' r op tk))
    \<and> route_key op \<in> tracked (handle_event E u' r op (handle_event E u r cl tk))"
proof -
  have ok: "\<not> (ev_timestamp e = 0 \<or> ev_symbol e = [] \<or> ev_spread e < 0)" if "proper_event e" for e
    using that by (auto simp: proper_event_def)
  have first: "handle_event E u' r op tk = tk"
    using assms(1,3) by (simp add: handle_event_def tracker_transition_def no_change_def persist_snapshot_def Let_def
        split: option.split)
  have "tracked (handle_event E u r cl tk) = tracked tk - {route_key op}"
    unfolding tracked_handle [OF ok [OF assms(6)]]
    using assms(1,2,4,7) by (simp add: tracker_transition_def Let_def time_before_def tracked_def) (auto simp: map_of_mdel split: if_splits)
  moreover have "route_key op \<in> tracked (handle_event E u' r op tk')" if "route_key op \<notin> tracked tk'" for tk'
    unfolding tracked_handle [OF ok [OF assms(5)]]
    using that assms(3) by (simp add: tracker_transition_def open_transition_def tracked_def domIff map_of_mput Let_def)
  ultimately show ?thesis by (simp add: first)
qed

section \<open>Witnesses\<close>

definition quiet_tick :: market_tick where
  "quiet_tick = (sample_tick ''OKX'' okx_quote)\<lparr>mt_symbol := ''BTCUSDT''\<rparr>"

definition sample_tick_env :: tick_env where
  "sample_tick_env = \<lparr>ti_dec = sample_lib, ti_clock = 6, ti_order = rev, ti_user_order = rev\<rparr>"

definition sample_save_env :: save_env where
  "sample_save_env = \<lparr>sv_dec = sample_lib, sv_pg = sample_pg, sv_out = (\<lambda>_. DbOk), sv_order = rev\<rparr>"

lemma quiet_tick_fit: "tick_fit quiet_tick"
  by (simp add: tick_fit_def quiet_tick_def string_eval normalize_symbol_def remove_chars_def)

lemma admin_app_ok: "app_ok admin_app"
  using sample_app_ok by (simp add: admin_app_def app_ok_sink users_ok_def)

lemma admin_app_fresh: "fresh_pipeline admin_app"
  by (simp add: fresh_pipeline_def admin_app_def sample_app_def new_tracker_def)

lemma flush_nothing: "\<forall>i. sh_active (ag_shards ag i) = [] \<Longrightarrow> snd (each_shard (flush_shard rev now) is ag) = []"
  by (induction "is" arbitrary: ag) (simp_all add: Let_def case_prod_beta flush_shard_def)

abbreviation stop_ops :: "run_op list" where
  "stop_ops \<equiv> [Outside (Arrive quiet_tick), Stop (StopIntake rev (\<lambda>_. (True, []))), Stop StopWorkers,
     Stop (FlushRoutes rev 9), Stop (CloseDown sample_save_env)]"

lemma quiet_stop:
  assumes "fresh_pipeline a"
  shows "orderly_run stop_ops (running_of 8 a) \<and> rn_phase (fold run_step stop_ops (running_of 8 a)) = Closed"
proof -
  obtain ag evs where f: "flush_active rev 9 9 empty_aggregator = (ag, evs)" by fastforce
  have "evs = []" using flush_nothing [of empty_aggregator 9 "[0..<num_shards]"] f
    by (simp add: flush_active_def Let_def is_zero_time_def) (simp add: empty_aggregator_def)
  then have f: "flush_active rev 9 9 (ap_aggregator a) = (ag, [])" "ap_tracker_chan a = []"
    using f assms by (simp_all add: fresh_pipeline_def)
  let ?a1 = "a\<lparr>ap_accepting := False, ap_conns := fst (stop_all rev (\<lambda>_. (True, [])) (ap_conns a))\<rparr>" and ?s = "running_of 8 a"
  let ?s2 = "?s\<lparr>rn_ticks := [quiet_tick], rn_app := ?a1, rn_phase := IntakeStopped\<rparr>"
  let ?s3 = "?s\<lparr>rn_app := ?a1, rn_phase := WorkersStopped\<rparr>"
  let ?s4 = "?s\<lparr>rn_app := ?a1\<lparr>ap_aggregator := ag\<rparr>, rn_phase := RoutesFlushed\<rparr>"
  have s: "run_step (Outside (Arrive quiet_tick)) ?s = ?s\<lparr>rn_ticks := [quiet_tick]\<rparr>"
    "run_step (Stop (StopIntake rev (\<lambda>_. (True, [])))) (?s\<lparr>rn_ticks := [quiet_tick]\<rparr>) = ?s2"
    "run_step (Stop StopWorkers) ?s2 = ?s3" "run_step (Stop (FlushRoutes rev 9)) ?s3 = ?s4"
    "rn_phase (run_step (Stop (CloseDown sample_save_env)) ?s4) = Closed"
  proof -
    show "run_step (Outside (Arrive quiet_tick)) ?s = ?s\<lparr>rn_ticks := [quiet_tick]\<rparr>" by (simp add: running_of_def)
    show "run_step (Stop (StopIntake rev (\<lambda>_. (True, [])))) (?s\<lparr>rn_ticks := [quiet_tick]\<rparr>) = ?s2" by (simp add: running_of_def)
    show "run_step (Stop StopWorkers) ?s2 = ?s3" by (simp add: running_of_def workers_idle_def list_all_iff)
    show "run_step (Stop (FlushRoutes rev 9)) ?s3 = ?s4" using f(1) by (simp add: running_of_def fun_upd_idem)
    show "rn_phase (run_step (Stop (CloseDown sample_save_env)) ?s4) = Closed" using f(2) by (simp add: running_of_def)
  qed
  have "orderly_run stop_ops ?s" unfolding orderly_run.simps s(1-4) using quiet_tick_fit by (simp add: order_ok_rev)
  moreover have "rn_phase (fold run_step stop_ops ?s) = Closed" using s(5) unfolding fold_simps s(1-4) .
  ultimately show ?thesis ..
qed

theorem funding_follows_floor_witness:
  "\<exists>b a p. new_application None all_abilities empty_database = Inr b \<and> run_start sample_start_env (Some all_abilities) b = (a, None)
     \<and> fm_config (app_funding (rn_app (fold run_step [Outside (HealthReport ''OKX'' True), Worker (JanitorTurn sample_tick_env 9)]
           (running_of 8 a)))) = Some p \<and> 1 / 100 \<le> fc_min_spread p"
proof -
  obtain b where b: "new_application None all_abilities empty_database = Inr b"
    by (simp add: new_application_def Let_def new_funding_manager_def config_normalize_def default_funding_config_def
        nano_second_def config_validate_def get_hard_min_spread_def new_screener_config_def hard_min_spread_def)
  obtain a where a: "run_start sample_start_env (Some all_abilities) b = (a, None)"
    using new_app_starts [OF b] by (auto simp: empty_database_def)
  let ?ops = "[Outside (HealthReport ''OKX'' True), Worker (JanitorTurn sample_tick_env 9)]"
  have "\<forall>ord wait. Stop (StopIntake ord wait) \<in> set ?ops \<longrightarrow> order_ok ord" by simp
  from funding_follows_floor [OF b _ a this refl, of 8] b a show ?thesis by blast
qed

definition reopening :: spread_event where
  "reopening = sample_route\<lparr>ev_lifecycle := SignalOpened\<rparr>"

definition closing :: spread_event where
  "closing = sample_route\<lparr>ev_lifecycle := SignalClosed\<rparr>"

theorem overtaken_close_loses_route_witness:
  "route_key reopening \<notin> tracked (handle_event notice_tracker_env ''s2'' True closing
     (handle_event notice_tracker_env ''s3'' True reopening
        (handle_event notice_tracker_env ''s1'' True reopening (new_tracker None None))))"
proof -
  let ?tk = "handle_event notice_tracker_env ''s1'' True reopening (new_tracker None None)"
  have e: "ev_lifecycle reopening = SignalOpened" "ev_lifecycle closing = SignalClosed" "route_key closing = route_key reopening"
    "ev_timestamp reopening = ev_timestamp closing" by (simp_all add: reopening_def closing_def)
  moreover have "proper_event reopening" "proper_event closing"
    by (simp_all add: reopening_def closing_def sample_route_def proper_event_def)
  ultimately have e: "ev_lifecycle reopening = SignalOpened" "ev_lifecycle closing = SignalClosed" "route_key closing = route_key reopening"
    "ev_timestamp reopening = ev_timestamp closing" "proper_event reopening" "proper_event closing" by blast+
  have "tk_active ?tk = [(route_key reopening, new_arbitrage_signal ''s1'' reopening (ev_timestamp closing))]"
    using e(1,4,5) by (simp add: handle_event_def tracker_transition_def open_transition_def new_tracker_def Let_def
        proper_event_def is_zero_time_def not_less)
  then have "map_of (tk_active ?tk) (route_key reopening) = Some (new_arbitrage_signal ''s1'' reopening (ev_timestamp closing))"
    by simp
  from overtaken_close_loses_route [OF this e(3,1,2,5,6)] show ?thesis by simp
qed

end
