(* ===== verification/Flush_Worker.thy ===== *)
theory Flush_Worker
  imports System
begin

text \<open>
  The goroutine of internal/app/signal_persistence_buffer.go that empties the buffer into the table of signals:
  \<open>Start\<close> with its ticker, its wake-ups and the final flush. The flush itself is in Persistence, the table in Repo. Here
  a flush is one event; what the tracker may put while a batch is being written is shown in Persistence.
\<close>

section \<open>The worker\<close>

text \<open>A flush of at most 500 signals per batch with what it meets at the database.\<close>

definition flush_once :: "save_env \<Rightarrow> persistence_buffer \<times> database \<Rightarrow> persistence_buffer \<times> database" where
  "flush_once V s =
     (case flush_loop (Suc (buffer_len (fst s))) (sv_order V) (repo_save V) 500 (fst s) (snd s) of
        None \<Rightarrow> s
      | Some (b, db, ok) \<Rightarrow> (b, db))"

text \<open>The tracker puts and the shutdown closes; the ticker and the wake-ups flush; the end of the context
  makes the worker flush once more, with a context of its own, and return.\<close>

datatype worker_event = WkPut signal | WkClose | WkFlush save_env | WkDone save_env

fun run_flush_worker ::
  "worker_event list \<Rightarrow> persistence_buffer \<times> database \<Rightarrow> (persistence_buffer \<times> database) \<times> bool" where
  "run_flush_worker [] s = (s, False)"
| "run_flush_worker (WkPut sig # es) s = run_flush_worker es (fst (put_signal sig (fst s)), snd s)"
| "run_flush_worker (WkClose # es) s = run_flush_worker es (close_buffer (fst s), snd s)"
| "run_flush_worker (WkFlush V # es) s = run_flush_worker es (flush_once V s)"
| "run_flush_worker (WkDone V # es) s = (flush_once V s, True)"

section \<open>What is in the table\<close>

text \<open>A row whose written columns are those of a signal.\<close>

definition shows_signal :: "dec_lib \<Rightarrow> pg_lib \<Rightarrow> signal \<Rightarrow> signal_row \<Rightarrow> bool" where
  "shows_signal D P sig row \<longleftrightarrow> (\<exists>r old. signal_row_of D P sig = Some r \<and> row = upsert_signal_row r old)"

definition accepts :: "save_env \<Rightarrow> signal \<Rightarrow> bool" where
  "accepts V sig \<longleftrightarrow> signal_row_of (sv_dec V) (sv_pg V) sig \<noteq> None \<and> sv_out V sig = DbOk"

definition stored :: "dec_lib \<Rightarrow> pg_lib \<Rightarrow> database \<Rightarrow> string \<Rightarrow> signal \<Rightarrow> bool" where
  "stored D P db k sig \<longleftrightarrow> (\<exists>row. map_of (db_signals db) k = Some row \<and> shows_signal D P sig row)"

text \<open>The newest snapshot of each signal the buffer accepts before the worker returns.\<close>

fun last_put :: "worker_event list \<Rightarrow> bool \<Rightarrow> (string \<Rightarrow> signal option) \<Rightarrow> string \<Rightarrow> signal option" where
  "last_put [] shut m = m"
| "last_put (WkPut sig # es) shut m = last_put es shut (if shut \<or> sg_id sig = [] then m else m(sg_id sig \<mapsto> sig))"
| "last_put (WkClose # es) shut m = last_put es True m"
| "last_put (WkFlush V # es) shut m = last_put es shut m"
| "last_put (WkDone V # es) shut m = m"

text \<open>Every newest snapshot is in the buffer, or in the table when the buffer has none of its signal.\<close>

definition kept :: "dec_lib \<Rightarrow> pg_lib \<Rightarrow> (string \<Rightarrow> signal option) \<Rightarrow> persistence_buffer \<times> database \<Rightarrow> bool" where
  "kept D P newest s \<longleftrightarrow> buffer_ok (fst s)
     \<and> (\<forall>k it. map_of (pb_items (fst s)) k = Some it \<longrightarrow> newest k = Some (bs_signal it))
     \<and> (\<forall>k sig. newest k = Some sig \<longrightarrow> map_of (pb_items (fst s)) k = None \<longrightarrow> stored D P (snd s) k sig)"

lemma repo_save_cases:
  assumes "repo_save V sig db = (db', ok)"
  shows "(\<forall>k. k \<noteq> sg_id sig \<longrightarrow> map_of (db_signals db') k = map_of (db_signals db) k)
    \<and> (ok \<longrightarrow> stored (sv_dec V) (sv_pg V) db' (sg_id sig) sig) \<and> (accepts V sig \<longrightarrow> ok)"
  using assms
  by (auto simp: repo_save_def save_signal_def pg_exec_def accepts_def stored_def shows_signal_def map_of_mput
      split: option.splits db_outcome.splits)

lemma save_all_rows:
  assumes "save_all (repo_save V) batch db = (db', ok)" and "distinct (map (\<lambda>it. sg_id (bs_signal it)) batch)"
  shows "(\<forall>k. k \<notin> (\<lambda>it. sg_id (bs_signal it)) ` set batch \<longrightarrow> map_of (db_signals db') k = map_of (db_signals db) k)
    \<and> (ok \<longrightarrow> (\<forall>it\<in>set batch. stored (sv_dec V) (sv_pg V) db' (sg_id (bs_signal it)) (bs_signal it)))
    \<and> ((\<forall>it\<in>set batch. accepts V (bs_signal it)) \<longrightarrow> ok)"
  using assms
proof (induction batch arbitrary: db)
  case (Cons it batch)
  obtain db1 ok1 where r: "repo_save V (bs_signal it) db = (db1, ok1)" by fastforce
  note c = repo_save_cases [OF r]
  show ?case
  proof (cases ok1)
    case False
    with Cons.prems r have "db' = db1" "\<not> ok" by simp_all
    with c False show ?thesis by auto
  next
    case True
    with Cons.prems r have "save_all (repo_save V) batch db1 = (db', ok)" by simp
    note i = Cons.IH [OF this] 
    have "sg_id (bs_signal it) \<notin> (\<lambda>it. sg_id (bs_signal it)) ` set batch" using Cons.prems(2) by auto
    with i Cons.prems(2) c True show ?thesis by (auto simp: stored_def)
  qed
qed simp

lemma kept_put: "kept D P m (b, db) \<Longrightarrow>
    kept D P (if pb_closed b \<or> sg_id sig = [] then m else m(sg_id sig \<mapsto> sig)) (fst (put_signal sig b), db)"
  using buffer_ok_put [of b sig]
  by (auto simp: kept_def put_signal_def Let_def map_of_mput stored_def split: if_splits)

lemma kept_saved:
  assumes "kept (sv_dec V) (sv_pg V) m (b, db)" and "order_ok ord"
    and "save_all (repo_save V) (snapshot_batch ord limit b) db = (db', ok)"
  shows "kept (sv_dec V) (sv_pg V) m (if ok then ack (snapshot_batch ord limit b) b else b, db')"
proof -
  let ?batch = "snapshot_batch ord limit b"
  have ok: "buffer_ok b" and n: "map_of (pb_items b) k = Some it \<Longrightarrow> m k = Some (bs_signal it)"
    and st: "m k = Some sig \<Longrightarrow> map_of (pb_items b) k = None \<Longrightarrow> stored (sv_dec V) (sv_pg V) db k sig" for k it sig
    using assms(1) by (auto simp: kept_def)
  note r = save_all_rows [OF assms(3) snapshot_distinct [OF assms(2) ok]]
  have b: "map_of (pb_items b) (sg_id (bs_signal it)) = Some it" if "it \<in> set ?batch" for it
    using snapshot_mem [OF assms(2) that] buffer_ok_lookup [OF ok] by blast
  have out: "k \<notin> (\<lambda>it. sg_id (bs_signal it)) ` set ?batch" if "map_of (pb_items b) k = None" for k
    using b that by force
  have old: "stored (sv_dec V) (sv_pg V) db' k sig" if "m k = Some sig" "map_of (pb_items b) k = None" for k sig
    using st [OF that] r out [OF that(2)] by (simp add: stored_def)
  show ?thesis
  proof (cases ok)
    case True
    have "stored (sv_dec V) (sv_pg V) db' k sig" if n1: "m k = Some sig" and n2: "map_of (pb_items (ack ?batch b)) k = None" for k sig
    proof (cases "map_of (pb_items b) k")
      case (Some it)
      then obtain x where x: "x \<in> set ?batch" "sg_id (bs_signal x) = k"
        using n2 by (auto simp: ack_lookup [OF ok] split: if_splits)
      then have "bs_signal x = sig" using b [OF x(1)] Some n n1 by auto
      with r True x show ?thesis by auto
    qed (rule old [OF n1])
    moreover have "m k = Some (bs_signal it)" if "map_of (pb_items (ack ?batch b)) k = Some it" for k it
      using that n by (auto simp: ack_lookup [OF ok] split: option.splits if_splits)
    ultimately show ?thesis using True buffer_ok_ack [OF ok] by (auto simp: kept_def)
  next
    case False
    with old n ok show ?thesis by (auto simp: kept_def)
  qed
qed

text \<open>A flush keeps the newest snapshots, returns, and empties the buffer when the database accepts everything.\<close>

lemma flush_loop_keeps:
  assumes "kept (sv_dec V) (sv_pg V) m (b, db)" and "order_ok ord" and "0 < limit" and "length (pb_items b) < fuel"
  shows "\<exists>b' db' ok. flush_loop fuel ord (repo_save V) limit b db = Some (b', db', ok)
    \<and> kept (sv_dec V) (sv_pg V) m (b', db') \<and> pb_closed b' = pb_closed b
    \<and> ((\<forall>k sig. m k = Some sig \<longrightarrow> accepts V sig) \<longrightarrow> pb_items b' = [])"
  using assms(1,4)
proof (induction fuel arbitrary: b db)
  case (Suc fuel)
  let ?batch = "snapshot_batch ord limit b"
  have ok: "buffer_ok b" using Suc.prems(1) by (simp add: kept_def)
  show ?case
  proof (cases "?batch = []")
    case True
    then show ?thesis using Suc.prems(1) snapshot_Nil [OF assms(2,3), of b] by (auto simp: Let_def)
  next
    case False
    obtain db1 good where s: "save_all (repo_save V) ?batch db = (db1, good)" by fastforce
    note k = kept_saved [OF Suc.prems(1) assms(2) s]
    have "good" if "\<forall>k sig. m k = Some sig \<longrightarrow> accepts V sig"
    proof -
      have "accepts V (bs_signal it)" if "it \<in> set ?batch" for it
        using snapshot_mem [OF assms(2) that] Suc.prems(1) \<open>\<forall>k sig. m k = Some sig \<longrightarrow> accepts V sig\<close> by (auto simp: kept_def)
      then show ?thesis using save_all_rows [OF s snapshot_distinct [OF assms(2) ok]] by blast
    qed
    moreover have "length (pb_items (ack ?batch b)) < fuel"
      using ack_batch_length [OF assms(2) ok False] Suc.prems(2) by simp
    ultimately show ?thesis using False s k Suc.IH [of "ack ?batch b" db1] by (cases good) (auto simp: Let_def)
  qed
qed simp

lemma flush_once_keeps:
  assumes "kept (sv_dec V) (sv_pg V) m (b, db)" and "order_ok (sv_order V)"
  shows "kept (sv_dec V) (sv_pg V) m (flush_once V (b, db)) \<and> pb_closed (fst (flush_once V (b, db))) = pb_closed b
    \<and> ((\<forall>k sig. m k = Some sig \<longrightarrow> accepts V sig) \<longrightarrow> pb_items (fst (flush_once V (b, db))) = [])"
  using flush_loop_keeps [OF assms, of 500 "Suc (buffer_len b)"] by (auto simp: flush_once_def buffer_len_def)

text \<open>What is asked of the flushes of a run: one database and, for the last one, that it accepts everything.\<close>

fun event_fits :: "dec_lib \<Rightarrow> pg_lib \<Rightarrow> worker_event \<Rightarrow> bool" where
  "event_fits D P (WkFlush V) \<longleftrightarrow> order_ok (sv_order V) \<and> sv_dec V = D \<and> sv_pg V = P"
| "event_fits D P (WkDone V) \<longleftrightarrow> order_ok (sv_order V) \<and> sv_dec V = D \<and> sv_pg V = P"
| "event_fits D P e \<longleftrightarrow> True"

lemma run_flush_worker_keeps:
  assumes "list_all (event_fits D P) es" and "kept D P m (b, db)"
  shows "kept D P (last_put es (pb_closed b) m) (fst (run_flush_worker es (b, db)))
    \<and> (snd (run_flush_worker es (b, db)) \<longrightarrow> (\<forall>V. WkDone V \<in> set es \<longrightarrow>
         (\<forall>k sig. last_put es (pb_closed b) m k = Some sig \<longrightarrow> accepts V sig)) \<longrightarrow>
         pb_items (fst (fst (run_flush_worker es (b, db)))) = [])"
  using assms
proof (induction es arbitrary: b db m)
  case (Cons e es)
  show ?case
  proof (cases e)
    case (WkPut sig)
    have c: "pb_closed (fst (put_signal sig b)) = pb_closed b" by simp
    from Cons.IH [OF _ kept_put [OF Cons.prems(2), of sig]] Cons.prems(1) WkPut show ?thesis by (simp add: c)
  next
    case WkClose
    have "kept D P m (close_buffer b, db)" using Cons.prems(2) by (simp add: kept_def close_buffer_def)
    from Cons.IH [OF _ this] Cons.prems(1) WkClose show ?thesis by (simp add: close_buffer_def)
  next
    case (WkFlush V)
    obtain b1 db1 where f: "flush_once V (b, db) = (b1, db1)" by fastforce
    have "kept D P m (b1, db1)" "pb_closed b1 = pb_closed b"
      using flush_once_keeps [of V m b db] Cons.prems f WkFlush by auto
    then show ?thesis using Cons.IH [where b = b1 and db = db1 and m = m] Cons.prems(1) WkFlush f by simp
  next
    case (WkDone V)
    then show ?thesis using flush_once_keeps [of V m b db] Cons.prems by auto
  qed
qed simp

section \<open>Properties\<close>


text \<open>
  One signal that no column of the table can hold blocks the buffer: as long as it is among at most 500 signals, no
  flush removes any of them, however often the database saves the others.
\<close>

theorem unsavable_signal_blocks:
  assumes "buffer_ok b" and "length (pb_items b) \<le> 500" and "map_of (pb_items b) k = Some it"
    and "\<forall>V\<in>set Vs. order_ok (sv_order V) \<and> signal_row_of (sv_dec V) (sv_pg V) (bs_signal it) = None"
  shows "fst (fold flush_once Vs (b, db)) = b"
  using assms(4)
proof (induction Vs arbitrary: db)
  case (Cons V Vs)
  let ?batch = "snapshot_batch (sv_order V) 500 b"
  have o: "order_ok (sv_order V)" "signal_row_of (sv_dec V) (sv_pg V) (bs_signal it) = None" using Cons.prems by auto
  have l: "length (sv_order V (mkeys (pb_items b))) \<le> 500" using assms(2) order_ok_length [OF o(1)] by simp
  have "k \<in> set (mkeys (pb_items b))" using assms(3) mget_None [of "pb_items b" k] by auto
  then have "k \<in> set (sv_order V (mkeys (pb_items b)))" using order_ok_set [OF o(1)] by simp
  then have m: "it \<in> set ?batch" using assms(3) l by (force simp: snapshot_batch_def)
  have "\<not> snd (save_all (repo_save V) batch r)" if "it \<in> set batch" for batch r
    using that o(2)
    by (induction batch arbitrary: r) (auto simp: repo_save_def save_signal_def pg_exec_def split: prod.split)
  then obtain db1 where s: "save_all (repo_save V) ?batch db = (db1, False)" using m by (metis prod.collapse)
  have "flush_once V (b, db) = (b, db1)" using m s by (auto simp: flush_once_def Let_def)
  then show ?case using Cons.IH [of db1] Cons.prems by simp
qed simp

section \<open>Witnesses\<close>

definition newer_signal :: signal where
  "newer_signal = stored_signal\<lparr>sg_volume := 4321\<rparr>"

lemma newer_signal_accepted: "accepts sample_save_env newer_signal"
  by (simp add: accepts_def sample_save_env_def newer_signal_def signal_row_of_def Let_def stored_signal_def sample_pg_def
      pg_varchar_def IntraExchange_def MarketTypeSpot_def MarketTypeFutures_def)


definition long_signal :: signal where
  "long_signal = stored_signal\<lparr>sg_id := ''s2'', sg_symbol := replicate 51 CHR ''A''\<rparr>"

theorem unsavable_signal_blocks_witness:
  "let b = fst (put_signal long_signal (fst (put_signal stored_signal new_persistence_buffer)))
   in length (pb_items b) = 2 \<and> fst (fold flush_once (replicate 7 sample_save_env) (b, empty_database)) = b"
proof -
  let ?b = "fst (put_signal long_signal (fst (put_signal stored_signal new_persistence_buffer)))"
  have i: "sg_id stored_signal = ''s1''" "sg_id long_signal = ''s2''" by (simp_all add: stored_signal_def long_signal_def)
  have l: "length (pb_items ?b) = 2" and m: "map_of (pb_items ?b) ''s2'' = Some \<lparr>bs_version = 1, bs_signal = long_signal\<rparr>"
    by (simp_all add: put_signal_def i new_persistence_buffer_def Let_def)
  have n: "signal_row_of (sv_dec sample_save_env) (sv_pg sample_save_env) long_signal = None"
    by (simp add: signal_row_of_def long_signal_def pg_varchar_def)
  have "fst (fold flush_once (replicate 7 sample_save_env) (?b, empty_database)) = ?b"
    by (rule unsavable_signal_blocks [OF _ _ m]) (use l n in \<open>simp_all add: buffer_ok_put buffer_ok_new sample_save_env_def order_ok_rev\<close>)
  with l show ?thesis by (simp add: Let_def)
qed

end
