(* ===== verification/Stored_Signals.thy ===== *)
theory Stored_Signals
  imports Flush_Worker
begin

text \<open>
  The table of signals while the application of internal/app/app.go runs and stops: which rows
  may be active. It joins the tracker, the persistence buffer, the repository and the shutdown,
  whose models are in Tracker, Persistence, Repo and System.
\<close>

section \<open>Active rows\<close>

text \<open>The ids under which the tracker's active signals are stored; \<open>Put\<close> ignores an empty one.\<close>

definition live_ids :: "(string, signal) gomap \<Rightarrow> string set" where
  "live_ids active = {sg_id s | k s. map_of active k = Some s \<and> sg_id s \<noteq> []}"

text \<open>A row is active only while the tracker holds its signal or the buffer a newer snapshot; a
  snapshot of an active signal is in the buffer only while the tracker holds the signal.\<close>

definition settled :: "string set \<Rightarrow> persistence_buffer \<times> database \<Rightarrow> bool" where
  "settled held s \<longleftrightarrow> buffer_ok (fst s)
     \<and> (\<forall>k it. map_of (pb_items (fst s)) k = Some it \<longrightarrow> sg_active (bs_signal it) \<longrightarrow> k \<in> held)
     \<and> (\<forall>k row. map_of (db_signals (snd s)) k = Some row \<longrightarrow> sr_is_active row \<longrightarrow>
          map_of (pb_items (fst s)) k \<noteq> None \<or> k \<in> held)"

lemma stored_active: "stored D P db k s \<Longrightarrow> map_of (db_signals db) k = Some row \<Longrightarrow> sr_is_active row = sg_active s"
  by (auto simp: stored_def shows_signal_def upsert_signal_row_def signal_row_of_def Let_def
      split: option.splits if_splits)

lemma settled_saved:
  assumes "settled held (b, db)" and "order_ok ord"
    and "save_all (repo_save V) (snapshot_batch ord limit b) db = (db', ok)"
  shows "settled held (if ok then ack (snapshot_batch ord limit b) b else b, db')"
proof -
  let ?batch = "snapshot_batch ord limit b"
  have ok: "buffer_ok b" and it: "map_of (pb_items b) k = Some it \<Longrightarrow> sg_active (bs_signal it) \<Longrightarrow> k \<in> held"
    and row: "map_of (db_signals db) k = Some row \<Longrightarrow> sr_is_active row \<Longrightarrow> map_of (pb_items b) k \<noteq> None \<or> k \<in> held"
    for k it row using assms(1) unfolding settled_def fst_conv snd_conv by blast+
  note r = save_all_rows [OF assms(3) snapshot_distinct [OF assms(2) ok]]
  have b: "map_of (pb_items b) (sg_id (bs_signal x)) = Some x" if "x \<in> set ?batch" for x
    using snapshot_mem [OF assms(2) that] buffer_ok_lookup [OF ok] by blast
  have kept: "map_of (pb_items b) k \<noteq> None \<or> k \<in> held" if "map_of (db_signals db') k = Some row'" "sr_is_active row'" for k row'
    using that r row b by (cases "k \<in> (\<lambda>it. sg_id (bs_signal it)) ` set ?batch") fastforce+
  show ?thesis
  proof (cases ok)
    case True
    have "map_of (pb_items (ack ?batch b)) k \<noteq> None \<or> k \<in> held"
      if d: "map_of (db_signals db') k = Some row'" "sr_is_active row'" for k row'
    proof (cases "\<exists>x\<in>set ?batch. sg_id (bs_signal x) = k")
      case True
      then obtain x where x: "x \<in> set ?batch" "sg_id (bs_signal x) = k" by blast
      then have "stored (sv_dec V) (sv_pg V) db' k (bs_signal x)" using r \<open>ok\<close> by blast
      from stored_active [OF this d(1)] it [OF b [OF x(1)]] d(2) x(2) show ?thesis by simp
    next
      case False
      with kept [OF d] show ?thesis by (auto simp: ack_lookup [OF ok] split: option.splits)
    qed
    moreover have "k \<in> held" if "map_of (pb_items (ack ?batch b)) k = Some x" "sg_active (bs_signal x)" for k x
      using that it by (auto simp: ack_lookup [OF ok] split: option.splits if_splits)
    ultimately show ?thesis using True buffer_ok_ack [OF ok] by (simp add: settled_def)
  qed (use kept it ok in \<open>simp add: settled_def\<close>)
qed

lemma settled_flush_loop:
  "settled held (b, db) \<Longrightarrow> order_ok ord \<Longrightarrow> flush_loop fuel ord (repo_save V) limit b db = Some (b', db', ok) \<Longrightarrow>
   settled held (b', db') \<and> pb_closed b' = pb_closed b"
proof (induction fuel arbitrary: b db)
  case (Suc fuel)
  obtain db1 good where s: "save_all (repo_save V) (snapshot_batch ord limit b) db = (db1, good)" by fastforce
  from settled_saved [OF Suc.prems(1,2) s] Suc.IH [of "ack (snapshot_batch ord limit b) b" db1] Suc.prems s
  show ?case by (cases good) (auto simp: Let_def split: if_splits)
qed simp

lemma settled_flush_once:
  assumes "settled held (b, db)" and "order_ok (sv_order V)"
  shows "settled held (flush_once V (b, db)) \<and> pb_closed (fst (flush_once V (b, db))) = pb_closed b"
  using settled_flush_loop [OF assms] assms(1) by (simp add: flush_once_def del: flush_loop.simps split: option.split)

text \<open>The application's flush is the worker's.\<close>

lemma flush_signals_once:
  assumes "tk_sink (ap_tracker a) = Some (BufferSink b)" and "flush_once V (b, ap_db a) = (b', db')"
  shows "flush_signals V a = a\<lparr>ap_db := db', ap_tracker := (ap_tracker a)\<lparr>tk_sink := Some (BufferSink b')\<rparr>\<rparr>"
  using assms by (auto simp: flush_signals_def flush_once_def split: option.splits)

lemma flush_once_empties:
  assumes "buffer_ok b" and "order_ok (sv_order V)" and "\<And>k it. map_of (pb_items b) k = Some it \<Longrightarrow> accepts V (bs_signal it)"
  shows "pb_items (fst (flush_once V (b, db))) = []"
proof -
  have "kept (sv_dec V) (sv_pg V) (\<lambda>k. map_option bs_signal (map_of (pb_items b) k)) (b, db)"
    using assms(1) by (auto simp: kept_def)
  from flush_once_keeps [OF this assms(2)] assms(3) show ?thesis by auto
qed

section \<open>The tracker's step\<close>

text \<open>Whatever the transition persists is inactive or of a signal that stays active; a signal
  that it removes is persisted.\<close>

lemma live_idsI: "map_of active k = Some s \<Longrightarrow> sg_id s \<noteq> [] \<Longrightarrow> sg_id s \<in> live_ids active"
  by (auto simp: live_ids_def)

lemma live_idsE:
  assumes "k \<in> live_ids active" obtains r s where "map_of active r = Some s" "sg_id s = k" "k \<noteq> []"
  using assms by (auto simp: live_ids_def)

lemma live_ids_nonempty [simp]: "[] \<notin> live_ids active"
  by (simp add: live_ids_def)

lemma live_ids_put:
  assumes "k \<in> live_ids active" and "\<And>s'. map_of active r = Some s' \<Longrightarrow> sg_id s' = sg_id s"
  shows "k \<in> live_ids (mput r s active)"
proof -
  from assms(1) obtain q s' where q: "map_of active q = Some s'" "sg_id s' = k" "k \<noteq> []" by (rule live_idsE)
  have "k = sg_id s" if "q = r" using assms(2) [of s'] q that by simp
  then show ?thesis
    using live_idsI [of "mput r s active" q] q by (cases "q = r") (auto simp: map_of_mput)
qed

lemma live_ids_del:
  assumes "k \<in> live_ids active" and "map_of active r = Some s" and "k \<noteq> sg_id s"
  shows "k \<in> live_ids (mdel r active)"
proof -
  from assms(1) obtain q s' where q: "map_of active q = Some s'" "sg_id s' = k" "k \<noteq> []" by (rule live_idsE)
  then have "q \<noteq> r" using assms(2,3) by auto
  with q show ?thesis using live_idsI [of "mdel r active" q s'] by (simp add: map_of_mdel)
qed

lemma closed_inactive [simp]: "\<not> sg_active (signal_close ts f s)" "sg_id (signal_close ts f s) = sg_id s"
  by (simp_all add: signal_close_def Let_def)

lemma transition_persists:
  assumes "tr = tracker_transition E uuid e active" and "tr_persist tr = Some s" and "sg_active s"
  shows "sg_id s = [] \<or> sg_id s \<in> live_ids (tr_active tr)"
proof -
  have "map_of (tr_active tr) (route_key e) = Some s"
    using assms by (auto simp: tracker_transition_def Let_def open_transition_def no_change_def map_of_mput
        split: lifecycle.splits option.splits if_splits)
  then show ?thesis using live_idsI by blast
qed

lemma transition_keeps:
  assumes "tr = tracker_transition E uuid e active" and "k \<in> live_ids active"
  shows "k \<in> live_ids (tr_active tr) \<or> (\<exists>s. tr_persist tr = Some s \<and> sg_id s = k)"
  using assms
  by (auto simp: tracker_transition_def Let_def open_transition_def no_change_def
      intro: live_ids_put live_ids_del split: lifecycle.split option.split)

lemma live_remember [simp]: "live_ids (remember_chats r ids active) = live_ids active"
proof (intro set_eqI iffI)
  fix k assume "k \<in> live_ids (remember_chats r ids active)"
  then obtain q s where "map_of (remember_chats r ids active) q = Some s" "sg_id s = k" "k \<noteq> []" by (rule live_idsE)
  then show "k \<in> live_ids active" using live_idsI [of active q] by (auto simp: remember_lookup split: if_splits)
next
  fix k assume "k \<in> live_ids active"
  then obtain q s where "map_of active q = Some s" "sg_id s = k" "k \<noteq> []" by (rule live_idsE)
  then show "k \<in> live_ids (remember_chats r ids active)"
    using live_idsI [of "remember_chats r ids active" q] by (cases "q = r") (auto simp: remember_lookup)
qed

lemma settled_shrink: "settled K s \<Longrightarrow> (\<And>k. k \<in> K \<Longrightarrow> k \<in> K') \<Longrightarrow> settled K' s"
  unfolding settled_def by blast

lemma settled_put:
  assumes "settled K (b, db)" and "\<not> pb_closed b" and "sg_active s \<Longrightarrow> sg_id s = [] \<or> sg_id s \<in> K'"
    and "\<And>k. k \<in> K \<Longrightarrow> k \<in> K' \<or> k = sg_id s" and "[] \<notin> K"
  shows "settled K' (fst (put_signal s b), db)"
proof -
  have ok: "buffer_ok b" and it: "\<And>k it. map_of (pb_items b) k = Some it \<Longrightarrow> sg_active (bs_signal it) \<Longrightarrow> k \<in> K"
    and row: "\<And>k row. map_of (db_signals db) k = Some row \<Longrightarrow> sr_is_active row \<Longrightarrow> map_of (pb_items b) k \<noteq> None \<or> k \<in> K"
    using assms(1) unfolding settled_def fst_conv snd_conv by blast+
  show ?thesis
  proof (cases "sg_id s = []")
    case True
    have "K \<subseteq> K'"
    proof
      fix k assume "k \<in> K"
      then have "k \<noteq> []" "k \<in> K' \<or> k = sg_id s" using assms(4,5) by metis+
      with True show "k \<in> K'" by simp
    qed
    moreover have "fst (put_signal s b) = b" using True by (simp add: put_signal_def)
    ultimately show ?thesis using settled_shrink [OF assms(1)] by auto
  next
    case False
    note p = put_signal_lookup [OF False assms(2)]
    have "k \<in> K'" if "map_of (pb_items (fst (put_signal s b))) k = Some x" "sg_active (bs_signal x)" for k x
    proof (cases "k = sg_id s")
      case True
      with that(1) have "bs_signal x = s" by (auto simp: p)
      with True that(2) assms(3) False show ?thesis by blast
    next
      case False
      with that it assms(4) show ?thesis by (simp add: p) blast
    qed
    moreover have "map_of (pb_items (fst (put_signal s b))) k \<noteq> None \<or> k \<in> K'"
      if "map_of (db_signals db) k = Some r" "sr_is_active r" for k r
      using row [OF that] assms(4) [of k] by (cases "k = sg_id s") (simp_all add: p, blast)
    ultimately show ?thesis using buffer_ok_put [OF ok] unfolding settled_def fst_conv snd_conv by blast
  qed
qed

section \<open>The application\<close>

text \<open>The signals of the tracker, its buffer and the table.\<close>

definition app_settled :: "application \<Rightarrow> bool" where
  "app_settled a \<longleftrightarrow> (\<exists>b. tk_sink (ap_tracker a) = Some (BufferSink b)
     \<and> settled (live_ids (tk_active (ap_tracker a))) (b, ap_db a))"

definition buffer_open :: "application \<Rightarrow> bool" where
  "buffer_open a \<longleftrightarrow> (\<exists>b. tk_sink (ap_tracker a) = Some (BufferSink b) \<and> \<not> pb_closed b)"

lemma handle_settled:
  assumes "tk_sink tk = Some (BufferSink b)" and "settled (live_ids (tk_active tk)) (b, db)" and "\<not> pb_closed b"
    and "proper_event e" and "tk' = handle_event E uuid ready e tk"
  shows "\<exists>b'. tk_sink tk' = Some (BufferSink b') \<and> settled (live_ids (tk_active tk')) (b', db) \<and> \<not> pb_closed b'"
proof -
  define tr where "tr = tracker_transition E uuid e (tk_active tk)"
  have act: "live_ids (tk_active tk') = live_ids (tr_active tr)"
    using handle_active [OF assms(4), of E uuid ready tk] by (auto simp: assms(5) tr_def)
  have sink: "tk_sink tk' = persist_snapshot ready (tr_persist tr) (Some (BufferSink b))"
    using handle_sink [OF assms(4)] by (simp add: assms(1,5) tr_def)
  note kept = transition_keeps [OF tr_def]
  show ?thesis
  proof (cases "tr_persist tr")
    case None
    have "settled (live_ids (tr_active tr)) (b, db)" by (rule settled_shrink [OF assms(2)]) (use kept None in auto)
    with None assms(3) show ?thesis by (simp add: sink act persist_snapshot_def)
  next
    case (Some s)
    have "settled (live_ids (tr_active tr)) (fst (put_signal s b), db)"
      by (rule settled_put [OF assms(2,3)])
        (use transition_persists [OF tr_def Some] kept Some in auto)
    with Some assms(3) show ?thesis by (simp add: sink act persist_snapshot_def sink_put_def case_prod_beta)
  qed
qed

text \<open>Changes that leave the signals of the tracker, the buffer and the table alone.\<close>

definition same_signals :: "application \<Rightarrow> application \<Rightarrow> bool" where
  "same_signals a a' \<longleftrightarrow> tk_active (ap_tracker a') = tk_active (ap_tracker a) \<and> tk_sink (ap_tracker a') = tk_sink (ap_tracker a)
     \<and> db_signals (ap_db a') = db_signals (ap_db a)"

lemma same_signals_refl [simp]: "same_signals a a"
  by (simp add: same_signals_def)

lemma same_settled: "same_signals a a' \<Longrightarrow> app_settled a' = app_settled a \<and> buffer_open a' = buffer_open a"
  by (simp add: same_signals_def app_settled_def buffer_open_def settled_def)

lemma user_frame_signals: "user_frame chat a a' \<Longrightarrow> same_signals a a'"
  unfolding user_frame_def by (erule conjE, erule ssubst) (simp add: same_signals_def)

lemma set_setting_signals: "db_signals (fst (set_setting out key v db)) = db_signals db"
  by (simp add: set_setting_def case_prod_beta)

lemma admin_signals: "same_signals a (fst (admin_command E cmd args a))"
proof -
  have "same_signals a (fst (cmd_sethardspread E args a))"
    unfolding cmd_sethardspread_def Let_def
    by (auto simp: case_prod_beta same_signals_def set_app_funding_def persist_setting_def set_setting_signals split: list.split option.split sum.split)
  moreover have "same_signals a (fst (cmd_setfees E args a))"
    unfolding cmd_setfees_def Let_def
    by (auto simp: case_prod_beta same_signals_def persist_setting_def set_setting_signals split: sum.split)
  moreover have "same_signals a (fst (cmd_addex E args a))" "same_signals a (fst (cmd_rmex E args a))"
    by (simp_all add: cmd_addex_def cmd_rmex_def Let_def case_prod_beta same_signals_def split: list.split option.split)
  ultimately show ?thesis by (simp add: admin_command_def)
qed

lemma command_signals:
  assumes "app_ok a" shows "same_signals a (command_step x a)"
proof -
  obtain E botid chat name cmd args where x: "x = (E, botid, chat, name, cmd, args)" by (cases x)
  have u: "us_chat_id u = chat" if "get_user (ap_users a) chat = Some u" for u
    using get_user_chat that assms by (auto simp: app_ok_def)
  note start = cmd_start_effect [THEN conjunct1, THEN user_frame_signals]
    and stop = cmd_stop_effect [THEN conjunct1, THEN user_frame_signals]
    and own = user_command_effect [OF u, THEN conjunct1, THEN user_frame_signals]
  from handle_command_cases [of E botid chat name cmd args a] show ?thesis
    unfolding x command_step_def prod.case
    by (elim disjE exE conjE) (simp_all add: admin_signals start stop own)
qed

lemma flush_signals_settled:
  assumes "app_settled a" and "order_ok (sv_order V)"
  shows "app_settled (flush_signals V a) \<and> buffer_open (flush_signals V a) = buffer_open a"
proof -
  obtain b where b: "tk_sink (ap_tracker a) = Some (BufferSink b)" "settled (live_ids (tk_active (ap_tracker a))) (b, ap_db a)"
    using assms(1) by (auto simp: app_settled_def)
  obtain b' db' where f: "flush_once V (b, ap_db a) = (b', db')" by fastforce
  from settled_flush_once [OF b(2) assms(2)] show ?thesis
    by (simp add: flush_signals_once [OF b(1) f] f app_settled_def buffer_open_def b(1))
qed

lemma close_persistence_settled: "app_settled a \<Longrightarrow> app_settled (close_persistence a)"
  by (auto simp: app_settled_def close_persistence_def settled_def close_buffer_def)

lemma close_app_router_signals: "same_signals a (close_app_router a)"
  by (simp add: close_app_router_def same_signals_def)

text \<open>What the flushes of a run need: they visit the buffer in some order.\<close>

fun flush_orders :: "run_op \<Rightarrow> bool" where
  "flush_orders (Outside (FlushSignals V)) \<longleftrightarrow> order_ok (sv_order V)"
| "flush_orders (Stop (CloseDown V)) \<longleftrightarrow> order_ok (sv_order V)"
| "flush_orders _ \<longleftrightarrow> True"

definition signals_ok :: "running \<Rightarrow> bool" where
  "signals_ok s \<longleftrightarrow> app_settled (rn_app s) \<and> (rn_phase s \<noteq> Closed \<longrightarrow> buffer_open (rn_app s))"

lemma signals_ok_same: "signals_ok s \<Longrightarrow> same_signals (rn_app s) (rn_app s') \<Longrightarrow> rn_phase s' = Closed \<or> rn_phase s' = rn_phase s \<or> rn_phase s \<noteq> Closed
    \<Longrightarrow> signals_ok s'"
  using same_settled [of "rn_app s" "rn_app s'"] by (auto simp: signals_ok_def)

lemma track_signals:
  assumes "signals_ok s" and "phase_ok s" and "orderly (Worker (Track H)) s"
  shows "signals_ok (worker_step (Track H) s)"
proof (cases "ap_tracker_chan (rn_app s)")
  case (Cons e es)
  let ?tk = "ap_tracker (rn_app s)"
  have "rn_phase s \<noteq> Closed" using assms(2) Cons by (auto simp: phase_ok_def)
  then obtain b where b: "tk_sink ?tk = Some (BufferSink b)" "settled (live_ids (tk_active ?tk)) (b, ap_db (rn_app s))" "\<not> pb_closed b"
    using assms(1) by (auto simp: signals_ok_def app_settled_def buffer_open_def)
  have "proper_event e" using assms(3) Cons by (simp add: timely_def)
  from handle_settled [OF b this refl, of "tracker_env_of H (rn_app s)" "hd_uuid H" "hd_ready H"] Cons show ?thesis
    by (auto simp: signals_ok_def app_settled_def buffer_open_def)
qed (use assms in simp)

lemma worker_signals:
  assumes "signals_ok s" and "phase_ok s" and "orderly (Worker x) s"
  shows "signals_ok (worker_step x s)"
proof (cases x)
  case (Track H)
  with track_signals assms show ?thesis by blast
next
  case Dispatch
  then show ?thesis by (cases "rn_ticks s") (auto intro: signals_ok_same [OF assms(1)])
next
  case (Ingest i T)
  then show ?thesis
    by (cases "rn_queues s ! i") (auto intro!: signals_ok_same [OF assms(1)] simp: same_signals_def assms(1) split: prod.split)
next
  case (SendEvent i)
  then show ?thesis
    by (cases "rn_outbox s i") (auto intro!: signals_ok_same [OF assms(1)] simp: same_signals_def assms(1))
next
  case (JanitorTurn T now)
  then show ?thesis
    by (auto intro!: signals_ok_same [OF assms(1)] simp: same_signals_def set_app_funding_def assms(1) split: prod.split)
qed

lemma outside_signals:
  assumes "signals_ok s" and "app_ok (rn_app s)" and "flush_orders (Outside x)"
  shows "signals_ok (outside_step x s)"
proof (cases x)
  case (FlushSignals V)
  with assms flush_signals_settled [of "rn_app s" V] show ?thesis by (auto simp: signals_ok_def)
next
  case (Command c)
  with command_signals [OF assms(2), of c] show ?thesis by (auto intro!: signals_ok_same [OF assms(1)])
qed (auto intro!: signals_ok_same [OF assms(1)] simp: same_signals_def set_app_funding_def)

lemma stop_signals:
  assumes "signals_ok s" and "flush_orders (Stop x)"
  shows "signals_ok (stop_step x s)"
proof (cases x)
  case (CloseDown V)
  have "app_settled (rn_app s)" using assms(1) by (simp add: signals_ok_def)
  from flush_signals_settled [OF close_persistence_settled [OF this], of V] assms(2) CloseDown
  have "app_settled (close_app_router (flush_signals V (close_persistence (rn_app s))))"
    using same_settled [OF close_app_router_signals] by simp
  then show ?thesis using assms(1) CloseDown by (simp add: signals_ok_def)
qed (auto intro!: signals_ok_same [OF assms(1)] simp: same_signals_def split: prod.split)

lemma run_signals:
  assumes "system_ok s" and "signals_ok s" and "orderly_run ops s" and "list_all flush_orders ops"
  shows "signals_ok (fold run_step ops s)"
  using assms
proof (induction ops arbitrary: s)
  case (Cons x ops)
  have ok: "app_ok (rn_app s)" "phase_ok s" using Cons.prems(1) by (simp_all add: system_ok_def)
  have "signals_ok (run_step x s)"
    using worker_signals [OF Cons.prems(2) ok(2)] outside_signals [OF Cons.prems(2) ok(1)] stop_signals [OF Cons.prems(2)] Cons.prems(3,4)
    by (cases x) simp_all
  then show ?case using Cons.IH [OF system_step [OF Cons.prems(1)]] Cons.prems(3,4) by simp
qed simp

section \<open>The start\<close>

lemma load_operator_pipeline:
  "ap_tracker (load_operator_settings S a) = ap_tracker a" "ap_tracker_chan (load_operator_settings S a) = ap_tracker_chan a"
  "ap_aggregator (load_operator_settings S a) = ap_aggregator a"
  by (simp_all add: load_operator_settings_def load_fees_def load_hard_spread_def set_app_funding_def
      split: sum.split option.split)

lemma load_users_pipeline:
  assumes "load_users S a = Some a'"
  shows "ap_tracker a' = ap_tracker a" "ap_tracker_chan a' = ap_tracker_chan a" "ap_aggregator a' = ap_aggregator a"
  using assms by (auto simp: load_users_def split: if_splits sum.splits)

lemma new_application_fresh:
  assumes "new_application cfg ra db = Inr a0"
  shows "fresh_pipeline a0 \<and> tk_sink (ap_tracker a0) = Some (BufferSink new_persistence_buffer) \<and> ap_db a0 = db"
  using assms by (auto simp: new_application_def fresh_pipeline_def new_tracker_def Let_def split: sum.splits)

lemma reconciled_inactive:
  assumes "reconcile_active_signals out now db = (db', False)" and "map_of (db_signals db') k = Some row"
  shows "\<not> sr_is_active row"
proof -
  have "db_signals db' = map (\<lambda>(k, r). (k, reconcile_row now r)) (db_signals db)"
    using assms(1) by (auto simp: reconcile_active_signals_def pg_exec_def split: db_outcome.splits)
  with assms(2) obtain r where "row = reconcile_row now r" by (auto simp: mget_map)
  then show ?thesis by (simp add: reconcile_row_def)
qed

lemma run_start_settled:
  assumes "new_application cfg ra db = Inr a0" and "run_start S (Some ra) a0 = (a, None)" and "se_reconciles S"
  shows "fresh_pipeline a \<and> app_settled a \<and> buffer_open a"
proof -
  from run_start_cases [OF assms(2)] obtain ra' db' a1 cm where p:
    "reconcile_active_signals (se_reconcile S) (se_now S) (ap_db a0) = (db', False)"
    "load_users S (load_operator_settings S (take_abilities ra' (a0\<lparr>ap_db := db', ap_started := True\<rparr>))) = Some a1"
    "a = a1\<lparr>ap_conns := cm, ap_accepting := True\<rparr>"
    using assms(3) by (metis (full_types))
  note f = new_application_fresh [OF assms(1)]
  have "ap_tracker a = ap_tracker a0" "ap_tracker_chan a = ap_tracker_chan a0" "ap_aggregator a = ap_aggregator a0" "ap_db a = db'"
    using load_users_pipeline [OF p(2)] load_users_frame(2) [OF p(2)]
    by (simp_all add: p(3) load_operator_pipeline load_settings_frame take_abilities_def)
  then show ?thesis using f reconciled_inactive [OF p(1)] buffer_ok_new
    by (auto simp: fresh_pipeline_def app_settled_def buffer_open_def settled_def new_persistence_buffer_def)
qed

lemma closed_settled:
  assumes "system_ok s" and "signals_ok s" and "rn_phase s = Closed"
    and "tk_sink (ap_tracker (rn_app s)) = Some (BufferSink b)"
    and "map_of (db_signals (ap_db (rn_app s))) k = Some row" and "sr_is_active row"
  shows "k \<in> dom (map_of (pb_items b))"
proof -
  have "live_ids (tk_active (ap_tracker (rn_app s))) = {}"
    using closed_tracks_nothing [OF assms(1,3)] by (auto simp: live_ids_def tracked_def domIff)
  then have "settled {} (b, ap_db (rn_app s))" using assms(2,4) by (auto simp: signals_ok_def app_settled_def)
  with assms(5,6) show ?thesis unfolding settled_def by auto
qed

text \<open>The invariants hold from the first moment.\<close>

lemma started_ok:
  assumes "new_application cfg ra db = Inr a0" and "\<forall>c. cfg = Some c \<longrightarrow> config_ok c"
    and "run_start S (Some ra) a0 = (a, None)" and "se_reconciles S"
  shows "system_ok (running_of (nat (worker_count cpus)) a)" and "signals_ok (running_of (nat (worker_count cpus)) a)"
proof -
  note start = run_start_settled [OF assms(1,3,4)]
  show "system_ok (running_of (nat (worker_count cpus)) a)"
    using system_ok_fresh run_start_ok [OF app_ok_new [OF assms(1,2)] assms(3)] start by blast
  show "signals_ok (running_of (nat (worker_count cpus)) a)" using start by (simp add: signals_ok_def running_of_def)
qed

section \<open>Properties\<close>


text \<open>
  When the flush at the end of \<open>cleanup\<close> meets a database that accepts what the buffer holds, the buffer
  is empty afterwards and no row at all is active.
\<close>

theorem clean_shutdown:
  assumes "new_application cfg ra db = Inr a0" and "\<forall>c. cfg = Some c \<longrightarrow> config_ok c"
    and "run_start S (Some ra) a0 = (a, None)" and "se_reconciles S"
    and "s = fold run_step ops (running_of (nat (worker_count cpus)) a)" and "s' = run_step (Stop (CloseDown V)) s"
    and "orderly_run ops (running_of (nat (worker_count cpus)) a)" and "list_all flush_orders (Stop (CloseDown V) # ops)"
    and "rn_phase s \<noteq> Closed" and "rn_phase s' = Closed"
    and "tk_sink (ap_tracker (rn_app s)) = Some (BufferSink b)" and "\<forall>k it. map_of (pb_items b) k = Some it \<longrightarrow> accepts V (bs_signal it)"
  shows "\<forall>k row. map_of (db_signals (ap_db (rn_app s'))) k = Some row \<longrightarrow> \<not> sr_is_active row"
proof -
  note ok = started_ok [OF assms(1-4)]
  have s: "system_ok s" "signals_ok s"
    using system_run [OF ok(1) assms(7)] run_signals [OF ok assms(7)] assms(8) by (simp_all add: assms(5))
  have ord: "order_ok (sv_order V)" using assms(8) by simp
  have s': "system_ok s'" "signals_ok s'"
    using system_step [OF s(1), of "Stop (CloseDown V)"] stop_signals [OF s(2), of "CloseDown V"] ord by (simp_all add: assms(6) del: stop_step.simps)
  let ?b = "close_buffer b"
  obtain b' db' where f: "flush_once V (?b, ap_db (rn_app s)) = (b', db')" by fastforce
  have "buffer_ok b" using s(2) assms(11) by (auto simp: signals_ok_def app_settled_def settled_def)
  then have "pb_items b' = []"
    using flush_once_empties [of ?b V "ap_db (rn_app s)"] ord assms(12) f by (simp add: close_buffer_def)
  moreover have "tk_sink (ap_tracker (rn_app s')) = Some (BufferSink b')"
  proof -
    let ?a = "close_persistence (rn_app s)"
    have a: "tk_sink (ap_tracker ?a) = Some (BufferSink ?b)" "ap_db ?a = ap_db (rn_app s)"
      using assms(11) by (simp_all add: close_persistence_def)
    show ?thesis using assms(9,10) f
      by (auto simp: assms(6) flush_signals_once [OF a(1)] a(2) close_app_router_def split: if_splits)
  qed
  ultimately show ?thesis using closed_settled [OF s' assms(10)] by fastforce
qed

section \<open>Witnesses\<close>

text \<open>A row that an earlier run left active.\<close>

definition left_active :: database where
  "left_active = empty_database\<lparr>db_signals := [(''s1'', upsert_signal_row (the (signal_row_of sample_lib sample_pg stored_signal)) None)]\<rparr>"


end
