(* ===== verification/Sample_Run.thy ===== *)
theory Sample_Run
  imports System
begin

text \<open>
  A run in which a route is found, tracked and closed: two quotes of one contract, from OKX and from MEXC, open the
  route between them, for the decimal package, the funding rates and the user of the samples of
  Market_Book. The theorems about the running application are applied to it.
\<close>

section \<open>Two quotes\<close>

text \<open>The sample environment with a floor and a volume engine of its own.\<close>

definition market_env :: "dec \<Rightarrow> volume_engine option \<Rightarrow> agg_env" where
  "market_env h v = sample_env\<lparr>ae_config := new_screener_config h, ae_volume := v\<rparr>"

lemma market_env_fields [simp]:
  "ae_dec (market_env h v) = sample_lib" "ae_config (market_env h v) = new_screener_config h"
  "ae_funding (market_env h v) = Some pair_funding" "ae_users (market_env h v) = Some [(7, sample_user 7)]"
  "ae_volume (market_env h v) = v" "ae_ttl (market_env h v) = default_price_ttl" "ae_order (market_env h v) = rev"
  "ae_user_order (market_env h v) = id"
  by (simp_all add: market_env_def sample_env_def)

lemma market_env_sample: "sample_env = market_env (1 / 50) None"
  by (simp add: market_env_def sample_env_def)

lemma market_env_ok: "(\<And>w. v = Some w \<Longrightarrow> volume_ok w) \<Longrightarrow> env_ok (market_env h v)"
  by (simp add: env_ok_def sample_div_ok config_ok_new pair_funding_ok users_ok_def sample_user_def order_ok_id order_ok_rev)

lemma market_cross: "cross_event (market_env h v) ''BTCUSDT'' 6 ''OKX'' okx_quote ''MEXC'' mexc_quote = Some sample_route"
proof -
  have "cross_event (market_env h v) ''BTCUSDT'' 6 ''OKX'' okx_quote ''MEXC'' mexc_quote =
      cross_event sample_env ''BTCUSDT'' 6 ''OKX'' okx_quote ''MEXC'' mexc_quote"
    by (simp add: cross_event_def sample_env_def market_env_def sample_fee Let_def)
  then show ?thesis by (simp only: sample_cross)
qed

lemma market_eligible: "route_volume_eligible (market_env h v) sample_route"
  by (simp add: route_volume_eligible_def range_users_def get_all_users_def sample_user_def sample_route_def)

lemma sample_quotes:
  "quote_of sample_book ''OKX'' MarketTypeFutures = Some okx_quote" "quote_of sample_book ''MEXC'' MarketTypeFutures = Some mexc_quote"
  "fresh (Some okx_quote) 6 default_price_ttl" "fresh (Some mexc_quote) 6 default_price_ttl"
  "ps_bid okx_quote \<le> ps_ask mexc_quote" "ps_ask okx_quote < ps_bid mexc_quote"
  by (simp_all add: sample_book_def quote_of_def fresh_Some okx_quote_def mexc_quote_def default_price_ttl_def
      nano_second_def time_sub_def)

lemma market_passes:
  assumes "\<And>w. v = Some w \<Longrightarrow> volume_ok w"
  shows "symbol_may_pass_volume (market_env h v) sample_book ''BTCUSDT'' 6"
proof -
  have "cross_opportunity (market_env h v) sample_book ''BTCUSDT'' 6 ''OKX'' ''MEXC'' sample_route"
    using sample_quotes market_cross by (simp add: cross_opportunity_def)
  from eligible_passes [OF market_env_ok [OF assms] cross_legs_fresh [OF this] market_eligible] show ?thesis by simp
qed

definition okx_tick :: market_tick where
  "okx_tick = normalize_tick (sample_tick ''OKX'' okx_quote)"

definition one_quote :: aggregator where
  "one_quote = \<lparr>ag_shards = (ag_shards empty_aggregator)(shard_for ''BTCUSDT'' :=
      \<lparr>sh_prices = [(''BTCUSDT'', [(''OKX'', [(MarketTypeFutures, okx_quote)])])], sh_active = []\<rparr>), ag_ticks = 1\<rparr>"

lemma okx_tick_fields: "mt_symbol okx_tick = ''BTCUSDT''" "mt_exchange okx_tick = ''OKX''"
  "mt_market okx_tick = MarketTypeFutures" "mt_received_at okx_tick = 5" "tick_now okx_tick = 5"
  "mt_bid okx_tick = 99" "mt_ask okx_tick = 100" "mt_volume okx_tick = 2000"
  by (simp_all add: okx_tick_def normalize_tick_def sample_tick_def sample_symbol sample_names Let_def
      is_zero_time_def okx_quote_def tick_now_def)

lemma okx_tick_valid: "valid_tick (sample_tick ''OKX'' okx_quote)"
  by (simp add: valid_tick_def sample_tick_def okx_quote_def is_zero_time_def string_eval)

text \<open>The first quote of the symbol: stored, no route.\<close>

lemma first_tick: "process_tick (market_env h v) (sample_tick ''OKX'' okx_quote) empty_aggregator = (one_quote, [])"
proof -
  have c: "tick_candidates (market_env h v) b ex ''BTCUSDT'' 5 = []"
    if "b = [(''OKX'', [(MarketTypeFutures, okx_quote)])]" for b ex
  proof -
    have "MarketTypeSpot \<noteq> MarketTypeFutures" by (simp add: MarketTypeSpot_def MarketTypeFutures_def)
    then show ?thesis
      by (auto simp: that tick_candidates_def cross_candidates_def intra_candidate_def quote_of_def
          split: option.split)
  qed
  have s: "tick_shard (market_env h v) okx_tick \<lparr>sh_prices = [], sh_active = []\<rparr> =
      (\<lparr>sh_prices = [(''BTCUSDT'', [(''OKX'', [(MarketTypeFutures, okx_quote)])])], sh_active = []\<rparr>, [])"
    by (simp add: tick_shard_def okx_tick_fields book_for_def store_quote_def markets_for_def c okx_quote_def [symmetric])
  have l: "\<not> late_tick okx_tick []" by (simp add: late_tick_def quote_of_def)
  show ?thesis
    using okx_tick_valid s l
    by (simp add: process_tick_def Let_def okx_tick_def [symmetric] okx_tick_fields one_quote_def)
      (simp add: empty_aggregator_def book_for_def)
qed

lemma market_candidates:
  assumes "\<And>w. v = Some w \<Longrightarrow> volume_ok w"
  shows "tick_candidates (market_env h v) sample_book ''MEXC'' ''BTCUSDT'' 6 = [sample_route]"
proof -
  have "rev (mkeys sample_book) = [''MEXC'', ''OKX'']" by (simp add: sample_book_def)
  then have c: "cross_candidates (market_env h v) sample_book ''BTCUSDT'' 6 = [sample_route]"
    using sample_quotes by (simp add: cross_candidates_def market_cross)
  have "MarketTypeSpot \<noteq> MarketTypeFutures" by (simp add: MarketTypeSpot_def MarketTypeFutures_def)
  then have "intra_candidate (market_env h v) sample_book ''MEXC'' ''BTCUSDT'' 6 = None"
    by (simp add: intra_candidate_def sample_book_def split: option.split)
  then show ?thesis using market_passes [of v h] assms c
    by (simp add: tick_candidates_def is_pair_enabled_def has_users_def)
qed

abbreviation opened_route :: spread_event where
  "opened_route \<equiv> sample_route\<lparr>ev_lifecycle := SignalOpened\<rparr>"

definition open_state :: route_state where
  "open_state = \<lparr>rs_peak = 1 / 10, rs_last = opened_route, rs_opened = 6\<rparr>"

definition two_quotes :: aggregator where
  "two_quotes = \<lparr>ag_shards = (ag_shards empty_aggregator)(shard_for ''BTCUSDT'' :=
      \<lparr>sh_prices = [(''BTCUSDT'', sample_book)], sh_active = [(route_key sample_route, open_state)]\<rparr>), ag_ticks = 2\<rparr>"

text \<open>The second quote opens the route from OKX to MEXC.\<close>

lemma second_tick:
  assumes "h \<in> {1 / 50, 1 / 100}" and "\<And>w. v = Some w \<Longrightarrow> volume_ok w"
  shows "process_tick (market_env h v) (sample_tick ''MEXC'' mexc_quote) one_quote = (two_quotes, [opened_route])"
proof -
  let ?sh = "\<lparr>sh_prices = [(''BTCUSDT'', [(''OKX'', [(MarketTypeFutures, okx_quote)])])], sh_active = []\<rparr>"
  have b: "store_quote mexc_tick (book_for ?sh ''BTCUSDT'') = sample_book"
    by (simp add: store_quote_def mexc_tick_def mexc_quote_def book_for_def markets_for_def sample_book_def)
  have ob: "observe (market_env h v) sample_route [] {} =
      ([(route_key sample_route, open_state)], {route_key sample_route}, Some opened_route)"
    using assms(1) by (auto simp: observe_def Let_def get_hard_min_spread_def new_screener_config_def
        hard_min_spread_def open_state_def) (simp_all add: sample_route_def)
  have "tick_shard (market_env h v) mexc_tick ?sh =
      (\<lparr>sh_prices = [(''BTCUSDT'', sample_book)], sh_active = [(route_key sample_route, open_state)]\<rparr>, [opened_route])"
    using b by (simp add: tick_shard_def Let_def sample_tick_fields market_candidates [OF assms(2)] observe_eligible_def
        market_eligible ob)
  moreover have "\<not> late_tick mexc_tick (book_for ?sh ''BTCUSDT'')"
    by (simp add: late_tick_def mexc_tick_def book_for_def quote_of_def)
  moreover have "ag_shards one_quote (shard_for ''BTCUSDT'') = ?sh" by (simp add: one_quote_def)
  ultimately show ?thesis
    using sample_tick_valid by (simp add: process_tick_def Let_def sample_tick_fields sample_tick_norm)
      (simp add: one_quote_def two_quotes_def)
qed

section \<open>The application\<close>

definition trading_app :: application where
  "trading_app = sample_app\<lparr>ap_conns := new_connector_manager (Some pair_funding) [], ap_users := [(7, sample_user 7)]\<rparr>"

lemma trading_app_ok: "app_ok trading_app"
proof -
  have "config_ok (new_screener_config (1 / 100))" by (rule config_ok_new)
  moreover have "funding_at_floor (new_screener_config (1 / 100)) pair_funding"
    using pair_funding_ok by (simp add: funding_at_floor_def pair_funding_def get_hard_min_spread_def
        new_screener_config_def hard_min_spread_def)
  moreover have "cm_funding_sink (new_connector_manager (Some pair_funding) []) = Some pair_funding"
    by (simp add: new_connector_manager_def)
  ultimately show ?thesis
    by (simp add: app_ok_sink trading_app_def sample_app_def sink_kept_def manager_ok_new users_ok_def sample_user_def)
qed

lemma trading_app_fresh: "fresh_pipeline trading_app"
  by (simp add: fresh_pipeline_def trading_app_def sample_app_def new_tracker_def)

lemma trading_app_parts: "ap_aggregator trading_app = empty_aggregator" "ap_tracker_chan trading_app = []"
  "ap_tracker trading_app = new_tracker None None"
  by (simp_all add: trading_app_def sample_app_def)

definition trade_env :: tick_env where
  "trade_env = \<lparr>ti_dec = sample_lib, ti_clock = 6, ti_order = rev, ti_user_order = id\<rparr>"

definition trade_handling :: handling where
  "trade_handling = \<lparr>hd_dec = sample_lib, hd_uuid = ''s1'', hd_ready = True, hd_now = 6, hd_user_order = id\<rparr>"

lemma trade_market: "agg_env_of trade_env (trading_app\<lparr>ap_aggregator := x\<rparr>) = market_env (1 / 100) (Some new_volume_engine)"
  by (simp add: agg_env_of_def trade_env_def market_env_def sample_env_def trading_app_def sample_app_def
      app_funding_def new_connector_manager_def)

text \<open>The ticks as the adapters send them, with the symbol in normal form.\<close>

definition sent_tick :: "string \<Rightarrow> price_state \<Rightarrow> market_tick" where
  "sent_tick ex q = (sample_tick ex q)\<lparr>mt_symbol := ''BTCUSDT''\<rparr>"

lemma sent_tick_symbol: "mt_symbol (sent_tick ex q) = ''BTCUSDT''" "normalize_symbol ''BTCUSDT'' = ''BTCUSDT''"
  by (simp_all add: sent_tick_def normalize_symbol_def remove_chars_def string_eval)

lemma sent_tick_fit: "tick_fit (sent_tick ex q)"
  by (simp add: tick_fit_def sent_tick_symbol)

lemma sent_tick_process: "process_tick E (sent_tick ex q) ag = process_tick E (sample_tick ex q) ag"
proof -
  have "normalize_tick (sent_tick ex q) = normalize_tick (sample_tick ex q)"
    by (simp add: normalize_tick_def sent_tick_def sample_tick_def sample_symbol sent_tick_symbol(2) Let_def)
  moreover have "valid_tick (sent_tick ex q) = valid_tick (sample_tick ex q)"
    by (simp add: valid_tick_def sent_tick_def sample_tick_def string_eval)
  ultimately show ?thesis unfolding process_tick_def by (simp only:)
qed

lemma trade_ticks:
  "process_tick (agg_env_of trade_env (trading_app\<lparr>ap_aggregator := x\<rparr>)) (sent_tick ''OKX'' okx_quote) empty_aggregator = (one_quote, [])"
  "process_tick (agg_env_of trade_env (trading_app\<lparr>ap_aggregator := x\<rparr>)) (sent_tick ''MEXC'' mexc_quote) one_quote = (two_quotes, [opened_route])"
  unfolding sent_tick_process trade_market
  by (rule first_tick, rule second_tick) (simp_all add: volume_ok_new)

section \<open>Opening\<close>

abbreviation "trade_worker \<equiv> dispatch_index 8 ''BTCUSDT''"

definition tick_ops :: "market_tick \<Rightarrow> run_op list" where
  "tick_ops t = [Outside (Arrive t), Worker Dispatch, Worker (Ingest trade_worker trade_env)]"

definition open_ops :: "run_op list" where
  "open_ops = tick_ops (sent_tick ''OKX'' okx_quote) @ tick_ops (sent_tick ''MEXC'' mexc_quote)
     @ [Worker (SendEvent trade_worker), Worker (Track trade_handling)]"

definition opened_tracker :: tracker where
  "opened_tracker = (new_tracker None None)\<lparr>tk_active := [(route_key sample_route, new_arbitrage_signal ''s1'' opened_route 6)]\<rparr>"

lemma track_opened: "handle_event E ''s1'' ready opened_route (new_tracker None None) = opened_tracker"
proof -
  have "ev_timestamp sample_route = 6" "ev_symbol sample_route \<noteq> []" "\<not> ev_spread sample_route < 0"
    by (simp_all add: sample_route_def)
  then show ?thesis
    by (simp add: handle_event_def tracker_transition_def open_transition_def opened_tracker_def new_tracker_def Let_def
        is_zero_time_def persist_snapshot_def)
qed

text \<open>The running application with an aggregator, and the events its worker still has to send.\<close>

definition trading :: "aggregator \<Rightarrow> spread_event list \<Rightarrow> running" where
  "trading ag evs = (running_of 8 trading_app)\<lparr>rn_app := trading_app\<lparr>ap_aggregator := ag\<rparr>, rn_outbox := (\<lambda>_. [])(trade_worker := evs)\<rparr>"

lemma trade_worker_less: "trade_worker < 8"
  by (rule dispatch_index_less) simp_all

lemma running_trading: "running_of 8 trading_app = trading empty_aggregator []"
  by (simp add: trading_def running_of_def fun_upd_idem) (simp add: trading_app_parts [symmetric])

lemma tick_run:
  assumes "mt_symbol t = ''BTCUSDT''" and "tick_fit t"
    and "process_tick (agg_env_of trade_env (trading_app\<lparr>ap_aggregator := ag\<rparr>)) t ag = (ag', evs)"
  shows "fold run_step (tick_ops t) (trading ag []) = trading ag' evs \<and> orderly_run (tick_ops t) (trading ag [])"
proof -
  let ?s = "trading ag []"
  let ?s1 = "?s\<lparr>rn_ticks := [t]\<rparr>" and ?s2 = "?s\<lparr>rn_queues := (replicate 8 [])[trade_worker := [t]]\<rparr>"
  have parts: "rn_ticks ?s = []" "rn_phase ?s = Serving" "rn_queues ?s = replicate 8 []" "rn_outbox ?s = (\<lambda>_. [])"
    "rn_app ?s = trading_app\<lparr>ap_aggregator := ag\<rparr>" "janitor_id ?s = 8"
    by (simp_all add: trading_def running_of_def janitor_id_def fun_upd_idem)
  have q: "(replicate 8 [] :: market_tick list list)[trade_worker := []] = replicate 8 []" "trade_worker < length (replicate 8 x)" for x :: 'a
    using trade_worker_less by (simp_all add: list_update_same_conv)
  have s1: "run_step (Outside (Arrive t)) ?s = ?s1" by (simp add: parts)
  have s2: "run_step (Worker Dispatch) ?s1 = ?s2"
    using q(2) by (simp add: parts dispatch_tick_def Let_def assms(1))
  have s3: "run_step (Worker (Ingest trade_worker trade_env)) ?s2 = trading ag' evs"
    using q trade_worker_less by (simp add: parts assms(3)) (simp add: trading_def running_of_def)
  have "orderly (Worker (Ingest trade_worker trade_env)) ?s2" using order_ok_rev by (simp add: parts trade_env_def janitor_id_def)
  then have "orderly_run (tick_ops t) ?s" unfolding tick_ops_def orderly_run.simps s1 s2 using assms(2) by simp
  moreover have "fold run_step (tick_ops t) ?s = trading ag' evs" unfolding tick_ops_def fold_simps s1 s2 s3 by (rule refl)
  ultimately show ?thesis by blast
qed

definition opened :: running where
  "opened = (running_of 8 trading_app)\<lparr>rn_app := trading_app\<lparr>ap_aggregator := two_quotes, ap_tracker := opened_tracker\<rparr>\<rparr>"

lemma orderly_run_append: "orderly_run (xs @ ys) s \<longleftrightarrow> orderly_run xs s \<and> orderly_run ys (fold run_step xs s)"
  by (induction xs arbitrary: s) auto

lemma open_run: "fold run_step open_ops (running_of 8 trading_app) = opened \<and> orderly_run open_ops (running_of 8 trading_app)"
proof -
  note t1 = tick_run [OF sent_tick_symbol(1) sent_tick_fit trade_ticks(1)]
  note t2 = tick_run [OF sent_tick_symbol(1) sent_tick_fit trade_ticks(2)]
  let ?s = "trading two_quotes [opened_route]"
  let ?s1 = "(trading two_quotes [])\<lparr>rn_app := trading_app\<lparr>ap_aggregator := two_quotes, ap_tracker_chan := [opened_route]\<rparr>\<rparr>"
  have s1: "run_step (Worker (SendEvent trade_worker)) ?s = ?s1"
    using trade_worker_less by (simp add: trading_def running_of_def janitor_id_def trading_app_parts)
  have s2: "run_step (Worker (Track trade_handling)) ?s1 = opened"
    by (simp add: trading_app_parts trade_handling_def track_opened) (simp add: trading_def running_of_def opened_def fun_upd_idem
        trading_app_parts [symmetric])
  have "orderly (Worker (SendEvent trade_worker)) ?s"
    using trade_worker_less by (simp add: trading_def running_of_def janitor_id_def)
  moreover have "orderly (Worker (Track trade_handling)) ?s1"
    by (simp add: timely_def proper_event_def trading_app_parts new_tracker_def) (simp add: sample_route_def)
  ultimately have "orderly_run [Worker (SendEvent trade_worker), Worker (Track trade_handling)] ?s"
    unfolding orderly_run.simps s1 by simp
  moreover have "fold run_step [Worker (SendEvent trade_worker), Worker (Track trade_handling)] ?s = opened"
    unfolding fold_simps s1 s2 by (rule refl)
  ultimately show ?thesis using t1 t2 by (simp add: open_ops_def running_trading orderly_run_append)
qed

lemma opened_parts: "tracked (ap_tracker (rn_app opened)) = {route_key sample_route}"
  "ap_tracker_chan (rn_app opened) = []" "rn_outbox opened = (\<lambda>_. [])"
  by (simp_all add: opened_def opened_tracker_def tracked_def trading_app_parts running_of_def)

theorem running_agreement_witness:
  "\<exists>s. s = fold run_step open_ops (running_of (nat (worker_count 4)) trading_app)
     \<and> route_key sample_route \<in> tracked (ap_tracker (rn_app s)) \<and> route_key sample_route \<in> open_keys (ap_aggregator (rn_app s))"
proof -
  have w: "nat (worker_count 4) = 8" by (simp add: worker_count_def)
  have f: "opened = fold run_step open_ops (running_of (nat (worker_count 4)) trading_app)"
    "orderly_run open_ops (running_of (nat (worker_count 4)) trading_app)" using open_run by (simp_all add: w)
  have "in_flight (key_symbol (route_key sample_route)) opened = []" by (simp add: in_flight_def opened_parts)
  from running_agreement [OF trading_app_ok trading_app_fresh f this] have "route_key sample_route \<in> open_keys (ap_aggregator (rn_app opened))"
    by (simp add: opened_parts)
  then show ?thesis unfolding f(1) [symmetric] by (simp add: opened_parts)
qed

section \<open>Closing\<close>

lemma flush_one:
  assumes "\<forall>j. j \<noteq> i \<longrightarrow> sh_active (ag_shards ag j) = []" 
  shows "snd (each_shard (flush_shard rev now) is ag) =
    (if i \<in> set is then snd (flush_shard rev now (ag_shards ag i)) else [])"
  using assms
proof (induction "is" arbitrary: ag)
  case (Cons j js)
  let ?ag = "ag\<lparr>ag_shards := (ag_shards ag)(j := fst (flush_shard rev now (ag_shards ag j)))\<rparr>"
  have none: "snd (each_shard (flush_shard rev now) js ag') = []" if "\<forall>j. sh_active (ag_shards ag' j) = []" for ag'
    using that by (induction js arbitrary: ag') (simp_all add: Let_def case_prod_beta flush_shard_def)
  show ?case
  proof (cases "j = i")
    case True
    then have "\<forall>j. sh_active (ag_shards ?ag j) = []" using Cons.prems by (simp add: flush_shard_def)
    from none [OF this] True show ?thesis by (simp add: Let_def case_prod_beta)
  next
    case False
    then have "snd (flush_shard rev now (ag_shards ag j)) = []" using Cons.prems by (simp add: flush_shard_def)
    moreover have "\<forall>j. j \<noteq> i \<longrightarrow> sh_active (ag_shards ?ag j) = []" using Cons.prems by (simp add: flush_shard_def)
    ultimately show ?thesis using Cons.IH [of ?ag] False by (simp add: Let_def case_prod_beta)
  qed
qed simp

abbreviation closed_route :: spread_event where
  "closed_route \<equiv> closing_event 9 open_state"

lemma two_quotes_flush: "\<exists>ag. flush_active rev 9 9 two_quotes = (ag, [closed_route])"
proof -
  have "shard_for ''BTCUSDT'' < num_shards" by (simp add: shard_for_def num_shards_def)
  then have "snd (flush_active rev 9 9 two_quotes) = [closed_route]"
    by (simp add: flush_active_def is_zero_time_def flush_one [of "shard_for ''BTCUSDT''"] two_quotes_def empty_aggregator_def
        flush_shard_def)
  then show ?thesis by (metis prod.collapse)
qed

definition close_ops :: "run_op list" where
  "close_ops = [Stop (StopIntake rev (\<lambda>_. (True, []))), Stop StopWorkers, Stop (FlushRoutes rev 9), Worker (SendEvent 8),
     Worker (Track trade_handling), Stop (CloseDown sample_save_env)]"

lemma close_run: "orderly_run close_ops opened \<and> rn_phase (fold run_step close_ops opened) = Closed"
proof -
  obtain ag where f: "flush_active rev 9 9 two_quotes = (ag, [closed_route])" using two_quotes_flush by blast
  let ?cms = "fst (stop_all rev (\<lambda>_. (True, [])) (ap_conns trading_app))"
  let ?a = "trading_app\<lparr>ap_tracker := opened_tracker, ap_accepting := False, ap_conns := ?cms\<rparr>"
  let ?s = "\<lambda>a evs phase. (running_of 8 trading_app)\<lparr>rn_app := a, rn_outbox := (\<lambda>_. [])(8 := evs), rn_phase := phase\<rparr>"
  let ?a0 = "?a\<lparr>ap_aggregator := two_quotes\<rparr>" and ?a1 = "?a\<lparr>ap_aggregator := ag\<rparr>"
  let ?a2 = "?a1\<lparr>ap_tracker_chan := [closed_route]\<rparr>"
  let ?tk = "handle_event (tracker_env_of trade_handling ?a2) ''s1'' True closed_route opened_tracker"
  have s1: "run_step (Stop (StopIntake rev (\<lambda>_. (True, [])))) opened = ?s ?a0 [] IntakeStopped"
    by (simp add: opened_def running_of_def fun_upd_idem)
  have s2: "run_step (Stop StopWorkers) (?s ?a0 [] IntakeStopped) = ?s ?a0 [] WorkersStopped"
    by (simp add: running_of_def workers_idle_def list_all_iff)
  have s3: "run_step (Stop (FlushRoutes rev 9)) (?s ?a0 [] WorkersStopped) = ?s ?a1 [closed_route] RoutesFlushed"
    using f by (simp add: running_of_def janitor_id_def)
  have s4: "run_step (Worker (SendEvent 8)) (?s ?a1 [closed_route] RoutesFlushed) = ?s ?a2 [] RoutesFlushed"
    by (simp add: running_of_def janitor_id_def trading_app_parts)
  have s5: "run_step (Worker (Track trade_handling)) (?s ?a2 [] RoutesFlushed) =
      ?s (?a1\<lparr>ap_tracker_chan := [], ap_tracker := ?tk\<rparr>) [] RoutesFlushed"
    by (simp add: running_of_def trade_handling_def)
  have s6: "rn_phase (run_step (Stop (CloseDown sample_save_env)) (?s (?a1\<lparr>ap_tracker_chan := [], ap_tracker := ?tk\<rparr>) [] RoutesFlushed)) = Closed"
    by (simp add: running_of_def janitor_id_def)
  have "timely closed_route opened_tracker"
    by (simp add: timely_def proper_event_def closing_event_def open_state_def opened_tracker_def)
      (simp add: sample_route_def new_arbitrage_signal_def Let_def)
  then have "orderly_run close_ops opened"
    unfolding close_ops_def orderly_run.simps s1 s2 s3 s4 s5
    using dispatch_index_less [of 8 "event_symbol closed_route"] by (simp add: running_of_def janitor_id_def order_ok_rev)
  moreover have "rn_phase (fold run_step close_ops opened) = Closed"
    unfolding close_ops_def fold_simps s1 s2 s3 s4 s5 by (rule s6)
  ultimately show ?thesis ..
qed

theorem shutdown_leaves_nothing_witness:
  "\<exists>s1 s2. s1 = fold run_step open_ops (running_of (nat (worker_count 4)) trading_app)
     \<and> route_key sample_route \<in> tracked (ap_tracker (rn_app s1))
     \<and> s2 = fold run_step close_ops s1 \<and> rn_phase s2 = Closed \<and> tracked (ap_tracker (rn_app s2)) = {}
     \<and> open_keys (ap_aggregator (rn_app s2)) = {}"
proof -
  have w: "nat (worker_count 4) = 8" by (simp add: worker_count_def)
  have o: "fold run_step open_ops (running_of (nat (worker_count 4)) trading_app) = opened"
    "orderly_run open_ops (running_of (nat (worker_count 4)) trading_app)" using open_run by (simp_all add: w)
  have f: "fold run_step close_ops opened = fold run_step (open_ops @ close_ops) (running_of (nat (worker_count 4)) trading_app)"
    by (simp add: o(1))
  have "orderly_run (open_ops @ close_ops) (running_of (nat (worker_count 4)) trading_app)"
    using close_run o by (simp add: orderly_run_append)
  from shutdown_leaves_nothing [OF trading_app_ok trading_app_fresh f this] close_run
  have "tracked (ap_tracker (rn_app (fold run_step close_ops opened))) = {} \<and> open_keys (ap_aggregator (rn_app (fold run_step close_ops opened))) = {}"
    by blast
  then show ?thesis unfolding o(1) using close_run by (simp add: opened_parts)
qed

end
