(* ===== verification/Persistence_Pool.thy ===== *)
theory Persistence_Pool
  imports Persistence
begin

text \<open>
  The older worker of internal/app/persistence_worker.go as a whole: \<open>Start\<close> with four goroutines that
  take signals from one channel and retry each of them (\<open>persist_loop\<close> of Persistence) until it is
  saved or the shutdown comes. The program starts the buffered worker instead.
\<close>

section \<open>State and steps\<close>

text \<open>\<open>pl_busy ! i\<close> is the signal goroutine \<open>i\<close> is saving, with the next wait; the channel carries
  pointers, which may be nil; \<open>pl_saved\<close> lists the successful saves in their order.\<close>

record pool =
  pl_chan :: "signal option list"
  pl_shut :: bool
  pl_busy :: "(signal \<times> gdur) option list"
  pl_saved :: "signal list"
  pl_failed :: "signal list"

definition pool_workers :: nat where
  "pool_workers = 4"

text \<open>\<open>Start\<close> returns at once without a channel or a repository.\<close>

definition pool_start :: "bool \<Rightarrow> bool \<Rightarrow> pool option" where
  "pool_start has_chan has_repo =
     (if \<not> has_chan \<or> \<not> has_repo then None
      else Some \<lparr>pl_chan = [], pl_shut = False, pl_busy = replicate pool_workers None,
             pl_saved = [], pl_failed = []\<rparr>)"

text \<open>One attempt: the save, and when it fails whether the shutdown comes before the timer. A send on
  the closed channel is not a step: it would end the program.\<close>

datatype pool_op = PoolSend "signal option" | PoolClose | PoolTake nat | PoolAttempt nat bool bool

fun pool_step :: "pool_op \<Rightarrow> pool \<Rightarrow> pool" where
  "pool_step (PoolSend s) st = (if pl_shut st then st else st\<lparr>pl_chan := pl_chan st @ [s]\<rparr>)"
| "pool_step PoolClose st = st\<lparr>pl_shut := True\<rparr>"
| "pool_step (PoolTake i) st =
     (if \<not> i < length (pl_busy st) \<or> pl_busy st ! i \<noteq> None then st
      else case pl_chan st of
        [] \<Rightarrow> st
      | None # q \<Rightarrow> st\<lparr>pl_chan := q\<rparr>
      | Some s # q \<Rightarrow> st\<lparr>pl_chan := q, pl_busy := (pl_busy st)[i := Some (s, 200 * 10 ^ 6)]\<rparr>)"
| "pool_step (PoolAttempt i saved shutdown) st =
     (if \<not> i < length (pl_busy st) then st
      else case pl_busy st ! i of
        None \<Rightarrow> st
      | Some (s, backoff) \<Rightarrow>
          if saved then st\<lparr>pl_busy := (pl_busy st)[i := None], pl_saved := pl_saved st @ [s]\<rparr>
          else if shutdown then st\<lparr>pl_busy := (pl_busy st)[i := None], pl_failed := pl_failed st @ [s]\<rparr>
          else st\<lparr>pl_busy := (pl_busy st)[i := Some (s, next_backoff backoff)]\<rparr>)"

text \<open>All goroutines have left their loops over the channel.\<close>

definition pool_returned :: "pool \<Rightarrow> bool" where
  "pool_returned st \<longleftrightarrow> pl_shut st \<and> pl_chan st = [] \<and> list_all (\<lambda>b. b = None) (pl_busy st)"

section \<open>Where the signals are\<close>

definition present :: "'a option list \<Rightarrow> 'a list" where
  "present xs = map the (filter (\<lambda>x. x \<noteq> None) xs)"

lemma present_simps [simp]: "present [] = []" "present (None # xs) = present xs" "present (Some x # xs) = x # present xs"
  "present (xs @ ys) = present xs @ present ys"
  by (simp_all add: present_def)

text \<open>The signals sent before the channel is closed.\<close>

fun pool_sent :: "pool_op list \<Rightarrow> bool \<Rightarrow> signal list" where
  "pool_sent [] shut = []"
| "pool_sent (PoolSend (Some s) # ops) shut = (if shut then [] else [s]) @ pool_sent ops shut"
| "pool_sent (PoolClose # ops) shut = pool_sent ops True"
| "pool_sent (_ # ops) shut = pool_sent ops shut"

definition in_work :: "pool \<Rightarrow> signal list" where
  "in_work st = present (pl_chan st) @ map fst (present (pl_busy st))"

definition held_signals :: "pool \<Rightarrow> signal multiset" where
  "held_signals st = mset (in_work st) + mset (pl_saved st) + mset (pl_failed st)"

definition busy_signals :: "(signal \<times> gdur) option list \<Rightarrow> signal multiset" where
  "busy_signals bs = mset (map fst (present bs))"

lemma busy_update:
  "i < length bs \<Longrightarrow> busy_signals (bs[i := y]) + busy_signals [bs ! i] = busy_signals bs + busy_signals [y]"
proof (induction bs arbitrary: i)
  case (Cons b bs)
  show ?case
  proof (cases i)
    case (Suc j)
    with Cons show ?thesis by (cases b) (auto simp: busy_signals_def)
  qed (cases b; cases y; simp add: busy_signals_def)
qed simp

lemma held_signals_parts:
  "held_signals st = mset (present (pl_chan st)) + busy_signals (pl_busy st) + mset (pl_saved st) + mset (pl_failed st)"
  by (simp add: held_signals_def in_work_def busy_signals_def)

lemma pool_take_held: "held_signals (pool_step (PoolTake i) st) = held_signals st"
proof (cases "i < length (pl_busy st) \<and> pl_busy st ! i = None")
  case True
  show ?thesis
  proof (cases "pl_chan st")
    case (Cons c q)
    then show ?thesis
    proof (cases c)
      case (Some s)
      have "busy_signals ((pl_busy st)[i := Some (s, 200 * 10 ^ 6)]) = busy_signals (pl_busy st) + {#s#}"
        using busy_update [of i "pl_busy st" "Some (s, 200 * 10 ^ 6)"] True by (simp add: busy_signals_def)
      with True Cons Some show ?thesis by (simp add: held_signals_parts)
    qed (use True in \<open>simp add: held_signals_parts\<close>)
  qed (use True in simp)
qed auto

lemma pool_attempt_held: "held_signals (pool_step (PoolAttempt i saved shutdown) st) = held_signals st"
proof (cases "i < length (pl_busy st) \<and> pl_busy st ! i \<noteq> None")
  case True
  then obtain s b where b: "pl_busy st ! i = Some (s, b)" by auto
  have u: "busy_signals (pl_busy st) = busy_signals ((pl_busy st)[i := None]) + {#s#}"
    "busy_signals (pl_busy st) = busy_signals ((pl_busy st)[i := Some (s, c)])" for c
    using busy_update [of i "pl_busy st" None] busy_update [of i "pl_busy st" "Some (s, c)"] True b
    by (simp_all add: busy_signals_def)
  with True b show ?thesis by (simp add: held_signals_parts u(1) u(2) [symmetric])
qed (auto split: option.split)

lemma pool_step_held:
  "held_signals (pool_step x st) = held_signals st + mset (pool_sent [x] (pl_shut st))"
proof (cases x)
  case (PoolSend s)
  then show ?thesis by (cases s) (simp_all add: held_signals_def in_work_def)
qed (simp_all add: pool_take_held pool_attempt_held del: pool_step.simps(3,4), simp add: held_signals_def in_work_def)

lemma pool_shut: "pl_shut (pool_step x st) \<longleftrightarrow> pl_shut st \<or> x = PoolClose"
  by (cases x) (auto split: list.split option.split)

lemma pool_sent_Cons: "pool_sent (x # ops) shut = pool_sent [x] shut @ pool_sent ops (shut \<or> x = PoolClose)"
proof (cases x)
  case (PoolSend s)
  then show ?thesis by (cases s) simp_all
qed simp_all

lemma pool_held: "held_signals (fold pool_step ops st) = held_signals st + mset (pool_sent ops (pl_shut st))"
proof (induction ops arbitrary: st)
  case (Cons x ops)
  show ?case
    by (simp add: Cons.IH pool_step_held pool_shut pool_sent_Cons [of x ops] del: pool_step.simps pool_sent.simps(2-5))
qed simp

text \<open>Without an interruption nothing is given up.\<close>

lemma pool_failed:
  "\<forall>i. PoolAttempt i False True \<notin> set ops \<Longrightarrow> pl_failed (fold pool_step ops st) = pl_failed st"
proof (induction ops arbitrary: st)
  case (Cons x ops)
  have "pl_failed (pool_step x st) = pl_failed st"
    using Cons.prems by (cases x) (auto split: list.split option.split)
  with Cons show ?case by simp
qed simp

text \<open>The attempts of one goroutine are the loop \<open>persist_loop\<close>.\<close>

abbreviation pool_attempts :: "nat \<Rightarrow> (bool \<times> bool) list \<Rightarrow> pool \<Rightarrow> pool" where
  "pool_attempts i as \<equiv> fold (\<lambda>a. pool_step (PoolAttempt i (fst a) (snd a))) as"

lemma pool_attempts_idle: "pl_busy st ! i = None \<Longrightarrow> pool_attempts i as st = st"
  by (induction as) auto

lemma pool_attempts_loop:
  assumes "i < length (pl_busy st)" and "pl_busy st ! i = Some (s, b)"
  shows "case fst (persist_loop b as) of
      Persisted \<Rightarrow> pool_attempts i as st =
        st\<lparr>pl_busy := (pl_busy st)[i := None], pl_saved := pl_saved st @ [s]\<rparr>
    | Interrupted \<Rightarrow> pool_attempts i as st =
        st\<lparr>pl_busy := (pl_busy st)[i := None], pl_failed := pl_failed st @ [s]\<rparr>
    | StillRetrying \<Rightarrow> \<exists>b'. pool_attempts i as st = st\<lparr>pl_busy := (pl_busy st)[i := Some (s, b')]\<rparr>"
  using assms
proof (induction as arbitrary: st b)
  case Nil
  then have "(pl_busy st)[i := Some (s, b)] = pl_busy st" by (metis list_update_id)
  then have "st = st\<lparr>pl_busy := (pl_busy st)[i := Some (s, b)]\<rparr>" by simp
  then show ?case by auto
next
  case (Cons a as)
  show ?case
  proof (cases "fst a \<or> snd a")
    case True
    then show ?thesis using Cons.prems by (cases a) (auto simp: pool_attempts_idle)
  next
    case False
    let ?st = "st\<lparr>pl_busy := (pl_busy st)[i := Some (s, next_backoff b)]\<rparr>"
    have st: "i < length (pl_busy ?st)" "pl_busy ?st ! i = Some (s, next_backoff b)" using Cons.prems(1) by simp_all
    have "pool_attempts i (a # as) st = pool_attempts i as ?st" using Cons.prems False by simp
    moreover have "fst (persist_loop b (a # as)) = fst (persist_loop (next_backoff b) as)"
      using False by (cases a) (simp add: case_prod_beta)
    ultimately show ?thesis using Cons.IH [OF st] Cons.prems(1)
      by (auto simp del: pool_step.simps fold_simps split: persist_outcome.splits)
  qed
qed

section \<open>Properties\<close>

text \<open>
  Nothing is lost: in every interleaving each signal sent is in the channel, with a goroutine, saved or
  given up after the shutdown, and when \<open>Start\<close> has returned without an interruption every one was saved.
\<close>

theorem pool_saves_everything:
  assumes "pool_start has_chan has_repo = Some st0" and "st = fold pool_step ops st0"
  shows "mset (pool_sent ops False) = held_signals st
    \<and> (pool_returned st \<and> (\<forall>i. PoolAttempt i False True \<notin> set ops) \<longrightarrow> mset (pl_saved st) = mset (pool_sent ops False))"
proof -
  have z: "held_signals st0 = {#}" "\<not> pl_shut st0" "pl_failed st0 = []"
    using assms(1) by (auto simp: pool_start_def held_signals_def in_work_def pool_workers_def present_def split: if_splits)
  have h: "held_signals st = mset (pool_sent ops False)" using pool_held [of ops st0] z by (simp add: assms(2))
  have "in_work st = []" if "pool_returned st"
    using that by (auto simp: pool_returned_def in_work_def present_def list_all_iff filter_empty_conv)
  then show ?thesis using h pool_failed [of ops st0] z(3) unfolding assms(2) held_signals_def by auto
qed

text \<open>
  The goroutines overtake each other: of two snapshots of one signal the older may be saved last, after a
  failed attempt.
\<close>

theorem older_snapshot_saved_last:
  assumes "pool_start True True = Some st0"
  shows "pl_saved (fold pool_step [PoolSend (Some older), PoolSend (Some newer), PoolTake 0, PoolTake 1,
      PoolAttempt 0 False False, PoolAttempt 1 True False, PoolAttempt 0 True False] st0) = [newer, older]"
proof -
  have "st0 = \<lparr>pl_chan = [], pl_shut = False, pl_busy = [None, None, None, None], pl_saved = [], pl_failed = []\<rparr>"
    using assms(1) by (simp add: pool_start_def pool_workers_def numeral_eq_Suc)
  then show ?thesis by simp
qed

end
