(* ===== verification/Telegram.thy ===== *)
theory Telegram
  imports Go_Lib
begin

text \<open>
  internal/adapters/telegram: bot.go, the queues of one bot and the delivery of its messages, and
  botpool.go, the distribution of the chats over several bots. The Telegram API is not under
  src/: its answer to each call is an argument. A message is a chat and a text.
\<close>

type_synonym tg_message = "int \<times> string"

definition send_chan_buffer :: nat where "send_chan_buffer = 5000"
definition command_queue_buffer :: nat where "command_queue_buffer = 1000"
definition retry_after_default :: gdur where "retry_after_default = 5 * nano_second"

text \<open>The errors of \<open>api.Send\<close>: an answer of the API with its code and \<open>RetryAfter\<close>, or a failure on the way.\<close>

datatype send_error = ApiError int int | TransportError

definition telegram_retry_after :: "send_error \<Rightarrow> gdur option" where
  "telegram_retry_after e =
     (case e of
        ApiError code secs \<Rightarrow>
          if code \<noteq> 429 then None
          else Some (if secs > 0 then wrap64 (secs * nano_second) else retry_after_default)
      | TransportError \<Rightarrow> None)"

definition should_retry_telegram :: "send_error \<Rightarrow> bool" where
  "should_retry_telegram e = (case e of ApiError code _ \<Rightarrow> code \<ge> 500 \<or> code = 0 | TransportError \<Rightarrow> True)"

section \<open>Delivery of one message\<close>

text \<open>
  \<open>sendBestEffort\<close>: whether the send interval elapsed before the stop, the answer to the first
  call, whether the stop interrupted the wait, the answer to the second call. The result is what
  happened to the message.
\<close>

datatype best_effort_end = NotTried | Interrupted | Dropped | Accepted

definition send_best_effort ::
  "bool \<Rightarrow> send_error option \<Rightarrow> bool \<Rightarrow> send_error option \<Rightarrow> best_effort_end" where
  "send_best_effort interval first_answer stopped second_answer =
     (if \<not> interval then NotTried
      else case first_answer of
        None \<Rightarrow> Accepted
      | Some e \<Rightarrow>
          (case telegram_retry_after e of
             None \<Rightarrow> Dropped
           | Some delay \<Rightarrow>
               if stopped then Interrupted else if second_answer = None then Accepted else Dropped))"

text \<open>
  One turn of the loop of \<open>sendReliable\<close>: whether the context is done when the turn begins, the
  answer of the API, and how the wait before the next turn ends. A wait ended by the stop of the
  bot leaves the context as it is, done or not.
\<close>

datatype wait_end = Elapsed | ContextDone | BotStopped bool

record reliable_turn =
  tu_context_done :: bool
  tu_answer :: "send_error option"
  tu_wait :: wait_end

text \<open>What is written to the result channel; \<open>NilError\<close> is the nil the caller takes for a delivery.\<close>

datatype delivery_result = NilError | ContextError | Cancelled | SendFailed send_error

definition after_wait :: "wait_end \<Rightarrow> delivery_result" where
  "after_wait w = (case w of BotStopped context_done \<Rightarrow> if context_done then ContextError else NilError | _ \<Rightarrow> ContextError)"

fun reliable_loop :: "reliable_turn list \<Rightarrow> delivery_result option" where
  "reliable_loop [] = None"
| "reliable_loop (t # ts) =
     (if tu_context_done t then Some ContextError
      else case tu_answer t of
        None \<Rightarrow> Some NilError
      | Some e \<Rightarrow>
          (case telegram_retry_after e of
             Some delay \<Rightarrow> if tu_wait t \<noteq> Elapsed then Some (after_wait (tu_wait t)) else reliable_loop ts
           | None \<Rightarrow>
               if should_retry_telegram e
               then (if tu_wait t \<noteq> Elapsed then Some (after_wait (tu_wait t)) else reliable_loop ts)
               else Some (SendFailed e)))"

text \<open>\<open>None\<close>: the turns do not suffice, the message is still being retried.\<close>

definition send_reliable :: "bool \<Rightarrow> reliable_turn list \<Rightarrow> delivery_result option" where
  "send_reliable interval turns = (if \<not> interval then Some Cancelled else reliable_loop turns)"

section \<open>The bot\<close>

record command_request =
  cr_chat :: int
  cr_username :: string
  cr_command :: string
  cr_args :: "string list"

text \<open>
  The places of the sending goroutine: before the check of the stop, before the select that
  prefers reliable requests, in the select over all queues. \<open>bt_taken\<close> and \<open>bt_served\<close> record what it
  has taken from the two queues; a reliable request is numbered by its caller.
\<close>

datatype worker_place = AtTop | AtOuter | AtInner | Gone

record bot =
  bt_id :: int
  bt_closed :: bool
  bt_stopping :: bool
  bt_send :: "tg_message list"
  bt_reliable :: "(nat \<times> tg_message) list"
  bt_commands :: "command_request list"
  bt_place :: worker_place
  bt_taken :: "tg_message list"
  bt_served :: "(nat \<times> tg_message) list"

datatype bot_error = EmptyToken | ApiUnavailable

definition new_bot :: "bool \<Rightarrow> int \<Rightarrow> string \<Rightarrow> bot_error + bot" where
  "new_bot api_ok botid token =
     (if trim_space token = [] then Inl EmptyToken
      else if \<not> api_ok then Inl ApiUnavailable
      else Inr \<lparr>bt_id = botid, bt_closed = False, bt_stopping = False, bt_send = [], bt_reliable = [],
        bt_commands = [], bt_place = AtTop, bt_taken = [], bt_served = []\<rparr>)"

text \<open>A send to the buffered channel with a default arm: a message for a full queue is dropped.\<close>

definition queue_message :: "tg_message \<Rightarrow> bot \<Rightarrow> bot" where
  "queue_message m b =
     (if length (bt_send b) < send_chan_buffer then b\<lparr>bt_send := bt_send b @ [m]\<rparr> else b)"

definition send_private_message :: "int \<Rightarrow> string \<Rightarrow> bot \<Rightarrow> bot" where
  "send_private_message chat msg b = (if bt_closed b then b else queue_message (chat, msg) b)"

text \<open>
  \<open>sendStop\<close> is closed after \<open>closed\<close> is set, so its arm in the select is reached only when
  \<open>Close\<close> falls between the check and the select, and then the loop ends as if it had come first.
\<close>

fun broadcast :: "string \<Rightarrow> int list \<Rightarrow> bot \<Rightarrow> bot" where
  "broadcast msg [] b = b"
| "broadcast msg (c # cs) b =
     (if bt_closed b then b else broadcast msg cs (queue_message (c, msg) b))"

text \<open>The enqueueing select of \<open>BroadcastReliable\<close>: a full queue blocks.\<close>

definition queue_reliable :: "nat \<Rightarrow> tg_message \<Rightarrow> bot \<Rightarrow> bot" where
  "queue_reliable r m b =
     (if bt_closed b \<or> length (bt_reliable b) \<ge> send_chan_buffer then b
      else b\<lparr>bt_reliable := bt_reliable b @ [(r, m)]\<rparr>)"

text \<open>\<open>Close\<close>; the goroutines it waits for are the steps below.\<close>

definition close_bot :: "bot \<Rightarrow> bot" where
  "close_bot b = b\<lparr>bt_closed := True, bt_stopping := True\<rparr>"

subsection \<open>The sending goroutine\<close>

definition serve_reliable :: "bot \<Rightarrow> bot" where
  "serve_reliable b =
     (case bt_reliable b of
        [] \<Rightarrow> b
      | r # rs \<Rightarrow> b\<lparr>bt_reliable := rs, bt_served := bt_served b @ [r], bt_place := AtTop\<rparr>)"

definition take_message :: "bot \<Rightarrow> bot" where
  "take_message b =
     (case bt_send b of
        [] \<Rightarrow> b
      | m # ms \<Rightarrow> b\<lparr>bt_send := ms, bt_taken := bt_taken b @ [m], bt_place := AtTop\<rparr>)"

text \<open>A select with several ready arms takes any of them: the arm is an argument; an arm that is not
  ready leaves the goroutine where it is.\<close>

datatype select_arm = ArmStop | ArmReliable | ArmSend

definition send_worker :: "select_arm \<Rightarrow> bot \<Rightarrow> bot" where
  "send_worker arm b =
     (case bt_place b of
        AtTop \<Rightarrow> b\<lparr>bt_place := (if bt_stopping b then Gone else AtOuter)\<rparr>
      | AtOuter \<Rightarrow> if bt_reliable b \<noteq> [] then serve_reliable b else b\<lparr>bt_place := AtInner\<rparr>
      | AtInner \<Rightarrow>
          (case arm of
             ArmStop \<Rightarrow> if bt_stopping b then b\<lparr>bt_place := Gone\<rparr> else b
           | ArmReliable \<Rightarrow> serve_reliable b
           | ArmSend \<Rightarrow> take_message b)
      | Gone \<Rightarrow> b)"

subsection \<open>Commands\<close>

text \<open>\<open>strings.Fields\<close>.\<close>

fun split_spaces :: "string \<Rightarrow> string \<Rightarrow> string list" where
  "split_spaces w [] = [rev w]"
| "split_spaces w (c # cs) = (if is_space c then rev w # split_spaces [] cs else split_spaces (c # w) cs)"

definition string_fields :: "string \<Rightarrow> string list" where
  "string_fields s = filter (\<lambda>w. w \<noteq> []) (split_spaces [] s)"

text \<open>An update of the API, as far as \<open>StartPolling\<close> looks at it: a message that may be a command. Of a
  stopped bot the select may still take the arm of the queue, unless \<open>stop_seen\<close>.\<close>

record tg_update =
  up_chat :: int
  up_from_name :: string
  up_chat_name :: string
  up_command :: "(string \<times> string) option"

definition poll_update :: "bool \<Rightarrow> tg_update \<Rightarrow> bot \<Rightarrow> bot" where
  "poll_update stop_seen u b =
     (case up_command u of
        None \<Rightarrow> b
      | Some (cmd, argtext) \<Rightarrow>
          if (bt_stopping b \<and> stop_seen) \<or> length (bt_commands b) \<ge> command_queue_buffer then b
          else b\<lparr>bt_commands := bt_commands b @ [\<lparr>cr_chat = up_chat u,
                cr_username = (if up_from_name u = [] then up_chat_name u else up_from_name u),
                cr_command = cmd, cr_args = string_fields argtext\<rparr>]\<rparr>)"

text \<open>One turn of \<open>commandWorker\<close>: the handler works on the state of the application.\<close>

definition command_worker ::
  "(int \<Rightarrow> int \<Rightarrow> string \<Rightarrow> string \<Rightarrow> string list \<Rightarrow> 'app \<Rightarrow> 'app \<times> string) option \<Rightarrow> bot \<times> 'app \<Rightarrow> bot \<times> 'app" where
  "command_worker handler st =
     (case st of (b, a) \<Rightarrow>
        (case bt_commands b of
           [] \<Rightarrow> (b, a)
         | q # qs \<Rightarrow>
             (let b1 = b\<lparr>bt_commands := qs\<rparr> in
              case handler of
                None \<Rightarrow> (b1, a)
              | Some h \<Rightarrow>
                  (case h (bt_id b) (cr_chat q) (cr_username q) (cr_command q) (cr_args q) a of
                     (a', response) \<Rightarrow> (send_private_message (cr_chat q) response b1, a')))))"

section \<open>Reliable broadcasting\<close>

datatype enqueue_end = Queued | EnqueueContext | EnqueueStop

text \<open>What the delivery to one chat meets: the bot closed or not, the end of the select that queues the
  request, whether the context ends while the caller waits for the result, the delivery itself.\<close>

record reliable_env =
  rv_closed :: bool
  rv_enqueue :: enqueue_end
  rv_gave_up :: bool
  rv_interval :: bool
  rv_turns :: "reliable_turn list"

datatype reliable_error = PoolEmpty | BotClosed | ContextEnded | BotStopping | DeliveryFailed int delivery_result

text \<open>\<open>BroadcastReliable\<close> of a bot from the current first error on. \<open>None\<close>: it has not returned yet.\<close>

fun broadcast_reliable ::
  "reliable_error option \<Rightarrow> (int \<times> reliable_env) list \<Rightarrow> reliable_error option option" where
  "broadcast_reliable first_err [] = Some first_err"
| "broadcast_reliable first_err ((c, v) # rest) =
     (if rv_closed v then Some (Some BotClosed)
      else case rv_enqueue v of
        EnqueueContext \<Rightarrow> Some (Some ContextEnded)
      | EnqueueStop \<Rightarrow> Some (Some BotStopping)
      | Queued \<Rightarrow>
          if rv_gave_up v then Some (Some ContextEnded)
          else (case send_reliable (rv_interval v) (rv_turns v) of
            None \<Rightarrow> None
          | Some NilError \<Rightarrow> broadcast_reliable first_err rest
          | Some r \<Rightarrow>
              broadcast_reliable (if first_err = None then Some (DeliveryFailed c r) else first_err) rest))"

section \<open>The pool\<close>

record bot_pool =
  bp_bots :: "bot list"
  bp_route :: "(int \<Rightarrow> int) option"

definition new_bot_pool :: "bot list \<Rightarrow> (int \<Rightarrow> int) option \<Rightarrow> bot_pool" where
  "new_bot_pool bots route = \<lparr>bp_bots = bots, bp_route = route\<rparr>"

text \<open>The position of the bot of a chat in a pool that is not empty.\<close>

definition choose_bot :: "bot_pool \<Rightarrow> int \<Rightarrow> nat" where
  "choose_bot p chat =
     (case bp_route p of
        None \<Rightarrow> 0
      | Some route \<Rightarrow>
          (case find (\<lambda>i. bt_id (bp_bots p ! i) = route chat) [0..<length (bp_bots p)] of
             None \<Rightarrow> 0 | Some i \<Rightarrow> i))"

definition bot_for :: "bot_pool \<Rightarrow> int \<Rightarrow> nat option" where
  "bot_for p chat = (if bp_bots p = [] then None else Some (choose_bot p chat))"

definition update_bot :: "nat \<Rightarrow> (bot \<Rightarrow> bot) \<Rightarrow> bot_pool \<Rightarrow> bot_pool" where
  "update_bot i f p = p\<lparr>bp_bots := (bp_bots p)[i := f (bp_bots p ! i)]\<rparr>"

definition pool_send_private :: "int \<Rightarrow> string \<Rightarrow> bot_pool \<Rightarrow> bot_pool" where
  "pool_send_private chat msg p =
     (case bot_for p chat of None \<Rightarrow> p | Some i \<Rightarrow> update_bot i (send_private_message chat msg) p)"

text \<open>The map \<open>byBot\<close>.\<close>

definition by_bot :: "('a \<Rightarrow> nat) \<Rightarrow> 'a list \<Rightarrow> (nat, 'a list) gomap" where
  "by_bot f xs = fold (\<lambda>x m. mput (f x) ((case map_of m (f x) of None \<Rightarrow> [] | Some ys \<Rightarrow> ys) @ [x]) m) xs []"

definition pool_broadcast :: "(nat list \<Rightarrow> nat list) \<Rightarrow> string \<Rightarrow> int list \<Rightarrow> bot_pool \<Rightarrow> bot_pool" where
  "pool_broadcast ord msg chats p =
     (if bp_bots p = [] then p
      else let m = by_bot (choose_bot p) chats
           in fold (\<lambda>i. update_bot i (broadcast msg (the (map_of m i)))) (ord (mkeys m)) p)"

text \<open>The loop over the bots of a reliable broadcast keeps the first error.\<close>

fun reliable_bots ::
  "(nat, (int \<times> reliable_env) list) gomap \<Rightarrow> nat list \<Rightarrow> reliable_error option \<Rightarrow> reliable_error option option" where
  "reliable_bots m [] first_err = Some first_err"
| "reliable_bots m (i # is) first_err =
     (case broadcast_reliable None (the (map_of m i)) of
        None \<Rightarrow> None
      | Some err \<Rightarrow> reliable_bots m is (if err \<noteq> None \<and> first_err = None then err else first_err))"

definition pool_broadcast_reliable ::
  "(nat list \<Rightarrow> nat list) \<Rightarrow> (int \<times> reliable_env) list \<Rightarrow> bot_pool \<Rightarrow> reliable_error option option" where
  "pool_broadcast_reliable ord reqs p =
     (if bp_bots p = [] then Some (Some PoolEmpty)
      else let m = by_bot (choose_bot p \<circ> fst) reqs in reliable_bots m (ord (mkeys m)) None)"

definition close_pool :: "bot_pool \<Rightarrow> bot_pool" where
  "close_pool p = p\<lparr>bp_bots := map close_bot (bp_bots p)\<rparr>"

definition pool_len :: "bot_pool \<Rightarrow> nat" where
  "pool_len p = length (bp_bots p)"

section \<open>Facts about delivery\<close>

text \<open>The turns after which \<open>sendReliable\<close> tries again.\<close>

definition retryable :: "send_error \<Rightarrow> bool" where
  "retryable e \<longleftrightarrow> telegram_retry_after e \<noteq> None \<or> should_retry_telegram e"

definition retried :: "reliable_turn \<Rightarrow> bool" where
  "retried t \<longleftrightarrow> \<not> tu_context_done t \<and> tu_wait t = Elapsed \<and> (\<exists>e. tu_answer t = Some e \<and> retryable e)"

definition turn_result :: "reliable_turn \<Rightarrow> delivery_result" where
  "turn_result t =
     (if tu_context_done t then ContextError
      else case tu_answer t of
        None \<Rightarrow> NilError
      | Some e \<Rightarrow> if retryable e then after_wait (tu_wait t) else SendFailed e)"

lemma reliable_loop_find:
  "reliable_loop turns = map_option turn_result (find (\<lambda>t. \<not> retried t) turns)"
  by (induction turns) (auto simp: retried_def turn_result_def retryable_def split: option.split)

definition nil_turn :: "reliable_turn \<Rightarrow> bool" where
  "nil_turn t \<longleftrightarrow> \<not> tu_context_done t \<and>
     (tu_answer t = None \<or> (tu_wait t = BotStopped False \<and> (\<exists>e. tu_answer t = Some e \<and> retryable e)))"

lemma turn_result_nil: "\<not> retried t \<Longrightarrow> turn_result t = NilError \<longleftrightarrow> nil_turn t"
  by (auto simp: retried_def turn_result_def nil_turn_def after_wait_def split: option.splits wait_end.splits if_splits)

definition nil_request :: "reliable_env \<Rightarrow> bool" where
  "nil_request v \<longleftrightarrow> \<not> rv_closed v \<and> rv_enqueue v = Queued \<and> \<not> rv_gave_up v \<and> rv_interval v
     \<and> (\<exists>t. find (\<lambda>t. \<not> retried t) (rv_turns v) = Some t \<and> nil_turn t)"

lemma send_reliable_nil: "send_reliable interval turns = Some NilError \<longleftrightarrow>
    interval \<and> (\<exists>t. find (\<lambda>t. \<not> retried t) turns = Some t \<and> nil_turn t)"
  using turn_result_nil by (auto simp: send_reliable_def reliable_loop_find find_Some_iff)

lemma broadcast_reliable_nil:
  "broadcast_reliable e reqs = Some None \<longleftrightarrow> e = None \<and> (\<forall>(c, v)\<in>set reqs. nil_request v)"
proof (induction e reqs rule: broadcast_reliable.induct)
  case (2 e c v rest)
  consider "rv_closed v \<or> rv_enqueue v \<noteq> Queued \<or> rv_gave_up v" | "send_reliable (rv_interval v) (rv_turns v) = None"
    | "\<not> (rv_closed v \<or> rv_enqueue v \<noteq> Queued \<or> rv_gave_up v)" "send_reliable (rv_interval v) (rv_turns v) = Some NilError"
    | r where "\<not> (rv_closed v \<or> rv_enqueue v \<noteq> Queued \<or> rv_gave_up v)" "send_reliable (rv_interval v) (rv_turns v) = Some r" "r \<noteq> NilError"
    by fastforce
  then show ?case
  proof cases
    case 1
    then show ?thesis by (auto simp: nil_request_def split: enqueue_end.splits)
  next
    case 2
    then have "\<not> nil_request v" using send_reliable_nil [of "rv_interval v" "rv_turns v"] by (auto simp: nil_request_def)
    with 2 show ?thesis by (auto split: enqueue_end.splits)
  next
    case 3
    then have "nil_request v" using send_reliable_nil [of "rv_interval v" "rv_turns v"] by (auto simp: nil_request_def)
    with 3 "2.IH" show ?thesis by simp
  next
    case (4 r)
    then have "\<not> nil_request v" using send_reliable_nil [of "rv_interval v" "rv_turns v"] by (auto simp: nil_request_def)
    with 4 "2.IH" show ?thesis by (cases r) auto
  qed
qed auto

section \<open>Facts about the pool\<close>

lemma by_bot_snoc: "by_bot f (xs @ [x]) =
    mput (f x) ((case map_of (by_bot f xs) (f x) of None \<Rightarrow> [] | Some ys \<Rightarrow> ys) @ [x]) (by_bot f xs)"
  by (simp add: by_bot_def)

lemma map_of_by_bot: "map_of (by_bot f xs) i =
    (let ys = filter (\<lambda>x. f x = i) xs in if ys = [] then None else Some ys)"
proof (induction xs rule: rev_induct)
  case Nil
  then show ?case by (simp add: by_bot_def)
next
  case (snoc x xs)
  then show ?case by (auto simp: by_bot_snoc map_of_mput Let_def)
qed

lemma by_bot_mwf: "mwf (by_bot f xs)"
  by (induction xs rule: rev_induct) (simp_all add: by_bot_snoc mwf_mput, simp add: by_bot_def)

lemma by_bot_keys: "set (mkeys (by_bot f xs)) = f ` set xs"
proof -
  have "i \<in> set (mkeys (by_bot f xs)) \<longleftrightarrow> map_of (by_bot f xs) i \<noteq> None" for i
    by (simp add: mget_None)
  then have "i \<in> set (mkeys (by_bot f xs)) \<longleftrightarrow> i \<in> f ` set xs" for i
    by (auto simp: map_of_by_bot Let_def filter_empty_conv simp del: set_map split: if_splits)
  then show ?thesis by blast
qed

lemma find_Some_set: "find P xs = Some x \<Longrightarrow> x \<in> set xs"
  by (auto simp: find_Some_iff)

lemma choose_bot_less: "bp_bots p \<noteq> [] \<Longrightarrow> choose_bot p chat < length (bp_bots p)"
  by (auto simp: choose_bot_def split: option.split dest!: find_Some_set)

lemma choose_bot_update:
  "(\<And>b. bt_id (f b) = bt_id b) \<Longrightarrow> choose_bot (update_bot i f p) chat = choose_bot p chat"
proof -
  assume f: "\<And>b. bt_id (f b) = bt_id b"
  have "bt_id ((bp_bots p)[i := f (bp_bots p ! i)] ! j) = bt_id (bp_bots p ! j)" for j
    using f by (cases "i < length (bp_bots p)") (auto simp: nth_list_update list_update_beyond)
  then show ?thesis by (simp add: choose_bot_def update_bot_def split: option.split)
qed

lemma broadcast_private: "broadcast msg chats b = fold (\<lambda>c. send_private_message c msg) chats b"
proof (induction chats arbitrary: b)
  case (Cons c cs)
  have "bt_closed b \<Longrightarrow> fold (\<lambda>c. send_private_message c msg) cs b = b"
    by (induction cs) (simp_all add: send_private_message_def)
  moreover have "send_private_message c msg b = (if bt_closed b then b else queue_message (c, msg) b)"
    by (simp add: send_private_message_def)
  ultimately show ?case using Cons.IH by simp
qed simp

lemma broadcast_id: "bt_id (broadcast msg chats b) = bt_id b"
  by (induction msg chats b rule: broadcast.induct) (simp_all add: queue_message_def)

lemma send_private_id: "bt_id (send_private_message c msg b) = bt_id b"
  by (simp add: send_private_message_def queue_message_def)

text \<open>A loop that updates distinct bots.\<close>

lemma fold_update_bot:
  assumes "distinct is"
  shows "fold (\<lambda>i. update_bot i (g i)) is p =
    p\<lparr>bp_bots := map (\<lambda>i. if i \<in> set is then g i (bp_bots p ! i) else bp_bots p ! i) [0..<length (bp_bots p)]\<rparr>"
  using assms
proof (induction "is" arbitrary: p)
  case Nil
  then show ?case by (simp add: map_nth)
next
  case (Cons i "is")
  have i: "i \<notin> set is" "distinct is" using Cons.prems by auto
  let ?p = "update_bot i (g i) p"
  have "length (bp_bots ?p) = length (bp_bots p)"
    "bp_bots ?p ! j = (if j = i then g i (bp_bots p ! i) else bp_bots p ! j)" if "j < length (bp_bots p)" for j
    using that by (simp_all add: update_bot_def nth_list_update)
  moreover have "length (bp_bots ?p) = length (bp_bots p)" by (simp add: update_bot_def)
  ultimately have "map (\<lambda>j. if j \<in> set is then g j (bp_bots ?p ! j) else bp_bots ?p ! j) [0..<length (bp_bots ?p)] =
      map (\<lambda>j. if j \<in> set (i # is) then g j (bp_bots p ! j) else bp_bots p ! j) [0..<length (bp_bots p)]"
    using i(1) by (intro map_cong) auto
  then show ?case using Cons.IH [OF i(2), of ?p] by (simp add: update_bot_def)
qed

lemma fold_private:
  assumes "bp_bots p \<noteq> []"
  shows "fold (\<lambda>c. pool_send_private c msg) chats p =
    p\<lparr>bp_bots := map (\<lambda>i. broadcast msg (filter (\<lambda>c. choose_bot p c = i) chats) (bp_bots p ! i)) [0..<length (bp_bots p)]\<rparr>"
  using assms
proof (induction chats arbitrary: p)
  case Nil
  then show ?case by (simp add: map_nth)
next
  case (Cons c cs)
  let ?p = "update_bot (choose_bot p c) (send_private_message c msg) p"
  have "bp_bots ?p \<noteq> []" using Cons.prems by (simp add: update_bot_def)
  from Cons.IH [OF this] have "fold (\<lambda>c. pool_send_private c msg) cs ?p =
      ?p\<lparr>bp_bots := map (\<lambda>i. broadcast msg (filter (\<lambda>c. choose_bot p c = i) cs) (bp_bots ?p ! i)) [0..<length (bp_bots ?p)]\<rparr>"
    by (simp only: choose_bot_update [OF send_private_id])
  moreover have "pool_send_private c msg p = ?p" using Cons.prems by (simp add: pool_send_private_def bot_for_def)
  ultimately show ?case using choose_bot_less [OF Cons.prems, of c]
    by (auto simp: update_bot_def nth_list_update broadcast_private)
qed

lemma reliable_bots_nil:
  "reliable_bots m is e = Some None \<longleftrightarrow> e = None \<and> (\<forall>i\<in>set is. broadcast_reliable None (the (map_of m i)) = Some None)"
  by (induction m "is" e rule: reliable_bots.induct) (auto split: option.splits)

section \<open>The bot as a machine\<close>

text \<open>The calls and goroutine turns of one bot; a command is answered by an arbitrary text.\<close>

datatype bot_op = BotPrivate int string | BotBroadcast string "int list" | BotReliable nat tg_message
  | BotWorker select_arm | BotPoll bool tg_update | BotCommand "string option" | BotClose

fun bot_step :: "bot_op \<Rightarrow> bot \<Rightarrow> bot" where
  "bot_step (BotPrivate c msg) b = send_private_message c msg b"
| "bot_step (BotBroadcast msg cs) b = broadcast msg cs b"
| "bot_step (BotReliable r m) b = queue_reliable r m b"
| "bot_step (BotWorker arm) b = send_worker arm b"
| "bot_step (BotPoll stop_seen u) b = poll_update stop_seen u b"
| "bot_step (BotCommand response) b =
     fst (command_worker (map_option (\<lambda>msg _ _ _ _ _ a. (a, msg)) response) (b, ()))"
| "bot_step BotClose b = close_bot b"

definition message_log :: "bot \<Rightarrow> tg_message list" where
  "message_log b = bt_taken b @ bt_send b"

definition request_log :: "bot \<Rightarrow> (nat \<times> tg_message) list" where
  "request_log b = bt_served b @ bt_reliable b"

definition bot_ok :: "bot \<Rightarrow> bool" where
  "bot_ok b \<longleftrightarrow> length (bt_send b) \<le> send_chan_buffer \<and> length (bt_reliable b) \<le> send_chan_buffer
     \<and> length (bt_commands b) \<le> command_queue_buffer"

text \<open>One step: the logs grow at their ends only, and not at all once the bot is closed.\<close>

definition log_step :: "bot \<Rightarrow> bot \<Rightarrow> bool" where
  "log_step b b' \<longleftrightarrow> prefix (message_log b) (message_log b') \<and> prefix (request_log b) (request_log b')
     \<and> (bt_closed b \<longrightarrow> bt_closed b' \<and> message_log b' = message_log b \<and> request_log b' = request_log b)
     \<and> (bot_ok b \<longrightarrow> bot_ok b')"

lemma log_step_refl [simp]: "log_step b b"
  by (simp add: log_step_def)

lemma log_step_trans: "log_step a b \<Longrightarrow> log_step b c \<Longrightarrow> log_step a c"
  by (auto simp: log_step_def intro: prefix_order.trans)

lemma log_step_queue: "\<not> bt_closed b \<Longrightarrow> log_step b (queue_message m b)"
  by (simp add: log_step_def queue_message_def message_log_def request_log_def bot_ok_def)

lemma log_step_private: "log_step b (send_private_message c msg b)"
  by (simp add: send_private_message_def log_step_queue)

lemma log_step_broadcast: "log_step b (broadcast msg cs b)"
  unfolding broadcast_private
proof (induction cs arbitrary: b)
  case (Cons c cs)
  show ?case using log_step_trans [OF log_step_private Cons.IH] by simp
qed simp

lemma log_step_commands: "bt_commands b = q # qs \<Longrightarrow> log_step b (b\<lparr>bt_commands := qs\<rparr>)"
  by (simp add: log_step_def message_log_def request_log_def bot_ok_def)

lemma log_step_worker: "log_step b (send_worker arm b)"
  by (auto simp: log_step_def send_worker_def serve_reliable_def take_message_def message_log_def request_log_def
      bot_ok_def split: worker_place.splits select_arm.splits list.splits)

lemma log_step_bot: "log_step b (bot_step x b)"
proof (cases x)
  case (BotPoll stop_seen u)
  then show ?thesis
    by (auto simp: poll_update_def log_step_def message_log_def request_log_def bot_ok_def split: option.split)
next
  case (BotCommand response)
  then show ?thesis
    using log_step_trans [OF log_step_commands log_step_private]
    by (auto simp: command_worker_def Let_def log_step_commands split: list.splits option.splits)
next
  case (BotReliable r m)
  then show ?thesis
    by (auto simp: queue_reliable_def log_step_def message_log_def request_log_def bot_ok_def)
next
  case BotClose
  then show ?thesis by (simp add: close_bot_def log_step_def message_log_def request_log_def bot_ok_def)
qed (simp_all add: log_step_private log_step_broadcast log_step_worker)

lemma log_step_run: "log_step b (fold bot_step ops b)"
proof (induction ops arbitrary: b)
  case (Cons x ops)
  show ?case using log_step_trans [OF log_step_bot Cons.IH] by simp
qed simp

interpretation bot_machine: machine bot_step bot_ok
  by unfold_locales (use log_step_bot in \<open>auto simp: log_step_def\<close>)

text \<open>What a stopping worker may still take: nothing at the top of its loop, one thing inside it.\<close>

definition handled :: "bot \<Rightarrow> nat" where
  "handled b = length (bt_taken b) + length (bt_served b)"

definition budget :: "bot \<Rightarrow> nat" where
  "budget b = handled b + (if bt_place b \<in> {AtOuter, AtInner} then 1 else 0)"

lemma send_private_frame: "bt_stopping (send_private_message c msg b) = bt_stopping b"
  "handled (send_private_message c msg b) = handled b" "bt_place (send_private_message c msg b) = bt_place b"
  by (simp_all add: send_private_message_def queue_message_def handled_def)

lemma broadcast_frame: "bt_stopping (broadcast msg cs b) = bt_stopping b"
  "handled (broadcast msg cs b) = handled b" "bt_place (broadcast msg cs b) = bt_place b"
  by (induction cs arbitrary: b) (simp_all add: queue_message_def handled_def)

lemma budget_step:
  assumes "bt_stopping b"
  shows "bt_stopping (bot_step x b) \<and> budget (bot_step x b) \<le> budget b"
proof (cases x)
  case (BotWorker arm)
  then show ?thesis using assms
    by (auto simp: send_worker_def serve_reliable_def take_message_def budget_def handled_def
        split: worker_place.splits select_arm.splits list.splits)
next
  case (BotCommand response)
  then show ?thesis using assms
    by (auto simp: command_worker_def Let_def budget_def send_private_frame split: list.splits option.splits)
      (simp_all add: handled_def)
next
  case (BotPoll stop_seen u)
  then show ?thesis using assms by (auto simp: poll_update_def budget_def handled_def split: option.split)
next
  case (BotReliable r m)
  then show ?thesis using assms by (simp add: queue_reliable_def budget_def handled_def)
next
  case BotClose
  then show ?thesis by (simp add: close_bot_def budget_def handled_def)
qed (use assms in \<open>simp_all add: budget_def send_private_frame broadcast_frame\<close>)

lemma budget_run: "bt_stopping b \<Longrightarrow> budget (fold bot_step ops b) \<le> budget b"
  by (induction ops arbitrary: b) (use budget_step in \<open>auto intro: order_trans\<close>)

section \<open>Properties\<close>

text \<open>
  A broadcast through the pool is the same as a private message to every chat in turn: whatever
  the order in which the map of the bots is ranged over, the queue of every bot receives the
  messages of the chats routed to it, in the order of the chats, as far as it has room.
\<close>

theorem broadcast_as_private:
  assumes "order_ok ord"
  shows "pool_broadcast ord msg chats p = fold (\<lambda>c. pool_send_private c msg) chats p"
proof (cases "bp_bots p = []")
  case True
  then have "fold (\<lambda>c. pool_send_private c msg) chats p = p"
    by (induction chats) (simp_all add: pool_send_private_def bot_for_def)
  with True show ?thesis by (simp add: pool_broadcast_def)
next
  case False
  let ?m = "by_bot (choose_bot p) chats"
  have ks: "distinct (ord (mkeys ?m))" by (rule order_ok_distinct [OF assms by_bot_mwf])
  have ks2: "set (ord (mkeys ?m)) = choose_bot p ` set chats" by (simp only: order_ok_set [OF assms] by_bot_keys)
  have "(if i \<in> set (ord (mkeys ?m)) then broadcast msg (the (map_of ?m i)) b else b) =
      broadcast msg (filter (\<lambda>c. choose_bot p c = i) chats) b" for i b
    by (auto simp: ks2 map_of_by_bot Let_def filter_empty_conv)
  then show ?thesis using False
    by (simp only: pool_broadcast_def Let_def fold_update_bot [OF ks] fold_private [OF False]) simp
qed

text \<open>
  C37. What a nil error of a reliable broadcast means: for every chat the request was queued and awaited
  and, after turns that ended in a retry, either the API accepted the message or the bot was
  stopped during the wait for a further try while the context was alive. The second case is a
  message reported as delivered that was not.
\<close>

theorem pool_reliable_nil:
  assumes "order_ok ord"
  shows "pool_broadcast_reliable ord reqs p = Some None \<longleftrightarrow> bp_bots p \<noteq> [] \<and> (\<forall>(c, v)\<in>set reqs.
     \<not> rv_closed v \<and> rv_enqueue v = Queued \<and> \<not> rv_gave_up v \<and> rv_interval v
     \<and> (\<exists>t. find (\<lambda>t. \<not> retried t) (rv_turns v) = Some t \<and> \<not> tu_context_done t
          \<and> (tu_answer t = None \<or> (tu_wait t = BotStopped False \<and> (\<exists>e. tu_answer t = Some e \<and> retryable e)))))"
proof -
  let ?f = "choose_bot p \<circ> fst"
  let ?m = "by_bot ?f reqs"
  have ks: "set (ord (mkeys ?m)) = ?f ` set reqs" by (simp only: order_ok_set [OF assms] by_bot_keys)
  have "the (map_of ?m i) = filter (\<lambda>x. ?f x = i) reqs" if "i \<in> ?f ` set reqs" for i
    using that by (auto simp: map_of_by_bot Let_def filter_empty_conv)
  then have "(\<forall>i\<in>set (ord (mkeys ?m)). broadcast_reliable None (the (map_of ?m i)) = Some None)
      \<longleftrightarrow> (\<forall>(c, v)\<in>set reqs. nil_request v)"
    unfolding ks broadcast_reliable_nil by fastforce
  then show ?thesis
    unfolding pool_broadcast_reliable_def Let_def nil_request_def nil_turn_def
    by (cases "bp_bots p = []") (simp_all add: reliable_bots_nil)
qed


section \<open>Witnesses\<close>

abbreviation two_bots :: bot_pool where
  "two_bots \<equiv> new_bot_pool [\<lparr>bt_id = 0, bt_closed = False, bt_stopping = False, bt_send = [], bt_reliable = [],
      bt_commands = [], bt_place = AtTop, bt_taken = [], bt_served = []\<rparr>,
     \<lparr>bt_id = 1, bt_closed = False, bt_stopping = False, bt_send = [(9, ''old'')], bt_reliable = [],
      bt_commands = [], bt_place = AtTop, bt_taken = [], bt_served = []\<rparr>] (Some (\<lambda>c. if c = 8 then 1 else 5))"

theorem broadcast_as_private_witness:
  "map bt_send (bp_bots (pool_broadcast rev ''m'' [7, 8] two_bots)) = [[(7, ''m'')], [(9, ''old''), (8, ''m'')]]"
  by (subst broadcast_as_private [OF order_ok_rev])
    (simp add: new_bot_pool_def pool_send_private_def bot_for_def choose_bot_def update_bot_def
      send_private_message_def queue_message_def send_chan_buffer_def upt_rec)

text \<open>A server error, then the stop of the bot: the broadcast returns nil.\<close>

abbreviation stopped_delivery :: reliable_env where
  "stopped_delivery \<equiv> \<lparr>rv_closed = False, rv_enqueue = Queued, rv_gave_up = False, rv_interval = True,
     rv_turns = [\<lparr>tu_context_done = False, tu_answer = Some (ApiError 502 0), tu_wait = Elapsed\<rparr>,
       \<lparr>tu_context_done = False, tu_answer = Some (ApiError 502 0), tu_wait = BotStopped False\<rparr>]\<rparr>"

theorem pool_reliable_nil_witness:
  "pool_broadcast_reliable rev [(7, stopped_delivery)] two_bots = Some None
   \<and> map tu_answer (rv_turns stopped_delivery) = [Some (ApiError 502 0), Some (ApiError 502 0)]"
  by (subst pool_reliable_nil [OF order_ok_rev])
    (simp add: new_bot_pool_def retried_def retryable_def telegram_retry_after_def should_retry_telegram_def)


end
