(* ===== verification/Process_Config.thy ===== *)
theory Process_Config
  imports Commands Telegram
begin

text \<open>
  internal/config/config.go, the environment variables of the process, and the part of
  cmd/screener/main.go that turns them into the configuration, the administrators and the bots
  of the application. The environment is a function from names to texts, empty when unset.
\<close>

section \<open>Parsing the environment\<close>

type_synonym environment = "string \<Rightarrow> string"

record process_config =
  pc_telegram_token :: string
  pc_telegram_tokens :: "string list"
  pc_database_url :: string
  pc_hard_min_spread :: dec
  pc_admins :: "int list"
  pc_fees :: string
  pc_metrics_addr :: string
  pc_log_format :: string
  pc_log_level :: string

datatype config_error = InvalidDecimal string | NegativeDecimal string | BelowMinimum string
  | NoDatabaseUrl | InvalidAdmin string | InvalidFees string

definition parse_decimal_env_with_default ::
  "dec_lib \<Rightarrow> environment \<Rightarrow> string \<Rightarrow> string \<Rightarrow> config_error + dec" where
  "parse_decimal_env_with_default D env key fallback =
     (let raw0 = trim_space (env key); raw = (if raw0 = [] then fallback else raw0) in
      case lib_parse D raw of
        None \<Rightarrow> Inl (InvalidDecimal key)
      | Some v \<Rightarrow>
          if v < 0 then Inl (NegativeDecimal key)
          else if key = ''HARD_MIN_SPREAD'' \<and> v < 1 / 100 then Inl (BelowMinimum key)
          else Inr v)"

text \<open>\<open>strconv.ParseInt\<close> with base 10 and 64 bits is \<open>atoi\<close> of Commands.\<close>

fun parse_admins :: "string list \<Rightarrow> config_error + int list" where
  "parse_admins [] = Inr []"
| "parse_admins (p # ps) =
     (case atoi (trim_space p) of
        None \<Rightarrow> Inl (InvalidAdmin p)
      | Some i \<Rightarrow> (case parse_admins ps of Inl e \<Rightarrow> Inl e | Inr is \<Rightarrow> Inr (i # is)))"

definition parse_tokens :: "string \<Rightarrow> string \<Rightarrow> string list" where
  "parse_tokens raw_list single =
     (let raw = trim_space raw_list in
      if raw \<noteq> [] then filter (\<lambda>p. p \<noteq> []) (map trim_space (split_on CHR '','' raw))
      else let token = trim_space single in if token \<noteq> [] then [token] else [])"

fun validate_fee_parts :: "dec_lib \<Rightarrow> string list \<Rightarrow> config_error option" where
  "validate_fee_parts D [] = None"
| "validate_fee_parts D (p # ps) =
     (let part = trim_space p in
      if part = [] then validate_fee_parts D ps
      else case split_two CHR '':'' part of
        [k, v] \<Rightarrow>
          if trim_space k = [] then Some (InvalidFees part)
          else (case lib_parse D (trim_space v) of
             None \<Rightarrow> Some (InvalidFees part)
           | Some d \<Rightarrow> if d < 0 \<or> d > 1 / 100 then Some (InvalidFees part) else validate_fee_parts D ps)
      | _ \<Rightarrow> Some (InvalidFees part))"

definition validate_fees :: "dec_lib \<Rightarrow> string \<Rightarrow> config_error option" where
  "validate_fees D raw = validate_fee_parts D (split_on CHR '','' raw)"

definition normalize_log_format :: "string \<Rightarrow> string" where
  "normalize_log_format raw = (if to_lower (trim_space raw) = ''json'' then ''json'' else ''text'')"

definition normalize_log_level :: "string \<Rightarrow> string" where
  "normalize_log_level raw =
     (let l = to_lower (trim_space raw) in
      if l = ''debug'' then ''debug''
      else if l = ''warn'' \<or> l = ''warning'' then ''warn''
      else if l = ''error'' then ''error'' else ''info'')"

definition load_config :: "dec_lib \<Rightarrow> environment \<Rightarrow> config_error + process_config" where
  "load_config D env =
     (case parse_decimal_env_with_default D env ''HARD_MIN_SPREAD'' ''0.01'' of
        Inl e \<Rightarrow> Inl e
      | Inr hard \<Rightarrow>
          (let db = trim_space (env ''DATABASE_URL''); raw = trim_space (env ''ADMIN_CHAT_IDS'') in
           if db = [] then Inl NoDatabaseUrl
           else case (if raw = [] then Inr [] else parse_admins (split_on CHR '','' raw)) of
             Inl e \<Rightarrow> Inl e
           | Inr admins \<Rightarrow>
               (let tokens = parse_tokens (env ''TELEGRAM_TOKENS'') (env ''TELEGRAM_TOKEN'');
                    fees = to_upper (trim_space (env ''FEES'')) in
                case (if fees = [] then None else validate_fees D fees) of
                  Some e \<Rightarrow> Inl e
                | None \<Rightarrow> Inr \<lparr>pc_telegram_token = trim_space (env ''TELEGRAM_TOKEN''), pc_telegram_tokens = tokens,
                    pc_database_url = db, pc_hard_min_spread = hard, pc_admins = admins, pc_fees = fees,
                    pc_metrics_addr = trim_space (env ''METRICS_ADDR''),
                    pc_log_format = normalize_log_format (env ''LOG_FORMAT''),
                    pc_log_level = normalize_log_level (env ''LOG_LEVEL'')\<rparr>)))"

section \<open>Setting up the process\<close>

text \<open>
  The exits of \<open>main\<close> before the goroutines start, and what it has set up otherwise. Whether the
  database and the Telegram API can be reached are arguments; the bot of token \<open>i\<close> has identifier \<open>i\<close>.
\<close>

datatype main_exit = ConfigError config_error | NoTokens | NoAdmins | FeesRejected fee_error
  | DatabaseDown | BotFailed nat bot_error

record set_up =
  su_config :: screener_config
  su_admins :: "int list"
  su_bots :: "bot list"

fun start_bots :: "(nat \<Rightarrow> bool) \<Rightarrow> nat \<Rightarrow> string list \<Rightarrow> main_exit + bot list" where
  "start_bots api_ok i [] = Inr []"
| "start_bots api_ok i (token # tokens) =
     (case new_bot (api_ok i) (int i) token of
        Inl e \<Rightarrow> Inl (BotFailed i e)
      | Inr b \<Rightarrow> (case start_bots api_ok (Suc i) tokens of Inl e \<Rightarrow> Inl e | Inr bs \<Rightarrow> Inr (b # bs)))"

definition main_set_up :: "dec_lib \<Rightarrow> environment \<Rightarrow> bool \<Rightarrow> (nat \<Rightarrow> bool) \<Rightarrow> main_exit + set_up" where
  "main_set_up D env db_ok api_ok =
     (case load_config D env of
        Inl e \<Rightarrow> Inl (ConfigError e)
      | Inr cfg \<Rightarrow>
          if length (pc_telegram_tokens cfg) = 0 then Inl NoTokens
          else if length (pc_admins cfg) = 0 then Inl NoAdmins
          else (let sc = new_screener_config (pc_hard_min_spread cfg) in
            case (if pc_fees cfg = [] then Inr sc else apply_fees D (pc_fees cfg) sc) of
              Inl e \<Rightarrow> Inl (FeesRejected e)
            | Inr sc' \<Rightarrow>
                if \<not> db_ok then Inl DatabaseDown
                else (case start_bots api_ok 0 (pc_telegram_tokens cfg) of
                  Inl e \<Rightarrow> Inl e
                | Inr bots \<Rightarrow> Inr \<lparr>su_config = sc', su_admins = pc_admins cfg, su_bots = bots\<rparr>)))"

text \<open>The factory \<open>main\<close> gives to the application: the names it knows.\<close>

definition factory_names :: "string list" where
  "factory_names = [''BINANCE'', ''BINGX'', ''BITGET'', ''BYBIT'', ''GATEIO'', ''KUCOIN'', ''MEXC'', ''OKX'']"

definition connector_factory :: "(string \<Rightarrow> connector) \<Rightarrow> string \<Rightarrow> connector option" where
  "connector_factory adapter name = (if name \<in> set factory_names then Some (adapter name) else None)"

section \<open>Facts\<close>

lemma validate_fee_parts_iff:
  "validate_fee_parts D ps = None \<longleftrightarrow> (\<exists>m. parse_fee_parts D ps out = Inr m)"
proof (induction ps arbitrary: out)
  case (Cons p ps)
  show ?case
  proof (cases "trim_space p = []")
    case True
    then show ?thesis using Cons.IH by simp
  next
    case False
    have u: "to_upper x = [] \<longleftrightarrow> x = []" for x by (simp add: to_upper_def)
    show ?thesis using False Cons.IH
      by (auto simp: Let_def u max_fee_def split: list.splits option.splits)
  qed
qed simp

lemma parse_tokens_trimmed: "t \<in> set (parse_tokens raw single) \<Longrightarrow> t \<noteq> [] \<and> trim_space t = t"
  by (auto simp: parse_tokens_def Let_def split: if_splits)

lemma start_bots_ok: "start_bots api_ok i tokens = Inr bots \<Longrightarrow>
    length bots = length tokens \<and> map bt_id bots = map int [i..<i + length tokens]
    \<and> (\<forall>j < length tokens. api_ok (i + j))"
proof (induction api_ok i tokens arbitrary: bots rule: start_bots.induct)
  case (2 api_ok i token tokens)
  from "2.prems" obtain b bs where b: "new_bot (api_ok i) (int i) token = Inr b"
    "start_bots api_ok (Suc i) tokens = Inr bs" "bots = b # bs"
    by (auto split: sum.splits)
  have "bt_id b = int i" "api_ok i" using b(1) by (auto simp: new_bot_def split: if_splits)
  moreover have "map int [i..<i + length (token # tokens)] = int i # map int [Suc i..<Suc i + length tokens]"
    by (simp add: upt_rec del: upt_Suc)
  ultimately show ?case using "2.IH" [OF b(1,2)] b(3)
    by (auto simp: less_Suc_eq_0_disj simp del: upt_Suc)
qed simp

lemma start_bots_fail: "start_bots api_ok i tokens = Inl e \<Longrightarrow> \<forall>t\<in>set tokens. trim_space t \<noteq> [] \<Longrightarrow>
    \<exists>j. e = BotFailed j ApiUnavailable \<and> \<not> api_ok j"
  by (induction api_ok i tokens rule: start_bots.induct)
    (auto simp: new_bot_def split: sum.splits if_splits)

lemma load_config_parts:
  assumes "load_config D env = Inr cfg"
  shows "parse_decimal_env_with_default D env ''HARD_MIN_SPREAD'' ''0.01'' = Inr (pc_hard_min_spread cfg)"
    "pc_telegram_tokens cfg = parse_tokens (env ''TELEGRAM_TOKENS'') (env ''TELEGRAM_TOKEN'')"
    "pc_fees cfg = to_upper (trim_space (env ''FEES''))" "pc_fees cfg = [] \<or> validate_fees D (pc_fees cfg) = None"
  using assms by (auto simp: load_config_def Let_def split: sum.splits if_splits option.splits)

lemma apply_fees_valid: "validate_fees D raw = None \<Longrightarrow> \<exists>c'. apply_fees D raw c = Inr c'"
  using validate_fee_parts_iff [of D "split_on CHR '','' raw" "[]"]
  by (auto simp: validate_fees_def apply_fees_def parse_fees_def)

section \<open>Properties\<close>

text \<open>
  The validation of FEES when the process starts agrees with the parser that later builds the
  table: it accepts exactly the texts that the parser accepts.
\<close>

theorem fees_validated_early: "validate_fees D raw = None \<longleftrightarrow> (\<exists>m. parse_fees D raw = Inr m)"
  unfolding validate_fees_def parse_fees_def by (rule validate_fee_parts_iff)

text \<open>
  After the set-up: the floor is the one of the environment and at least 1 per cent, the
  configuration is well formed, there is an administrator and one bot per token with the position as
  its identifier. The only failures after a loaded configuration with tokens and administrators are
  the database and the Telegram API.
\<close>

theorem set_up_valid:
  assumes "load_config D env = Inr cfg"
  shows "case main_set_up D env db_ok api_ok of
     Inr su \<Rightarrow> config_ok (su_config su) \<and> get_hard_min_spread (su_config su) = pc_hard_min_spread cfg
       \<and> 1 / 100 \<le> pc_hard_min_spread cfg \<and> su_admins su \<noteq> [] \<and> su_bots su \<noteq> []
       \<and> map bt_id (su_bots su) = map int [0..<length (pc_telegram_tokens cfg)]
   | Inl e \<Rightarrow> e \<in> {NoTokens, NoAdmins, DatabaseDown} \<or> (\<exists>i. e = BotFailed i ApiUnavailable \<and> \<not> api_ok i)"
proof -
  note l = load_config_parts [OF assms]
  let ?sc = "new_screener_config (pc_hard_min_spread cfg)"
  let ?f = "if pc_fees cfg = [] then Inr ?sc else apply_fees D (pc_fees cfg) ?sc"
  have hard: "1 / 100 \<le> pc_hard_min_spread cfg"
    using l(1) by (auto simp: parse_decimal_env_with_default_def Let_def split: option.splits if_splits)
  obtain sc where sc: "?f = Inr sc"
    using l(4) apply_fees_valid [of D "pc_fees cfg" ?sc] by (cases "pc_fees cfg = []") auto
  have "config_ok sc \<and> sc_hard_min_spread sc = sc_hard_min_spread ?sc"
    using sc config_ok_apply_fees [OF config_ok_new, of D "pc_fees cfg" "pc_hard_min_spread cfg" sc]
    by (auto simp: config_ok_new apply_fees_def split: if_splits sum.splits)
  then have c: "config_ok sc" "get_hard_min_spread sc = pc_hard_min_spread cfg"
    using hard by (simp_all add: get_hard_min_spread_def new_screener_config_def hard_min_spread_def)
  have t: "\<forall>t\<in>set (pc_telegram_tokens cfg). trim_space t \<noteq> []"
    unfolding l(2) using parse_tokens_trimmed by (metis (no_types))
  show ?thesis
  proof (cases "start_bots api_ok 0 (pc_telegram_tokens cfg)")
    case (Inl e)
    then show ?thesis using start_bots_fail [OF Inl t] sc by (auto simp: main_set_up_def assms Let_def)
  next
    case (Inr bots)
    then show ?thesis using start_bots_ok [OF Inr] sc c hard by (auto simp: main_set_up_def assms Let_def)
  qed
qed

section \<open>Witness\<close>

definition sample_environment :: environment where
  "sample_environment = (\<lambda>_. [])(''DATABASE_URL'' := ''db'', ''ADMIN_CHAT_IDS'' := ''7'', ''TELEGRAM_TOKENS'' := ''a, b'')"

lemma sample_environment_loads: "\<exists>cfg. load_config sample_lib sample_environment = Inr cfg
    \<and> pc_telegram_tokens cfg = [''a'', ''b'']"
  by (simp add: load_config_def parse_decimal_env_with_default_def sample_environment_def Let_def string_eval
      parse_tokens_def atoi_def sample_lib_def sample_parse_def digit_value_def)

theorem set_up_valid_witness:
  "\<exists>cfg. load_config sample_lib sample_environment = Inr cfg \<and> pc_telegram_tokens cfg = [''a'', ''b'']
    \<and> (case main_set_up sample_lib sample_environment False (\<lambda>_. True) of
        Inr su \<Rightarrow> su_admins su \<noteq> []
      | Inl e \<Rightarrow> e \<in> {NoTokens, NoAdmins, DatabaseDown})"
proof -
  obtain cfg where cfg: "load_config sample_lib sample_environment = Inr cfg" "pc_telegram_tokens cfg = [''a'', ''b'']"
    using sample_environment_loads by blast
  from set_up_valid [OF cfg(1), where db_ok = False and api_ok = "\<lambda>_. True"] cfg show ?thesis by (auto split: sum.splits)
qed

end
