(* ===== verification/Observability.thy ===== *)
theory Observability
  imports System
begin

text \<open>
  internal/observability/observability.go and \<open>registerMetrics\<close> of internal/app/app.go: the counters and the
  functions the metrics are read with, and the HTTP server with its probes, its status page and the webhook of
  Alertmanager. The Prometheus registry itself (the package keeps the first function registered under a name) and the
  text format of /metrics belong to the package; here a registration is the name with the function that reads the
  running application. A JSON body enters decoded, \<open>None\<close> when it cannot be.
\<close>

section \<open>Counters and queues\<close>

record metrics =
  me_ticks :: "(string, nat) gomap"
  me_opened :: nat
  me_closed :: nat
  me_sent :: nat
  me_dropped :: nat
  me_db_errors :: nat
  me_queues :: "(string, running \<Rightarrow> nat) gomap"

definition new_metrics :: metrics where
  "new_metrics = \<lparr>me_ticks = [], me_opened = 0, me_closed = 0, me_sent = 0, me_dropped = 0, me_db_errors = 0, me_queues = []\<rparr>"

definition count_tick :: "string \<Rightarrow> metrics \<Rightarrow> metrics" where
  "count_tick exchange m =
     m\<lparr>me_ticks := mput exchange (case map_of (me_ticks m) exchange of None \<Rightarrow> 1 | Some n \<Rightarrow> Suc n) (me_ticks m)\<rparr>"

definition count_opened :: "metrics \<Rightarrow> metrics" where "count_opened m = m\<lparr>me_opened := Suc (me_opened m)\<rparr>"
definition count_closed :: "metrics \<Rightarrow> metrics" where "count_closed m = m\<lparr>me_closed := Suc (me_closed m)\<rparr>"
definition count_sent :: "metrics \<Rightarrow> metrics" where "count_sent m = m\<lparr>me_sent := Suc (me_sent m)\<rparr>"
definition count_dropped :: "metrics \<Rightarrow> metrics" where "count_dropped m = m\<lparr>me_dropped := Suc (me_dropped m)\<rparr>"
definition count_db_error :: "metrics \<Rightarrow> metrics" where "count_db_error m = m\<lparr>me_db_errors := Suc (me_db_errors m)\<rparr>"

definition watch_queue :: "string \<Rightarrow> (running \<Rightarrow> nat) \<Rightarrow> metrics \<Rightarrow> metrics" where
  "watch_queue name depth m = m\<lparr>me_queues := mput name depth (me_queues m)\<rparr>"

definition queue_depths :: "running \<Rightarrow> metrics \<Rightarrow> (string, nat) gomap" where
  "queue_depths s m = map (\<lambda>(name, depth). (name, depth s)) (me_queues m)"

text \<open>The gauges that read the application: the number of seconds is a float64 in the code, here the
  exact quotient.\<close>

definition buffered_signals :: "application \<Rightarrow> nat" where
  "buffered_signals a = (case tk_sink (ap_tracker a) of Some (BufferSink b) \<Rightarrow> buffer_len b | _ \<Rightarrow> 0)"

definition funding_age_gauge :: "gtime \<Rightarrow> string \<Rightarrow> running \<Rightarrow> rat" where
  "funding_age_gauge now exchange s =
     (let d = funding_age now (app_funding (rn_app s)) exchange
      in if d \<ge> 0 then of_int d / of_int nano_second else -1)"

record gauge =
  ga_name :: string
  ga_exchange :: "string option"
  ga_read :: "gtime \<Rightarrow> running \<Rightarrow> rat"

definition register_metrics :: "metrics \<Rightarrow> metrics \<times> gauge list" where
  "register_metrics m =
     (watch_queue ''db_signals'' (\<lambda>s. buffered_signals (rn_app s))
        (watch_queue ''tracker_events'' (\<lambda>s. length (ap_tracker_chan (rn_app s)))
          (watch_queue ''ticks'' (\<lambda>s. length (rn_ticks s)) m)),
      [\<lparr>ga_name = ''screener_active_signals'', ga_exchange = None,
         ga_read = (\<lambda>now s. of_nat (active_count (ap_tracker (rn_app s))))\<rparr>,
       \<lparr>ga_name = ''screener_connected_exchanges'', ga_exchange = None,
         ga_read = (\<lambda>now s. of_nat (connector_count (ap_conns (rn_app s))))\<rparr>]
      @ map (\<lambda>ex. \<lparr>ga_name = ''screener_funding_age_seconds'', ga_exchange = Some ex,
                     ga_read = (\<lambda>now s. funding_age_gauge now ex s)\<rparr>) SupportedExchanges)"

section \<open>The server\<close>

text \<open>The paths of \<open>NewServer\<close>: a pattern that ends in a slash stands for the tree below it.\<close>

datatype endpoint = Scrape | Healthz | Status | Alerts | Profiles | NotFound

definition endpoint_of :: "string \<Rightarrow> endpoint" where
  "endpoint_of path =
     (if path = ''/metrics'' then Scrape
      else if path = ''/healthz'' then Healthz
      else if path = ''/api/status'' then Status
      else if path = ''/alerts'' then Alerts
      else if has_prefix path ''/debug/pprof/'' then Profiles else NotFound)"

text \<open>\<open>handleAlerts\<close>: the answer, and the alerts the handler is called with. The body is read after the
  method; the handler is called after the answer is written, when there is one and there are alerts.\<close>

datatype alerts_answer = MethodNotAllowed | BadRequest | Received nat

definition handle_alerts_request ::
  "string \<Rightarrow> alert_message list option \<Rightarrow> (alert_message list \<Rightarrow> 'b option) option \<Rightarrow> alerts_answer \<times> 'b option" where
  "handle_alerts_request verb body handler =
     (if verb \<noteq> ''POST'' then (MethodNotAllowed, None)
      else case body of
        None \<Rightarrow> (BadRequest, None)
      | Some alerts \<Rightarrow>
          (Received (length alerts),
           case handler of None \<Rightarrow> None | Some f \<Rightarrow> if length alerts > 0 then f alerts else None))"

text \<open>The values of a status page.\<close>

datatype json_value = JText string | JNumber int | JDuration gdur | JTexts "string list"
  | JDepths "(string \<times> nat) list" | JAges "(string \<times> gdur option) list" | JStatuses "(string \<times> string) list"

record runtime_info =
  ri_uptime :: gdur
  ri_goroutines :: nat
  ri_heap :: nat
  ri_gc :: nat

definition handle_healthz :: "runtime_info \<Rightarrow> (string, json_value) gomap" where
  "handle_healthz ri = [(''status'', JText ''ok''), (''uptime'', JDuration (round_second (ri_uptime ri))),
     (''goroutines'', JNumber (int (ri_goroutines ri)))]"

definition own_status :: "runtime_info \<Rightarrow> (string, nat) gomap \<Rightarrow> (string, json_value) gomap" where
  "own_status ri depths = [(''status'', JText ''ok''), (''uptime'', JDuration (round_second (ri_uptime ri))),
     (''goroutines'', JNumber (int (ri_goroutines ri))), (''heap_alloc_bytes'', JNumber (int (ri_heap ri))),
     (''num_gc'', JNumber (int (ri_gc ri))), (''queues'', JDepths depths)]"

text \<open>The keys of the application overwrite those of the server. The snapshot is \<open>None\<close> when there is no function
  for it or its result is no map.\<close>

definition handle_status ::
  "runtime_info \<Rightarrow> (string, nat) gomap \<Rightarrow> (string, json_value) gomap option \<Rightarrow> (string, json_value) gomap" where
  "handle_status ri depths snapshot =
     (case snapshot of
        None \<Rightarrow> own_status ri depths
      | Some m \<Rightarrow> fold (\<lambda>(k, v). mput k v) m (own_status ri depths))"

text \<open>\<open>StatusSnapshot\<close> as the map it returns.\<close>

definition snapshot_map :: "status_page \<Rightarrow> (string, json_value) gomap" where
  "snapshot_map p = [(''active_signals'', JNumber (int (sp_active_signals p))), (''connected_exchanges'', JNumber (int (sp_connected p)))]
     @ (case sp_exchanges p of None \<Rightarrow> [] | Some names \<Rightarrow> [(''exchanges'', JTexts names)])
     @ [(''funding_age'', JAges (sp_funding_age p))]"

text \<open>\<open>Run\<close>: the first of the end of the context, which shuts the server down with five seconds of grace, and of the
  end of listening. \<open>ErrServerClosed\<close> is no error.\<close>

datatype listen_end = ServerClosed | ListenFails string
datatype server_event = ContextDone "string option" | ListeningEnds listen_end

definition run_server :: "server_event \<Rightarrow> string option" where
  "run_server e =
     (case e of
        ContextDone shutdown \<Rightarrow> shutdown
      | ListeningEnds ServerClosed \<Rightarrow> None
      | ListeningEnds (ListenFails err) \<Rightarrow> Some err)"

section \<open>Lemmas\<close>

lemma handle_status_lookup:
  assumes "distinct (map fst m)"
  shows "map_of (handle_status ri depths (Some m)) k = (case map_of m k of Some v \<Rightarrow> Some v | None \<Rightarrow> map_of (own_status ri depths) k)"
proof -
  have "map_of (fold (\<lambda>(k, v). mput k v) m base) k = (case map_of m k of Some v \<Rightarrow> Some v | None \<Rightarrow> map_of base k)" for base
    using assms
  proof (induction m arbitrary: base)
    case (Cons x m)
    obtain a v where x: "x = (a, v)" by fastforce
    with Cons.prems have "map_of m a = None" by (simp add: map_of_eq_None_iff)
    with Cons x show ?case by (auto simp: update_conv' split: option.split)
  qed simp
  then show ?thesis by (simp add: handle_status_def)
qed

lemma snapshot_keys: "distinct (map fst (snapshot_map p))" "set (map fst (snapshot_map p)) \<inter> set (map fst (own_status ri depths)) = {}"
  by (cases "sp_exchanges p"; simp add: snapshot_map_def own_status_def)+

section \<open>Properties\<close>

text \<open>
  The status page shows everything: no key of the application hides one of the server, so every key is served
  with its own value, and the ages it shows are missing exactly where the gauge of the exchange reads -1.
\<close>

theorem status_page_complete:
  "map_of (handle_status ri depths (Some (snapshot_map p))) = map_of (own_status ri depths) ++ map_of (snapshot_map p)
   \<and> dom (map_of (own_status ri depths)) \<inter> dom (map_of (snapshot_map p)) = {}
   \<and> list_all (\<lambda>ex. (map_of (sp_funding_age (status_snapshot now (rn_app s))) ex = Some None) = (funding_age_gauge now ex s = -1))
       SupportedExchanges"
proof (intro conjI)
  show "map_of (handle_status ri depths (Some (snapshot_map p))) = map_of (own_status ri depths) ++ map_of (snapshot_map p)"
    by (rule ext) (simp add: handle_status_lookup snapshot_keys map_add_def)
  show "dom (map_of (own_status ri depths)) \<inter> dom (map_of (snapshot_map p)) = {}"
    using snapshot_keys(2) by (simp add: dom_map_of_conv_image_fst Int_commute)
  have "funding_age_gauge now ex s = -1 \<longleftrightarrow> funding_age now (app_funding (rn_app s)) ex < 0" for ex
  proof -
    have "0 \<le> (of_int d / of_int nano_second :: rat)" if "0 \<le> d" for d using that by (simp add: nano_second_def)
    then show ?thesis by (force simp: funding_age_gauge_def Let_def not_less)
  qed
  then show "list_all (\<lambda>ex. (map_of (sp_funding_age (status_snapshot now (rn_app s))) ex = Some None) = (funding_age_gauge now ex s = -1))
       SupportedExchanges"
    by (auto simp: status_snapshot_def Let_def map_of_map_restrict list_all_iff)
qed

end
