(* ===== verification/Programs.thy ===== *)
theory Programs
  imports Process_Config Observability
begin

text \<open>
  internal/adapters/registry.go, the rest of cmd/screener/main.go (logger, check of the REST hosts, application,
  server, end of the process) and cmd/smoke/main.go. The answers of the hosts, of the operating system and of
  the application are arguments.
\<close>

section \<open>Registry\<close>

text \<open>\<open>Supported\<close> in its order and \<open>NewByName\<close>; the constructors are named by the exchange in capitals, as
  in the factory of \<open>main\<close>.\<close>

definition supported :: "string list" where
  "supported = [''binance'', ''bitget'', ''bingx'', ''bybit'', ''gateio'', ''kucoin'', ''mexc'', ''okx'']"

definition new_by_name :: "(string \<Rightarrow> connector) \<Rightarrow> string \<Rightarrow> connector option" where
  "new_by_name adapter name = map_option (\<lambda>ex. adapter (to_upper ex)) (find (\<lambda>ex. equal_fold ex name) supported)"

section \<open>Logger and reachability\<close>

datatype log_level = LevelDebug | LevelInfo | LevelWarn | LevelError
datatype log_handler = JsonHandler log_level | TextHandler log_level

definition setup_logger :: "string \<Rightarrow> string \<Rightarrow> log_handler" where
  "setup_logger format level =
     (let lvl = (if level = ''debug'' then LevelDebug else if level = ''warn'' then LevelWarn
                 else if level = ''error'' then LevelError else LevelInfo)
      in if format = ''json'' then JsonHandler lvl else TextHandler lvl)"

definition exchange_check_urls :: "(string, string) gomap" where
  "exchange_check_urls =
     [(''BINANCE'', ''https://api.binance.com/api/v3/ping''),
      (''BINGX'', ''https://open-api.bingx.com/openApi/spot/v1/ticker/price?symbol=BTCUSDT''),
      (''BITGET'', ''https://api.bitget.com/api/v2/public/time''),
      (''BYBIT'', ''https://api.bybit.com/v5/market/time''),
      (''GATEIO'', ''https://api.gateio.ws/api/v4/spot/time''),
      (''KUCOIN'', ''https://api.kucoin.com/api/v1/timestamp''),
      (''MEXC'', ''https://api.mexc.com/api/v3/ping''),
      (''OKX'', ''https://www.okx.com/api/v5/public/time'')]"

fun decimal_digits :: "nat \<Rightarrow> string" where
  "decimal_digits n = (if n < 10 then [] else decimal_digits (n div 10)) @ [char_of (48 + n mod 10)]"

declare decimal_digits.simps [simp del]

text \<open>What a request to a host ends with, the text it is reported with, and the line that is logged for a text.\<close>

datatype probe = BuildFails string | NetworkFails string | Answered nat
datatype reachability = Reachable | GeoBlocked | Unreachable

definition probe_status :: "probe \<Rightarrow> string" where
  "probe_status p =
     (case p of
        BuildFails err \<Rightarrow> ''request build error: '' @ err
      | NetworkFails err \<Rightarrow> ''network error: '' @ err
      | Answered code \<Rightarrow>
          if code = 200 then ''ok''
          else if code = 403 \<or> code = 451 then ''HTTP '' @ decimal_digits code @ '' (geo-blocked)''
          else ''HTTP '' @ decimal_digits code)"

definition probe_report :: "string \<Rightarrow> reachability" where
  "probe_report status =
     (if status = ''ok'' then Reachable
      else if has_prefix status ''HTTP'' \<and> has_suffix status ''(geo-blocked)'' then GeoBlocked
      else Unreachable)"

text \<open>The results in the order they arrive in; every host sends exactly one.\<close>

definition check_exchange_availability ::
  "(string \<times> string \<Rightarrow> probe) \<Rightarrow> (string list \<Rightarrow> string list) \<Rightarrow> (string, string) gomap" where
  "check_exchange_availability ask arrival =
     fold (\<lambda>name. mput name (probe_status (ask (name, the (map_of exchange_check_urls name)))))
       (arrival (mkeys exchange_check_urls)) []"

section \<open>The screener\<close>

definition metrics_address :: "string \<Rightarrow> string" where
  "metrics_address configured = (if configured = [] then '':9090'' else configured)"

text \<open>The application that \<open>main\<close> starts; the pool of bots offers the reliable broadcast.\<close>

definition main_application ::
  "(string \<Rightarrow> connector) \<Rightarrow> set_up \<Rightarrow> repo_abilities \<Rightarrow> database \<Rightarrow> funding_error + application" where
  "main_application adapter su ra db =
     (case new_application (Some (su_config su)) ra db of
        Inl e \<Rightarrow> Inl e
      | Inr a \<Rightarrow> Inr (set_app_telegram (Some ReliableSender)
          (set_connector_factory (Some (connector_factory adapter)) (set_admin_ids (su_admins su) a))))"

definition main_status_snapshot :: "gtime \<Rightarrow> (string, string) gomap \<Rightarrow> application \<Rightarrow> (string, json_value) gomap" where
  "main_status_snapshot now availability a =
     mput ''exchange_availability'' (JStatuses availability) (snapshot_map (status_snapshot now a))"

text \<open>The end of \<open>main\<close>: whichever of the application and the bots returns first, the context is cancelled and the
  other is waited for; the result of the application is reported. A returning \<open>main\<close> is the exit status 0.\<close>

datatype 'e first_return = AppReturned "'e option" | PollingEnded "'e option"
datatype 'e main_log = AppFailed 'e | PollingStopped | ShutdownError 'e

definition main_ending :: "'e first_return \<Rightarrow> 'e main_log list \<times> nat" where
  "main_ending f =
     (case f of
        AppReturned (Some e) \<Rightarrow> ([AppFailed e], 0)
      | AppReturned None \<Rightarrow> ([], 0)
      | PollingEnded (Some e) \<Rightarrow> ([PollingStopped, ShutdownError e], 0)
      | PollingEnded None \<Rightarrow> ([PollingStopped], 0))"

section \<open>The smoke program\<close>

text \<open>\<open>parsed\<close> is the answer of \<open>time.ParseDuration\<close> to the trimmed text.\<close>

definition smoke_duration :: "string \<Rightarrow> (string \<Rightarrow> gdur option) \<Rightarrow> gdur" where
  "smoke_duration env_value parsed =
     (let raw = trim_space env_value in
      if raw \<noteq> [] then (case parsed raw of Some d \<Rightarrow> if d > 0 then d else 30 * nano_second | None \<Rightarrow> 30 * nano_second)
      else 30 * nano_second)"

definition newline :: char where "newline = char_of (10 :: nat)"

definition filter_screener_metrics :: "string \<Rightarrow> string" where
  "filter_screener_metrics body =
     join_with [newline] (filter (\<lambda>line. has_prefix line ''screener_'') (split_on newline body))"

text \<open>\<open>httpGet\<close>: the body that could be read, or the text of the error.\<close>

definition http_get :: "string + string \<Rightarrow> string" where
  "http_get response = (case response of Inl err \<Rightarrow> ''ERROR: '' @ err | Inr body \<Rightarrow> body)"

text \<open>The warm-up ends with its time or with the return of the application, the shutdown with that return or with
  the 90 seconds. \<open>ask\<close> is the answer of the server to a path. The result is the exit status and the three
  pages that are printed.\<close>

datatype 'e warm_up = TimeOver | ReturnsEarly "'e option"
datatype 'e smoke_end = Returns "'e option" | TooLate

definition smoke_application :: "(string \<Rightarrow> connector) \<Rightarrow> repo_abilities \<Rightarrow> database \<Rightarrow> funding_error + application" where
  "smoke_application adapter ra db =
     (case new_application (Some (new_screener_config (1 / 100))) ra db of
        Inl e \<Rightarrow> Inl e
      | Inr a \<Rightarrow> Inr (set_connector_factory (Some (connector_factory adapter))
          (set_app_telegram (Some PlainSender) (set_admin_ids [0] a))))"

definition smoke_main ::
  "(string \<Rightarrow> connector) \<Rightarrow> environment \<Rightarrow> bool \<Rightarrow> repo_abilities \<Rightarrow> database \<Rightarrow> 'e warm_up \<Rightarrow> 'e smoke_end
    \<Rightarrow> (string \<Rightarrow> string + string) \<Rightarrow> nat \<times> string list" where
  "smoke_main adapter env db_ok ra db warm shutdown ask =
     (if trim_space (env ''DATABASE_URL'') = [] then (1, [])
      else if \<not> db_ok then (1, [])
      else case smoke_application adapter ra db of
        Inl e \<Rightarrow> (1, [])
      | Inr a \<Rightarrow>
          (case warm of
             ReturnsEarly err \<Rightarrow> (1, [])
           | TimeOver \<Rightarrow>
               (case shutdown of
                  Returns None \<Rightarrow> 0
                | Returns (Some err) \<Rightarrow> 1
                | TooLate \<Rightarrow> 1,
                [trim_space (http_get (ask ''http://127.0.0.1:9090/healthz'')),
                 trim_space (http_get (ask ''http://127.0.0.1:9090/api/status'')),
                 filter_screener_metrics (http_get (ask ''http://127.0.0.1:9090/metrics''))])))"

section \<open>Lemmas\<close>

lemma upper_lower_char: "lower_char a = lower_char b \<longleftrightarrow> upper_char a = upper_char b"
proof -
  define n :: "char \<Rightarrow> nat" where "n c = of_char c" for c
  have b: "n (char_of m) = m" if "m < 256" for m using that by (simp add: n_def)
  have l: "n (lower_char c) = (if 65 \<le> n c \<and> n c \<le> 90 then n c + 32 else n c)" for c
    using b [of "n c + 32"] by (simp add: lower_char_def Let_def n_def [symmetric])
  have u: "n (upper_char c) = (if 97 \<le> n c \<and> n c \<le> 122 then n c - 32 else n c)" for c
    by (auto simp: upper_char_def Let_def n_def [symmetric] intro!: b)
  have e: "x = y \<longleftrightarrow> n x = n y" for x y by (simp add: n_def)
  show ?thesis unfolding e [of "lower_char a"] e [of "upper_char a"] l u by auto
qed

lemma equal_fold_upper: "equal_fold a b \<longleftrightarrow> to_upper a = to_upper b"
  by (simp add: equal_fold_def to_lower_def to_upper_def list_eq_iff_nth_eq upper_lower_char cong: conj_cong)

lemma fold_mput_names:
  "map_of (fold (\<lambda>name. mput name (f name)) names m) x = (if x \<in> set names then Some (f x) else map_of m x)"
  by (induction names arbitrary: m) (auto simp: update_conv')

lemma decimal_digits_last: "decimal_digits n \<noteq> [] \<and> last (decimal_digits n) = char_of (48 + n mod 10)"
  by (subst (1 2) decimal_digits.simps) simp

lemma set_up_parts: "main_set_up D env db_ok api_ok = Inr su \<Longrightarrow> config_ok (su_config su) \<and> su_admins su \<noteq> []"
  by (auto simp: main_set_up_def Let_def config_ok_new intro: config_ok_apply_fees [OF config_ok_new]
      split: sum.splits if_splits)

lemma new_application_ok: "config_ok c \<Longrightarrow> \<exists>a. new_application (Some c) ra db = Inr a"
  by (auto simp: new_application_def new_funding_manager_def config_normalize_def config_validate_def
      default_funding_config_def nano_second_def config_ok_def get_hard_min_spread_def hard_min_spread_def)

section \<open>Properties\<close>

text \<open>
  The registry and the factory of the screener know the same exchanges, those that the application starts, and give
  the same connector for a name in any mixture of capitals and small letters.
\<close>

theorem registry_agrees:
  "new_by_name adapter name = connector_factory adapter (to_upper name)
   \<and> (new_by_name adapter name \<noteq> None \<longleftrightarrow> to_upper name \<in> set SupportedExchanges)
   \<and> mset (map to_upper supported) = mset SupportedExchanges"
proof -
  have u: "map to_upper supported = [''BINANCE'', ''BITGET'', ''BINGX'', ''BYBIT'', ''GATEIO'', ''KUCOIN'', ''MEXC'', ''OKX'']"
    by code_simp
  have f: "find (\<lambda>ex. to_upper ex = t) xs = None \<longleftrightarrow> t \<notin> set (map to_upper xs)" for t xs
    by (auto simp: find_None_iff)
  have s: "set (map to_upper supported) = set SupportedExchanges" "set factory_names = set SupportedExchanges"
    unfolding u by (auto simp: SupportedExchanges_def factory_names_def)
  have n: "new_by_name adapter name = (if to_upper name \<in> set SupportedExchanges then Some (adapter (to_upper name)) else None)"
  proof (cases "find (\<lambda>ex. to_upper ex = to_upper name) supported")
    case None
    then show ?thesis using f [of "to_upper name" supported] s(1) by (simp add: new_by_name_def equal_fold_upper)
  next
    case (Some ex)
    then have "to_upper ex = to_upper name" by (auto simp: find_Some_iff)
    with Some show ?thesis using f [of "to_upper name" supported] s(1) by (auto simp: new_by_name_def equal_fold_upper)
  qed
  have "mset (map to_upper supported) = mset SupportedExchanges" unfolding u by (simp add: SupportedExchanges_def add_mset_commute)
  then show ?thesis using s(2) by (simp add: n connector_factory_def)
qed

text \<open>
  The check of the hosts reports every exchange, in whatever order the answers arrive, and the line it logs, which it
  derives from the text of the result, is the one of the answer: reachable for status 200, geo-blocked for
  403 and 451 and nothing else, whatever text an error has.
\<close>

theorem availability_reported:
  assumes "mset (arrival (mkeys exchange_check_urls)) = mset (mkeys exchange_check_urls)"
  shows "map_of (check_exchange_availability ask arrival) ex =
      (if ex \<in> set SupportedExchanges then Some (probe_status (ask (ex, the (map_of exchange_check_urls ex)))) else None)
    \<and> probe_report (probe_status p) = (case p of
        Answered code \<Rightarrow> if code = 200 then Reachable else if code \<in> {403, 451} then GeoBlocked else Unreachable
      | _ \<Rightarrow> Unreachable)"
proof
  have k: "mkeys exchange_check_urls = SupportedExchanges" by (simp add: exchange_check_urls_def SupportedExchanges_def)
  show "map_of (check_exchange_availability ask arrival) ex =
      (if ex \<in> set SupportedExchanges then Some (probe_status (ask (ex, the (map_of exchange_check_urls ex)))) else None)"
    using mset_eq_setD [OF assms] by (simp add: check_exchange_availability_def k fold_mput_names)
  have "\<not> has_suffix (''HTTP '' @ decimal_digits code) ''(geo-blocked)''" for code
  proof
    assume h: "has_suffix (''HTTP '' @ decimal_digits code) ''(geo-blocked)''"
    then have "last (''HTTP '' @ decimal_digits code) = last ''(geo-blocked)''"
      unfolding has_suffix_def by (metis last_drop list.distinct(1) drop_eq_Nil2 linorder_not_le)
    then have "(of_char (last (decimal_digits code)) :: nat) = of_char (CHR '')'')" using decimal_digits_last by simp
    then show False by (simp add: decimal_digits_last)
  qed
  then show "probe_report (probe_status p) = (case p of
        Answered code \<Rightarrow> if code = 200 then Reachable else if code \<in> {403, 451} then GeoBlocked else Unreachable
      | _ \<Rightarrow> Unreachable)"
    by (auto simp: probe_report_def probe_status_def has_prefix_def has_suffix_def split: probe.split)
qed

text \<open>
  C35. After a completed set-up the application can always be built, and an alert reaches the administrators: a
  POST with a readable body is answered with the number of its alerts and, when there are any, all of them are
  broadcast to exactly the administrators of the configuration, of whom there is at least one; no other
  request broadcasts anything.
\<close>

theorem alerts_reach_admins:
  assumes "main_set_up D env db_ok api_ok = Inr su"
  shows "\<exists>a. main_application adapter su ra db = Inr a \<and> app_ok a \<and> su_admins su \<noteq> []
    \<and> handle_alerts_request verb body (Some (\<lambda>alerts. handle_alerts alerts a)) =
       (if verb \<noteq> ''POST'' then (MethodNotAllowed, None)
        else case body of None \<Rightarrow> (BadRequest, None)
          | Some [] \<Rightarrow> (Received 0, None)
          | Some alerts \<Rightarrow> (Received (length alerts), Some (map alert_line_of alerts, su_admins su)))"
proof -
  note su = set_up_parts [OF assms]
  then obtain b where b: "new_application (Some (su_config su)) ra db = Inr b" using new_application_ok by blast
  define a where "a = set_app_telegram (Some ReliableSender) (set_connector_factory (Some (connector_factory adapter)) (set_admin_ids (su_admins su) b))"
  have "main_application adapter su ra db = Inr a" using b by (simp add: main_application_def a_def)
  moreover have "app_ok a" using app_ok_new [OF b] su
    by (simp add: a_def set_app_telegram_def set_connector_factory_def set_admin_ids_def app_ok_sink)
  moreover have "ap_telegram a = Some ReliableSender" "ap_admins a = su_admins su"
    by (simp_all add: a_def set_app_telegram_def set_connector_factory_def set_admin_ids_def)
  ultimately show ?thesis using su
    by (intro exI [of _ a]) (simp add: handle_alerts_request_def handle_alerts_def admin_chat_ids_def split: option.split list.split)
qed

text \<open>
  The smoke program exits with 0 exactly when the address of the database is set, the database answers, the warm-up
  was not cut short and the application then returned without an error in time: building the
  application cannot fail. The metrics it prints are the lines of the exposition that begin with the
  prefix of the screener, in their order.
\<close>

theorem smoke_verdict:
  "(fst (smoke_main adapter env db_ok ra db warm shutdown ask) = 0 \<longleftrightarrow>
      trim_space (env ''DATABASE_URL'') \<noteq> [] \<and> db_ok \<and> warm = TimeOver \<and> shutdown = Returns None)
   \<and> filter (\<lambda>l. l \<noteq> []) (split_on newline (filter_screener_metrics page))
      = filter (\<lambda>line. has_prefix line ''screener_'') (split_on newline page)"
proof
  have a: "\<exists>a. smoke_application adapter ra db = Inr a"
    using new_application_ok [OF config_ok_new, of "1 / 100" ra db] by (auto simp: smoke_application_def)
  then show "fst (smoke_main adapter env db_ok ra db warm shutdown ask) = 0 \<longleftrightarrow>
      trim_space (env ''DATABASE_URL'') \<noteq> [] \<and> db_ok \<and> warm = TimeOver \<and> shutdown = Returns None"
    by (auto simp: smoke_main_def split: warm_up.split smoke_end.split option.split)
  let ?ls = "filter (\<lambda>line. has_prefix line ''screener_'') (split_on newline page)"
  have n: "filter (\<lambda>l. l \<noteq> []) ?ls = ?ls" by (auto simp: has_prefix_def intro: filter_cong)
  show "filter (\<lambda>l. l \<noteq> []) (split_on newline (filter_screener_metrics page)) = ?ls"
  proof (cases "?ls = []")
    case True
    then show ?thesis by (simp add: filter_screener_metrics_def)
  next
    case False
    then have "split_on newline (filter_screener_metrics page) = ?ls"
      unfolding filter_screener_metrics_def using split_on_parts by (intro split_on_join) auto
    then show ?thesis using n by simp
  qed
qed

section \<open>Witnesses\<close>

text \<open>The answers arrive in the reverse of the order; Binance refuses the address.\<close>

theorem availability_reported_witness:
  "map_of (check_exchange_availability (\<lambda>x. if fst x = ''BINANCE'' then Answered 451 else Answered 200) rev) ''BINANCE''
     = Some ''HTTP 451 (geo-blocked)'' \<and> probe_report ''HTTP 451 (geo-blocked)'' = GeoBlocked"
proof -
  have "''BINANCE'' \<in> set SupportedExchanges" by (simp add: SupportedExchanges_def)
  moreover have "probe_status (Answered 451) = ''HTTP 451 (geo-blocked)''" by code_simp
  moreover note availability_reported [where arrival = rev and ex = "''BINANCE''" and p = "Answered 451"
      and ask = "\<lambda>x. if fst x = ''BINANCE'' then Answered 451 else Answered 200"]
  ultimately show ?thesis by simp
qed

definition sample_alert :: alert_message where
  "sample_alert = \<lparr>am_status = ''firing'', am_labels = [(''alertname'', ''ScreenerDown'')], am_annotations = []\<rparr>"

lemma sample_set_up: "\<exists>su. main_set_up sample_lib sample_environment True (\<lambda>_. True) = Inr su \<and> su_admins su = [7]"
  by (simp add: main_set_up_def load_config_def parse_decimal_env_with_default_def sample_environment_def Let_def string_eval
      parse_tokens_def atoi_def sample_lib_def sample_parse_def digit_value_def new_bot_def)

theorem alerts_reach_admins_witness:
  "\<exists>su a. main_set_up sample_lib sample_environment True (\<lambda>_. True) = Inr su
     \<and> main_application (\<lambda>name. sample_connector) su all_abilities empty_database = Inr a
     \<and> handle_alerts_request ''POST'' (Some [sample_alert]) (Some (\<lambda>alerts. handle_alerts alerts a))
        = (Received 1, Some ([alert_line_of sample_alert], [7]))"
proof -
  obtain su where su: "main_set_up sample_lib sample_environment True (\<lambda>_. True) = Inr su" "su_admins su = [7]"
    using sample_set_up by blast
  from alerts_reach_admins [OF su(1), where adapter = "\<lambda>name. sample_connector" and ra = all_abilities
      and db = empty_database and verb = "''POST''" and body = "Some [sample_alert]"]
  show ?thesis using su by auto
qed

end
