(* ===== verification/Helpers.thy ===== *)
theory Helpers
  imports Go_Lib
begin

text \<open>
  The helpers of the exchange adapters: internal/retry/backoff.go, the delays between reconnection
  attempts, and internal/symbolscache/symbolscache.go, the lists of symbols kept on disk.
\<close>

section \<open>Backoff\<close>

record backoff =
  bo_base :: gdur
  bo_max :: gdur
  bo_attempt :: "32 word"

definition new_backoff :: "gdur \<Rightarrow> gdur \<Rightarrow> backoff" where
  "new_backoff base0 max0 =
     (let base = (if base0 \<le> 0 then nano_second else base0);
          limit = (if max0 < base then 30 * nano_second else max0)
      in \<lparr>bo_base = base, bo_max = limit, bo_attempt = 0\<rparr>)"

definition backoff_reset :: "backoff \<Rightarrow> backoff" where
  "backoff_reset b = b\<lparr>bo_attempt := 0\<rparr>"

text \<open>The doubling loop of \<open>Wait\<close> with the number of turns left; the product wraps at 64 bits.\<close>

fun backoff_delay :: "nat \<Rightarrow> gdur \<Rightarrow> gdur \<Rightarrow> gdur" where
  "backoff_delay 0 limit d = d"
| "backoff_delay (Suc k) limit d =
     (if \<not> d < limit then d
      else let d2 = wrap64 (d * 2)
           in if d2 \<ge> limit \<or> d2 \<le> 0 then limit else backoff_delay k limit d2)"

text \<open>\<open>Wait\<close>: the delay it sleeps, and whether the timer or the end of the context wakes it. The random
  factor is an argument.\<close>

definition backoff_wait :: "(gdur \<Rightarrow> gdur) \<Rightarrow> bool \<Rightarrow> backoff \<Rightarrow> backoff \<times> gdur \<times> bool" where
  "backoff_wait jitter fired b =
     (b\<lparr>bo_attempt := bo_attempt b + 1\<rparr>,
      jitter (backoff_delay (unat (bo_attempt b)) (bo_max b) (bo_base b)), fired)"

definition retry_after :: "(gdur \<Rightarrow> gdur) \<Rightarrow> gdur \<Rightarrow> gdur" where
  "retry_after jitter base = jitter (if base \<le> 0 then nano_second else base)"

lemma wrap64_double: "0 < d \<Longrightarrow> d < 2 ^ 63 \<Longrightarrow> wrap64 (d * 2) = (if d * 2 < 2 ^ 63 then d * 2 else d * 2 - 2 ^ 64)"
proof -
  assume d: "0 < d" "d < 2 ^ 63"
  have "(d * 2 + 2 ^ 63) mod 2 ^ 64 = (d * 2 + 2 ^ 63 - 2 ^ 64) mod (2 ^ 64 :: int)"
    by (rule minus_mod_self2 [symmetric])
  with d show ?thesis by (auto simp: wrap64_def)
qed

lemma backoff_delay_exact:
  "0 < d \<Longrightarrow> d \<le> limit \<Longrightarrow> limit < 2 ^ 63 \<Longrightarrow> backoff_delay k limit d = min limit (d * 2 ^ k)"
proof (induction k arbitrary: d)
  case (Suc k)
  have le: "d * 2 \<le> d * 2 ^ Suc k" using Suc.prems(1) by simp
  show ?case
  proof (cases "d < limit")
    case True
    have w: "wrap64 (d * 2) = (if d * 2 < 2 ^ 63 then d * 2 else d * 2 - 2 ^ 64)"
      using Suc.prems True by (intro wrap64_double) auto
    show ?thesis
    proof (cases "d * 2 < limit")
      case d2: True
      then have "wrap64 (d * 2) = d * 2" using w Suc.prems(3) by simp
      then show ?thesis using True d2 Suc.prems Suc.IH [of "d * 2"] by (simp add: Let_def mult.assoc)
    next
      case False
      then have "wrap64 (d * 2) \<ge> limit \<or> wrap64 (d * 2) \<le> 0" using w Suc.prems True by auto
      moreover have "limit \<le> d * 2 ^ Suc k" using False le by linarith
      ultimately show ?thesis using True by (auto simp: Let_def min_def)
    qed
  next
    case False
    then have "limit \<le> d * 2 ^ Suc k" using Suc.prems le by linarith
    with False Suc.prems(2) show ?thesis by (simp add: min_def)
  qed
qed simp

definition backoff_after :: "nat \<Rightarrow> backoff \<Rightarrow> backoff" where
  "backoff_after k b = ((\<lambda>b. fst (backoff_wait id True b)) ^^ k) b"

lemma backoff_after_fields:
  "bo_base (backoff_after k b) = bo_base b" "bo_max (backoff_after k b) = bo_max b"
  "bo_attempt (backoff_after k b) = bo_attempt b + of_nat k"
  by (induction k) (simp_all add: backoff_after_def backoff_wait_def)

section \<open>Symbol cache\<close>

text \<open>
  The files of the cache directory by name. \<open>encoding/json\<close> is a parameter; the failures of the
  file system are an argument: the directory cannot be made, the temporary file is not written (or
  only in part), it cannot be renamed.
\<close>

type_synonym cache_files = "(string, string) gomap"

record json_lib =
  js_marshal :: "string list \<Rightarrow> string option"
  js_unmarshal :: "string \<Rightarrow> string list option"

definition json_ok :: "json_lib \<Rightarrow> bool" where
  "json_ok J \<longleftrightarrow> (\<forall>xs. \<exists>d. js_marshal J xs = Some d \<and> js_unmarshal J d = Some xs)"

datatype save_end = MkdirFails | WriteFails "string option" | RenameFails | Saved

datatype cache_error = EmptyList | FileSystem | JsonError | EmptyFile

definition cache_file :: "string \<Rightarrow> string" where
  "cache_file name = to_lower (trim_space name) @ ''.json''"

definition save_symbols ::
  "json_lib \<Rightarrow> save_end \<Rightarrow> string \<Rightarrow> string list \<Rightarrow> cache_files \<Rightarrow> cache_files \<times> cache_error option" where
  "save_symbols J how name symbols files =
     (if length symbols = 0 then (files, Some EmptyList)
      else if how = MkdirFails then (files, Some FileSystem)
      else case js_marshal J symbols of
        None \<Rightarrow> (files, Some JsonError)
      | Some data \<Rightarrow>
          (let target = cache_file name; tmp = target @ ''.tmp'' in
           case how of
             WriteFails part \<Rightarrow> ((case part of None \<Rightarrow> files | Some d \<Rightarrow> mput tmp d files), Some FileSystem)
           | RenameFails \<Rightarrow> (mput tmp data files, Some FileSystem)
           | _ \<Rightarrow> (mput target data (mdel tmp files), None)))"

definition load_symbols :: "json_lib \<Rightarrow> string \<Rightarrow> cache_files \<Rightarrow> cache_error + string list" where
  "load_symbols J name files =
     (case map_of files (cache_file name) of
        None \<Rightarrow> Inl FileSystem
      | Some data \<Rightarrow>
          (case js_unmarshal J data of
             None \<Rightarrow> Inl JsonError
           | Some symbols \<Rightarrow> if length symbols = 0 then Inl EmptyFile else Inr symbols))"

lemma cache_file_tmp [simp]: "cache_file a \<noteq> cache_file b @ ''.tmp''"
proof
  assume "cache_file a = cache_file b @ ''.tmp''"
  then have "last (cache_file a) = last (cache_file b @ ''.tmp'')" by simp
  then show False by (simp add: cache_file_def)
qed

definition save_step :: "json_lib \<Rightarrow> save_end \<times> string \<times> string list \<Rightarrow> cache_files \<Rightarrow> cache_files" where
  "save_step J = (\<lambda>(how, name, symbols) files. fst (save_symbols J how name symbols files))"

definition saves :: "string \<Rightarrow> save_end \<times> string \<times> string list \<Rightarrow> bool" where
  "saves name = (\<lambda>(how, n, symbols). cache_file n = cache_file name \<and> how = Saved \<and> symbols \<noteq> [])"

lemma save_step_lookup:
  assumes "json_ok J"
  shows "load_symbols J name (save_step J x files) =
    (if saves name x then Inr (snd (snd x)) else load_symbols J name files)"
proof -
  obtain how n symbols where x: "x = (how, n, symbols)" by (cases x)
  obtain d where d: "js_marshal J symbols = Some d" "js_unmarshal J d = Some symbols"
    using assms by (auto simp: json_ok_def)
  have "map_of (save_step J x files) (cache_file name) =
      (if saves name x then Some d else map_of files (cache_file name))"
    by (cases how) (auto simp: x save_step_def saves_def save_symbols_def Let_def d(1) map_of_mput map_of_mdel
        split: option.split)
  with d(2) show ?thesis by (auto simp: load_symbols_def saves_def x)
qed

section \<open>Properties\<close>

text \<open>
  The delays of a connection: after a reset the k-th wait is the base doubled k times, at most
  the limit, whatever the product would be at 64 bits, before the random factor is applied.
\<close>

theorem backoff_schedule:
  assumes "0 < base" and "base \<le> limit" and "limit < 2 ^ 63" and "k < 2 ^ 32"
  shows "fst (snd (backoff_wait jitter fired (backoff_after k (backoff_reset (new_backoff base limit)))))
    = jitter (min limit (base * 2 ^ k))"
proof -
  have "unat (of_nat k :: 32 word) = k" using assms(4) by (simp add: unat_of_nat)
  then show ?thesis using assms backoff_delay_exact [OF assms(1-3), of k]
    by (simp add: backoff_wait_def backoff_after_fields backoff_reset_def new_backoff_def Let_def)
qed

text \<open>
  C40. The cache is never torn: after any saves of any names, failed ones included, a load gives the list
  of the last successful save of that file, and what it gave before when there was none.
\<close>

theorem cache_reads_last_save:
  assumes "json_ok J"
  shows "load_symbols J name (fold (save_step J) xs files) =
    (case filter (saves name) xs of [] \<Rightarrow> load_symbols J name files | ys \<Rightarrow> Inr (snd (snd (last ys))))"
proof (induction xs rule: rev_induct)
  case (snoc x xs)
  then show ?case by (auto simp: save_step_lookup [OF assms] split: list.splits)
qed simp

section \<open>Witnesses\<close>

theorem backoff_schedule_witness:
  "fst (snd (backoff_wait id True (backoff_after 3 (backoff_reset (new_backoff (5 * nano_second) (30 * nano_second))))))
    = 30 * nano_second"
  by (subst backoff_schedule) (simp_all add: nano_second_def)

text \<open>A text form of lists with the round trip that is asked of JSON: every character is preceded by a
  minus sign, every element followed by a comma.\<close>

fun comma_parse :: "string \<Rightarrow> string \<Rightarrow> string list option" where
  "comma_parse w [] = (if w = [] then Some [] else None)"
| "comma_parse w [c] = (if c = CHR '','' then Some [rev w] else None)"
| "comma_parse w (c # d # cs) =
     (if c = CHR '','' then map_option ((#) (rev w)) (comma_parse [] (d # cs))
      else if c = CHR ''-'' then comma_parse (d # w) cs else None)"

definition comma_json :: json_lib where
  "comma_json = \<lparr>js_marshal = (\<lambda>xs. Some (concat (map (\<lambda>w. concat (map (\<lambda>c. [CHR ''-'', c]) w) @ '','') xs))),
     js_unmarshal = comma_parse []\<rparr>"

lemma comma_parse_word:
  "comma_parse w (concat (map (\<lambda>c. [CHR ''-'', c]) v) @ CHR '','' # rest) =
    map_option ((#) (rev w @ v)) (comma_parse [] rest)"
proof (induction v arbitrary: w)
  case Nil
  show ?case by (cases rest) simp_all
next
  case (Cons c v)
  show ?case using Cons.IH [of "c # w"] by simp
qed

lemma comma_json_ok: "json_ok comma_json"
proof -
  have "comma_parse [] (concat (map (\<lambda>w. concat (map (\<lambda>c. [CHR ''-'', c]) w) @ '','') xs)) = Some xs" for xs
    by (induction xs) (simp_all add: comma_parse_word)
  then show ?thesis by (simp add: json_ok_def comma_json_def)
qed

theorem cache_reads_last_save_witness:
  "load_symbols comma_json ''Bybit-Spot'' (fold (save_step comma_json)
     [(Saved, ''bybit-spot'', [''BTCUSDT'']), (RenameFails, ''bybit-spot'', [''X'']), (Saved, ''bybit-spot'', [])] [])
   = Inr [''BTCUSDT'']"
  by (subst cache_reads_last_save [OF comma_json_ok])
    (simp add: saves_def cache_file_def string_eval lower_char_def char_of_def bit_Suc_0_iff)

end
