(* ===== verification/Connection.thy ===== *)
theory Connection
  imports Helpers
begin

text \<open>
  The life of a WebSocket connection, which the eight adapters share: internal/wsutil/heartbeat.go (read
  deadlines and ping frames), the read loop with its deadline, the opening of a connection (dial,
  subscriptions, first deadline), the group of shards whose first error cancels the others, and the loop
  that reconnects with the delays of Helpers until the context ends. The network is a script: the frames
  with the times they arrive at, and what fails. Another goroutine that changes the shared state (the
  funding manager, the volume engine) between two reads is an event of the script too. The context is the
  time of its cancellation: \<open>ctx.Err() != nil\<close> at \<open>t\<close> is \<open>done_at cancel t\<close>.
\<close>

section \<open>Deadlines\<close>

definition done_at :: "gtime option \<Rightarrow> gtime \<Rightarrow> bool" where
  "done_at cancel t = (case cancel of None \<Rightarrow> False | Some c \<Rightarrow> c \<le> t)"

text \<open>
  How a connection moves its deadline: the first one and whether it is set before the subscriptions, by a
  pong frame (when a handler is installed), by a message (when the loop does so).
\<close>

record link_policy =
  lp_open :: gdur
  lp_open_first :: bool
  lp_pong :: "gdur option"
  lp_message :: "gdur option"

text \<open>Connections without a pong handler, and connections whose handler moves the deadline as messages do.\<close>

definition message_link :: "gdur \<Rightarrow> link_policy" where
  "message_link d = \<lparr>lp_open = d, lp_open_first = False, lp_pong = None, lp_message = Some d\<rparr>"

definition pong_link :: "gdur \<Rightarrow> link_policy" where
  "pong_link d = \<lparr>lp_open = d, lp_open_first = False, lp_pong = Some d, lp_message = Some d\<rparr>"

text \<open>\<open>StartHeartbeat\<close> normalises its two durations; the ticker that writes the ping frames runs with
  the first one, the deadlines with the second.\<close>

definition heartbeat_interval :: "gdur \<Rightarrow> gdur" where
  "heartbeat_interval interval = (if interval \<le> 0 then 20 * nano_second else interval)"

definition start_heartbeat :: "gdur \<Rightarrow> gdur option \<Rightarrow> link_policy" where
  "start_heartbeat read_timeout message =
     (let d = (if read_timeout \<le> 0 then 60 * nano_second else read_timeout)
      in \<lparr>lp_open = d, lp_open_first = True, lp_pong = Some d, lp_message = message\<rparr>)"

definition touch_read_deadline :: "gdur \<Rightarrow> gdur" where
  "touch_read_deadline timeout = (if timeout \<le> 0 then 60 * nano_second else timeout)"

text \<open>The candle connections ping every 20 seconds and allow 60 seconds of silence.\<close>

definition candle_link :: link_policy where
  "candle_link = start_heartbeat (60 * nano_second) (Some (touch_read_deadline (60 * nano_second)))"

text \<open>The goroutines that keep a connection alive, over the ticks of their ticker: the messages they write, and
  whether a failed write ends them. The end of the context ends them too. For the goroutine of \<open>StartHeartbeat\<close>
  a failed write closes the connection.\<close>

datatype ping_tick = PingWritten | PingFails | PingCancelled

fun keep_alive :: "'m \<Rightarrow> ping_tick list \<Rightarrow> 'm list \<times> bool" where
  "keep_alive msg [] = ([], False)"
| "keep_alive msg (PingWritten # xs) = (case keep_alive msg xs of (sent, failed) \<Rightarrow> (msg # sent, failed))"
| "keep_alive msg (PingFails # xs) = ([], True)"
| "keep_alive msg (PingCancelled # xs) = ([], False)"

definition heartbeat_pings :: "ping_tick list \<Rightarrow> string list \<times> bool" where
  "heartbeat_pings ticks = keep_alive [] ticks"

lemma keep_alive_prefix:
  "keep_alive msg xs = (replicate (length (takeWhile (\<lambda>x. x = PingWritten) xs)) msg,
    (case dropWhile (\<lambda>x. x = PingWritten) xs of [] \<Rightarrow> False | x # _ \<Rightarrow> x = PingFails))"
proof (induction xs)
  case (Cons x xs)
  then show ?case by (cases x) simp_all
qed simp

section \<open>The read loop\<close>

datatype ws_error = DialFails | SymbolsFail | NoSymbols | SubscribeFails | DeadlineFails | ReadFails | HandlerFails

text \<open>What the loop meets: a message, a message after which the deadline cannot be moved, a pong
  frame, a failing read, a change of the shared state by another goroutine.\<close>

datatype ('m, 's) ws_event =
    Message gtime 'm | Unarmed gtime 'm | PongFrame gtime | Broken gtime | Elsewhere "'s \<Rightarrow> 's"

text \<open>Where a connection or a loop over connections stands: it still runs (with its deadline), it
  returned at a time, or the list of symbols could not be loaded.\<close>

datatype outcome = Reading gtime | Ended gtime "ws_error option" | Unlisted gtime

text \<open>A read that fails returns no error when the context is done; a message or pong later than the
  deadline is met by a failed read.\<close>

definition read_failed :: "gtime option \<Rightarrow> gtime \<Rightarrow> outcome" where
  "read_failed cancel t = Ended t (if done_at cancel t then None else Some ReadFails)"

text \<open>The handler gets the message and the state and returns the new state, what it sends on and whether
  the loop returns with an error.\<close>

type_synonym ('m, 's, 'o) handler = "'m \<Rightarrow> 's \<Rightarrow> 's \<times> 'o list \<times> bool"

fun read_step ::
  "link_policy \<Rightarrow> gtime option \<Rightarrow> ('m, 's, 'o) handler \<Rightarrow> ('m, 's) ws_event \<Rightarrow> gtime \<Rightarrow> 's \<Rightarrow> 's \<times> 'o list \<times> outcome" where
  "read_step P cancel handle (Message t m) d s =
     (if t > d then (s, [], read_failed cancel d)
      else (case handle m s of
        (s', out, err) \<Rightarrow>
          (s', out, if err then Ended t (Some HandlerFails)
                    else Reading (case lp_message P of None \<Rightarrow> d | Some timeout \<Rightarrow> t + timeout))))"
| "read_step P cancel handle (Unarmed t m) d s =
     (s, [], if t > d then read_failed cancel d else Ended t (Some DeadlineFails))"
| "read_step P cancel handle (PongFrame t) d s =
     (s, [], if t > d then read_failed cancel d
             else Reading (case lp_pong P of None \<Rightarrow> d | Some timeout \<Rightarrow> t + timeout))"
| "read_step P cancel handle (Broken t) d s = (s, [], read_failed cancel (min t d))"
| "read_step P cancel handle (Elsewhere f) d s = (f s, [], Reading d)"

fun read_loop ::
  "link_policy \<Rightarrow> gtime option \<Rightarrow> ('m, 's, 'o) handler \<Rightarrow> ('m, 's) ws_event list \<Rightarrow> gtime \<Rightarrow> 's \<Rightarrow> 's \<times> 'o list \<times> outcome" where
  "read_loop P cancel handle [] d s = (s, [], Reading d)"
| "read_loop P cancel handle (e # es) d s =
     (case read_step P cancel handle e d s of
        (s1, out, Reading d1) \<Rightarrow> (case read_loop P cancel handle es d1 s1 of (s2, out2, r) \<Rightarrow> (s2, out @ out2, r))
      | other \<Rightarrow> other)"

section \<open>A connection\<close>

text \<open>What happens to one connection: the dial, the subscription write that fails (by its position), whether
  the first deadline is set, the time it is set at, and the events after that.\<close>

record ('m, 's) session_script =
  sc_dial :: bool
  sc_write_fails :: "nat option"
  sc_armed :: bool
  sc_opened :: gtime
  sc_events :: "('m, 's) ws_event list"

definition write_fails :: "nat \<Rightarrow> ('m, 's) session_script \<Rightarrow> bool" where
  "write_fails writes sc = (case sc_write_fails sc of None \<Rightarrow> False | Some k \<Rightarrow> k < writes)"

definition open_session :: "link_policy \<Rightarrow> nat \<Rightarrow> ('m, 's) session_script \<Rightarrow> ws_error option" where
  "open_session P writes sc =
     (if \<not> sc_dial sc then Some DialFails
      else if lp_open_first P \<and> \<not> sc_armed sc then Some DeadlineFails
      else if write_fails writes sc then Some SubscribeFails
      else if \<not> sc_armed sc then Some DeadlineFails
      else None)"

text \<open>The subscriptions that reach the exchange.\<close>

definition sent_subscriptions :: "link_policy \<Rightarrow> 'b list \<Rightarrow> ('m, 's) session_script \<Rightarrow> 'b list" where
  "sent_subscriptions P batches sc =
     (if \<not> sc_dial sc \<or> (lp_open_first P \<and> \<not> sc_armed sc) then []
      else case sc_write_fails sc of None \<Rightarrow> batches | Some k \<Rightarrow> take k batches)"

lemma reading_is_subscribed: "open_session P (length batches) sc = None \<Longrightarrow> sent_subscriptions P batches sc = batches"
  by (auto simp: open_session_def sent_subscriptions_def write_fails_def split: if_splits option.splits)

definition run_session ::
  "link_policy \<Rightarrow> gtime option \<Rightarrow> ('m, 's, 'o) handler \<Rightarrow> nat \<Rightarrow> ('m, 's) session_script \<Rightarrow> 's \<Rightarrow> 's \<times> 'o list \<times> outcome" where
  "run_session P cancel handle writes sc s =
     (case open_session P writes sc of
        Some e \<Rightarrow> (s, [], Ended (sc_opened sc) (Some e))
      | None \<Rightarrow> read_loop P cancel handle (sc_events sc) (sc_opened sc + lp_open P) s)"

text \<open>A handler with a state of its own, made anew for every connection.\<close>

definition run_local_session ::
  "link_policy \<Rightarrow> gtime option \<Rightarrow> ('m, 'c \<times> 's, 'o) handler \<Rightarrow> nat \<Rightarrow> ('m, 'c \<times> 's) session_script \<Rightarrow> 'c \<Rightarrow> 's
    \<Rightarrow> 's \<times> 'o list \<times> outcome" where
  "run_local_session P cancel handle writes sc c s =
     (case run_session P cancel handle writes sc (c, s) of ((_, s'), out, r) \<Rightarrow> (s', out, r))"

section \<open>A group of shards\<close>

text \<open>
  Several connections that run concurrently under a context of their own: the first one that fails while
  that context is alive reports its error and cancels it. The schedule says which shard meets its next event:
  the outcome of its opening, what it meets while it reads, or the end of the group's context, which closes its
  connection (\<open>closeOnCtx\<close>) or makes its dial fail.
\<close>

datatype 'c shard = Starting | Live gtime 'c | Left

datatype ('m, 's) shard_event = Opens "('m, 's) session_script" | Meets "('m, 's) ws_event" | Shut gtime

record ('c, 's, 'o) group =
  gr_shards :: "'c shard list"
  gr_cancel :: "gtime option"
  gr_error :: "ws_error option"
  gr_time :: gtime
  gr_state :: 's
  gr_out :: "'o list"

definition cancel_group :: "gtime option \<Rightarrow> gtime \<Rightarrow> gtime option" where
  "cancel_group cancel t = Some (case cancel of None \<Rightarrow> t | Some c \<Rightarrow> min c t)"

definition leave_group :: "nat \<Rightarrow> gtime \<Rightarrow> ws_error option \<Rightarrow> ('c, 's, 'o) group \<Rightarrow> ('c, 's, 'o) group" where
  "leave_group i t result g =
     (let g1 = g\<lparr>gr_shards := (gr_shards g)[i := Left], gr_time := t\<rparr>
      in if result \<noteq> None \<and> \<not> done_at (gr_cancel g) t
         then g1\<lparr>gr_error := (case gr_error g of None \<Rightarrow> result | Some e \<Rightarrow> Some e), gr_cancel := cancel_group (gr_cancel g) t\<rparr>
         else g1)"

text \<open>The result of a step of a shard that is reading, with its own state \<open>c\<close> and the shared one.\<close>

definition shard_result :: "nat \<Rightarrow> ('c \<times> 's) \<times> 'o list \<times> outcome \<Rightarrow> ('c, 's, 'o) group \<Rightarrow> ('c, 's, 'o) group" where
  "shard_result i x g =
     (case x of ((c, s), out, r) \<Rightarrow>
        (let g1 = g\<lparr>gr_state := s, gr_out := gr_out g @ out\<rparr>
         in case r of
              Ended t err \<Rightarrow> leave_group i t err g1
            | Reading d \<Rightarrow> g1\<lparr>gr_shards := (gr_shards g)[i := Live d c]\<rparr>
            | Unlisted t \<Rightarrow> g1))"

definition group_step ::
  "link_policy \<Rightarrow> ('m, 'c \<times> 's, 'o) handler \<Rightarrow> 'c \<Rightarrow> nat list \<Rightarrow> nat \<times> ('m, 'c \<times> 's) shard_event
    \<Rightarrow> ('c, 's, 'o) group \<Rightarrow> ('c, 's, 'o) group" where
  "group_step P handle c0 writes x g =
     (let i = fst x in
      if \<not> i < length (gr_shards g) then g
      else case (gr_shards g ! i, snd x) of
        (Starting, Opens sc) \<Rightarrow>
          (case open_session P (writes ! i) sc of
             Some e \<Rightarrow> leave_group i (sc_opened sc) (Some e) g
           | None \<Rightarrow> g\<lparr>gr_shards := (gr_shards g)[i := Live (sc_opened sc + lp_open P) c0]\<rparr>)
      | (Live d c, Meets e) \<Rightarrow> shard_result i (read_step P (gr_cancel g) handle e d (c, gr_state g)) g
      | (Starting, Shut t) \<Rightarrow> if done_at (gr_cancel g) t then leave_group i t (Some DialFails) g else g
      | (Live d c, Shut t) \<Rightarrow>
          if done_at (gr_cancel g) t then shard_result i ((c, gr_state g), [], read_failed (gr_cancel g) (min t d)) g else g
      | _ \<Rightarrow> g)"

definition start_group :: "gtime option \<Rightarrow> gtime \<Rightarrow> nat \<Rightarrow> 's \<Rightarrow> ('c, 's, 'o) group" where
  "start_group cancel now n s =
     \<lparr>gr_shards = replicate n Starting, gr_cancel = cancel, gr_error = None, gr_time = now, gr_state = s, gr_out = []\<rparr>"

definition all_left :: "('c, 's, 'o) group \<Rightarrow> bool" where
  "all_left g \<longleftrightarrow> list_all (\<lambda>x. x = Left) (gr_shards g)"

text \<open>\<open>wg.Wait\<close>, and the first error of the channel. \<open>writes\<close> lists the numbers of subscription writes
  of the shards, \<open>now\<close> is the time at which the shards are started.\<close>

definition run_group ::
  "link_policy \<Rightarrow> gtime option \<Rightarrow> ('m, 'c \<times> 's, 'o) handler \<Rightarrow> 'c \<Rightarrow> nat list \<Rightarrow> gtime
    \<Rightarrow> (nat \<times> ('m, 'c \<times> 's) shard_event) list \<Rightarrow> 's \<Rightarrow> 's \<times> 'o list \<times> outcome" where
  "run_group P cancel handle c0 writes now schedule s =
     (let g = fold (group_step P handle c0 writes) schedule (start_group cancel now (length writes) s)
      in (gr_state g, gr_out g, if all_left g then Ended (gr_time g) (gr_error g) else Reading (gr_time g)))"

section \<open>The loop that reconnects\<close>

text \<open>
  The loops of the adapters differ in two points: whether an attempt of at least 30 seconds resets the
  delays, and for which results of an attempt a context that is done ends the loop before it waits.
\<close>

record loop_policy =
  sv_resets :: bool
  sv_stops :: "ws_error option \<Rightarrow> bool"

text \<open>One turn of the loop: when it starts, what the attempt meets, and the random factor of the delay.\<close>

record 'w attempt =
  at_started :: gtime
  at_world :: 'w
  at_jitter :: "gdur \<Rightarrow> gdur"

definition reconnect_backoff :: backoff where
  "reconnect_backoff = new_backoff (3 * nano_second) (30 * nano_second)"

text \<open>\<open>after_error\<close> is what the loop does to the state when an attempt fails while the context is alive. The
  result lists the delays, and tells whether the loop has returned. When the end of the context and the
  timer come at once, the end of the context wins.\<close>

fun supervise ::
  "loop_policy \<Rightarrow> gtime option \<Rightarrow> (gtime \<Rightarrow> 'w \<Rightarrow> 's \<Rightarrow> 's \<times> 'o list \<times> outcome) \<Rightarrow> ('s \<Rightarrow> 's) \<Rightarrow> backoff
    \<Rightarrow> 'w attempt list \<Rightarrow> 's \<Rightarrow> 's \<times> 'o list \<times> gdur list \<times> bool" where
  "supervise L cancel run after_error b [] s = (s, [], [], False)"
| "supervise L cancel run after_error b (a # attempts) s =
     (if done_at cancel (at_started a) then (s, [], [], True)
      else case run (at_started a) (at_world a) s of
        (s1, out, Reading d) \<Rightarrow> (s1, out, [], False)
      | (s1, out, Unlisted t) \<Rightarrow>
          (let delay = retry_after (at_jitter a) (bo_base b)
           in if done_at cancel (t + delay) then (s1, out, [delay], True)
              else case supervise L cancel run after_error b attempts s1 of
                (s2, out2, ds, over) \<Rightarrow> (s2, out @ out2, delay # ds, over))
      | (s1, out, Ended t err) \<Rightarrow>
          (let s2 = (if err \<noteq> None \<and> \<not> done_at cancel t then after_error s1 else s1) in
           if sv_stops L err \<and> done_at cancel t then (s2, out, [], True)
           else let b1 = (if sv_resets L \<and> t - at_started a \<ge> 30 * nano_second then backoff_reset b else b);
                    (b2, delay, fired) = backoff_wait (at_jitter a) True b1
                in if done_at cancel (t + delay) then (s2, out, [delay], True)
                   else case supervise L cancel run after_error b2 attempts s2 of
                     (s3, out3, ds, over) \<Rightarrow> (s3, out @ out3, delay # ds, over)))"

text \<open>The loops of the program: the ticker loops, those that ask for the context only at their head, the
  loops over candles, and the ones over several independent shards.\<close>

definition ticker_loop :: loop_policy where
  "ticker_loop = \<lparr>sv_resets = True, sv_stops = (\<lambda>e. e \<noteq> None)\<rparr>"

definition ticker_loop_no_reset :: loop_policy where
  "ticker_loop_no_reset = \<lparr>sv_resets = False, sv_stops = (\<lambda>e. e \<noteq> None)\<rparr>"

definition shard_loop :: loop_policy where
  "shard_loop = \<lparr>sv_resets = True, sv_stops = (\<lambda>e. False)\<rparr>"

definition candle_loop :: loop_policy where
  "candle_loop = \<lparr>sv_resets = False, sv_stops = (\<lambda>e. True)\<rparr>"

definition shards_loop :: loop_policy where
  "shards_loop = \<lparr>sv_resets = False, sv_stops = (\<lambda>e. e = None)\<rparr>"

text \<open>The turn of a loop over several independent shards once the list is there at \<open>t\<close>: the shards are started
  (its output), and the turn ends when all of them have returned; with no shard it ends at once.\<close>

definition run_shards :: "gtime \<Rightarrow> gtime option \<Rightarrow> string list list \<Rightarrow> unit \<Rightarrow> unit \<times> string list list \<times> outcome" where
  "run_shards t returned shards u =
     (u, shards, if length shards = 0 then Ended t None else case returned of None \<Rightarrow> Reading t | Some t' \<Rightarrow> Ended t' None)"

section \<open>Retries and polls\<close>

text \<open>A request that is repeated with the delays of a connection until it succeeds or the context ends;
  \<open>at_started\<close> is the time at which it returns.\<close>

datatype 'r retried = Trying | GaveUp | Got 'r

fun retry_until ::
  "gtime option \<Rightarrow> (gtime \<Rightarrow> 'w \<Rightarrow> 's \<Rightarrow> 's \<times> 'r option) \<Rightarrow> backoff \<Rightarrow> 'w attempt list \<Rightarrow> 's \<Rightarrow> 's \<times> 'r retried" where
  "retry_until cancel request b [] s = (s, Trying)"
| "retry_until cancel request b (a # attempts) s =
     (case request (at_started a) (at_world a) s of
        (s1, Some r) \<Rightarrow> (s1, Got r)
      | (s1, None) \<Rightarrow>
          if done_at cancel (at_started a) then (s1, GaveUp)
          else (let (b2, delay, fired) = backoff_wait (at_jitter a) True b
                in if done_at cancel (at_started a + delay) then (s1, GaveUp)
                   else retry_until cancel request b2 attempts s1))"

text \<open>A loop that polls, and waits for its ticker (\<open>True\<close>) or the end of the context after each poll.\<close>

fun poll_loop :: "('w \<Rightarrow> 's \<Rightarrow> 's) \<Rightarrow> ('w \<times> bool) list \<Rightarrow> 's \<Rightarrow> 's \<times> bool" where
  "poll_loop poll [] s = (s, False)"
| "poll_loop poll ((w, ticked) # ws) s = (if ticked then poll_loop poll ws (poll w s) else (poll w s, True))"

lemma poll_loop_keeps: "(\<And>w s. ok s \<Longrightarrow> ok (poll w s)) \<Longrightarrow> ok s \<Longrightarrow> ok (fst (poll_loop poll ws s))"
  by (induction poll ws s rule: poll_loop.induct) auto

lemma retry_until_keeps:
  "(\<And>t w s. ok s \<Longrightarrow> ok (fst (request t w s))) \<Longrightarrow> ok s \<Longrightarrow> ok (fst (retry_until cancel request b attempts s))"
proof (induction attempts arbitrary: b s)
  case (Cons a attempts)
  obtain s1 r where r: "request (at_started a) (at_world a) s = (s1, r)" by fastforce
  then have "ok s1" using Cons.prems by (metis fst_conv)
  then show ?case using Cons.IH Cons.prems(1) by (auto simp: r Let_def case_prod_beta split: option.split)
qed simp

lemma leave_group_frame [simp]:
  "gr_state (leave_group i t r g) = gr_state g" "gr_out (leave_group i t r g) = gr_out g"
  by (simp_all add: leave_group_def Let_def)

section \<open>What every run keeps\<close>

text \<open>
  The contract of a loop over attempts: an attempt that is legal keeps an invariant of the shared state and
  sends on only what satisfies \<open>good\<close>.
\<close>

locale feed_run =
  fixes run :: "gtime \<Rightarrow> 'w \<Rightarrow> 's \<Rightarrow> 's \<times> 'o list \<times> outcome"
    and legal :: "'w \<Rightarrow> bool"
    and ok :: "'s \<Rightarrow> bool"
    and good :: "'o \<Rightarrow> bool"
  assumes run_keeps: "legal w \<Longrightarrow> ok s \<Longrightarrow> run t w s = (s', out, r) \<Longrightarrow> ok s' \<and> list_all good out"
begin

lemma supervise_keeps:
  assumes "list_all (\<lambda>a. legal (at_world a)) attempts" and "ok s" and "\<And>s. ok s \<Longrightarrow> ok (after_error s)"
    and "supervise L cancel run after_error b attempts s = (s', out, ds, over)"
  shows "ok s' \<and> list_all good out"
  using assms(1,2,4)
proof (induction attempts arbitrary: b s s' out ds over)
  case (Cons a attempts)
  obtain s1 out1 r where r: "run (at_started a) (at_world a) s = (s1, out1, r)" by (metis prod_cases3)
  have k: "ok s1" "list_all good out1" using run_keeps [OF _ Cons.prems(2) r] Cons.prems(1) by simp_all
  have rest: "ok s3 \<and> list_all good (out1 @ out3)"
    if "ok s2" "supervise L cancel run after_error b' attempts s2 = (s3, out3, ds3, ov)" for b' s2 s3 out3 ds3 ov
    using Cons.IH [OF _ that] Cons.prems(1) k(2) by simp
  show ?case
  proof (cases r)
    case (Ended t err)
    define s2 where "s2 = (if err \<noteq> None \<and> \<not> done_at cancel t then after_error s1 else s1)"
    define b1 where "b1 = (if sv_resets L \<and> t - at_started a \<ge> 30 * nano_second then backoff_reset b else b)"
    define b2 where "b2 = fst (backoff_wait (at_jitter a) True b1)"
    have ok: "ok s2" using k(1) assms(3) by (simp add: s2_def)
    obtain s3 out3 ds3 ov where c: "supervise L cancel run after_error b2 attempts s2 = (s3, out3, ds3, ov)" by (metis prod_cases4)
    have "(s', out) = (s, []) \<or> (s', out) = (s2, out1) \<or> (s', out) = (s3, out1 @ out3)"
      using Cons.prems(3) c unfolding b2_def s2_def
      by (auto simp add: r Ended Let_def b1_def [symmetric] case_prod_beta split: if_splits)
    then show ?thesis using rest [OF ok c] Cons.prems(2) k(2) ok by auto
  next
    case (Unlisted t)
    then show ?thesis using Cons.prems(2,3) k rest [OF k(1)]
      by (auto simp: r Let_def simp del: list_all_append split: if_splits prod.splits)
  qed (use Cons.prems(2,3) k in \<open>auto simp: r split: if_splits\<close>)
qed simp

lemma supervise_result:
  assumes "list_all (\<lambda>a. legal (at_world a)) attempts" and "ok s" and "\<And>s. ok s \<Longrightarrow> ok (after_error s)"
  shows "ok (fst (supervise L cancel run after_error b attempts s))"
    and "list_all good (fst (snd (supervise L cancel run after_error b attempts s)))"
proof -
  obtain s' out ds over where "supervise L cancel run after_error b attempts s = (s', out, ds, over)" by (metis prod_cases4)
  with supervise_keeps [OF assms this]
  show "ok (fst (supervise L cancel run after_error b attempts s))"
    "list_all good (fst (snd (supervise L cancel run after_error b attempts s)))" by simp_all
qed

end

text \<open>The contract of a handler of messages, which its sessions inherit.\<close>

definition legal_events :: "('s \<Rightarrow> bool) \<Rightarrow> ('m, 's) ws_event list \<Rightarrow> bool" where
  "legal_events ok es \<longleftrightarrow> (\<forall>f s. Elsewhere f \<in> set es \<longrightarrow> ok s \<longrightarrow> ok (f s))"

lemma legal_trivial [simp]: "legal_events (\<lambda>s. True) es"
  by (simp add: legal_events_def)

lemma legal_pair [simp]: "legal_events (\<lambda>(c, s). True) es"
  by (simp add: legal_events_def)

locale feed =
  fixes handle :: "('m, 's, 'o) handler"
    and ok :: "'s \<Rightarrow> bool"
    and good :: "'o \<Rightarrow> bool"
  assumes handle_keeps: "ok s \<Longrightarrow> handle m s = (s', out, err) \<Longrightarrow> ok s' \<and> list_all good out"
begin

lemma step_keeps:
  assumes "ok s" and "\<And>f. e = Elsewhere f \<Longrightarrow> ok (f s)" and "read_step P cancel handle e d s = (s', out, r)"
  shows "ok s' \<and> list_all good out"
  using assms(1,3) assms(2) by (cases e) (auto split: if_splits prod.splits dest: handle_keeps)

lemma loop_keeps:
  assumes "legal_events ok es" and "ok s" and "read_loop P cancel handle es d s = (s', out, r)"
  shows "ok s' \<and> list_all good out"
  using assms
proof (induction es arbitrary: d s s' out r)
  case (Cons e es)
  obtain s1 out1 r1 where r: "read_step P cancel handle e d s = (s1, out1, r1)" by (metis prod_cases3)
  have "\<And>f. e = Elsewhere f \<Longrightarrow> ok (f s)" using Cons.prems(1,2) by (simp add: legal_events_def)
  then have k: "ok s1" "list_all good out1" using step_keeps [OF Cons.prems(2) _ r] by simp_all
  have rest: "ok s2 \<and> list_all good (out1 @ out2)"
    if "read_loop P cancel handle es d1 s1 = (s2, out2, r2)" for d1 s2 out2 r2
    using Cons.IH [OF _ k(1) that] Cons.prems(1) k(2) by (auto simp: legal_events_def)
  show ?case using Cons.prems(3) k rest
    by (cases r1) (auto simp: r simp del: list_all_append split: prod.splits)
qed simp

lemma session_keeps:
  assumes "legal_events ok (sc_events sc)" and "ok s" and "run_session P cancel handle n sc s = (s', out, r)"
  shows "ok s' \<and> list_all good out"
  using assms by (auto simp: run_session_def split: option.splits dest: loop_keeps)

end

text \<open>A handler with a state of its own, which starts anew with every connection.\<close>

locale local_feed = feed handle "\<lambda>(c, s). ok s" good
  for handle :: "('m, 'c \<times> 's, 'o) handler" and ok :: "'s \<Rightarrow> bool" and good :: "'o \<Rightarrow> bool"
begin

lemma local_session_keeps:
  assumes "legal_events (\<lambda>(c, s). ok s) (sc_events sc)" and "ok s"
    and "run_local_session P cancel handle n sc c s = (s', out, r)"
  shows "ok s' \<and> list_all good out"
  using assms(2,3) session_keeps [OF assms(1), of "(c, s)" P cancel n]
  by (auto simp: run_local_session_def split: prod.splits)

definition shard_legal :: "nat \<times> ('m, 'c \<times> 's) shard_event \<Rightarrow> bool" where
  "shard_legal x \<longleftrightarrow> (\<forall>e. snd x = Meets e \<longrightarrow> legal_events (\<lambda>(c, s). ok s) [e])"

lemma group_step_keeps:
  assumes "ok (gr_state g) \<and> list_all good (gr_out g)" and "shard_legal x"
  shows "ok (gr_state (group_step P handle c0 writes x g)) \<and> list_all good (gr_out (group_step P handle c0 writes x g))"
proof (cases "(gr_shards g ! fst x, snd x)")
  case (Pair m ev)
  show ?thesis
  proof (cases "\<exists>d c e. m = Live d c \<and> ev = Meets e")
    case True
    then obtain d c e where m: "m = Live d c" "ev = Meets e" by blast
    obtain c1 s1 out1 r1 where r: "read_step P (gr_cancel g) handle e d (c, gr_state g) = ((c1, s1), out1, r1)"
      by (metis prod_cases3 surj_pair)
    have "\<And>f. e = Elsewhere f \<Longrightarrow> (case f (c, gr_state g) of (c, s) \<Rightarrow> ok s)"
      using assms m(2) Pair by (auto simp: shard_legal_def legal_events_def)
    then have "ok s1 \<and> list_all good out1" using step_keeps [OF _ _ r] assms(1) by auto
    then show ?thesis using assms(1) Pair m
      by (cases r1) (simp_all add: group_step_def shard_result_def r Let_def)
  next
    case False
    then show ?thesis using assms(1) Pair
      by (cases m; cases ev) (auto simp: group_step_def shard_result_def read_failed_def Let_def split: option.split)
  qed
qed

lemma group_keeps:
  assumes "list_all shard_legal schedule" and "ok s" and "run_group P cancel handle c0 writes now schedule s = (s', out, r)"
  shows "ok s' \<and> list_all good out"
proof -
  have "ok (gr_state (fold (group_step P handle c0 writes) schedule g)) \<and>
      list_all good (gr_out (fold (group_step P handle c0 writes) schedule g))"
    if "ok (gr_state g) \<and> list_all good (gr_out g)" for g
    using assms(1) that by (induction schedule arbitrary: g) (simp_all add: group_step_keeps)
  from this [of "start_group cancel now (length writes) s"] show ?thesis
    using assms(2,3) by (auto simp: run_group_def start_group_def Let_def)
qed

end

section \<open>Silence\<close>

text \<open>The times at which the deadline of a connection is moved, and a list of times without a gap
  longer than \<open>T\<close>.\<close>

fun moves_at :: "link_policy \<Rightarrow> ('m, 's) ws_event \<Rightarrow> gtime option" where
  "moves_at P (Message t m) = (if lp_message P = None then None else Some t)"
| "moves_at P (PongFrame t) = (if lp_pong P = None then None else Some t)"
| "moves_at P e = None"

definition signs_of_life :: "link_policy \<Rightarrow> ('m, 's) ws_event list \<Rightarrow> gtime list" where
  "signs_of_life P es = List.map_filter (moves_at P) es"

fun steady :: "gdur \<Rightarrow> gtime \<Rightarrow> gtime list \<Rightarrow> bool" where
  "steady T t [] = True"
| "steady T t (u # us) = (u \<le> t + T \<and> steady T u us)"

definition link_within :: "link_policy \<Rightarrow> gdur \<Rightarrow> bool" where
  "link_within P T \<longleftrightarrow> lp_open P \<le> T \<and> (case lp_pong P of None \<Rightarrow> True | Some d \<Rightarrow> d \<le> T)
     \<and> (case lp_message P of None \<Rightarrow> True | Some d \<Rightarrow> d \<le> T)"

lemma signs_simps [simp]:
  "signs_of_life P [] = []"
  "signs_of_life P (e # es) = (case moves_at P e of None \<Rightarrow> [] | Some t \<Rightarrow> [t]) @ signs_of_life P es"
  by (simp_all add: signs_of_life_def List.map_filter_def split: option.split)

text \<open>A step that goes on moves the deadline to at most \<open>T\<close> after a sign of life; one that ends
  the loop ends it at the deadline or before.\<close>

lemma read_step_deadline:
  assumes "link_within P T" and "d \<le> t0 + T" and "read_step P cancel handle e d s = (s', out, r)"
  shows "case r of Reading d' \<Rightarrow> (case moves_at P e of None \<Rightarrow> d' = d | Some t \<Rightarrow> t \<le> t0 + T \<and> d' \<le> t + T)
    | Ended t err \<Rightarrow> t \<le> t0 + T | Unlisted t \<Rightarrow> False"
  using assms by (cases e) (auto simp: link_within_def read_failed_def split: if_splits prod.splits option.splits)

lemma signs_of_life_Cons_None: "moves_at P e = None \<Longrightarrow> signs_of_life P (e # es) = signs_of_life P es"
  by simp

text \<open>What the loop has met when it is where it is.\<close>

definition ends_within :: "link_policy \<Rightarrow> gdur \<Rightarrow> gtime \<Rightarrow> ('m, 's) ws_event list \<Rightarrow> outcome \<Rightarrow> bool" where
  "ends_within P T t0 es r \<longleftrightarrow> steady T t0 (signs_of_life P es)
     \<and> (case r of Reading d \<Rightarrow> d \<le> last (t0 # signs_of_life P es) + T
        | Ended t err \<Rightarrow> t \<le> last (t0 # signs_of_life P es) + T | Unlisted t \<Rightarrow> False)"

lemma ends_within_Nil: "ends_within P T t0 [] (Ended t err) \<longleftrightarrow> t \<le> t0 + T"
  by (simp add: ends_within_def)

lemma ends_within_move:
  "moves_at P e = Some t \<Longrightarrow> t \<le> t0 + T \<Longrightarrow> ends_within P T t es r \<Longrightarrow> ends_within P T t0 (e # es) r"
  by (auto simp: ends_within_def split: outcome.split)

lemma ends_within_stay:
  "moves_at P e = None \<Longrightarrow> ends_within P T t0 es r \<Longrightarrow> ends_within P T t0 (e # es) r"
  by (simp only: ends_within_def signs_of_life_Cons_None)

lemma read_loop_silence:
  assumes "link_within P T" and "d \<le> t0 + T" and "read_loop P cancel handle es d s = (s', out, r)"
  shows "\<exists>k. ends_within P T t0 (take k es) r \<and> (\<forall>d'. r = Reading d' \<longrightarrow> k = length es)"
  using assms(2,3)
proof (induction es arbitrary: d t0 s s' out r)
  case Nil
  then show ?case by (auto simp: ends_within_def)
next
  case (Cons e es)
  obtain s1 out1 r1 where r1: "read_step P cancel handle e d s = (s1, out1, r1)" by (metis prod_cases3)
  note step = read_step_deadline [OF assms(1) Cons.prems(1) r1]
  show ?case
  proof (cases r1)
    case (Reading d1)
    obtain s2 out2 r2 where l: "read_loop P cancel handle es d1 s1 = (s2, out2, r2)" by (metis prod_cases3)
    then have r: "r = r2" using Cons.prems(2) r1 Reading by simp
    show ?thesis
    proof (cases "moves_at P e")
      case None
      then have "d1 \<le> t0 + T" using step Reading Cons.prems(1) by simp
      from Cons.IH [OF this l] obtain k where "ends_within P T t0 (take k es) r2" "\<forall>d'. r2 = Reading d' \<longrightarrow> k = length es" by blast
      then show ?thesis using ends_within_stay [OF None] r by (intro exI [of _ "Suc k"]) simp
    next
      case (Some t)
      then have t: "t \<le> t0 + T" "d1 \<le> t + T" using step Reading by simp_all
      from Cons.IH [OF t(2) l] obtain k where "ends_within P T t (take k es) r2" "\<forall>d'. r2 = Reading d' \<longrightarrow> k = length es" by blast
      then show ?thesis using ends_within_move [OF Some t(1)] r by (intro exI [of _ "Suc k"]) simp
    qed
  next
    case (Ended t err)
    then have "r = Ended t err" using Cons.prems(2) r1 by simp
    then show ?thesis using Ended step by (intro exI [of _ 0]) (simp add: ends_within_Nil)
  next
    case (Unlisted t)
    then show ?thesis using step by simp
  qed
qed

section \<open>The end of a loop\<close>

text \<open>The turns a loop takes when nothing ends it: how each attempt comes out, with its jitter. An attempt that is
  still running hides those behind it.\<close>

datatype turn = Lasted gdur | NoList | StillRunning

fun loop_turns ::
  "gtime option \<Rightarrow> (gtime \<Rightarrow> 'w \<Rightarrow> 's \<Rightarrow> 's \<times> 'o list \<times> outcome) \<Rightarrow> ('s \<Rightarrow> 's) \<Rightarrow> 'w attempt list \<Rightarrow> 's
    \<Rightarrow> (turn \<times> (gdur \<Rightarrow> gdur)) list" where
  "loop_turns cancel run after_error [] s = []"
| "loop_turns cancel run after_error (a # attempts) s =
     (case run (at_started a) (at_world a) s of
        (s1, out, Reading d) \<Rightarrow> [(StillRunning, at_jitter a)]
      | (s1, out, Unlisted t) \<Rightarrow> (NoList, at_jitter a) # loop_turns cancel run after_error attempts s1
      | (s1, out, Ended t err) \<Rightarrow> (Lasted (t - at_started a), at_jitter a) #
          loop_turns cancel run after_error attempts (if err \<noteq> None \<and> \<not> done_at cancel t then after_error s1 else s1))"

lemma supervise_alive: "snd (snd (snd (supervise L None run after_error b attempts s))) = False"
proof (induction attempts arbitrary: b s)
  case (Cons a attempts)
  have "\<not> done_at None t" for t by (simp add: done_at_def)
  then show ?case using Cons.IH by (simp add: Let_def case_prod_beta split: outcome.split)
qed simp

lemma supervise_stops:
  assumes "done_at cancel (at_started a)"
  shows "StillRunning \<notin> fst ` set (loop_turns cancel run after_error before s) \<Longrightarrow>
    snd (snd (snd (supervise L cancel run after_error b (before @ a # later) s)))"
proof (induction before arbitrary: b s)
  case (Cons c before)
  obtain s1 out r where r: "run (at_started c) (at_world c) s = (s1, out, r)" by (metis prod_cases3)
  show ?case using Cons
    by (cases r) (auto simp: r Let_def case_prod_beta split: if_splits)
qed (simp add: assms)

text \<open>An attempt that is due after the end of the context hides the ones behind it.\<close>

lemma supervise_prefix:
  assumes "done_at cancel (at_started a)"
  shows "supervise L cancel run after_error b (before @ a # later) s = supervise L cancel run after_error b (before @ [a]) s"
proof (induction before arbitrary: b s)
  case (Cons c before)
  then show ?case by (simp add: Let_def case_prod_beta split: outcome.split)
qed (simp add: assms)

section \<open>Delays\<close>

text \<open>The delays of a loop after these turns, \<open>k\<close> of them before without a reset: the k-th power
  of two in units of the base delay, at most the limit; the base delay when the symbols could not be listed.\<close>

fun due_delays :: "loop_policy \<Rightarrow> nat \<Rightarrow> (turn \<times> (gdur \<Rightarrow> gdur)) list \<Rightarrow> gdur list" where
  "due_delays L k [] = []"
| "due_delays L k ((StillRunning, jitter) # xs) = []"
| "due_delays L k ((NoList, jitter) # xs) = jitter (3 * nano_second) # due_delays L k xs"
| "due_delays L k ((Lasted d, jitter) # xs) =
     (let j = (if sv_resets L \<and> d \<ge> 30 * nano_second then 0 else k)
      in jitter (min (30 * nano_second) (3 * nano_second * 2 ^ j)) # due_delays L (Suc j) xs)"

definition waited :: "nat \<Rightarrow> backoff" where
  "waited k = backoff_after k reconnect_backoff"

lemma waited_reset: "backoff_reset (waited k) = waited 0"
  by (rule backoff.equality) (simp_all add: waited_def backoff_reset_def backoff_after_fields reconnect_backoff_def
      new_backoff_def Let_def)

lemma waited_wait:
  assumes "k < 2 ^ 32"
  shows "backoff_wait jitter fired (waited k) = (waited (Suc k), jitter (min (30 * nano_second) (3 * nano_second * 2 ^ k)), fired)"
proof -
  have "unat (of_nat k :: 32 word) = k" using assms by (simp add: unat_of_nat)
  then have "backoff_delay (unat (bo_attempt (waited k))) (bo_max (waited k)) (bo_base (waited k)) =
      min (30 * nano_second) (3 * nano_second * 2 ^ k)"
    by (simp add: waited_def backoff_after_fields reconnect_backoff_def new_backoff_def nano_second_def backoff_delay_exact)
  moreover have "fst (backoff_wait jitter fired (waited k)) = waited (Suc k)"
    by (simp add: waited_def backoff_after_def backoff_wait_def)
  ultimately show ?thesis by (simp add: backoff_wait_def)
qed

lemma retry_after_base: "retry_after jitter (bo_base (waited k)) = jitter (3 * nano_second)"
  by (simp add: waited_def backoff_after_fields reconnect_backoff_def new_backoff_def retry_after_def nano_second_def Let_def)

lemma supervise_delays:
  assumes "supervise L cancel run after_error (waited k) attempts s = (s', out, ds, over)" and "k + length attempts < 2 ^ 32"
  shows "ds = take (length ds) (due_delays L k (loop_turns cancel run after_error attempts s))
    \<and> (\<not> over \<longrightarrow> ds = due_delays L k (loop_turns cancel run after_error attempts s))"
  using assms
proof (induction attempts arbitrary: k s s' out ds over)
  case (Cons a attempts)
  obtain s1 out1 r where r: "run (at_started a) (at_world a) s = (s1, out1, r)" by (metis prod_cases3)
  show ?case
  proof (cases r)
    case (Ended t err)
    define s2 where "s2 = (if err \<noteq> None \<and> \<not> done_at cancel t then after_error s1 else s1)"
    define j where "j = (if sv_resets L \<and> t - at_started a \<ge> 30 * nano_second then 0 else k)"
    have j: "(if sv_resets L \<and> t - at_started a \<ge> 30 * nano_second then backoff_reset (waited k) else waited k) = waited j"
      by (simp add: j_def waited_reset)
    have l: "Suc j + length attempts < 2 ^ 32" "j < 2 ^ 32" using Cons.prems(2) by (auto simp: j_def)
    obtain s3 out3 ds3 ov where c: "supervise L cancel run after_error (waited (Suc j)) attempts s2 = (s3, out3, ds3, ov)"
      by (metis prod_cases4)
    let ?delay = "at_jitter a (min (30 * nano_second) (3 * nano_second * 2 ^ j))"
    have "supervise L cancel run after_error (waited k) (a # attempts) s =
        (if done_at cancel (at_started a) then (s, [], [], True)
         else if sv_stops L err \<and> done_at cancel t then (s2, out1, [], True)
         else if done_at cancel (t + ?delay) then (s2, out1, [?delay], True) else (s3, out1 @ out3, ?delay # ds3, ov))"
      unfolding supervise.simps(2) r Ended prod.case outcome.case Let_def s2_def [symmetric] j waited_wait [OF l(2)] c by (rule refl)
    moreover have "due_delays L k (loop_turns cancel run after_error (a # attempts) s) =
        ?delay # due_delays L (Suc j) (loop_turns cancel run after_error attempts s2)"
      unfolding loop_turns.simps(2) r Ended prod.case outcome.case s2_def [symmetric] due_delays.simps(4) j_def [symmetric] Let_def by (rule refl)
    ultimately show ?thesis using Cons.IH [OF c l(1)] Cons.prems(1) by (auto split: if_splits)
  next
    case (Unlisted t)
    obtain s3 out3 ds3 ov where c: "supervise L cancel run after_error (waited k) attempts s1 = (s3, out3, ds3, ov)"
      by (metis prod_cases4)
    have "k + length attempts < 2 ^ 32" using Cons.prems(2) by simp
    from Cons.IH [OF c this] Cons.prems(1) show ?thesis
      by (auto simp: r Unlisted Let_def retry_after_base c split: if_splits)
  qed (use Cons.prems(1) in \<open>auto simp: r split: if_splits\<close>)
qed simp

section \<open>Groups\<close>

text \<open>A group has an error exactly when it has cancelled its own context while the caller's was alive.\<close>

definition group_consistent :: "gtime option \<Rightarrow> ('c, 's, 'o) group \<Rightarrow> bool" where
  "group_consistent cancel g \<longleftrightarrow>
     (case gr_error g of None \<Rightarrow> gr_cancel g = cancel
      | Some e \<Rightarrow> (\<exists>t. gr_cancel g = Some t \<and> \<not> done_at cancel t))"

lemma group_consistent_frame [simp]:
  "group_consistent cancel (g\<lparr>gr_shards := x\<rparr>) = group_consistent cancel g"
  "group_consistent cancel (g\<lparr>gr_state := s\<rparr>) = group_consistent cancel g"
  "group_consistent cancel (g\<lparr>gr_out := y\<rparr>) = group_consistent cancel g"
  by (simp_all add: group_consistent_def split: option.split)

lemma leave_group_consistent:
  "group_consistent cancel g \<Longrightarrow> group_consistent cancel (leave_group i t r g)"
  by (auto simp: group_consistent_def leave_group_def Let_def cancel_group_def done_at_def min_def
      split: option.splits if_splits)

lemma group_step_consistent:
  assumes "group_consistent cancel g"
  shows "group_consistent cancel (group_step P handle c0 writes x g)"
proof -
  have "group_consistent cancel (shard_result i y g)" for i y
  proof (cases y)
    case (fields cs out r)
    then show ?thesis using assms
      by (cases r; cases cs)
        (simp_all add: shard_result_def Let_def leave_group_consistent)
  qed
  with assms show ?thesis
    by (cases "gr_shards g ! fst x"; cases "snd x")
      (auto simp: group_step_def Let_def leave_group_consistent split: option.split)
qed

lemma leave_group_error: "gr_error g = Some e \<Longrightarrow> gr_error (leave_group i t r g) = Some e"
  by (simp add: leave_group_def Let_def)

lemma group_error_stays:
  assumes "gr_error g = Some e"
  shows "gr_error (group_step P handle c0 writes x g) = Some e"
proof -
  have "gr_error (shard_result i y g) = Some e" for i y
  proof (cases y)
    case (fields cs out r)
    then show ?thesis using assms
      by (cases r; cases cs) (simp_all add: shard_result_def Let_def leave_group_error)
  qed
  then show ?thesis using assms
    by (cases "gr_shards g ! fst x"; cases "snd x") (auto simp: group_step_def Let_def leave_group_error split: option.split)
qed

lemma group_run_consistent:
  "group_consistent cancel (fold (group_step P handle c0 writes) schedule (start_group cancel now n s))"
proof -
  have "group_consistent cancel (fold (group_step P handle c0 writes) schedule g)" if "group_consistent cancel g" for g
    using that by (induction schedule arbitrary: g) (simp_all add: group_step_consistent)
  then show ?thesis by (simp add: group_consistent_def start_group_def)
qed

text \<open>Once a shard has failed, the schedule that follows cannot change the error.\<close>

lemma group_run_error:
  "gr_error g = Some e \<Longrightarrow> gr_error (fold (group_step P handle c0 writes) schedule g) = Some e"
  by (induction schedule arbitrary: g) (simp_all add: group_error_stays)

text \<open>The shard that fails first cancels the group at the time it fails.\<close>

lemma leave_group_fails:
  "gr_error g = None \<Longrightarrow> gr_error (leave_group i t r g) = Some e \<Longrightarrow>
    done_at (gr_cancel (leave_group i t r g)) (gr_time (leave_group i t r g))"
  by (auto simp: leave_group_def Let_def cancel_group_def done_at_def split: if_splits option.splits)

lemma group_step_fails:
  assumes "gr_error g = None" and "gr_error (group_step P handle c0 writes x g) = Some e"
  shows "done_at (gr_cancel (group_step P handle c0 writes x g)) (gr_time (group_step P handle c0 writes x g))"
proof -
  have r: "done_at (gr_cancel (shard_result i y g)) (gr_time (shard_result i y g))" if "gr_error (shard_result i y g) = Some e" for i y
  proof (cases y)
    case (fields cs out r)
    with that assms(1) show ?thesis
      by (cases r; cases cs) (auto simp: shard_result_def Let_def intro: leave_group_fails [where e = e])
  qed
  show ?thesis
    using assms r by (cases "gr_shards g ! fst x"; cases "snd x")
      (auto simp: group_step_def Let_def split: option.splits if_splits intro: leave_group_fails [where e = e])
qed

text \<open>What later steps keep: the number of shards, the shards that have left, and that the context is done.\<close>

definition group_after :: "('c, 's, 'o) group \<Rightarrow> ('c, 's, 'o) group \<Rightarrow> bool" where
  "group_after g g' \<longleftrightarrow> length (gr_shards g') = length (gr_shards g)
     \<and> (\<forall>i<length (gr_shards g). gr_shards g ! i = Left \<longrightarrow> gr_shards g' ! i = Left)
     \<and> (\<forall>t. done_at (gr_cancel g) t \<longrightarrow> done_at (gr_cancel g') t)"

lemma group_after_refl [simp]: "group_after g g"
  by (simp add: group_after_def)

lemma group_after_trans: "group_after g g' \<Longrightarrow> group_after g' g'' \<Longrightarrow> group_after g g''"
  by (simp add: group_after_def)

lemma left_stays: "j < length xs \<Longrightarrow> xs ! j = Left \<Longrightarrow> x = Left \<or> xs ! i \<noteq> Left \<Longrightarrow> xs[i := x] ! j = Left"
  by (cases "i = j") auto

lemma leave_group_after:
  "gr_shards g' = gr_shards g \<Longrightarrow> gr_cancel g' = gr_cancel g \<Longrightarrow> group_after g (leave_group i t r g')"
  by (auto simp: group_after_def leave_group_def Let_def cancel_group_def done_at_def left_stays split: option.splits)

lemma shard_result_after: "gr_shards g ! i \<noteq> Left \<Longrightarrow> group_after g (shard_result i y g)"
  by (cases y; cases "snd (snd y)"; cases "fst y")
    (auto simp: shard_result_def Let_def intro: leave_group_after, auto simp: group_after_def left_stays)

lemma group_step_after: "group_after g (group_step P handle c0 writes x g)"
proof -
  have "group_after g (g\<lparr>gr_shards := (gr_shards g)[i := Live d c]\<rparr>)" if "gr_shards g ! i \<noteq> Left" for i d c
    using that by (auto simp: group_after_def left_stays)
  then show ?thesis
    by (cases "gr_shards g ! fst x"; cases "snd x")
      (auto simp: group_step_def Let_def shard_result_after leave_group_after split: option.split)
qed

lemma group_run_after: "group_after g (fold (group_step P handle c0 writes) schedule g)"
proof (induction schedule arbitrary: g)
  case (Cons x schedule)
  from group_after_trans [OF group_step_after Cons.IH] show ?case by simp
qed simp

text \<open>A shard that meets the end of the group's context leaves.\<close>

lemma shut_leaves:
  assumes "i < length (gr_shards g)" and "done_at (gr_cancel g) t"
  shows "gr_shards (group_step P handle c0 writes (i, Shut t) g) ! i = Left"
  using assms by (cases "gr_shards g ! i") (simp_all add: group_step_def shard_result_def leave_group_def read_failed_def Let_def)

lemma shut_run_leaves:
  assumes "(i, Shut t) \<in> set schedule" and "i < length (gr_shards g)" and "done_at (gr_cancel g) t"
  shows "gr_shards (fold (group_step P handle c0 writes) schedule g) ! i = Left"
proof -
  obtain xs ys where s: "schedule = xs @ (i, Shut t) # ys" using split_list [OF assms(1)] by blast
  let ?step = "group_step P handle c0 writes"
  let ?g1 = "fold ?step xs g"
  have "i < length (gr_shards ?g1)" "done_at (gr_cancel ?g1) t"
    using group_run_after [of g P handle c0 writes xs] assms(2,3) by (simp_all add: group_after_def)
  from shut_leaves [OF this, of P handle c0 writes] this show ?thesis
    using group_step_after [of ?g1 P handle c0 writes "(i, Shut t)"]
      group_run_after [of "?step (i, Shut t) ?g1" P handle c0 writes ys] by (simp add: s group_after_def)
qed

text \<open>Once a shard has failed, the group ends with its error as soon as the others have met the end of the context.\<close>

lemma failed_group_ends:
  assumes "gr_error (fold (group_step P handle c0 writes) pre (start_group cancel now (length writes) s)) = None"
    and "g = fold (group_step P handle c0 writes) (pre @ [x]) (start_group cancel now (length writes) s)" and "gr_error g = Some e"
    and "\<forall>i<length writes. \<exists>t\<ge>gr_time g. (i, Shut t) \<in> set post"
  shows "\<exists>s' out t. run_group P cancel handle c0 writes now (pre @ x # post) s = (s', out, Ended t (Some e))"
proof -
  let ?step = "group_step P handle c0 writes"
  let ?g0 = "start_group cancel now (length writes) s" and ?g2 = "fold ?step post g"
  have d: "done_at (gr_cancel g) (gr_time g)"
    using assms(1,3) group_step_fails [of "fold ?step pre ?g0" P handle c0 writes x e] by (simp add: assms(2))
  have n: "length (gr_shards g) = length writes"
    using group_run_after [of ?g0 P handle c0 writes "pre @ [x]"] by (simp add: assms(2) group_after_def start_group_def)
  have "gr_shards ?g2 ! i = Left" if i: "i < length writes" for i
  proof -
    obtain t where "gr_time g \<le> t" "(i, Shut t) \<in> set post" using assms(4) i by blast
    moreover from this d have "done_at (gr_cancel g) t" by (auto simp: done_at_def split: option.splits)
    ultimately show ?thesis using shut_run_leaves [of i t post g] i n by simp
  qed
  moreover have "length (gr_shards ?g2) = length writes"
    using group_run_after [of g P handle c0 writes post] n by (simp add: group_after_def)
  ultimately have "all_left ?g2" by (simp add: all_left_def list_all_length)
  moreover have "gr_error ?g2 = Some e" using assms(3) by (rule group_run_error)
  ultimately show ?thesis by (simp add: run_group_def Let_def assms(2))
qed

text \<open>
  A loop whose attempts that send something on either still run or end without an error under a context that is
  done sends on what one attempt does.
\<close>

lemma supervise_once:
  assumes "sv_stops L None"
    and "\<And>a s. a \<in> set attempts \<Longrightarrow> fst (snd (run (at_started a) (at_world a) s)) = []
      \<or> (\<exists>d. snd (snd (run (at_started a) (at_world a) s)) = Reading d)
      \<or> (\<exists>t. snd (snd (run (at_started a) (at_world a) s)) = Ended t None \<and> done_at cancel t)"
  shows "fst (snd (supervise L cancel run after_error b attempts s)) = []
    \<or> (\<exists>a\<in>set attempts. \<exists>s1. fst (snd (supervise L cancel run after_error b attempts s)) = fst (snd (run (at_started a) (at_world a) s1)))"
  using assms(2)
proof (induction attempts arbitrary: b s)
  case (Cons a attempts)
  obtain s1 out r where r: "run (at_started a) (at_world a) s = (s1, out, r)" by (metis prod_cases3)
  have a: "out = [] \<or> (\<exists>d. r = Reading d) \<or> (\<exists>t. r = Ended t None \<and> done_at cancel t)"
    using Cons.prems [of a s] by (simp add: r)
  have ih: "fst (snd (supervise L cancel run after_error b' attempts s')) = []
      \<or> (\<exists>a\<in>set (a # attempts). \<exists>s1. fst (snd (supervise L cancel run after_error b' attempts s')) = fst (snd (run (at_started a) (at_world a) s1)))"
    for b' s' using Cons.IH [of b' s'] Cons.prems by (meson list.set_intros(2))
  show ?case
  proof (cases "out = []")
    case True
    then show ?thesis using ih by (cases r) (simp_all add: r Let_def case_prod_beta)
  next
    case False
    have "fst (snd (supervise L cancel run after_error b (a # attempts) s)) \<in> {[], out}"
      using a False assms(1) by (auto simp: r)
    moreover have "out = fst (snd (run (at_started a) (at_world a) s))" by (simp add: r)
    ultimately show ?thesis by (metis insertE list.set_intros(1) singletonD)
  qed
qed simp

section \<open>Properties\<close>

text \<open>
  C30. A connection does not outlive its silence: when its policy allows at most \<open>T\<close>, the signs of life it has met
  (the messages and pongs that move its deadline) are never more than \<open>T\<close> apart from its opening on, and it
  is over at most \<open>T\<close> after the last one.
\<close>

theorem silent_connection_ends:
  assumes "link_within P T" and "open_session P writes sc = None"
    and "run_session P cancel handle writes sc s = (s', out, r)"
  shows "\<exists>k. ends_within P T (sc_opened sc) (take k (sc_events sc)) r \<and> (\<forall>d. r = Reading d \<longrightarrow> k = length (sc_events sc))"
proof -
  have "sc_opened sc + lp_open P \<le> sc_opened sc + T" using assms(1) by (simp add: link_within_def)
  then show ?thesis using assms(2,3) by (intro read_loop_silence [OF assms(1)]) (auto simp: run_session_def)
qed

text \<open>
  C31. The delays between the attempts of a loop, whatever its attempts are and whenever the context ends: 3 seconds,
  doubled with every attempt up to 30
  seconds, before the random factor. An attempt of at least 30 seconds starts the series anew in the loops
  that reset it; in the others, those of MEXC, of Gate.io, of the candles and of the funding rates of
  Binance, the delay stays at 30 seconds from the fifth reconnection on, however long the connections last.
  A turn in which the symbols could not be listed is followed by 3 seconds and leaves the series where it
  was. A loop that has not returned has waited all the delays that are due, one that has a first part of them.
\<close>

theorem reconnect_delays:
  assumes "supervise L cancel run after_error reconnect_backoff attempts s = (s', out, delays, over)" and "length attempts < 2 ^ 32"
  shows "delays = take (length delays) (due_delays L 0 (loop_turns cancel run after_error attempts s))
    \<and> (\<not> over \<longrightarrow> delays = due_delays L 0 (loop_turns cancel run after_error attempts s))"
  using supervise_delays [where k = 0] assms by (simp add: waited_def backoff_after_def)


section \<open>Witnesses\<close>

definition sample_session :: "(nat, nat list) session_script" where
  "sample_session = \<lparr>sc_dial = True, sc_write_fails = None, sc_armed = True, sc_opened = 100,
     sc_events = [Message 110 7, PongFrame 115, Message 119 8, Elsewhere (\<lambda>xs. 0 # xs), Message 140 9]\<rparr>"

definition sample_handler :: "(nat, nat list, nat) handler" where
  "sample_handler m xs = (m # xs, [m], False)"

text \<open>With 20 nanoseconds of silence allowed the third message comes too late.\<close>

theorem silent_connection_ends_witness:
  "run_session (message_link 20) None sample_handler 3 sample_session [] = ([0, 8, 7], [7, 8], Ended 139 (Some ReadFails))
   \<and> (\<exists>k. ends_within (message_link 20) 20 100 (take k (sc_events sample_session)) (Ended 139 (Some ReadFails)))"
proof -
  have l: "link_within (message_link 20) 20" by (simp add: link_within_def message_link_def)
  have o: "open_session (message_link 20) 3 sample_session = None"
    by (simp add: open_session_def write_fails_def sample_session_def message_link_def)
  have r: "run_session (message_link 20) None sample_handler 3 sample_session [] = ([0, 8, 7], [7, 8], Ended 139 (Some ReadFails))"
    using o by (simp add: run_session_def) (simp add: sample_session_def message_link_def sample_handler_def read_failed_def done_at_def)
  have "sc_opened sample_session = 100" by (simp add: sample_session_def)
  with silent_connection_ends [OF l o r] r show ?thesis by auto
qed

end
