(* ===== verification/Adapter_Base.thy ===== *)
theory Adapter_Base
  imports Commands Ingress Connection
begin

text \<open>
  What the eight exchange adapters of internal/adapters have in common. REST answers and messages enter
  decoded: an operation takes the decoded message, the times that \<open>time.Now\<close> returns and the state the
  connection keeps, and returns the ticks it submits, the funding manager or volume engine it updates, and
  whether the connection ends with an error. In the theory of each adapter these operations become the
  handlers of its connections (Connection), which its loops open again and again.
  The two interfaces at the end state what the rest of the program relies on: the ticks of an adapter
  are well formed, and the three feeds of an exchange name an instrument alike.
\<close>

section \<open>Conversion helpers\<close>

text \<open>The checks every conversion makes on a pair of prices.\<close>

definition usable_quote :: "dec \<Rightarrow> dec \<Rightarrow> bool" where
  "usable_quote bid ask \<longleftrightarrow> bid \<noteq> 0 \<and> ask \<noteq> 0 \<and> \<not> bid > ask"

definition read_quote :: "dec_lib \<Rightarrow> string \<Rightarrow> string \<Rightarrow> (dec \<times> dec) option" where
  "read_quote D b a =
     (case lib_parse D b of
        None \<Rightarrow> None
      | Some bid \<Rightarrow> (case lib_parse D a of
          None \<Rightarrow> None | Some ask \<Rightarrow> if usable_quote bid ask then Some (bid, ask) else None))"

definition event_time_or :: "gtime \<Rightarrow> int \<Rightarrow> gtime" where
  "event_time_or now ms = (if ms > 0 then unix_milli ms else now)"

text \<open>\<open>EventTime\<close> and \<open>Timestamp\<close> are \<open>ts\<close>, \<open>ReceivedAt\<close> is a second reading of the clock.\<close>

definition tick_of ::
  "string \<Rightarrow> string \<Rightarrow> market_type \<Rightarrow> dec \<times> dec \<Rightarrow> dec \<Rightarrow> gtime \<Rightarrow> gtime \<Rightarrow> market_tick" where
  "tick_of ex symbol m quote volume ts received =
     \<lparr>mt_exchange = ex, mt_symbol = symbol, mt_market = m, mt_bid = fst quote, mt_ask = snd quote,
      mt_volume = volume, mt_event_time = ts, mt_received_at = received, mt_timestamp = ts\<rparr>"

definition candle_of ::
  "string \<Rightarrow> string \<Rightarrow> market_type \<Rightarrow> gtime \<Rightarrow> gtime \<Rightarrow> dec \<Rightarrow> gtime \<Rightarrow> bool \<Rightarrow> market_candle" where
  "candle_of ex symbol m start stop volume ts final =
     \<lparr>mc_exchange = ex, mc_symbol = symbol, mc_market = m, mc_open_time = start, mc_close_time = stop,
      mc_volume = volume, mc_event_time = ts, mc_closed = final\<rparr>"

text \<open>The last millisecond of a candle that starts at \<open>t\<close>.\<close>

definition minute_end :: "gtime \<Rightarrow> gtime" where
  "minute_end t = t + nano_minute - 10 ^ 6"

text \<open>A volume of a candle: a decimal that is not negative.\<close>

definition read_volume :: "dec_lib \<Rightarrow> string \<Rightarrow> dec option" where
  "read_volume D s = (case lib_parse D s of None \<Rightarrow> None | Some v \<Rightarrow> if v < 0 then None else Some v)"

text \<open>The value \<open>strconv.ParseInt\<close> returns when its error is ignored: 0 on a syntax error, the nearest bound on
  an overflow, which is noticed while the digits are read.\<close>

fun parse_uint_value :: "int \<Rightarrow> string \<Rightarrow> int option" where
  "parse_uint_value n [] = Some n"
| "parse_uint_value n (c # cs) =
     (if 0 \<le> digit_value c \<and> digit_value c \<le> 9
      then (let n' = 10 * n + digit_value c in if n' \<ge> 2 ^ 64 then Some (2 ^ 64 - 1) else parse_uint_value n' cs)
      else None)"

definition parse_int_value :: "string \<Rightarrow> int" where
  "parse_int_value s =
     (let (neg, t) = (case s of [] \<Rightarrow> (False, [])
                       | c # cs \<Rightarrow> if c = CHR ''-'' then (True, cs) else if c = CHR ''+'' then (False, cs) else (False, s))
      in if t = [] then 0
         else case parse_uint_value 0 t of
           None \<Rightarrow> 0
         | Some n \<Rightarrow> if \<not> neg \<and> n \<ge> 2 ^ 63 then 2 ^ 63 - 1 else if neg \<and> n > 2 ^ 63 then - (2 ^ 63)
                     else if neg then - n else n)"

text \<open>An update of the sink; the second component tells that it failed.\<close>

definition sink_funding ::
  "gtime \<Rightarrow> string \<Rightarrow> string \<Rightarrow> dec \<Rightarrow> gtime \<Rightarrow> gtime \<Rightarrow> funding_manager \<Rightarrow> funding_manager \<times> bool" where
  "sink_funding now ex symbol rate next event fm =
     (case update_funding now ex symbol rate next event fm of Inl _ \<Rightarrow> (fm, True) | Inr fm' \<Rightarrow> (fm', False))"

text \<open>A loop over the rows of a message that ends at the first failing update.\<close>

fun feed_rows ::
  "('r \<Rightarrow> funding_manager \<Rightarrow> funding_manager \<times> bool) \<Rightarrow> 'r list \<Rightarrow> funding_manager \<Rightarrow> funding_manager \<times> bool" where
  "feed_rows f [] fm = (fm, False)"
| "feed_rows f (r # rs) fm = (case f r fm of (fm', err) \<Rightarrow> if err then (fm', True) else feed_rows f rs fm')"

lemma read_quote_Some:
  "read_quote D b a = Some q \<Longrightarrow> fst q \<noteq> 0 \<and> snd q \<noteq> 0 \<and> fst q \<le> snd q"
  by (auto simp: read_quote_def usable_quote_def split: option.splits if_splits)

lemma tick_of_fields [simp]:
  "mt_exchange (tick_of ex sy m q v ts rc) = ex" "mt_symbol (tick_of ex sy m q v ts rc) = sy"
  "mt_market (tick_of ex sy m q v ts rc) = m" "mt_bid (tick_of ex sy m q v ts rc) = fst q"
  "mt_ask (tick_of ex sy m q v ts rc) = snd q" "mt_volume (tick_of ex sy m q v ts rc) = v"
  "mt_received_at (tick_of ex sy m q v ts rc) = rc" "mt_event_time (tick_of ex sy m q v ts rc) = ts"
  "mt_timestamp (tick_of ex sy m q v ts rc) = ts"
  by (simp_all add: tick_of_def)

lemma candle_of_fields [simp]:
  "mc_exchange (candle_of ex sy m st en v ts cl) = ex" "mc_symbol (candle_of ex sy m st en v ts cl) = sy"
  "mc_market (candle_of ex sy m st en v ts cl) = m" "mc_open_time (candle_of ex sy m st en v ts cl) = st"
  "mc_volume (candle_of ex sy m st en v ts cl) = v"
  by (simp_all add: candle_of_def)

text \<open>The invariants of the funding manager and of the volume engine.\<close>

lemma funding_ok_rows:
  assumes "\<And>r fm. funding_ok fm \<Longrightarrow> funding_ok (fst (f r fm))"
  shows "funding_ok fm \<Longrightarrow> funding_ok (fst (feed_rows f rows fm))"
proof (induction rows arbitrary: fm)
  case (Cons r rows)
  show ?case using Cons.IH [OF assms [OF Cons.prems]] assms [OF Cons.prems, of r] by (simp add: case_prod_beta)
qed simp

lemma funding_ok_sink: "funding_ok fm \<Longrightarrow> funding_ok (fst (sink_funding now ex symbol rate next event fm))"
  by (auto simp: sink_funding_def split: sum.split intro: funding_ok_update)

lemma volume_ok_candles: "volume_ok ve \<Longrightarrow> volume_ok (fold (update_candle clock) cs ve)"
  by (induction cs arbitrary: ve) (simp_all add: volume_ok_update)

text \<open>The last element of a list with a default.\<close>

lemma last_or: "(case xs of [] \<Rightarrow> a | vs \<Rightarrow> Some (last vs)) = (if xs = [] then a else Some (last xs))"
  by (cases xs) simp_all

lemma last_else: "(case xs of [] \<Rightarrow> a | vs \<Rightarrow> last vs) = (if xs = [] then a else last xs)"
  by (cases xs) simp_all

lemma map_filter_append: "List.map_filter f (xs @ ys) = List.map_filter f xs @ List.map_filter f ys"
  by (simp add: List.map_filter_def)

section \<open>Subscriptions\<close>

text \<open>The loops that send the subscriptions in slices of a fixed size.\<close>

function slices :: "nat \<Rightarrow> 'a list \<Rightarrow> 'a list list" where
  "slices n xs = (if xs = [] \<or> n = 0 then [] else take n xs # slices n (drop n xs))"
  by pat_completeness auto
termination by (relation "measure (length \<circ> snd)") auto

declare slices.simps [simp del]

text \<open>Greedy shards: the current shard takes the next element as long as the result still fits.\<close>

fun greedy_shards :: "('a list \<Rightarrow> bool) \<Rightarrow> 'a list \<Rightarrow> 'a list \<Rightarrow> 'a list list" where
  "greedy_shards fits cur [] = (if cur = [] then [] else [cur])"
| "greedy_shards fits cur (x # xs) =
     (if cur \<noteq> [] \<and> \<not> fits (cur @ [x]) then cur # greedy_shards fits [x] xs
      else greedy_shards fits (cur @ [x]) xs)"

lemma greedy_concat: "concat (greedy_shards fits cur xs) = cur @ xs"
  by (induction fits cur xs rule: greedy_shards.induct) auto

lemma greedy_parts:
  "s \<in> set (greedy_shards fits cur xs) \<Longrightarrow> cur = [] \<or> length cur = 1 \<or> fits cur
    \<Longrightarrow> s \<noteq> [] \<and> (length s = 1 \<or> fits s)"
proof (induction fits cur xs rule: greedy_shards.induct)
  case (2 fits cur x xs)
  then show ?case by (cases "cur = []") (auto split: if_splits)
qed (auto split: if_splits)

lemma slices_exact:
  "0 < n \<Longrightarrow> concat (slices n xs) = xs \<and> (\<forall>s\<in>set (slices n xs). s \<noteq> [] \<and> length s \<le> n)"
proof (induction n xs rule: slices.induct)
  case (1 n xs)
  show ?case
  proof (cases "xs = []")
    case False
    then have "slices n xs = take n xs # slices n (drop n xs)" using "1.prems" by (subst slices.simps) simp
    then show ?thesis using 1 False by auto
  qed (simp add: slices.simps)
qed

section \<open>Names of instruments\<close>

text \<open>\<open>strings.ReplaceAll(s, "-", "")\<close> and the replacers that drop several characters are \<open>remove_chars\<close>.\<close>

lemma has_suffix_iff: "has_suffix s p \<longleftrightarrow> (\<exists>a. s = a @ p)"
  unfolding has_suffix_def by (metis add_diff_cancel_right' append_eq_conv_conj append_take_drop_id le_add2 length_append)

definition trim_suffix :: "string \<Rightarrow> string \<Rightarrow> string" where
  "trim_suffix s p = (if has_suffix s p then take (length s - length p) s else s)"

lemma has_suffix_append [simp]: "has_suffix (a @ p) p"
  by (simp add: has_suffix_def)

lemma trim_suffix_append [simp]: "trim_suffix (a @ p) p = a"
  by (simp add: trim_suffix_def)

lemma remove_chars_append [simp]: "remove_chars cs (a @ b) = remove_chars cs a @ remove_chars cs b"
  by (simp add: remove_chars_def)

lemma to_upper_append [simp]: "to_upper (a @ b) = to_upper a @ to_upper b"
  by (simp add: to_upper_def)

lemma trim_left_append: "p \<noteq> [] \<Longrightarrow> \<not> is_space (hd p) \<Longrightarrow> \<exists>b. trim_left (a @ p) = b @ p"
proof (induction a)
  case Nil
  then show ?case by (cases p) (simp_all add: trim_left_def)
next
  case (Cons c a)
  then show ?case by (auto simp: trim_left_def)
qed

lemma trim_space_append:
  assumes "p \<noteq> []" and "\<not> is_space (hd p)" and "\<not> is_space (last p)"
  shows "\<exists>b. trim_space (a @ p) = b @ p"
proof -
  obtain b where b: "trim_left (a @ p) = b @ p" using trim_left_append [OF assms(1,2)] by blast
  have "trim_left (rev p @ rev b) = rev p @ rev b"
    using assms(1,3) by (cases "rev p") (auto simp: trim_left_def rev_eq_Cons_iff)
  then show ?thesis using b by (simp add: trim_space_def)
qed

lemma remove_chars_idem [simp]: "remove_chars cs (remove_chars cs s) = remove_chars cs s"
  by (simp add: remove_chars_def)

lemma remove_chars_subset: "set ds \<subseteq> set cs \<Longrightarrow> remove_chars cs (remove_chars ds s) = remove_chars cs s"
  by (auto simp: remove_chars_def intro!: filter_cong)

text \<open>The clean names of the exchanges: no blanks.\<close>

definition unspaced :: "string \<Rightarrow> bool" where
  "unspaced s \<longleftrightarrow> (\<forall>c\<in>set s. \<not> is_space c)"

lemma unspaced_trim: "unspaced s \<Longrightarrow> trim_space s = s"
  by (simp add: unspaced_def trim_space_fix trimmed_no_space)

lemma unspaced_remove: "unspaced s \<Longrightarrow> unspaced (remove_chars cs s)"
  by (simp add: unspaced_def remove_chars_def)

text \<open>A name without blanks in which only the given separators occur.\<close>

definition contract_name :: "string \<Rightarrow> string \<Rightarrow> bool" where
  "contract_name seps raw \<longleftrightarrow> unspaced raw \<and> (\<forall>c\<in>set raw. c \<in> set ''-_/'' \<longrightarrow> c \<in> set seps)"

lemma upper_not_sep: "upper_char c \<in> set ''-_/'' \<longleftrightarrow> c \<in> set ''-_/''"
proof -
  have "upper_char d = d" if "d \<in> set ''-_/''" for d using that by (auto simp: upper_char_def)
  moreover have "upper_char c = c \<or> (65 \<le> (of_char (upper_char c) :: nat) \<and> (of_char (upper_char c) :: nat) \<le> 90)"
    by (auto simp: upper_char_def Let_def)
  moreover have "(of_char d :: nat) < 65 \<or> 90 < (of_char d :: nat)" if "d \<in> set ''-_/''" for d using that by auto
  ultimately show ?thesis by (metis linorder_not_le)
qed

lemma remove_upper: "remove_chars ''-_/'' (to_upper s) = to_upper (remove_chars ''-_/'' s)"
  unfolding remove_chars_def to_upper_def filter_map comp_def upper_not_sep ..

lemma unspaced_upper: "unspaced s \<Longrightarrow> unspaced (to_upper s)"
  by (simp add: unspaced_def to_upper_def)

lemma normalize_plain: "unspaced s \<Longrightarrow> normalize_symbol s = to_upper (remove_chars ''-_/'' s)"
  by (simp add: normalize_symbol_def unspaced_trim remove_upper)

lemma funding_key_plain:
  "unspaced s \<Longrightarrow> normalize_funding_key ex s = (to_upper (trim_space ex), to_upper (remove_chars ''-_/'' s))"
  by (simp add: normalize_funding_key_def unspaced_trim)

lemma funding_key_normal:
  assumes "unspaced s"
  shows "normalize_funding_key ex (normalize_symbol s) = normalize_funding_key ex s"
proof -
  have "unspaced (normalize_symbol s)" using assms by (simp add: normalize_plain unspaced_upper unspaced_remove)
  then show ?thesis using assms
    by (simp add: funding_key_plain) (simp add: normalize_plain remove_upper)
qed

lemma remove_listed:
  assumes "contract_name seps raw" and "set seps \<subseteq> set ds" and "set ds \<subseteq> set ''-_/''"
  shows "remove_chars ds raw = remove_chars ''-_/'' raw"
  using assms unfolding contract_name_def remove_chars_def by (intro filter_cong) auto

text \<open>All spellings of a contract name have the same keys.\<close>

lemma feed_keys:
  assumes "contract_name seps raw" and "set seps \<subseteq> set ds" and "set ds \<subseteq> set ''-_/''"
  shows "normalize_funding_key ex (remove_chars ds raw) = (to_upper (trim_space ex), to_upper (remove_chars ''-_/'' raw))"
    and "normalize_symbol (remove_chars ds raw) = to_upper (remove_chars ''-_/'' raw)"
    and "normalize_funding_key ex (to_upper (remove_chars ''-_/'' raw)) = (to_upper (trim_space ex), to_upper (remove_chars ''-_/'' raw))"
    and "volume_key ex (remove_chars ds raw) m = volume_key ex (to_upper (remove_chars ''-_/'' raw)) m"
proof -
  note r = remove_listed [OF assms]
  have u: "unspaced (remove_chars ''-_/'' raw)" using assms(1) by (simp add: contract_name_def unspaced_remove)
  show "normalize_funding_key ex (remove_chars ds raw) = (to_upper (trim_space ex), to_upper (remove_chars ''-_/'' raw))"
    using u by (simp add: r funding_key_plain)
  show "normalize_symbol (remove_chars ds raw) = to_upper (remove_chars ''-_/'' raw)"
    using u by (simp add: r normalize_plain)
  show "normalize_funding_key ex (to_upper (remove_chars ''-_/'' raw)) = (to_upper (trim_space ex), to_upper (remove_chars ''-_/'' raw))"
    using unspaced_upper [OF u] by (simp add: funding_key_plain remove_upper)
  show "volume_key ex (remove_chars ds raw) m = volume_key ex (to_upper (remove_chars ''-_/'' raw)) m"
    by (simp add: r volume_key_def)
qed

lemma remove_chars_Nil: "remove_chars [] s = s"
  by (simp add: remove_chars_def)

lemmas plain_keys = feed_keys [where ds = "[]", unfolded remove_chars_Nil]

section \<open>Interface: ticks of an adapter\<close>

text \<open>A tick with the name of its exchange, one of the two markets, two prices that are not zero and not
  crossed, and the time of its reception.\<close>

definition proper_tick :: "string \<Rightarrow> gtime \<Rightarrow> market_tick \<Rightarrow> bool" where
  "proper_tick ex received t \<longleftrightarrow> mt_exchange t = ex \<and> (mt_market t = MarketTypeSpot \<or> mt_market t = MarketTypeFutures)
     \<and> mt_bid t \<noteq> 0 \<and> mt_ask t \<noteq> 0 \<and> mt_bid t \<le> mt_ask t \<and> mt_received_at t = received"

definition market_of :: "bool \<Rightarrow> market_type" where
  "market_of spot = (if spot then MarketTypeSpot else MarketTypeFutures)"

lemma proper_tick_of:
  "read_quote D b a = Some q \<Longrightarrow> proper_tick ex rc (tick_of ex sy (market_of spot) q v ts rc)"
  by (drule read_quote_Some) (simp add: proper_tick_def market_of_def)

definition tick_from :: "string \<Rightarrow> market_tick \<Rightarrow> bool" where
  "tick_from ex t \<longleftrightarrow> proper_tick ex (mt_received_at t) t"

lemma tick_from_proper: "proper_tick ex rc t \<Longrightarrow> tick_from ex t"
  by (simp add: tick_from_def proper_tick_def)

lemma tick_from_map_filter:
  "(\<And>x t. f x = Some t \<Longrightarrow> tick_from ex t) \<Longrightarrow> list_all (tick_from ex) (List.map_filter f xs)"
  by (auto simp: list_all_iff List.map_filter_def)

locale tick_source =
  fixes source :: "'p \<Rightarrow> market_tick option"
    and name :: string
    and received :: "'p \<Rightarrow> gtime"
  assumes name_plain: "trim_space name \<noteq> []"
    and source_proper: "source p = Some t \<Longrightarrow> proper_tick name (received p) t"
begin

text \<open>The aggregator refuses such a tick only for a negative price or a blank symbol.\<close>

lemma source_valid:
  assumes "source p = Some t" and "received p \<noteq> 0"
  shows "valid_tick t \<longleftrightarrow> 0 < mt_bid t \<and> trim_space (mt_symbol t) \<noteq> []"
  using source_proper [OF assms(1)] name_plain assms(2)
  by (auto simp: proper_tick_def valid_tick_def is_zero_time_def)

end

section \<open>Interface: names of the feeds of an exchange\<close>

text \<open>
  From the name an exchange gives to a futures contract the adapter derives the symbol of its ticks, of its
  funding rates and of its candles. The keys of the funding manager and of the volume engine must agree
  with the symbol the aggregator asks for, which is the normalised symbol of the tick.
\<close>

locale aligned_feeds =
  fixes name :: string
    and listed :: "string \<Rightarrow> bool"
    and tick_symbol funding_symbol candle_symbol :: "string \<Rightarrow> string"
  assumes funding_aligned: "listed raw \<Longrightarrow>
      normalize_funding_key name (funding_symbol raw) = normalize_funding_key name (normalize_symbol (tick_symbol raw))"
    and candle_aligned: "listed raw \<Longrightarrow>
      volume_key name (candle_symbol raw) MarketTypeFutures = volume_key name (normalize_symbol (tick_symbol raw)) MarketTypeFutures"
begin

text \<open>A funding update of a contract is what the evaluation of a tick of the contract finds.\<close>

lemma funding_found:
  assumes "listed raw" and "update_funding now name (funding_symbol raw) rate next event fm = Inr fm'"
    and "get_funding fm name (normalize_symbol (tick_symbol raw)) = None"
  shows "\<exists>r. get_funding fm' name (normalize_symbol (tick_symbol raw)) = Some r \<and> fr_rate r = rate \<and> fr_next r = next"
proof -
  note k = funding_aligned [OF assms(1)]
  have "map_of (fm_rates fm) (normalize_funding_key name (funding_symbol raw)) = None"
    using assms(3) by (simp add: get_funding_def k)
  with assms(2) show ?thesis
    by (auto simp: update_funding_def get_funding_def Let_def k map_of_mput split: if_splits)
qed

text \<open>A candle of a contract is stored under the key the estimate of its ticks reads.\<close>

lemma candle_found:
  assumes "listed raw" and "mc_exchange c = name" and "mc_symbol c = candle_symbol raw"
    and "mc_market c = MarketTypeFutures" and "vg_updates (update_candle now c v) = vg_updates v + 1"
    and "(vg_updates v + 1) mod 1000 \<noteq> 0"
  shows "map_of (vg_data (update_candle now c v)) (volume_key name (normalize_symbol (tick_symbol raw)) MarketTypeFutures) \<noteq> None"
  using assms(5,6) candle_aligned [OF assms(1)]
  by (auto simp: update_candle_def Let_def assms(2-4) map_of_mput split: if_splits)

end

end
