(* ===== verification/Binance.thy ===== *)
theory Binance
  imports Adapter_Base
begin

text \<open>
  internal/adapters/binance/binance.go: symbols with their cache on disk, 24-hour tickers of both markets,
  funding rates and candles of Binance with their connections. Instruments are called BTCUSDT on both markets.
\<close>

section \<open>Symbols\<close>

record binance_info =
  bi_symbol :: string
  bi_status :: string
  bi_quote :: string

text \<open>\<open>None\<close> is an error, as after a failed request.\<close>

definition binance_symbols :: "binance_info list option \<Rightarrow> string list option" where
  "binance_symbols response =
     (case response of
        None \<Rightarrow> None
      | Some rows \<Rightarrow>
          (let out = map bi_symbol (filter (\<lambda>v. bi_status v = ''TRADING'' \<and> bi_quote v = ''USDT'') rows)
           in if length out = 0 then None else Some out))"

definition binance_spot_symbols_cached ::
  "json_lib \<Rightarrow> save_end \<Rightarrow> binance_info list option \<Rightarrow> cache_files \<Rightarrow> cache_files \<times> string list option" where
  "binance_spot_symbols_cached J how response files =
     (case binance_symbols response of
        None \<Rightarrow> (files, case load_symbols J ''binance-spot'' files of Inl _ \<Rightarrow> None | Inr cached \<Rightarrow> Some cached)
      | Some symbols \<Rightarrow> (fst (save_symbols J how ''binance-spot'' symbols files), Some symbols))"

text \<open>The names of the streams of one connection.\<close>

definition binance_spot_streams :: "string list \<Rightarrow> string list list" where
  "binance_spot_streams symbols = map (map (\<lambda>s. to_lower s @ ''@ticker'')) (slices 150 symbols)"

definition binance_candle_streams :: "string list \<Rightarrow> string list list" where
  "binance_candle_streams symbols = map (map (\<lambda>s. to_lower s @ ''@kline_1m'')) (slices 500 symbols)"

section \<open>Tickers\<close>

record binance_ticker =
  bt_symbol :: string
  bt_event_time :: int
  bt_bid :: string
  bt_ask :: string
  bt_qvolume :: string

definition binance_to_market_tick ::
  "dec_lib \<Rightarrow> binance_ticker \<Rightarrow> market_type \<Rightarrow> gtime \<Rightarrow> gtime \<Rightarrow> market_tick option" where
  "binance_to_market_tick D p m ts received =
     (if \<not> has_suffix (to_upper (bt_symbol p)) ''USDT'' then None
      else case read_quote D (bt_bid p) (bt_ask p) of
        None \<Rightarrow> None
      | Some q \<Rightarrow> (case lib_parse D (bt_qvolume p) of
          None \<Rightarrow> None | Some v \<Rightarrow> Some (tick_of ''BINANCE'' (bt_symbol p) m q v ts received)))"

definition binance_spot_frame ::
  "dec_lib \<Rightarrow> gtime \<Rightarrow> gtime \<Rightarrow> binance_ticker \<Rightarrow> market_tick option" where
  "binance_spot_frame D now received p =
     (if bt_symbol p = [] then None
      else binance_to_market_tick D p MarketTypeSpot (event_time_or now (bt_event_time p)) received)"

definition binance_ticker_array ::
  "dec_lib \<Rightarrow> gtime \<Rightarrow> (binance_ticker \<Rightarrow> gtime) \<Rightarrow> market_type \<Rightarrow> binance_ticker list \<Rightarrow> market_tick list" where
  "binance_ticker_array D now received m payloads =
     List.map_filter (\<lambda>p. binance_to_market_tick D p m (event_time_or now (bt_event_time p)) (received p)) payloads"

section \<open>Funding rates\<close>

record binance_funding =
  bf_symbol :: string
  bf_event_time :: int
  bf_rate :: string
  bf_next :: int

text \<open>A failed update is logged; the loop goes on.\<close>

definition binance_funding_row :: "dec_lib \<Rightarrow> gtime \<Rightarrow> binance_funding \<Rightarrow> funding_manager \<Rightarrow> funding_manager" where
  "binance_funding_row D clock p fm =
     (if \<not> has_suffix (to_upper (bf_symbol p)) ''USDT'' then fm
      else case lib_parse D (bf_rate p) of
        None \<Rightarrow> fm
      | Some rate \<Rightarrow> fst (sink_funding clock ''BINANCE'' (bf_symbol p) rate (unix_milli (bf_next p))
          (event_time_or 0 (bf_event_time p)) fm))"

definition binance_funding_frame :: "dec_lib \<Rightarrow> gtime \<Rightarrow> binance_funding list \<Rightarrow> funding_manager \<Rightarrow> funding_manager" where
  "binance_funding_frame D clock payloads fm = fold (binance_funding_row D clock) payloads fm"

text \<open>Every connection attempt of the funding stream starts with the stream marked as unhealthy.\<close>

definition binance_funding_connect :: "funding_manager \<Rightarrow> funding_manager" where
  "binance_funding_connect fm = set_stream_health ''BINANCE'' False fm"

section \<open>Candles\<close>

record binance_kline =
  bk_event_time :: int
  bk_symbol :: string
  bk_start :: int
  bk_end :: int
  bk_quote :: string
  bk_closed :: bool

definition binance_candle_frame ::
  "dec_lib \<Rightarrow> gtime \<Rightarrow> gtime \<Rightarrow> market_type \<Rightarrow> binance_kline \<Rightarrow> volume_engine \<Rightarrow> volume_engine" where
  "binance_candle_frame D clock now m k ve =
     (if bk_symbol k = [] then ve
      else case read_volume D (bk_quote k) of
        None \<Rightarrow> ve
      | Some q \<Rightarrow> update_candle clock (candle_of ''BINANCE'' (bk_symbol k) m (unix_milli (bk_start k))
          (unix_milli (bk_end k)) q (if bk_event_time k = 0 then now else unix_milli (bk_event_time k)) (bk_closed k)) ve)"

section \<open>Connections\<close>

text \<open>The addresses may be replaced by environment variables. \<open>BINANCE_SPOT_ONLY\<close> switches the futures streams off.\<close>

definition env_str :: "string \<Rightarrow> string \<Rightarrow> string" where
  "env_str env dflt = (let v = trim_space env in if v \<noteq> [] then v else dflt)"

definition binance_link :: link_policy where
  "binance_link = pong_link (3 * nano_minute + 10 * nano_second)"

text \<open>The connections of the spot market install no pong handler.\<close>

definition binance_spot_link :: link_policy where
  "binance_spot_link = message_link (3 * nano_minute + 10 * nano_second)"

text \<open>A text of the futures connection is \<open>None\<close> when it is no array of tickers. The streams are named in the
  address, so nothing is subscribed to.\<close>

definition binance_ticker_message ::
  "dec_lib \<Rightarrow> market_type
    \<Rightarrow> ((gtime \<times> (binance_ticker \<Rightarrow> gtime) \<times> binance_ticker list) option, unit, market_tick) handler" where
  "binance_ticker_message D m text_frame u =
     (case text_frame of
        None \<Rightarrow> (u, [], False)
      | Some (now, received, payloads) \<Rightarrow> (u, binance_ticker_array D now received m payloads, False))"

definition binance_connect_and_read ::
  "dec_lib \<Rightarrow> market_type \<Rightarrow> gtime option \<Rightarrow> gtime
    \<Rightarrow> ((gtime \<times> (binance_ticker \<Rightarrow> gtime) \<times> binance_ticker list) option, unit) session_script
    \<Rightarrow> unit \<Rightarrow> unit \<times> market_tick list \<times> outcome" where
  "binance_connect_and_read D m cancel started sc u = run_session binance_link cancel (binance_ticker_message D m) 0 sc u"

definition binance_listen where
  "binance_listen D m cancel attempts =
     supervise ticker_loop cancel (binance_connect_and_read D m cancel) id reconnect_backoff attempts ()"

definition binance_connect_futures where
  "binance_connect_futures D spot_only cancel attempts =
     (if spot_only then ((), [], [], cancel \<noteq> None) else binance_listen D MarketTypeFutures cancel attempts)"

text \<open>The ping frames of \<open>keepAlive\<close> carry no text.\<close>

definition binance_keep_alive :: "ping_tick list \<Rightarrow> string list \<times> bool" where
  "binance_keep_alive ticks = keep_alive [] ticks"

definition binance_spot_message ::
  "dec_lib \<Rightarrow> ((gtime \<times> gtime \<times> binance_ticker) option, unit, market_tick) handler" where
  "binance_spot_message D text_frame u =
     (case text_frame of
        None \<Rightarrow> (u, [], False)
      | Some (now, received, p) \<Rightarrow>
          (u, case binance_spot_frame D now received p of None \<Rightarrow> [] | Some t \<Rightarrow> [t], False))"

definition binance_read_spot_shard ::
  "dec_lib \<Rightarrow> gtime option \<Rightarrow> gtime
    \<Rightarrow> ((gtime \<times> gtime \<times> binance_ticker) option, unit) session_script \<Rightarrow> unit \<Rightarrow> unit \<times> market_tick list \<times> outcome" where
  "binance_read_spot_shard D cancel started sc u = run_session binance_spot_link cancel (binance_spot_message D) 0 sc u"

definition binance_run_spot_shard where
  "binance_run_spot_shard D cancel attempts =
     supervise shard_loop cancel (binance_read_spot_shard D cancel) id reconnect_backoff attempts ()"

text \<open>The loop that starts the shards keeps the list of symbols on disk. Its state are the cache files, its
  output the streams of the shards it starts.\<close>

definition binance_spot_turn ::
  "json_lib \<Rightarrow> gtime \<Rightarrow> gtime \<times> save_end \<times> binance_info list option \<times> gtime option
    \<Rightarrow> cache_files \<Rightarrow> cache_files \<times> string list list \<times> outcome" where
  "binance_spot_turn J started w files =
     (let (t, how, response, returned) = w in
      case binance_spot_symbols_cached J how response files of
        (files1, None) \<Rightarrow> (files1, [], Ended t (Some SymbolsFail))
      | (files1, Some symbols) \<Rightarrow>
          (case run_shards t returned (binance_spot_streams symbols) () of (_, shards, r) \<Rightarrow> (files1, shards, r)))"

definition binance_run_spot_feed where
  "binance_run_spot_feed J cancel attempts files =
     supervise shards_loop cancel (binance_spot_turn J) id reconnect_backoff attempts files"

text \<open>The funding stream is marked as unhealthy at every attempt. A text is the clock of the manager and the array.\<close>

definition binance_funding_message ::
  "dec_lib \<Rightarrow> ((gtime \<times> binance_funding list) option, funding_manager, market_tick) handler" where
  "binance_funding_message D text_frame fm =
     (case text_frame of
        None \<Rightarrow> (fm, [], False)
      | Some (clock, payloads) \<Rightarrow> (binance_funding_frame D clock payloads fm, [], False))"

definition binance_connect_and_read_funding ::
  "dec_lib \<Rightarrow> gtime option \<Rightarrow> gtime
    \<Rightarrow> ((gtime \<times> binance_funding list) option, funding_manager) session_script
    \<Rightarrow> funding_manager \<Rightarrow> funding_manager \<times> market_tick list \<times> outcome" where
  "binance_connect_and_read_funding D cancel started sc fm =
     run_session binance_link cancel (binance_funding_message D) 0 sc (binance_funding_connect fm)"

definition binance_listen_funding where
  "binance_listen_funding D cancel attempts fm =
     supervise ticker_loop_no_reset cancel (binance_connect_and_read_funding D cancel) id reconnect_backoff attempts
       (set_stream_health ''BINANCE'' False fm)"

definition binance_connect_funding where
  "binance_connect_funding D spot_only cancel attempts fm =
     (if spot_only then (fm, [], [], cancel \<noteq> None) else binance_listen_funding D cancel attempts fm)"

definition binance_candle_message ::
  "dec_lib \<Rightarrow> market_type \<Rightarrow> ((gtime \<times> gtime \<times> binance_kline) option, volume_engine, market_tick) handler" where
  "binance_candle_message D m text_frame ve =
     (case text_frame of
        None \<Rightarrow> (ve, [], False)
      | Some (clock, now, k) \<Rightarrow> (binance_candle_frame D clock now m k ve, [], False))"

definition read_binance_candle_shard ::
  "dec_lib \<Rightarrow> market_type \<Rightarrow> gtime option \<Rightarrow> gtime
    \<Rightarrow> ((gtime \<times> gtime \<times> binance_kline) option, volume_engine) session_script
    \<Rightarrow> volume_engine \<Rightarrow> volume_engine \<times> market_tick list \<times> outcome" where
  "read_binance_candle_shard D m cancel started sc ve = run_session candle_link cancel (binance_candle_message D m) 0 sc ve"

definition run_binance_candle_shard where
  "run_binance_candle_shard D m cancel attempts ve =
     supervise candle_loop cancel (read_binance_candle_shard D m cancel) id reconnect_backoff attempts ve"

definition binance_run_candle_feed where
  "binance_run_candle_feed cancel attempts =
     supervise candle_loop cancel
       (\<lambda>started (t, response, returned) u.
          case binance_symbols response of
            None \<Rightarrow> (u, [], Unlisted t)
          | Some symbols \<Rightarrow> run_shards t returned (binance_candle_streams symbols) u)
       id reconnect_backoff attempts ()"

section \<open>The two interfaces\<close>

lemma binance_tick_shape:
  assumes "binance_to_market_tick D p m ts received = Some t"
  shows "\<exists>q v. read_quote D (bt_bid p) (bt_ask p) = Some q \<and> t = tick_of ''BINANCE'' (bt_symbol p) m q v ts received"
  using assms by (auto simp: binance_to_market_tick_def split: option.splits if_splits)

interpretation binance_ticks: tick_source
  "\<lambda>(D, p, spot, ts, received). binance_to_market_tick D p (market_of spot) ts received"
  "''BINANCE''" "\<lambda>(D, p, spot, ts, received). received"
  by unfold_locales (auto simp: string_eval dest!: binance_tick_shape intro: proper_tick_of)

interpretation binance_feeds: aligned_feeds "''BINANCE''" "contract_name []" id id id
  by unfold_locales (simp_all add: plain_keys [of "[]"])

section \<open>Symbols survive an outage\<close>

text \<open>
  Once the list has been fetched and written, a later start whose request fails works with that list.
\<close>

lemma binance_cache_fallback:
  assumes "json_ok J" and "binance_symbols response = Some symbols"
    and "binance_spot_symbols_cached J Saved response files = (files', out)"
  shows "out = Some symbols \<and> binance_spot_symbols_cached J how None files' = (files', Some symbols)"
proof -
  have s: "symbols \<noteq> []" using assms(2) by (auto simp: binance_symbols_def Let_def split: option.splits if_splits)
  have f: "files' = save_step J (Saved, ''binance-spot'', symbols) files" "out = Some symbols"
    using assms(2,3) by (auto simp: binance_spot_symbols_cached_def save_step_def)
  have "load_symbols J ''binance-spot'' files' = Inr symbols"
    unfolding f(1) save_step_lookup [OF assms(1)] using s by (simp add: saves_def)
  then show ?thesis using f(2) by (simp add: binance_spot_symbols_cached_def binance_symbols_def)
qed

section \<open>Whole runs\<close>

lemma binance_tick_from:
  assumes "binance_to_market_tick D p (market_of spot) ts received = Some t"
  shows "tick_from ''BINANCE'' t"
  using binance_ticks.source_proper [of "(D, p, spot, ts, received)" t] assms by (auto intro: tick_from_proper)

interpretation binance_ticker_feed: feed "binance_ticker_message D (market_of spot)" "\<lambda>u. True" "tick_from ''BINANCE''" for D spot
proof
  fix msg and s s' :: unit and out err
  assume run: "binance_ticker_message D (market_of spot) msg s = (s', out, err)"
  have "list_all (tick_from ''BINANCE'') (binance_ticker_array D now received (market_of spot) payloads)" for now received payloads
    by (auto simp: binance_ticker_array_def intro!: tick_from_map_filter binance_tick_from)
  then show "True \<and> list_all (tick_from ''BINANCE'') out" using run
    by (auto simp: binance_ticker_message_def split: option.splits)
qed

interpretation binance_ticker_runs: feed_run "binance_connect_and_read D (market_of spot) cancel" "\<lambda>w. True" "\<lambda>u. True"
  "tick_from ''BINANCE''" for D spot cancel
  unfolding binance_connect_and_read_def
  by unfold_locales (rule binance_ticker_feed.session_keeps [OF legal_trivial TrueI])

lemma binance_spot_frame_tick:
  "binance_spot_frame D now received p = Some t \<Longrightarrow> tick_from ''BINANCE'' t"
  using binance_tick_from [of D p True] by (auto simp: binance_spot_frame_def market_of_def split: if_splits)

interpretation binance_spot_feed: feed "binance_spot_message D" "\<lambda>u. True" "tick_from ''BINANCE''" for D
  by unfold_locales (auto simp: binance_spot_message_def split: option.splits dest: binance_spot_frame_tick)

interpretation binance_spot_runs: feed_run "binance_read_spot_shard D cancel" "\<lambda>w. True" "\<lambda>u. True" "tick_from ''BINANCE''"
  for D cancel
  unfolding binance_read_spot_shard_def
  by unfold_locales (rule binance_spot_feed.session_keeps [OF legal_trivial TrueI])

lemma binance_run_ticks:
  "list_all (tick_from ''BINANCE'') (fst (snd (binance_listen D (market_of spot) cancel attempts)))"
  "list_all (tick_from ''BINANCE'') (fst (snd (binance_run_spot_shard D cancel attempts2)))"
  unfolding binance_listen_def binance_run_spot_shard_def
  by (rule binance_ticker_runs.supervise_result binance_spot_runs.supervise_result; simp add: list_all_iff)+

lemma binance_funding_frame_ok: "funding_ok fm \<Longrightarrow> funding_ok (binance_funding_frame D clock payloads fm)"
proof -
  have "funding_ok fm \<Longrightarrow> funding_ok (binance_funding_row D clock p fm)" for p fm
    by (simp add: binance_funding_row_def funding_ok_sink split: option.split)
  then show "funding_ok fm \<Longrightarrow> funding_ok (binance_funding_frame D clock payloads fm)"
    unfolding binance_funding_frame_def by (induction payloads arbitrary: fm) simp_all
qed

interpretation binance_funding_feed: feed "binance_funding_message D" funding_ok "\<lambda>t. True" for D
  by unfold_locales (auto simp: binance_funding_message_def list_all_iff binance_funding_frame_ok split: option.splits)

interpretation binance_funding_runs: feed_run "binance_connect_and_read_funding D cancel"
  "\<lambda>sc. legal_events funding_ok (sc_events sc)" funding_ok "\<lambda>t. True" for D cancel
  unfolding binance_connect_and_read_funding_def
  by unfold_locales (erule binance_funding_feed.session_keeps, simp_all add: binance_funding_connect_def funding_ok_health)

lemma binance_funding_runs_ok:
  assumes "list_all (\<lambda>a. legal_events funding_ok (sc_events (at_world a))) attempts" and "funding_ok fm"
  shows "funding_ok (fst (binance_connect_funding D spot_only cancel attempts fm))"
  using assms binance_funding_runs.supervise_result(1) [of attempts "set_stream_health ''BINANCE'' False fm" id]
  by (simp add: binance_connect_funding_def binance_listen_funding_def funding_ok_health)

interpretation binance_candle_feed: feed "binance_candle_message D m" volume_ok "\<lambda>t. True" for D m
  by unfold_locales
    (auto simp: binance_candle_message_def binance_candle_frame_def list_all_iff volume_ok_update split: option.splits)

interpretation binance_candle_runs: feed_run "read_binance_candle_shard D m cancel"
  "\<lambda>sc. legal_events volume_ok (sc_events sc)" volume_ok "\<lambda>t. True" for D m cancel
  unfolding read_binance_candle_shard_def by unfold_locales (erule binance_candle_feed.session_keeps)

lemma binance_candle_runs_ok:
  assumes "list_all (\<lambda>a. legal_events volume_ok (sc_events (at_world a))) attempts" and "volume_ok ve"
  shows "volume_ok (fst (run_binance_candle_shard D m cancel attempts ve))"
  unfolding run_binance_candle_shard_def using assms by (intro binance_candle_runs.supervise_result) auto

end
