(* ===== verification/Bybit.thy ===== *)
theory Bybit
  imports Adapter_Base
begin

text \<open>
  internal/adapters/bybit/bybit.go: subscriptions in shards, the list of symbols with its three
  fallbacks, tickers that arrive as deltas and carry the funding rate, candles and groups of connections of Bybit. Instruments
  are called BTCUSDT on both markets. The built-in lists are an argument here and a table in Bybit_Seed.
\<close>

section \<open>Subscriptions\<close>

text \<open>\<open>env\<close> is the value of BYBIT_SYMBOL_LIMIT.\<close>

definition bybit_symbol_limit :: "string \<Rightarrow> int" where
  "bybit_symbol_limit env =
     (let v = trim_space env in
      if v \<noteq> [] then (case atoi v of Some n \<Rightarrow> if n > 0 then n else 100 | None \<Rightarrow> 100) else 100)"

text \<open>The loop of \<open>shardArgsMax\<close> with the current shard and its size.\<close>

fun shard_loop :: "int \<Rightarrow> int \<Rightarrow> string list \<Rightarrow> int \<Rightarrow> string list \<Rightarrow> string list list" where
  "shard_loop max_chars max_args cur sz [] = (if length cur > 0 then [cur] else [])"
| "shard_loop max_chars max_args cur sz (a # as) =
     (let extra = int (length a) + 3 in
      if length cur > 0 \<and> (sz + extra > max_chars \<or> (max_args > 0 \<and> int (length cur) \<ge> max_args))
      then cur # shard_loop max_chars max_args [a] extra as
      else shard_loop max_chars max_args (cur @ [a]) (sz + extra) as)"

definition shard_args_max :: "string list \<Rightarrow> int \<Rightarrow> int \<Rightarrow> string list list" where
  "shard_args_max args max_chars max_args =
     shard_loop (if max_chars \<le> 0 then 16000 else max_chars) max_args [] 0 args"

text \<open>The subscriptions of a shard go out in requests of ten.\<close>

definition bybit_requests :: "string list \<Rightarrow> string list list" where
  "bybit_requests args = slices 10 args"

definition bybit_ticker_shards :: "string list \<Rightarrow> string list list" where
  "bybit_ticker_shards symbols = shard_args_max (map (\<lambda>s. ''tickers.'' @ s) symbols) 16000 10"

definition bybit_candle_shards :: "string list \<Rightarrow> string list list" where
  "bybit_candle_shards symbols = shard_args_max (map (\<lambda>s. ''kline.1.'' @ s) symbols) 16000 10"

section \<open>Symbols\<close>

record bybit_page =
  bp_code :: int
  bp_items :: "(string \<times> string) list"
  bp_next :: string

definition bybit_listed :: "bybit_page \<Rightarrow> string list" where
  "bybit_listed p = map fst (filter (\<lambda>(symbol, status). status = ''Trading'' \<and> has_suffix symbol ''USDT'') (bp_items p))"

text \<open>
  \<open>fetchSymbols\<close> on the two lists the adapter asks for: \<open>rest i cursor\<close> is the decoded answer to the i-th
  request, \<open>None\<close> an error. The loop ends only when the server sends an empty or an unchanged cursor, so
  the number of requests is bounded by fuel: \<open>None\<close> stands for a loop still running, \<open>Some None\<close> for an error.
\<close>

fun bybit_pages ::
  "nat \<Rightarrow> (nat \<Rightarrow> string \<Rightarrow> bybit_page option) \<Rightarrow> nat \<Rightarrow> string \<Rightarrow> string list \<Rightarrow> string list option option" where
  "bybit_pages 0 rest i cursor symbols = None"
| "bybit_pages (Suc n) rest i cursor symbols =
     (case rest i cursor of
        None \<Rightarrow> Some None
      | Some p \<Rightarrow>
          if bp_code p \<noteq> 0 then Some None
          else if bp_next p = [] \<or> bp_next p = cursor then Some (Some (symbols @ bybit_listed p))
          else bybit_pages n rest (Suc i) (bp_next p) (symbols @ bybit_listed p))"

definition cap_bybit_symbols :: "string \<Rightarrow> string list \<Rightarrow> string list" where
  "cap_bybit_symbols env symbols =
     (if int (length symbols) \<le> bybit_symbol_limit env then symbols
      else take (nat (bybit_symbol_limit env)) symbols)"

text \<open>\<open>main\<close> and \<open>alt\<close> are what \<open>fetchSymbols\<close> returns for the two hosts.\<close>

definition bybit_symbols_with_fallback ::
  "json_lib \<Rightarrow> save_end \<Rightarrow> string \<Rightarrow> string list option \<Rightarrow> string list option \<Rightarrow> string \<Rightarrow> string list
   \<Rightarrow> cache_files \<Rightarrow> cache_files \<times> string list" where
  "bybit_symbols_with_fallback J how env main alt cache_name seed files =
     (case (case main of Some s \<Rightarrow> Some s | None \<Rightarrow> alt) of
        Some symbols \<Rightarrow> (fst (save_symbols J how cache_name symbols files), cap_bybit_symbols env symbols)
      | None \<Rightarrow> (files, case load_symbols J cache_name files of
            Inr cached \<Rightarrow> cap_bybit_symbols env cached
          | Inl _ \<Rightarrow> cap_bybit_symbols env seed))"

section \<open>Tickers\<close>

record bybit_ticker =
  by_symbol :: string
  by_bid :: string
  by_ask :: string
  by_turnover :: string
  by_rate :: string
  by_next :: string

definition bybit_or :: "string \<Rightarrow> string \<Rightarrow> string" where
  "bybit_or v old = (if v \<noteq> [] then v else old)"

definition bybit_merge :: "bybit_ticker \<Rightarrow> (string, bybit_ticker) gomap \<Rightarrow> bybit_ticker" where
  "bybit_merge delta cache =
     (let cur = (case map_of cache (by_symbol delta) of
                   None \<Rightarrow> \<lparr>by_symbol = by_symbol delta, by_bid = [], by_ask = [], by_turnover = [], by_rate = [], by_next = []\<rparr>
                 | Some c \<Rightarrow> c)
      in cur\<lparr>by_bid := bybit_or (by_bid delta) (by_bid cur), by_ask := bybit_or (by_ask delta) (by_ask cur),
             by_turnover := bybit_or (by_turnover delta) (by_turnover cur), by_rate := bybit_or (by_rate delta) (by_rate cur),
             by_next := bybit_or (by_next delta) (by_next cur)\<rparr>)"

definition bybit_to_market_tick ::
  "dec_lib \<Rightarrow> bybit_ticker \<Rightarrow> market_type \<Rightarrow> gtime \<Rightarrow> gtime \<Rightarrow> market_tick option" where
  "bybit_to_market_tick D p m ts received =
     (case read_quote D (by_bid p) (by_ask p) of
        None \<Rightarrow> None
      | Some q \<Rightarrow> Some (tick_of ''BYBIT'' (by_symbol p) m q
          (case lib_parse D (by_turnover p) of None \<Rightarrow> 0 | Some v \<Rightarrow> v) ts received))"

definition bybit_next_funding :: "string \<Rightarrow> gtime" where
  "bybit_next_funding s = (case atoi s of Some ms \<Rightarrow> if ms > 0 then unix_milli ms else 0 | None \<Rightarrow> 0)"

text \<open>On the futures market every frame repeats the rate the cache knows. The sink is there once
  \<open>ConnectFunding\<close> has stored it, which the futures connection waits for.\<close>

definition bybit_funding ::
  "dec_lib \<Rightarrow> gtime \<Rightarrow> market_type \<Rightarrow> bool \<Rightarrow> bybit_ticker \<Rightarrow> gtime \<Rightarrow> funding_manager \<Rightarrow> funding_manager \<times> bool" where
  "bybit_funding D clock m has_sink p ts fm =
     (if m = MarketTypeFutures \<and> by_rate p \<noteq> [] then
        (case lib_parse D (by_rate p) of
           None \<Rightarrow> (fm, False)
         | Some rate \<Rightarrow>
             if has_sink then sink_funding clock ''BYBIT'' (by_symbol p) rate (bybit_next_funding (by_next p)) ts fm
             else (fm, False))
      else (fm, False))"

text \<open>A frame is a topic, a time and the decoded delta, \<open>None\<close> when it cannot be decoded. The result is the
  cache, the funding manager, the tick and whether the connection ends.\<close>

definition bybit_ticker_frame ::
  "dec_lib \<Rightarrow> gtime \<Rightarrow> gtime \<Rightarrow> gtime \<Rightarrow> market_type \<Rightarrow> bool \<Rightarrow> string \<times> int \<times> bybit_ticker option
   \<Rightarrow> (string, bybit_ticker) gomap \<Rightarrow> funding_manager
   \<Rightarrow> (string, bybit_ticker) gomap \<times> funding_manager \<times> market_tick option \<times> bool" where
  "bybit_ticker_frame D clock now received m has_sink frame cache fm =
     (case frame of (topic, t, data) \<Rightarrow>
        if topic = [] then (cache, fm, None, False)
        else case data of
          None \<Rightarrow> (cache, fm, None, False)
        | Some delta \<Rightarrow>
            if by_symbol delta = [] then (cache, fm, None, False)
            else (let cur = bybit_merge delta cache; cache' = mput (by_symbol delta) cur cache;
                      ts = event_time_or now t
                  in case bybit_funding D clock m has_sink cur ts fm of (fm', err) \<Rightarrow>
                       if err then (cache', fm', None, True)
                       else (cache', fm', bybit_to_market_tick D cur m ts received, False)))"

definition bybit_futures_down :: "market_type \<Rightarrow> bool \<Rightarrow> funding_manager \<Rightarrow> funding_manager" where
  "bybit_futures_down m has_sink fm =
     (if m = MarketTypeFutures \<and> has_sink then set_stream_health ''BYBIT'' False fm else fm)"

section \<open>Candles\<close>

record bybit_candle =
  bc_start :: int
  bc_end :: int
  bc_turnover :: string
  bc_confirm :: bool
  bc_ts :: int

record bybit_candles =
  bs_op :: string
  bs_success :: bool
  bs_code :: int
  bs_topic :: string
  bs_ts :: int
  bs_rows :: "bybit_candle list"

definition bybit_candle_of :: "dec_lib \<Rightarrow> market_type \<Rightarrow> string \<Rightarrow> int \<Rightarrow> bybit_candle \<Rightarrow> market_candle option" where
  "bybit_candle_of D m symbol ts d =
     (case read_volume D (bc_turnover d) of
        None \<Rightarrow> None
      | Some q \<Rightarrow> Some (candle_of ''BYBIT'' symbol m (unix_milli (bc_start d)) (unix_milli (bc_end d)) q
          (if bc_ts d = 0 then unix_milli ts else unix_milli (bc_ts d)) (bc_confirm d)))"

definition bybit_candle_frame ::
  "dec_lib \<Rightarrow> gtime \<Rightarrow> market_type \<Rightarrow> bybit_candles \<Rightarrow> volume_engine \<Rightarrow> volume_engine \<times> bool" where
  "bybit_candle_frame D clock m r ve =
     (if bs_op r = ''subscribe'' then (ve, False)
      else if bs_code r \<noteq> 0 then (ve, True)
      else if bs_rows r = [] \<or> bs_topic r = [] then (ve, False)
      else case split_on CHR ''.'' (bs_topic r) of
        [_, _, symbol] \<Rightarrow>
          (fold (update_candle clock) (List.map_filter (bybit_candle_of D m symbol (bs_ts r)) (bs_rows r)) ve, False)
      | _ \<Rightarrow> (ve, False))"

section \<open>Connections\<close>

text \<open>
  The requests of a shard go out with a pause between them, which the end of the context cuts short.
  \<open>world i\<close> tells of the i-th request whether the pause before it ends first, and whether the write succeeds.
\<close>

fun bybit_write_batches :: "(nat \<Rightarrow> bool \<times> bool) \<Rightarrow> nat \<Rightarrow> string list list \<Rightarrow> string list list \<times> bool" where
  "bybit_write_batches world i [] = ([], False)"
| "bybit_write_batches world i (b # bs) =
     (if i > 0 \<and> \<not> fst (world i) then ([], True)
      else if \<not> snd (world i) then ([], True)
      else (case bybit_write_batches world (Suc i) bs of (sent, err) \<Rightarrow> (b # sent, err)))"

text \<open>For a session the position of the first request that is not written is all that matters.\<close>

lemma bybit_write_batches_prefix:
  "\<exists>k. fst (bybit_write_batches world i bs) = take k bs \<and> (snd (bybit_write_batches world i bs) \<longleftrightarrow> k < length bs) \<and> k \<le> length bs"
proof (induction bs arbitrary: i)
  case (Cons b bs)
  obtain k where "fst (bybit_write_batches world (Suc i) bs) = take k bs"
    "snd (bybit_write_batches world (Suc i) bs) \<longleftrightarrow> k < length bs" "k \<le> length bs" using Cons by blast
  then show ?case
    by (cases "(0 < i \<and> \<not> fst (world i)) \<or> \<not> snd (world i)")
      (auto simp: case_prod_beta intro: exI [of _ 0] exI [of _ "Suc k"])
qed simp

definition bybit_link :: link_policy where
  "bybit_link = message_link (20 * nano_second + 10 * nano_second)"

text \<open>The adapter works on the files of the symbol cache and the funding manager; the cache of the deltas belongs to
  a connection. A text is \<open>None\<close> when it cannot be decoded; otherwise the clocks and the frame.\<close>

type_synonym bybit_state = "cache_files \<times> funding_manager"
type_synonym bybit_text = "(gtime \<times> gtime \<times> gtime \<times> string \<times> int \<times> bybit_ticker option) option"

definition bybit_ticker_message ::
  "dec_lib \<Rightarrow> market_type \<Rightarrow> bool \<Rightarrow> (bybit_text, (string, bybit_ticker) gomap \<times> bybit_state, market_tick) handler" where
  "bybit_ticker_message D m has_sink text_frame s =
     (case text_frame of
        None \<Rightarrow> (s, [], False)
      | Some (clock, now, received, frame) \<Rightarrow>
          (case bybit_ticker_frame D clock now received m has_sink frame (fst s) (snd (snd s)) of (cache, fm, tick, err) \<Rightarrow>
             ((cache, fst (snd s), fm), case tick of None \<Rightarrow> [] | Some t \<Rightarrow> [t], err)))"

text \<open>What the adapter gets when it asks for symbols: how the cache file is written and the answers of the hosts.\<close>

type_synonym bybit_answer = "save_end \<times> string list option \<times> string list option"

definition bybit_symbols_for ::
  "json_lib \<Rightarrow> string \<Rightarrow> (market_type \<Rightarrow> string list) \<Rightarrow> market_type \<Rightarrow> bybit_answer \<Rightarrow> cache_files \<Rightarrow> cache_files \<times> string list" where
  "bybit_symbols_for J env seeds m answer files =
     (case answer of (how, main, alt) \<Rightarrow>
        bybit_symbols_with_fallback J how env main alt
          (if m = MarketTypeSpot then ''bybit-spot'' else ''bybit-linear'') (seeds m) files)"

text \<open>The shards of a ticker connection run as a group. An error of the futures group marks the funding
  stream as unhealthy.\<close>

definition bybit_connect_and_read ::
  "dec_lib \<Rightarrow> json_lib \<Rightarrow> string \<Rightarrow> (market_type \<Rightarrow> string list) \<Rightarrow> market_type \<Rightarrow> bool \<Rightarrow> gtime option \<Rightarrow> gtime
    \<Rightarrow> gtime \<times> bybit_answer \<times> (nat \<times> (bybit_text, (string, bybit_ticker) gomap \<times> bybit_state) shard_event) list
    \<Rightarrow> bybit_state \<Rightarrow> bybit_state \<times> market_tick list \<times> outcome" where
  "bybit_connect_and_read D J env seeds m has_sink cancel started w s =
     (let (t, answer, schedule) = w;
          (files, symbols) = bybit_symbols_for J env seeds m answer (fst s);
          shards = bybit_ticker_shards symbols
      in if length shards = 0 then ((files, snd s), [], Ended t (Some NoSymbols))
         else case run_group bybit_link cancel (bybit_ticker_message D m has_sink) []
                (map (\<lambda>sh. length (bybit_requests sh)) shards) t schedule (files, snd s) of
           (s1, out, Ended t1 (Some e)) \<Rightarrow> ((fst s1, bybit_futures_down m has_sink (snd s1)), out, Ended t1 (Some e))
         | other \<Rightarrow> other)"

definition bybit_listen where
  "bybit_listen D J env seeds m has_sink cancel attempts s =
     supervise ticker_loop cancel (bybit_connect_and_read D J env seeds m has_sink cancel) id reconnect_backoff attempts s"

definition bybit_connect_futures where
  "bybit_connect_futures D J env seeds has_sink cancel attempts s =
     (if has_sink then bybit_listen D J env seeds MarketTypeFutures has_sink cancel attempts s
      else (s, [], [], cancel \<noteq> None))"

definition bybit_connect_spot where
  "bybit_connect_spot D J env seeds has_sink cancel attempts s =
     bybit_listen D J env seeds MarketTypeSpot has_sink cancel attempts s"

text \<open>The funding stream stores the sink and waits; its result tells that it has returned, \<open>None\<close> is the error for
  a missing sink.\<close>

definition bybit_connect_funding :: "bool \<Rightarrow> gtime option \<Rightarrow> bool option" where
  "bybit_connect_funding has_sink cancel = (if \<not> has_sink then None else Some (cancel \<noteq> None))"

definition bybit_keep_alive :: "ping_tick list \<Rightarrow> string list \<times> bool" where
  "bybit_keep_alive ticks = keep_alive ''ping'' ticks"

text \<open>The candle connections work on the cache files and the volume engine.\<close>

definition bybit_candle_message ::
  "dec_lib \<Rightarrow> market_type \<Rightarrow> ((gtime \<times> bybit_candles) option, unit \<times> cache_files \<times> volume_engine, market_tick) handler" where
  "bybit_candle_message D m text_frame s =
     (case text_frame of
        None \<Rightarrow> (s, [], False)
      | Some (clock, r) \<Rightarrow>
          (case bybit_candle_frame D clock m r (snd (snd s)) of (ve, err) \<Rightarrow> ((fst s, fst (snd s), ve), [], err)))"

definition bybit_candle_connection :: link_policy where
  "bybit_candle_connection = start_heartbeat (60 * nano_second) (Some (60 * nano_second))"

definition bybit_read_candle_shard where
  "bybit_read_candle_shard D m cancel symbols t schedule s =
     run_group bybit_candle_connection cancel (bybit_candle_message D m) ()
       (map (\<lambda>sh. length (bybit_requests sh)) (bybit_candle_shards symbols)) t schedule s"

definition bybit_candle_turn ::
  "dec_lib \<Rightarrow> json_lib \<Rightarrow> string \<Rightarrow> (market_type \<Rightarrow> string list) \<Rightarrow> market_type \<Rightarrow> gtime option \<Rightarrow> gtime
    \<Rightarrow> gtime \<times> bybit_answer \<times> (nat \<times> ((gtime \<times> bybit_candles) option, unit \<times> cache_files \<times> volume_engine) shard_event) list
    \<Rightarrow> cache_files \<times> volume_engine \<Rightarrow> (cache_files \<times> volume_engine) \<times> market_tick list \<times> outcome" where
  "bybit_candle_turn D J env seeds m cancel started w s =
     (let (t, answer, schedule) = w;
          (files, symbols) = bybit_symbols_for J env seeds m answer (fst s)
      in bybit_read_candle_shard D m cancel symbols t schedule (files, snd s))"

definition bybit_run_candle_feed where
  "bybit_run_candle_feed D J env seeds m cancel attempts s =
     supervise candle_loop cancel (bybit_candle_turn D J env seeds m cancel) id reconnect_backoff attempts s"

section \<open>The two interfaces\<close>

lemma bybit_tick_shape:
  assumes "bybit_to_market_tick D p m ts received = Some t"
  shows "\<exists>q v. read_quote D (by_bid p) (by_ask p) = Some q \<and> t = tick_of ''BYBIT'' (by_symbol p) m q v ts received"
  using assms by (auto simp: bybit_to_market_tick_def split: option.splits)

interpretation bybit_ticks: tick_source
  "\<lambda>(D, p, spot, ts, received). bybit_to_market_tick D p (market_of spot) ts received"
  "''BYBIT''" "\<lambda>(D, p, spot, ts, received). received"
  by unfold_locales (auto simp: string_eval dest!: bybit_tick_shape intro: proper_tick_of)

text \<open>The symbol of a candle is the third part of its topic.\<close>

definition bybit_candle_symbol :: "string \<Rightarrow> string" where
  "bybit_candle_symbol raw = (case split_on CHR ''.'' (''kline.1.'' @ raw) of [_, _, symbol] \<Rightarrow> symbol | _ \<Rightarrow> [])"

lemma split_on_plain: "c \<notin> set s \<Longrightarrow> split_on c s = [s]"
  by (induction s) auto

lemma bybit_candle_symbol_eq: "CHR ''.'' \<notin> set raw \<Longrightarrow> bybit_candle_symbol raw = raw"
  by (simp add: bybit_candle_symbol_def split_on_plain)

interpretation bybit_feeds: aligned_feeds "''BYBIT''" "\<lambda>raw. contract_name [] raw \<and> CHR ''.'' \<notin> set raw" id id bybit_candle_symbol
  by unfold_locales (simp_all add: plain_keys [of "[]"] bybit_candle_symbol_eq)

section \<open>Shards\<close>

definition bybit_fits :: "int \<Rightarrow> int \<Rightarrow> string list \<Rightarrow> bool" where
  "bybit_fits max_chars max_args ys \<longleftrightarrow>
     (\<Sum>a\<leftarrow>ys. int (length a) + 3) \<le> max_chars \<and> (max_args > 0 \<longrightarrow> int (length ys) \<le> max_args)"

lemma shard_loop_greedy:
  "sz = (\<Sum>a\<leftarrow>cur. int (length a) + 3) \<Longrightarrow>
    shard_loop max_chars max_args cur sz args = greedy_shards (bybit_fits max_chars max_args) cur args"
proof (induction args arbitrary: cur sz)
  case (Cons a args)
  have "(sz + (int (length a) + 3) > max_chars \<or> (max_args > 0 \<and> int (length cur) \<ge> max_args))
      \<longleftrightarrow> \<not> bybit_fits max_chars max_args (cur @ [a])"
    using Cons.prems by (auto simp: bybit_fits_def)
  moreover have "shard_loop max_chars max_args [a] (int (length a) + 3) args = greedy_shards (bybit_fits max_chars max_args) [a] args"
    by (rule Cons.IH) simp
  moreover have "shard_loop max_chars max_args (cur @ [a]) (sz + (int (length a) + 3)) args
      = greedy_shards (bybit_fits max_chars max_args) (cur @ [a]) args"
    by (rule Cons.IH) (simp add: Cons.prems)
  ultimately show ?case by (cases "cur = []") (simp_all add: Let_def)
qed simp

lemma shard_args_max_spec:
  assumes "s \<in> set (shard_args_max args max_chars max_args)" and "0 < max_chars" and "0 < max_args"
  shows "s \<noteq> [] \<and> int (length s) \<le> max_args \<and> (length s = 1 \<or> (\<Sum>a\<leftarrow>s. int (length a) + 3) \<le> max_chars)"
    and "concat (shard_args_max args max_chars max_args) = args"
  using assms greedy_parts [of s "bybit_fits max_chars max_args" "[]" args] greedy_concat [of "bybit_fits max_chars max_args" "[]" args]
  by (auto simp: shard_args_max_def shard_loop_greedy bybit_fits_def)

section \<open>Pages\<close>

text \<open>A server that runs through \<open>k\<close> further pages and then ends is followed to its end.\<close>

fun bybit_serves :: "(nat \<Rightarrow> string \<Rightarrow> bybit_page option) \<Rightarrow> nat \<Rightarrow> string \<Rightarrow> bybit_page list \<Rightarrow> bool" where
  "bybit_serves rest i cursor [] = False"
| "bybit_serves rest i cursor (p # ps) \<longleftrightarrow> rest i cursor = Some p \<and> bp_code p = 0
     \<and> (if ps = [] then bp_next p = [] \<or> bp_next p = cursor
        else bp_next p \<noteq> [] \<and> bp_next p \<noteq> cursor \<and> bybit_serves rest (Suc i) (bp_next p) ps)"

lemma bybit_pages_all:
  "bybit_serves rest i cursor ps \<Longrightarrow> length ps \<le> n \<Longrightarrow>
    bybit_pages n rest i cursor symbols = Some (Some (symbols @ concat (map bybit_listed ps)))"
proof (induction ps arbitrary: n i cursor symbols)
  case (Cons p ps)
  then obtain k where "n = Suc k" by (cases n) auto
  with Cons show ?case by (auto split: if_splits)
qed simp

text \<open>Two cursors in turn keep the loop running for ever.\<close>

lemma bybit_pages_cycle:
  assumes "a \<noteq> b" and "a \<noteq> []" and "b \<noteq> []"
    and "\<And>i. rest i a = Some \<lparr>bp_code = 0, bp_items = xs, bp_next = b\<rparr>"
    and "\<And>i. rest i b = Some \<lparr>bp_code = 0, bp_items = ys, bp_next = a\<rparr>"
  shows "c = a \<or> c = b \<Longrightarrow> bybit_pages n rest i c symbols = None"
  using assms by (induction n arbitrary: i c symbols) auto

text \<open>The fallbacks give a list of subscriptions unless a host answered with an empty list.\<close>

lemma bybit_fallback_nonempty:
  assumes "main \<noteq> Some []" and "main = None \<Longrightarrow> alt \<noteq> Some []" and "seed \<noteq> []"
  shows "snd (bybit_symbols_with_fallback J how env main alt cache_name seed files) \<noteq> []"
proof -
  have c: "0 < bybit_symbol_limit env"
    by (simp add: bybit_symbol_limit_def Let_def split: option.split)
  have "cap_bybit_symbols env xs \<noteq> []" if "xs \<noteq> []" for xs
    using that c by (simp add: cap_bybit_symbols_def)
  then show ?thesis using assms
    by (auto simp: bybit_symbols_with_fallback_def load_symbols_def split: option.splits if_splits)
qed

section \<open>Deltas\<close>

text \<open>The value of a field that a list of deltas of a symbol leaves.\<close>

definition latest_field :: "string \<Rightarrow> (bybit_ticker \<Rightarrow> string) \<Rightarrow> bybit_ticker list \<Rightarrow> string" where
  "latest_field symbol sel ds =
     (case filter (\<lambda>v. v \<noteq> []) (map sel (filter (\<lambda>d. by_symbol d = symbol) ds)) of [] \<Rightarrow> [] | vs \<Rightarrow> last vs)"

definition bybit_latest :: "string \<Rightarrow> bybit_ticker list \<Rightarrow> bybit_ticker" where
  "bybit_latest symbol ds = \<lparr>by_symbol = symbol, by_bid = latest_field symbol by_bid ds, by_ask = latest_field symbol by_ask ds,
     by_turnover = latest_field symbol by_turnover ds, by_rate = latest_field symbol by_rate ds,
     by_next = latest_field symbol by_next ds\<rparr>"

lemma latest_field_snoc:
  "latest_field symbol sel (ds @ [d]) =
    (if by_symbol d = symbol then bybit_or (sel d) (latest_field symbol sel ds) else latest_field symbol sel ds)"
  by (simp add: latest_field_def bybit_or_def last_else)

definition bybit_step :: "bybit_ticker \<Rightarrow> (string, bybit_ticker) gomap \<Rightarrow> (string, bybit_ticker) gomap" where
  "bybit_step d cache = mput (by_symbol d) (bybit_merge d cache) cache"

lemma latest_field_none: "symbol \<notin> by_symbol ` set ds \<Longrightarrow> latest_field symbol sel ds = []"
proof -
  assume "symbol \<notin> by_symbol ` set ds"
  then have "filter (\<lambda>d. by_symbol d = symbol) ds = []" by (auto simp: filter_empty_conv)
  then show ?thesis by (simp add: latest_field_def)
qed

lemma bybit_merge_latest:
  assumes "map_of cache (by_symbol d) = (if by_symbol d \<in> by_symbol ` set ds then Some (bybit_latest (by_symbol d) ds) else None)"
  shows "bybit_merge d cache = bybit_latest (by_symbol d) (ds @ [d])"
proof (cases "by_symbol d \<in> by_symbol ` set ds")
  case True
  then show ?thesis using assms by (simp add: bybit_merge_def bybit_latest_def latest_field_snoc)
next
  case False
  then show ?thesis using assms by (simp add: bybit_merge_def bybit_latest_def latest_field_snoc latest_field_none)
qed

lemma bybit_latest_other: "by_symbol d \<noteq> symbol \<Longrightarrow> bybit_latest symbol (ds @ [d]) = bybit_latest symbol ds"
  by (simp add: bybit_latest_def latest_field_snoc)

lemma map_of_bybit_step:
  "map_of (bybit_step d cache) symbol = (if symbol = by_symbol d then Some (bybit_merge d cache) else map_of cache symbol)"
  by (simp add: bybit_step_def map_of_mput)

lemma bybit_cache:
  "map_of (fold bybit_step ds []) symbol =
    (if symbol \<in> by_symbol ` set ds then Some (bybit_latest symbol ds) else None)"
proof (induction ds arbitrary: symbol rule: rev_induct)
  case (snoc d ds)
  have "bybit_merge d (fold bybit_step ds []) = bybit_latest (by_symbol d) (ds @ [d])"
    by (rule bybit_merge_latest) (rule snoc)
  then show ?case using snoc
    by (cases "by_symbol d = symbol") (simp_all add: map_of_bybit_step bybit_latest_other)
qed simp

text \<open>The deltas among the frames of a connection, and the connection over its frames with their times.\<close>

definition bybit_delta :: "string \<times> int \<times> bybit_ticker option \<Rightarrow> bybit_ticker option" where
  "bybit_delta = (\<lambda>(topic, t, data). if topic = [] then None
     else case data of None \<Rightarrow> None | Some d \<Rightarrow> if by_symbol d = [] then None else Some d)"

definition bybit_run ::
  "dec_lib \<Rightarrow> market_type \<Rightarrow> bool \<Rightarrow> (gtime \<times> gtime \<times> gtime) \<times> string \<times> int \<times> bybit_ticker option
   \<Rightarrow> (string, bybit_ticker) gomap \<times> funding_manager \<Rightarrow> (string, bybit_ticker) gomap \<times> funding_manager" where
  "bybit_run D m has_sink = (\<lambda>((clock, now, received), frame) (cache, fm).
     case bybit_ticker_frame D clock now received m has_sink frame cache fm of (cache', fm', _, _) \<Rightarrow> (cache', fm'))"

lemma bybit_frame_cache:
  "fst (bybit_ticker_frame D clock now received m has_sink frame cache fm) =
    (case bybit_delta frame of None \<Rightarrow> cache | Some d \<Rightarrow> bybit_step d cache)"
  by (auto simp: bybit_ticker_frame_def bybit_delta_def bybit_step_def Let_def split: prod.split option.split)

lemma bybit_run_cache:
  "fst (fold (bybit_run D m has_sink) xs (cache, fm)) = fold bybit_step (List.map_filter (bybit_delta \<circ> snd) xs) cache"
proof (induction xs arbitrary: cache fm)
  case (Cons x xs)
  obtain clock now received frame where x: "x = ((clock, now, received), frame)" by (cases x) auto
  obtain c' f' out err where f: "bybit_ticker_frame D clock now received m has_sink frame cache fm = (c', f', out, err)"
    by (metis prod_cases4)
  have "bybit_run D m has_sink x (cache, fm) = (c', f')" by (simp add: x bybit_run_def f)
  then show ?case using Cons.IH [of c' f'] bybit_frame_cache [of D clock now received m has_sink frame cache fm]
    by (simp add: f x List.map_filter_simps split: option.split)
qed (simp add: List.map_filter_simps)

section \<open>Whole runs\<close>

lemma bybit_frame_ok:
  assumes "funding_ok fm" and "bybit_ticker_frame D clock now received m has_sink frame cache fm = (cache', fm', tick, err)"
  shows "funding_ok fm'"
proof -
  have "funding_ok fm1" if "bybit_funding D clock m has_sink p t fm = (fm1, e)" for p t fm1 e
  proof -
    have "funding_ok (fst (bybit_funding D clock m has_sink p t fm))"
      using assms(1) by (auto simp: bybit_funding_def funding_ok_sink split: option.split)
    then show ?thesis using that by simp
  qed
  then show ?thesis using assms
    by (auto simp: bybit_ticker_frame_def Let_def split: if_splits option.splits prod.splits)
qed

lemma bybit_frame_tick:
  assumes "bybit_ticker_frame D clock now received (market_of spot) has_sink frame cache fm = (cache', fm', Some t, err)"
  shows "tick_from ''BYBIT'' t"
proof -
  have "tick_from ''BYBIT'' t" if "bybit_to_market_tick D p (market_of spot) u received = Some t" for p u
    using bybit_ticks.source_proper [of "(D, p, spot, u, received)" t] that by (auto intro: tick_from_proper)
  then show ?thesis using assms
    by (auto simp: bybit_ticker_frame_def Let_def split: if_splits option.splits prod.splits)
qed

text \<open>The frame behind a text of the ticker connection.\<close>

lemma bybit_message_frame:
  assumes "bybit_ticker_message D m has_sink msg s = (s', out, err)"
  shows "(s' = s \<and> out = []) \<or> (\<exists>clock now received frame cache fm tick.
    bybit_ticker_frame D clock now received m has_sink frame (fst s) (snd (snd s)) = (cache, fm, tick, err)
    \<and> snd (snd s') = fm \<and> out = (case tick of None \<Rightarrow> [] | Some t \<Rightarrow> [t]))"
proof (cases msg)
  case (Some x)
  obtain clock now received frame where x: "x = (clock, now, received, frame)" by (metis prod_cases4)
  obtain cache fm tick e where f: "bybit_ticker_frame D clock now received m has_sink frame (fst s) (snd (snd s)) =
      (cache, fm, tick, e)" by (metis prod_cases4)
  have "err = e" "s' = (cache, fst (snd s), fm)" "out = (case tick of None \<Rightarrow> [] | Some t \<Rightarrow> [t])"
    using assms by (simp_all add: bybit_ticker_message_def Some x f)
  with f show ?thesis
    by (intro disjI2 exI [of _ clock] exI [of _ now] exI [of _ received] exI [of _ frame] exI [of _ cache] exI [of _ fm]
        exI [of _ tick]) simp
qed (use assms in \<open>simp add: bybit_ticker_message_def\<close>)

interpretation bybit_ticker_feed: local_feed "bybit_ticker_message D m has_sink" "\<lambda>s. funding_ok (snd s)" "\<lambda>t. True"
  for D m has_sink
proof
  fix msg and s s' :: "(string, bybit_ticker) gomap \<times> bybit_state" and out :: "market_tick list" and err
  assume "case s of (c, s) \<Rightarrow> funding_ok (snd s)" and "bybit_ticker_message D m has_sink msg s = (s', out, err)"
  then have s: "funding_ok (snd (snd s))" and run: "bybit_ticker_message D m has_sink msg s = (s', out, err)"
    by (simp_all add: case_prod_beta)
  from bybit_message_frame [OF run] have "funding_ok (snd (snd s'))" using bybit_frame_ok [OF s] s by blast
  then show "(case s' of (c, s) \<Rightarrow> funding_ok (snd s)) \<and> list_all (\<lambda>t. True) out" by (simp add: case_prod_beta list_all_iff)
qed

interpretation bybit_tick_feed: local_feed "bybit_ticker_message D (market_of spot) has_sink" "\<lambda>s. True" "tick_from ''BYBIT''"
  for D spot has_sink
  by unfold_locales (auto dest!: bybit_message_frame dest: bybit_frame_tick split: option.splits)

text \<open>An attempt is an empty list of symbols, or a run of the group after which the funding stream may be marked.\<close>

lemma bybit_connect_group:
  assumes "bybit_connect_and_read D J env seeds m has_sink cancel started (t, answer, schedule) s = (s', out, r)"
  shows "(snd s' = snd s \<and> out = []) \<or> (\<exists>writes files s1 r1. run_group bybit_link cancel (bybit_ticker_message D m has_sink) [] writes t
      schedule (files, snd s) = (s1, out, r1) \<and> (snd s' = snd s1 \<or> snd s' = bybit_futures_down m has_sink (snd s1)))"
proof -
  obtain files symbols where y: "bybit_symbols_for J env seeds m answer (fst s) = (files, symbols)" by fastforce
  obtain s1 out1 r1 where g: "run_group bybit_link cancel (bybit_ticker_message D m has_sink) []
    (map (\<lambda>sh. length (bybit_requests sh)) (bybit_ticker_shards symbols)) t schedule (files, snd s) = (s1, out1, r1)"
    by (metis prod_cases3)
  have "(snd s' = snd s \<and> out = []) \<or> (out = out1 \<and> (snd s' = snd s1 \<or> snd s' = bybit_futures_down m has_sink (snd s1)))"
    using assms by (auto simp: bybit_connect_and_read_def Let_def y g split: if_splits outcome.splits option.splits)
  with g show ?thesis by blast
qed

interpretation bybit_ticker_runs: feed_run "bybit_connect_and_read D J env seeds m has_sink cancel"
  "\<lambda>(t, answer, schedule). list_all bybit_ticker_feed.shard_legal schedule" "\<lambda>s. funding_ok (snd s)" "\<lambda>t. True"
  for D J env seeds m has_sink cancel
proof
  fix w and s s' :: bybit_state and out r started
  assume l: "case w of (t, answer, schedule) \<Rightarrow> list_all bybit_ticker_feed.shard_legal schedule" and s: "funding_ok (snd s)"
    and run: "bybit_connect_and_read D J env seeds m has_sink cancel started w s = (s', out, r)"
  obtain t answer schedule where w: "w = (t, answer, schedule)" by (metis prod_cases3)
  have f: "funding_ok fm \<Longrightarrow> funding_ok (bybit_futures_down m has_sink fm)" for fm
    by (simp add: bybit_futures_down_def funding_ok_health)
  have k: "funding_ok (snd s1)" if "run_group bybit_link cancel (bybit_ticker_message D m has_sink) [] writes t schedule (files, snd s)
      = (s1, out, r1)" for writes files s1 r1
    using bybit_ticker_feed.group_keeps [OF _ _ that] l s by (simp add: w)
  show "funding_ok (snd s') \<and> list_all (\<lambda>t. True) out"
    using bybit_connect_group [OF run [unfolded w]] s f k by (auto simp: list_all_iff)
qed

lemma bybit_listen_ok:
  assumes "list_all (\<lambda>a. list_all bybit_ticker_feed.shard_legal (snd (snd (at_world a)))) attempts" and "funding_ok (snd s)"
  shows "funding_ok (snd (fst (bybit_listen D J env seeds m has_sink cancel attempts s)))"
  unfolding bybit_listen_def using assms
  by (intro bybit_ticker_runs.supervise_result) (auto simp: list_all_iff case_prod_beta)

interpretation bybit_tick_runs: feed_run "bybit_connect_and_read D J env seeds (market_of spot) has_sink cancel"
  "\<lambda>w. True" "\<lambda>s. True" "tick_from ''BYBIT''" for D J env seeds spot has_sink cancel
proof
  fix w and s s' :: bybit_state and out r started
  assume run: "bybit_connect_and_read D J env seeds (market_of spot) has_sink cancel started w s = (s', out, r)"
  obtain t answer schedule where w: "w = (t, answer, schedule)" by (metis prod_cases3)
  have "list_all bybit_tick_feed.shard_legal schedule"
    by (simp add: bybit_tick_feed.shard_legal_def list_all_iff)
  then show "True \<and> list_all (tick_from ''BYBIT'') out"
    using bybit_connect_group [OF run [unfolded w]] by (auto dest: bybit_tick_feed.group_keeps [OF _ TrueI])
qed

lemma bybit_listen_ticks:
  "list_all (tick_from ''BYBIT'') (fst (snd (bybit_listen D J env seeds (market_of spot) has_sink cancel attempts s)))"
  unfolding bybit_listen_def by (rule bybit_tick_runs.supervise_result) (simp_all add: list_all_iff)

interpretation bybit_candle_feed: local_feed "bybit_candle_message D m" "\<lambda>s. volume_ok (snd s)" "\<lambda>t. True" for D m
  by unfold_locales
    (auto simp: bybit_candle_message_def bybit_candle_frame_def list_all_iff volume_ok_candles
      split: option.splits if_splits prod.splits list.splits)

interpretation bybit_candle_runs: feed_run "bybit_candle_turn D J env seeds m cancel"
  "\<lambda>(t, answer, schedule). list_all bybit_candle_feed.shard_legal schedule" "\<lambda>s. volume_ok (snd s)" "\<lambda>t. True"
  for D J env seeds m cancel
proof
  fix w and s s' :: "cache_files \<times> volume_engine" and out r started
  assume l: "case w of (t, answer, schedule) \<Rightarrow> list_all bybit_candle_feed.shard_legal schedule" and s: "volume_ok (snd s)"
    and run: "bybit_candle_turn D J env seeds m cancel started w s = (s', out, r)"
  obtain t answer schedule where w: "w = (t, answer, schedule)" by (metis prod_cases3)
  obtain files symbols where y: "bybit_symbols_for J env seeds m answer (fst s) = (files, symbols)" by fastforce
  have "volume_ok (snd (files, snd s))" using s by simp
  from bybit_candle_feed.group_keeps [OF _ this] show "volume_ok (snd s') \<and> list_all (\<lambda>t. True) out"
    using l run by (simp add: bybit_candle_turn_def bybit_read_candle_shard_def w y)
qed

lemma bybit_candle_runs_ok:
  assumes "list_all (\<lambda>a. list_all bybit_candle_feed.shard_legal (snd (snd (at_world a)))) attempts" and "volume_ok (snd s)"
  shows "volume_ok (snd (fst (bybit_run_candle_feed D J env seeds m cancel attempts s)))"
  unfolding bybit_run_candle_feed_def using assms
  by (intro bybit_candle_runs.supervise_result) (auto simp: list_all_iff case_prod_beta)

section \<open>A failing shard\<close>

text \<open>The shards of the futures connection after a schedule.\<close>

definition bybit_futures_group where
  "bybit_futures_group D symbols cancel t schedule s =
     fold (group_step bybit_link (bybit_ticker_message D MarketTypeFutures True) []
         (map (\<lambda>sh. length (bybit_requests sh)) (bybit_ticker_shards symbols))) schedule
       (start_group cancel t (length (bybit_ticker_shards symbols)) s)"

text \<open>
  C33. One failing shard takes the futures connection down: when a shard fails while none has failed before, the context
  of the group is cancelled with it, so that each other shard has its connection closed or its dial refused
  from then on; once this has reached every shard, whatever they have met before and in whatever order, the
  attempt has ended with the error of the failing shard, and the funding stream of Bybit is marked as unhealthy.
\<close>

theorem bybit_shard_failure:
  assumes "bybit_symbols_for J env seeds MarketTypeFutures answer (fst s) = (files, symbols)"
    and "gr_error (bybit_futures_group D symbols cancel t before (files, snd s)) = None"
    and "gr_error (bybit_futures_group D symbols cancel t (before @ [x]) (files, snd s)) = Some e"
    and "\<forall>i<length (bybit_ticker_shards symbols).
       \<exists>u\<ge>gr_time (bybit_futures_group D symbols cancel t (before @ [x]) (files, snd s)). (i, Shut u) \<in> set after"
  shows "\<exists>s' out t1. bybit_connect_and_read D J env seeds MarketTypeFutures True cancel started (t, answer, before @ x # after) s
      = (s', out, Ended t1 (Some e)) \<and> \<not> is_healthy (snd s') ''BYBIT''"
proof -
  let ?writes = "map (\<lambda>sh. length (bybit_requests sh)) (bybit_ticker_shards symbols)"
  let ?step = "group_step bybit_link (bybit_ticker_message D MarketTypeFutures True) [] ?writes"
  let ?g0 = "start_group cancel t (length ?writes) (files, snd s)"
  note g = assms(2-4) [unfolded bybit_futures_group_def]
  have "\<forall>i<length ?writes. \<exists>u\<ge>gr_time (fold ?step (before @ [x]) ?g0). (i, Shut u) \<in> set after" using g(3) by simp
  moreover have e: "gr_error (fold ?step before ?g0) = None" "gr_error (fold ?step (before @ [x]) ?g0) = Some e"
    using g(1,2) by simp_all
  ultimately have "\<exists>s1 out t1. run_group bybit_link cancel (bybit_ticker_message D MarketTypeFutures True) [] ?writes t
      (before @ x # after) (files, snd s) = (s1, out, Ended t1 (Some e))"
    using failed_group_ends [OF e(1) refl e(2)] by simp
  then obtain s1 out t1 where r: "run_group bybit_link cancel (bybit_ticker_message D MarketTypeFutures True) [] ?writes t
      (before @ x # after) (files, snd s) = (s1, out, Ended t1 (Some e))" by (elim exE)
  have "bybit_ticker_shards symbols \<noteq> []"
  proof
    assume n: "bybit_ticker_shards symbols = []"
    have "?step y ?g0 = ?g0" for y by (simp add: n start_group_def group_step_def)
    then have "fold ?step ys ?g0 = ?g0" for ys by (induction ys) (simp_all del: fold_append)
    then have "gr_error (fold ?step (before @ [x]) ?g0) = None" by (simp only:) (simp add: start_group_def)
    with e(2) show False by (simp del: fold_append)
  qed
  moreover have "\<not> is_healthy (bybit_futures_down MarketTypeFutures True fm) ''BYBIT''" for fm
    by (simp add: bybit_futures_down_def is_healthy_set string_eval)
  ultimately show ?thesis by (simp add: bybit_connect_and_read_def assms(1) r)
qed

section \<open>Property\<close>

text \<open>
  C36. Deltas are put together without loss: after any frames of a connection the tick made from the next
  delta of a symbol is the tick of a ticker whose every field is the last non-empty value received for
  that symbol, however the frames of the symbols are interleaved.
\<close>

theorem bybit_ticks_latest:
  assumes "fold (bybit_run D m has_sink) xs ([], fm0) = (cache, fm)" and "bybit_delta (topic, t, Some d) = Some d"
    and "bybit_ticker_frame D clock now received m has_sink (topic, t, Some d) cache fm = (cache', fm', out, False)"
  shows "out = bybit_to_market_tick D (bybit_latest (by_symbol d) (List.map_filter (bybit_delta \<circ> snd) xs @ [d])) m
    (event_time_or now t) received"
proof -
  have "cache = fold bybit_step (List.map_filter (bybit_delta \<circ> snd) xs) []"
    using bybit_run_cache [of D m has_sink xs "[]" fm0] assms(1) by simp
  then have "bybit_merge d cache = bybit_latest (by_symbol d) (List.map_filter (bybit_delta \<circ> snd) xs @ [d])"
    by (intro bybit_merge_latest) (simp add: bybit_cache)
  then show ?thesis using assms(2,3)
    by (auto simp: bybit_ticker_frame_def bybit_delta_def Let_def split: prod.splits if_splits)
qed

definition bybit_sample :: "string \<Rightarrow> string \<Rightarrow> string \<Rightarrow> bybit_ticker" where
  "bybit_sample symbol b a = \<lparr>by_symbol = symbol, by_bid = b, by_ask = a, by_turnover = ''7'', by_rate = [], by_next = []\<rparr>"

theorem bybit_ticks_latest_witness:
  "map_option mt_bid (fst (snd (snd (bybit_ticker_frame sample_lib 9 9 9 MarketTypeSpot False (''t'', 5, Some (bybit_sample ''A'' [] ''4''))
     [(''A'', bybit_sample ''A'' ''3'' [])] (projr (new_funding_manager default_funding_config)))))) = Some 3"
proof -
  let ?x = "((9, 9, 9), ''t'', 5, Some (bybit_sample ''A'' ''3'' []))" and ?fm = "projr (new_funding_manager default_funding_config)"
  let ?d = "bybit_sample ''A'' [] ''4''"
  have r: "fold (bybit_run sample_lib MarketTypeSpot False) [?x] ([], ?fm) = ([(''A'', bybit_sample ''A'' ''3'' [])], ?fm)"
    by (simp add: bybit_run_def bybit_ticker_frame_def bybit_merge_def bybit_sample_def bybit_or_def bybit_funding_def
        MarketTypeSpot_def MarketTypeFutures_def Let_def)
  obtain c f out err where b: "bybit_ticker_frame sample_lib 9 9 9 MarketTypeSpot False (''t'', 5, Some ?d)
      [(''A'', bybit_sample ''A'' ''3'' [])] ?fm = (c, f, out, err)" by (metis prod_cases4)
  have e: "err = False" using b
    by (auto simp: bybit_ticker_frame_def bybit_funding_def bybit_sample_def Let_def MarketTypeSpot_def MarketTypeFutures_def)
  have d: "bybit_delta (''t'', 5, Some ?d) = Some ?d" by (simp add: bybit_delta_def bybit_sample_def)
  have "out = bybit_to_market_tick sample_lib (bybit_latest ''A'' [bybit_sample ''A'' ''3'' [], ?d]) MarketTypeSpot (event_time_or 9 5) 9"
    using bybit_ticks_latest [OF r d b [unfolded e]]
    by (simp add: bybit_sample_def bybit_delta_def List.map_filter_simps)
  also have "map_option mt_bid \<dots> = Some 3"
    by (simp add: bybit_latest_def latest_field_def bybit_sample_def bybit_to_market_tick_def read_quote_def usable_quote_def
        sample_lib_def sample_parse_def digit_value_def)
  finally show ?thesis using b by simp
qed

text \<open>
  Eleven contracts make two shards: the first one reads, the second one cannot dial, at 5 s; the
  connection of the first is closed at 6 s.
\<close>

definition bybit_opening :: "bool \<Rightarrow> gtime \<Rightarrow> (bybit_text, (string, bybit_ticker) gomap \<times> bybit_state) session_script" where
  "bybit_opening dials t = \<lparr>sc_dial = dials, sc_write_fails = None, sc_armed = True, sc_opened = t, sc_events = []\<rparr>"

lemma bybit_eleven:
  "bybit_symbols_for comma_json [] (\<lambda>m. []) MarketTypeFutures (Saved, Some (replicate 11 ''A''), None) files = (files', symbols)
    \<Longrightarrow> length (bybit_ticker_shards symbols) = 2"
  by (auto simp: bybit_symbols_for_def bybit_symbols_with_fallback_def cap_bybit_symbols_def bybit_symbol_limit_def Let_def
      string_eval bybit_ticker_shards_def shard_args_max_def numeral_eq_Suc split: if_splits)

theorem bybit_shard_failure_witness:
  "\<exists>s' out t1. bybit_connect_and_read sample_lib comma_json [] (\<lambda>m. []) MarketTypeFutures True None 0
       (1, (Saved, Some (replicate 11 ''A''), None),
        [(0, Opens (bybit_opening True (2 * nano_second)))] @ (1, Opens (bybit_opening False (5 * nano_second)))
          # [(0, Shut (6 * nano_second)), (1, Shut (6 * nano_second))])
       ([], projr (new_funding_manager default_funding_config)) = (s', out, Ended t1 (Some DialFails))
     \<and> \<not> is_healthy (snd s') ''BYBIT''"
proof -
  let ?s = "([], projr (new_funding_manager default_funding_config)) :: bybit_state"
  obtain files symbols where y: "bybit_symbols_for comma_json [] (\<lambda>m. []) MarketTypeFutures
      (Saved, Some (replicate 11 ''A''), None) (fst ?s) = (files, symbols)" by fastforce
  note n = bybit_eleven [OF y]
  let ?before = "[(0, Opens (bybit_opening True (2 * nano_second)))]" and ?x = "(1, Opens (bybit_opening False (5 * nano_second)))"
  have w: "map f (bybit_ticker_shards symbols) = [f (bybit_ticker_shards symbols ! 0), f (bybit_ticker_shards symbols ! 1)]" for f
    using n by (cases "bybit_ticker_shards symbols"; cases "tl (bybit_ticker_shards symbols)") auto
  note defs = bybit_futures_group_def w n group_step_def start_group_def open_session_def write_fails_def bybit_opening_def
    leave_group_def done_at_def bybit_link_def message_link_def Let_def numeral_2_eq_2
  have b: "gr_error (bybit_futures_group sample_lib symbols None 1 ?before (files, snd ?s)) = None"
    by (simp add: defs)
  have e: "gr_error (bybit_futures_group sample_lib symbols None 1 (?before @ [?x]) (files, snd ?s)) = Some DialFails"
    "gr_time (bybit_futures_group sample_lib symbols None 1 (?before @ [?x]) (files, snd ?s)) = 5 * nano_second"
    by (simp_all add: defs)
  have "\<forall>i<length (bybit_ticker_shards symbols).
      \<exists>u\<ge>gr_time (bybit_futures_group sample_lib symbols None 1 (?before @ [?x]) (files, snd ?s)).
        (i, Shut u) \<in> set [(0, Shut (6 * nano_second)), (1, Shut (6 * nano_second))]"
    unfolding n e(2) by (auto simp: less_2_cases_iff nano_second_def)
  then show ?thesis by (rule bybit_shard_failure [OF y b e(1)])
qed

end
