(* ===== verification/Okx.thy ===== *)
theory Okx
  imports Adapter_Base
begin

text \<open>
  internal/adapters/okx/okx.go: instruments, subscriptions, tickers, funding rates and candles of OKX with their
  connections and shards.
  An instrument is called BTC-USDT on the spot market and BTC-USDT-SWAP on the futures market.
\<close>

section \<open>Instruments and subscriptions\<close>

record okx_instrument =
  oi_inst_id :: string
  oi_state :: string
  oi_quote :: string

text \<open>The three requests differ in their filters. \<open>None\<close> is an error of the API.\<close>

definition okx_ticker_inst_ids :: "string \<Rightarrow> string \<Rightarrow> okx_instrument list \<Rightarrow> string list option" where
  "okx_ticker_inst_ids inst_type code rows =
     (if code \<noteq> ''0'' then None
      else Some (map oi_inst_id (filter (\<lambda>v. oi_state v = ''live''
        \<and> (if inst_type = ''SPOT'' then oi_quote v = ''USDT'' else has_suffix (oi_inst_id v) ''-USDT-SWAP'')) rows)))"

definition okx_raw_swap_symbols :: "string \<Rightarrow> okx_instrument list \<Rightarrow> string list option" where
  "okx_raw_swap_symbols code rows =
     (if code \<noteq> ''0'' then None
      else Some (map oi_inst_id (filter (\<lambda>v. oi_state v = ''live'' \<and> has_suffix (oi_inst_id v) ''-USDT-SWAP'') rows)))"

definition okx_symbols :: "string \<Rightarrow> string \<Rightarrow> okx_instrument list \<Rightarrow> string list option" where
  "okx_symbols inst_type code rows =
     (if code \<noteq> ''0'' then None
      else Some (map oi_inst_id (filter (\<lambda>v. oi_state v = ''live''
        \<and> (inst_type \<noteq> ''SPOT'' \<or> oi_quote v = ''USDT'')) rows)))"

text \<open>\<open>shardArgItems\<close> from the current shard on; the length of the JSON text is an argument, \<open>None\<close> an
  error of the encoder, for which the item is skipped.\<close>

fun shard_arg_items :: "('a list \<Rightarrow> nat option) \<Rightarrow> nat \<Rightarrow> 'a list \<Rightarrow> 'a list \<Rightarrow> 'a list list" where
  "shard_arg_items json_len max_bytes cur [] = (if cur = [] then [] else [cur])"
| "shard_arg_items json_len max_bytes cur (x # xs) =
     (case json_len (cur @ [x]) of
        None \<Rightarrow> shard_arg_items json_len max_bytes cur xs
      | Some n \<Rightarrow>
          if cur \<noteq> [] \<and> n > max_bytes then cur # shard_arg_items json_len max_bytes [x] xs
          else shard_arg_items json_len max_bytes (cur @ [x]) xs)"

section \<open>Tickers\<close>

record okx_ticker =
  ot_inst_id :: string
  ot_last :: string
  ot_bid :: string
  ot_ask :: string
  ot_volume :: string
  ot_funding_rate :: string
  ot_next_funding :: int
  ot_ts :: int

definition okx_normalize_symbol :: "string \<Rightarrow> market_type \<Rightarrow> string option" where
  "okx_normalize_symbol inst_id m =
     (if m = MarketTypeSpot then
        (if \<not> has_suffix inst_id ''-USDT'' then None else Some (remove_chars ''-'' inst_id))
      else if \<not> has_suffix inst_id ''-USDT-SWAP'' then None
      else Some (remove_chars ''-'' (trim_suffix inst_id ''-SWAP'')))"

text \<open>The volume of a derivative is in the base currency and is converted with the last price.\<close>

definition okx_to_market_tick ::
  "dec_lib \<Rightarrow> okx_ticker \<Rightarrow> market_type \<Rightarrow> gtime \<Rightarrow> gtime \<Rightarrow> market_tick option" where
  "okx_to_market_tick D d m ts received =
     (case okx_normalize_symbol (ot_inst_id d) m of
        None \<Rightarrow> None
      | Some symbol \<Rightarrow> (case read_quote D (ot_bid d) (ot_ask d) of
          None \<Rightarrow> None
        | Some q \<Rightarrow> (case read_volume D (ot_volume d) of
            None \<Rightarrow> None
          | Some v \<Rightarrow>
              if m = MarketTypeFutures then
                (let mid = lib_div D (fst q + snd q) 2;
                     price = (case lib_parse D (ot_last d) of None \<Rightarrow> mid | Some l \<Rightarrow> if l > 0 then l else mid)
                 in if \<not> price > 0 then None else Some (tick_of ''OKX'' symbol m q (v * price) ts received))
              else Some (tick_of ''OKX'' symbol m q v ts received))))"

definition okx_ticker_frame ::
  "dec_lib \<Rightarrow> gtime \<Rightarrow> (okx_ticker \<Rightarrow> gtime) \<Rightarrow> market_type \<Rightarrow> string \<Rightarrow> okx_ticker list \<Rightarrow> market_tick list" where
  "okx_ticker_frame D now received m event rows =
     (if event = ''error'' \<or> event \<noteq> [] \<or> rows = [] then []
      else List.map_filter (\<lambda>d. okx_to_market_tick D d m (event_time_or now (ot_ts d)) (received d)) rows)"

section \<open>Funding rates\<close>

text \<open>\<open>clock\<close> is the clock of the funding manager.\<close>

definition okx_funding_row ::
  "dec_lib \<Rightarrow> gtime \<Rightarrow> gtime \<Rightarrow> okx_ticker \<Rightarrow> funding_manager \<Rightarrow> funding_manager \<times> bool" where
  "okx_funding_row D clock now d fm =
     (case lib_parse D (ot_funding_rate d) of
        None \<Rightarrow> (fm, False)
      | Some rate \<Rightarrow>
          sink_funding clock ''OKX'' (remove_chars ''-'' (ot_inst_id d)) rate (unix_milli (ot_next_funding d))
            (if ot_ts d = 0 then now else unix_milli (ot_ts d)) fm)"

definition okx_funding_frame ::
  "dec_lib \<Rightarrow> gtime \<Rightarrow> gtime \<Rightarrow> string \<Rightarrow> okx_ticker list \<Rightarrow> funding_manager \<Rightarrow> funding_manager \<times> bool" where
  "okx_funding_frame D clock now channel rows fm =
     (if channel \<noteq> ''funding-rate'' then (fm, False) else feed_rows (okx_funding_row D clock now) rows fm)"

text \<open>An error of a funding connection marks the stream of the exchange as unhealthy.\<close>

definition okx_funding_down :: "funding_manager \<Rightarrow> funding_manager" where
  "okx_funding_down fm = set_stream_health ''OKX'' False fm"

section \<open>Candles\<close>

record okx_candles =
  oc_event :: string
  oc_inst_id :: string
  oc_rows :: "string list list"
  oc_ts :: int

definition okx_candle :: "dec_lib \<Rightarrow> market_type \<Rightarrow> okx_candles \<Rightarrow> string list \<Rightarrow> market_candle option" where
  "okx_candle D m r d =
     (if length d < 8 then None
      else case atoi (d ! 0) of
        None \<Rightarrow> None
      | Some start \<Rightarrow> (case read_volume D (d ! 7) of
          None \<Rightarrow> None
        | Some v \<Rightarrow> Some (candle_of ''OKX'' (remove_chars ''-'' (oc_inst_id r)) m (unix_milli start)
            (minute_end (unix_milli start)) v (unix_milli (oc_ts r)) False)))"

definition okx_candle_frame ::
  "dec_lib \<Rightarrow> gtime \<Rightarrow> market_type \<Rightarrow> okx_candles \<Rightarrow> volume_engine \<Rightarrow> volume_engine \<times> bool" where
  "okx_candle_frame D clock m r ve =
     (if oc_event r = ''error'' then (ve, True)
      else if oc_event r = ''subscribe'' \<or> oc_rows r = [] \<or> oc_inst_id r = [] then (ve, False)
      else (fold (update_candle clock) (List.map_filter (okx_candle D m r) (oc_rows r)) ve, False))"

section \<open>Connections\<close>

text \<open>A text of the ticker connection: the word pong, something that is no response, a response with the two
  readings of the clock. The ticker loop keeps no state of its own.\<close>

datatype okx_ticker_text = OkxPong | OkxNoTickers | OkxTickers gtime "okx_ticker \<Rightarrow> gtime" string "okx_ticker list"

fun okx_ticker_message :: "dec_lib \<Rightarrow> market_type \<Rightarrow> (okx_ticker_text, unit, market_tick) handler" where
  "okx_ticker_message D m OkxPong u = (u, [], False)"
| "okx_ticker_message D m OkxNoTickers u = (u, [], False)"
| "okx_ticker_message D m (OkxTickers now received event rows) u = (u, okx_ticker_frame D now received m event rows, False)"

text \<open>The requests of a connection hold at most 100 instruments.\<close>

definition okx_requests :: "string list \<Rightarrow> string list list" where
  "okx_requests ids = slices 100 ids"

definition okx_link :: link_policy where
  "okx_link = message_link (20 * nano_second + 10 * nano_second)"

text \<open>The instruments are asked for after the dial. \<open>answer\<close> is the response of the REST request, \<open>None\<close> its failure.\<close>

definition okx_connect_and_read ::
  "dec_lib \<Rightarrow> string \<Rightarrow> market_type \<Rightarrow> gtime option \<Rightarrow> gtime
    \<Rightarrow> (string \<times> okx_instrument list) option \<times> (okx_ticker_text, unit) session_script \<Rightarrow> unit \<Rightarrow> unit \<times> market_tick list \<times> outcome" where
  "okx_connect_and_read D inst_type m cancel started w u =
     (let (answer, sc) = w in
      if \<not> sc_dial sc then (u, [], Ended (sc_opened sc) (Some DialFails))
      else case Option.bind answer (\<lambda>(code, rows). okx_ticker_inst_ids inst_type code rows) of
        None \<Rightarrow> (u, [], Ended (sc_opened sc) (Some SymbolsFail))
      | Some ids \<Rightarrow>
          if length ids = 0 then (u, [], Ended (sc_opened sc) (Some NoSymbols))
          else run_session okx_link cancel (okx_ticker_message D m) (length (okx_requests ids)) sc u)"

definition okx_listen ::
  "dec_lib \<Rightarrow> string \<Rightarrow> market_type \<Rightarrow> gtime option
    \<Rightarrow> ((string \<times> okx_instrument list) option \<times> (okx_ticker_text, unit) session_script) attempt list
    \<Rightarrow> unit \<times> market_tick list \<times> gdur list \<times> bool" where
  "okx_listen D inst_type m cancel attempts =
     supervise ticker_loop cancel (okx_connect_and_read D inst_type m cancel) id reconnect_backoff attempts ()"

definition okx_connect_spot where
  "okx_connect_spot D cancel attempts = okx_listen D ''SPOT'' MarketTypeSpot cancel attempts"

text \<open>\<open>ready\<close>: the funding stream has stored its sink before the context is done.\<close>

definition okx_connect_futures where
  "okx_connect_futures D ready cancel attempts =
     (if ready then okx_listen D ''SWAP'' MarketTypeFutures cancel attempts else ((), [], [], cancel \<noteq> None))"

definition okx_keep_alive :: "ping_tick list \<Rightarrow> string list \<times> bool" where
  "okx_keep_alive ticks = keep_alive ''ping'' ticks"

text \<open>A text of a funding shard, with the clock of the funding manager and the reading of the clock.\<close>

datatype okx_funding_text = OkxNoRates | OkxRates gtime gtime string "okx_ticker list"

fun okx_funding_message :: "dec_lib \<Rightarrow> (okx_funding_text, unit \<times> funding_manager, market_tick) handler" where
  "okx_funding_message D OkxNoRates s = (s, [], False)"
| "okx_funding_message D (OkxRates clock now channel rows) s =
     (case okx_funding_frame D clock now channel rows (snd s) of (fm, err) \<Rightarrow> ((fst s, fm), [], err))"

text \<open>One connection per shard of the list; the time is that of the response.\<close>

definition okx_connect_funding_ws ::
  "dec_lib \<Rightarrow> (string list \<Rightarrow> nat option) \<Rightarrow> gtime option \<Rightarrow> gtime
    \<Rightarrow> gtime \<times> (string \<times> okx_instrument list) option \<times> (nat \<times> (okx_funding_text, unit \<times> funding_manager) shard_event) list
    \<Rightarrow> funding_manager \<Rightarrow> funding_manager \<times> market_tick list \<times> outcome" where
  "okx_connect_funding_ws D json_len cancel started w fm =
     (let (t, answer, schedule) = w in
      case Option.bind answer (\<lambda>(code, rows). okx_raw_swap_symbols code rows) of
        None \<Rightarrow> (fm, [], Ended t (Some SymbolsFail))
      | Some ids \<Rightarrow>
          (let shards = shard_arg_items json_len 50000 [] ids
           in if length shards = 0 then (fm, [], Ended t (Some NoSymbols))
              else run_group okx_link cancel (okx_funding_message D) () (map (\<lambda>_. 1) shards) t schedule fm))"

definition okx_listen_funding where
  "okx_listen_funding D json_len cancel attempts fm =
     supervise shard_loop cancel (okx_connect_funding_ws D json_len cancel) okx_funding_down reconnect_backoff attempts fm"

text \<open>\<open>None\<close> is the error for a missing sink.\<close>

definition okx_connect_funding where
  "okx_connect_funding D json_len has_sink cancel attempts fm =
     (if \<not> has_sink then None else Some (okx_listen_funding D json_len cancel attempts fm))"

datatype okx_candle_text = OkxNoCandles | OkxCandles gtime okx_candles

fun okx_candle_message :: "dec_lib \<Rightarrow> market_type \<Rightarrow> (okx_candle_text, volume_engine, market_tick) handler" where
  "okx_candle_message D m OkxNoCandles ve = (ve, [], False)"
| "okx_candle_message D m (OkxCandles clock r) ve = (case okx_candle_frame D clock m r ve of (ve', err) \<Rightarrow> (ve', [], err))"

definition okx_read_candle_shard where
  "okx_read_candle_shard D m cancel ids sc ve =
     run_session candle_link cancel (okx_candle_message D m) (length (okx_requests ids)) sc ve"

definition okx_run_candle_feed ::
  "dec_lib \<Rightarrow> string \<Rightarrow> market_type \<Rightarrow> gtime option
    \<Rightarrow> (gtime \<times> (string \<times> okx_instrument list) option \<times> (okx_candle_text, volume_engine) session_script) attempt list
    \<Rightarrow> volume_engine \<Rightarrow> volume_engine \<times> market_tick list \<times> gdur list \<times> bool" where
  "okx_run_candle_feed D inst_type m cancel attempts ve =
     supervise candle_loop cancel
       (\<lambda>started (t, answer, sc) ve.
          case Option.bind answer (\<lambda>(code, rows). okx_symbols inst_type code rows) of
            None \<Rightarrow> (ve, [], Unlisted t)
          | Some ids \<Rightarrow> okx_read_candle_shard D m cancel ids sc ve)
       id reconnect_backoff attempts ve"

section \<open>Ticks\<close>

lemma okx_tick_shape:
  assumes "okx_to_market_tick D d m ts received = Some t"
  shows "\<exists>symbol q v. okx_normalize_symbol (ot_inst_id d) m = Some symbol
    \<and> read_quote D (ot_bid d) (ot_ask d) = Some q \<and> t = tick_of ''OKX'' symbol m q v ts received"
  using assms by (auto simp: okx_to_market_tick_def Let_def split: option.splits if_splits)

interpretation okx_ticks: tick_source
  "\<lambda>(D, d, spot, ts, received). okx_to_market_tick D d (market_of spot) ts received"
  "''OKX''" "\<lambda>(D, d, spot, ts, received). received"
  by unfold_locales (auto simp: string_eval dest!: okx_tick_shape intro: proper_tick_of)

section \<open>Whole runs\<close>

interpretation okx_ticker_feed: feed "okx_ticker_message D (market_of spot)" "\<lambda>u. True" "tick_from ''OKX''" for D spot
proof
  fix m :: okx_ticker_text and u u' :: unit and out err
  assume "okx_ticker_message D (market_of spot) m u = (u', out, err)"
  moreover have "list_all (tick_from ''OKX'') (okx_ticker_frame D now received (market_of spot) event rows)" for now received event rows
    using okx_ticks.source_proper by (auto simp: okx_ticker_frame_def intro!: tick_from_map_filter tick_from_proper)
  ultimately show "True \<and> list_all (tick_from ''OKX'') out" by (cases m) auto
qed

interpretation okx_ticker_runs: feed_run "okx_connect_and_read D inst_type (market_of spot) cancel" "\<lambda>w. True" "\<lambda>u. True" "tick_from ''OKX''"
  for D inst_type spot cancel
  by unfold_locales
    (auto simp: okx_connect_and_read_def split: if_splits option.splits dest: okx_ticker_feed.session_keeps [OF legal_trivial TrueI])

lemma okx_listen_ticks:
  "list_all (tick_from ''OKX'') (fst (snd (okx_listen D inst_type (market_of spot) cancel attempts)))"
  unfolding okx_listen_def by (rule okx_ticker_runs.supervise_result) (simp_all add: list_all_iff)

interpretation okx_funding_feed: local_feed "okx_funding_message D" funding_ok "\<lambda>t. True" for D
proof
  fix m :: okx_funding_text and s s' :: "unit \<times> funding_manager" and out :: "market_tick list" and err
  assume "case s of (c, fm) \<Rightarrow> funding_ok fm" and "okx_funding_message D m s = (s', out, err)"
  moreover have "funding_ok fm \<Longrightarrow> funding_ok (fst (okx_funding_row D clock now d fm))" for clock now d fm
    by (auto simp: okx_funding_row_def funding_ok_sink split: option.split)
  then have "funding_ok fm \<Longrightarrow> funding_ok (fst (okx_funding_frame D clock now channel rows fm))" for clock now channel rows fm
    by (simp add: okx_funding_frame_def funding_ok_rows)
  ultimately show "(case s' of (c, fm) \<Rightarrow> funding_ok fm) \<and> list_all (\<lambda>t. True) out"
    by (cases m) (auto split: prod.splits simp: list_all_iff; metis fst_conv)+
qed

interpretation okx_funding_runs: feed_run "okx_connect_funding_ws D json_len cancel"
  "\<lambda>(t, answer, schedule). list_all okx_funding_feed.shard_legal schedule" funding_ok "\<lambda>t. True" for D json_len cancel
  by unfold_locales
    (auto simp: okx_connect_funding_ws_def Let_def split: if_splits option.splits dest: okx_funding_feed.group_keeps)

interpretation okx_candle_feed: feed "okx_candle_message D m" volume_ok "\<lambda>t. True" for D m
proof
  fix msg :: okx_candle_text and ve ve' :: volume_engine and out :: "market_tick list" and err
  assume "volume_ok ve" and "okx_candle_message D m msg ve = (ve', out, err)"
  moreover have "volume_ok ve \<Longrightarrow> volume_ok (fst (okx_candle_frame D clock m r ve))" for clock r
    by (simp add: okx_candle_frame_def volume_ok_candles)
  ultimately show "volume_ok ve' \<and> list_all (\<lambda>t. True) out"
    by (cases msg) (auto split: prod.splits simp: list_all_iff; metis fst_conv)+
qed

interpretation okx_candle_runs: feed_run
  "\<lambda>started (t, answer, sc) ve.
     case Option.bind answer (\<lambda>(code, rows). okx_symbols inst_type code rows) of
       None \<Rightarrow> (ve, [], Unlisted t)
     | Some ids \<Rightarrow> okx_read_candle_shard D m cancel ids sc ve"
  "\<lambda>(t, answer, sc). legal_events volume_ok (sc_events sc)" volume_ok "\<lambda>t. True" for D inst_type m cancel
  by unfold_locales
    (auto simp: okx_read_candle_shard_def split: option.splits dest: okx_candle_feed.session_keeps)


lemma okx_funding_runs_ok:
  assumes "list_all (\<lambda>a. list_all okx_funding_feed.shard_legal (snd (snd (at_world a)))) attempts" and "funding_ok fm"
  shows "funding_ok (fst (okx_listen_funding D json_len cancel attempts fm))"
  unfolding okx_listen_funding_def using assms
  by (intro okx_funding_runs.supervise_result)
    (auto simp: list_all_iff case_prod_beta okx_funding_down_def funding_ok_health)

lemma okx_candle_runs_ok:
  assumes "list_all (\<lambda>a. legal_events volume_ok (sc_events (snd (snd (at_world a))))) attempts" and "volume_ok ve"
  shows "volume_ok (fst (okx_run_candle_feed D inst_type m cancel attempts ve))"
  unfolding okx_run_candle_feed_def using assms
  by (intro okx_candle_runs.supervise_result) (auto simp: list_all_iff case_prod_beta)

lemma shard_arg_items_greedy:
  "\<forall>ys. json_len ys \<noteq> None \<Longrightarrow>
    shard_arg_items json_len max_bytes cur xs = greedy_shards (\<lambda>ys. the (json_len ys) \<le> max_bytes) cur xs"
proof (induction xs arbitrary: cur)
  case (Cons x xs)
  then obtain n where "json_len (cur @ [x]) = Some n" by blast
  then show ?case using Cons by simp
qed simp

section \<open>The funding rates never reach the evaluation\<close>

text \<open>The funding rates of OKX are stored under names that end in SWAP.\<close>

definition okx_keys :: "funding_manager \<Rightarrow> bool" where
  "okx_keys fm \<longleftrightarrow> (\<forall>(k, r)\<in>set (fm_rates fm). fst k = ''OKX'' \<longrightarrow> has_suffix (snd k) ''SWAP'')"

lemma name_parts:
  "to_upper ''USDT'' = ''USDT''" "remove_chars ''-_/'' ''USDT'' = ''USDT''" "remove_chars ''-'' ''-USDT'' = ''USDT''"
  "to_upper ''USDTSWAP'' = ''USDTSWAP''" "remove_chars ''-_/'' ''USDTSWAP'' = ''USDTSWAP''"
  "remove_chars ''-'' ''-USDT-SWAP'' = ''USDTSWAP''"
  by (simp_all add: remove_chars_def to_upper_def upper_char_def)

lemma swap_key: "has_suffix raw ''-USDT-SWAP'' \<Longrightarrow>
    \<exists>b. normalize_funding_key ''OKX'' (remove_chars ''-'' raw) = (''OKX'', b @ ''SWAP'')"
proof -
  assume "has_suffix raw ''-USDT-SWAP''"
  then obtain a where "raw = a @ ''-USDT-SWAP''" by (auto simp: has_suffix_iff)
  then have r: "remove_chars ''-'' raw = remove_chars ''-'' a @ ''USDTSWAP''" by (simp only: remove_chars_append name_parts)
  obtain b where b: "trim_space (remove_chars ''-'' a @ ''USDTSWAP'') = b @ ''USDTSWAP''"
    using trim_space_append [of "''USDTSWAP''"] by (auto simp: is_space_def)
  have "to_upper (remove_chars ''-_/'' (b @ ''USDTSWAP'')) = to_upper (remove_chars ''-_/'' b) @ ''USDTSWAP''"
    by (simp only: remove_chars_append to_upper_append name_parts)
  then show ?thesis
    by (intro exI [of _ "to_upper (remove_chars ''-_/'' b) @ ''USDT''"])
      (simp add: normalize_funding_key_def r b sample_names)
qed

text \<open>The symbol of a futures tick, in the normal form of the aggregator, ends in USDT.\<close>

lemma okx_tick_symbol:
  assumes "okx_to_market_tick D d MarketTypeFutures ts received = Some t"
  shows "\<exists>b. normalize_funding_key ''OKX'' (normalize_symbol (mt_symbol t)) = (''OKX'', b @ ''USDT'')"
proof -
  have f: "MarketTypeFutures \<noteq> MarketTypeSpot" by (simp add: MarketTypeSpot_def MarketTypeFutures_def)
  from assms have "okx_normalize_symbol (ot_inst_id d) MarketTypeFutures = Some (mt_symbol t)"
    using okx_tick_shape by fastforce
  with f obtain a where "ot_inst_id d = a @ ''-USDT-SWAP''" "mt_symbol t = remove_chars ''-'' (trim_suffix (ot_inst_id d) ''-SWAP'')"
    unfolding okx_normalize_symbol_def has_suffix_iff [of _ "''-USDT-SWAP''"] by (auto split: if_splits)
  moreover have "a @ ''-USDT-SWAP'' = (a @ ''-USDT'') @ ''-SWAP''" by simp
  ultimately have r: "mt_symbol t = remove_chars ''-'' a @ ''USDT''"
    by (simp only: trim_suffix_append remove_chars_append name_parts)
  obtain b where b: "trim_space (remove_chars ''-'' a @ ''USDT'') = b @ ''USDT''"
    using trim_space_append [of "''USDT''"] by (auto simp: is_space_def)
  have n: "normalize_symbol (mt_symbol t) = remove_chars ''-_/'' (to_upper b) @ ''USDT''"
    by (simp only: normalize_symbol_def r b remove_chars_append to_upper_append name_parts)
  obtain c where c: "trim_space (remove_chars ''-_/'' (to_upper b) @ ''USDT'') = c @ ''USDT''"
    using trim_space_append [of "''USDT''"] by (auto simp: is_space_def)
  have "to_upper (remove_chars ''-_/'' (c @ ''USDT'')) = to_upper (remove_chars ''-_/'' c) @ ''USDT''"
    by (simp only: remove_chars_append to_upper_append name_parts)
  then have "normalize_funding_key ''OKX'' (normalize_symbol (mt_symbol t)) = (''OKX'', to_upper (remove_chars ''-_/'' c) @ ''USDT'')"
    by (simp only: normalize_funding_key_def n c sample_names)
  then show ?thesis by blast
qed

lemma usdt_not_swap: "\<not> has_suffix (b @ ''USDT'') ''SWAP''"
proof
  assume "has_suffix (b @ ''USDT'') ''SWAP''"
  then obtain a where "b @ ''USDT'' = a @ ''SWAP''" by (auto simp: has_suffix_iff)
  then have "last (b @ ''USDT'') = last (a @ ''SWAP'')" by simp
  then show False by simp
qed

lemma okx_keys_update:
  assumes "okx_keys fm" and "to_upper (trim_space ex) = ''OKX'' \<longrightarrow> has_suffix (snd (normalize_funding_key ex sy)) ''SWAP''"
    and "update_funding now ex sy rate next event fm = Inr fm'"
  shows "okx_keys fm'"
proof -
  let ?k = "normalize_funding_key ex sy"
  have "fm' = fm \<or> (\<exists>r. fm_rates fm' = mput ?k r (fm_rates fm))"
    using assms(3) by (auto simp: update_funding_def Let_def split: if_splits)
  moreover have "has_suffix (snd k) ''SWAP''"
    if "(k, r) \<in> set (mput ?k r0 (fm_rates fm))" "fst k = ''OKX''" for k r r0
    using mem_mput_D [OF that(1)] that(2) assms(1,2) by (force simp: okx_keys_def)
  ultimately show ?thesis using assms(1) unfolding okx_keys_def by fastforce
qed

lemma okx_keys_row:
  assumes "okx_keys fm" and "has_suffix (ot_inst_id d) ''-USDT-SWAP''"
  shows "okx_keys (fst (okx_funding_row D clock now d fm))"
proof -
  have "has_suffix (snd (normalize_funding_key ''OKX'' (remove_chars ''-'' (ot_inst_id d)))) ''SWAP''"
    using swap_key [OF assms(2)] by auto
  then show ?thesis using assms(1)
    by (auto simp: okx_funding_row_def sink_funding_def split: option.split sum.split intro: okx_keys_update)
qed

lemma okx_keys_rows:
  "okx_keys fm \<Longrightarrow> \<forall>d\<in>set rows. has_suffix (ot_inst_id d) ''-USDT-SWAP''
    \<Longrightarrow> okx_keys (fst (feed_rows (okx_funding_row D clock now) rows fm))"
proof (induction rows arbitrary: fm)
  case (Cons d rows)
  then show ?case using okx_keys_row [OF Cons.prems(1), of d D clock now] by (auto split: prod.split)
qed simp

text \<open>What happens to the funding manager while the program runs: frames of OKX for contracts it has
  subscribed to, and anything that does not write a funding rate of OKX.\<close>

datatype okx_feed = OkxFrame dec_lib gtime gtime "okx_ticker list" | OkxDown | OtherFunding funding_op

fun okx_feed_step :: "okx_feed \<Rightarrow> funding_manager \<Rightarrow> funding_manager" where
  "okx_feed_step (OkxFrame D clock now rows) fm = fst (okx_funding_frame D clock now ''funding-rate'' rows fm)"
| "okx_feed_step OkxDown fm = okx_funding_down fm"
| "okx_feed_step (OtherFunding x) fm = funding_step x fm"

fun okx_feed_ok :: "string list \<Rightarrow> okx_feed \<Rightarrow> bool" where
  "okx_feed_ok subscribed (OkxFrame D clock now rows) = (\<forall>d\<in>set rows. ot_inst_id d \<in> set subscribed)"
| "okx_feed_ok subscribed (OtherFunding (OpUpdateFunding now ex sy rate next event)) = (to_upper (trim_space ex) \<noteq> ''OKX'')"
| "okx_feed_ok subscribed x = True"

lemma okx_keys_step:
  assumes "okx_keys fm" and "okx_feed_ok subscribed x" and "\<forall>raw\<in>set subscribed. has_suffix raw ''-USDT-SWAP''"
  shows "okx_keys (okx_feed_step x fm)"
proof (cases x)
  case (OkxFrame D clock now rows)
  then show ?thesis using okx_keys_rows [OF assms(1), of rows D clock now] assms(2,3) by (auto simp: okx_funding_frame_def)
next
  case OkxDown
  then show ?thesis using assms(1) by (simp add: okx_funding_down_def okx_keys_def)
next
  case (OtherFunding y)
  show ?thesis
  proof (cases y)
    case (OpUpdateFunding now ex sy rate nxt event)
    then show ?thesis using assms(1,2) OtherFunding by (auto intro: okx_keys_update split: sum.split)
  next
    case (OpEvict now)
    then show ?thesis using assms(1) OtherFunding
      by (auto simp: okx_keys_def evict_stale_def split: option.splits)
  next
    case (OpConfig c)
    then show ?thesis using assms(1) OtherFunding
      by (auto simp: okx_keys_def update_config_def Let_def split: sum.splits option.splits)
  qed (use assms(1) OtherFunding in \<open>simp add: okx_keys_def\<close>)
qed

lemma okx_keys_run:
  "okx_keys fm \<Longrightarrow> \<forall>x\<in>set ops. okx_feed_ok subscribed x \<Longrightarrow> \<forall>raw\<in>set subscribed. has_suffix raw ''-USDT-SWAP''
    \<Longrightarrow> okx_keys (fold okx_feed_step ops fm)"
proof (induction ops arbitrary: fm)
  case (Cons x ops)
  then show ?case using okx_keys_step [OF Cons.prems(1), of subscribed x] by simp
qed simp

lemma okx_unusable:
  assumes "okx_keys fm" and "okx_to_market_tick D d MarketTypeFutures ts received = Some t"
  shows "\<not> usable_record fm p ''OKX'' (normalize_symbol (mt_symbol t)) now r"
proof
  assume u: "usable_record fm p ''OKX'' (normalize_symbol (mt_symbol t)) now r"
  obtain b where b: "normalize_funding_key ''OKX'' (normalize_symbol (mt_symbol t)) = (''OKX'', b @ ''USDT'')"
    using okx_tick_symbol [OF assms(2)] by blast
  from u have "map_of (fm_rates fm) (''OKX'', b @ ''USDT'') = Some r" by (simp add: usable_record_def get_funding_def b)
  then have "((''OKX'', b @ ''USDT''), r) \<in> set (fm_rates fm)" by (rule map_of_SomeD)
  with assms(1) have "has_suffix (b @ ''USDT'') ''SWAP''" by (force simp: okx_keys_def)
  then show False using usdt_not_swap by blast
qed

lemma okx_unprofitable:
  assumes "okx_keys fm" and "okx_to_market_tick D d MarketTypeFutures ts received = Some t"
    and "symbol = normalize_symbol (mt_symbol t)"
  shows "\<not> ar_profitable (evaluate_futures_pair fm ''OKX'' symbol sx ss spread now)"
    "\<not> ar_profitable (evaluate_futures_pair fm bx bs ''OKX'' symbol spread now)"
    "\<not> ar_profitable (evaluate_spot_futures fm ''OKX'' symbol spread now)"
  using okx_unusable [OF assms(1,2)] by (auto simp: pair_profitable spot_profitable assms(3))

section \<open>Properties\<close>

text \<open>
  C28. No route with a futures leg on OKX is found as long as OKX answers what it was asked for. The adapter stores the
  rate of BTC-USDT-SWAP under BTCUSDTSWAP, and the aggregator asks for the symbol of the ticks of the contract,
  BTCUSDT: when every funding row OKX sends is about a contract the adapter has subscribed to, all of which end in
  -USDT-SWAP, and nothing but the adapter writes a funding rate of OKX, then whatever else the frames hold
  and whatever other updates the funding
  manager gets, for the symbol of an OKX futures tick neither the search over pairs of exchanges nor the one
  between the spot and the futures market of OKX yields a route. (A row about BTC-USDT would be stored under BTCUSDT.)
\<close>

theorem okx_never_traded:
  assumes "new_funding_manager cfg = Inr fm0" and "okx_raw_swap_symbols code rows = Some subscribed"
    and "\<forall>x\<in>set ops. okx_feed_ok subscribed x" and "ae_funding E = Some (fold okx_feed_step ops fm0)"
    and "okx_to_market_tick D d MarketTypeFutures ts received = Some t" and "symbol = normalize_symbol (mt_symbol t)"
  shows "cross_event E symbol now ''OKX'' b sx s = None \<and> cross_event E symbol now bx b ''OKX'' s = None
    \<and> intra_event E symbol now ''OKX'' spot fut = None"
proof -
  have "okx_keys fm0"
    using assms(1) by (auto simp: new_funding_manager_def Let_def okx_keys_def split: option.splits)
  moreover have "\<forall>raw\<in>set subscribed. has_suffix raw ''-USDT-SWAP''"
    using assms(2) by (auto simp: okx_raw_swap_symbols_def split: if_splits)
  ultimately have "okx_keys (fold okx_feed_step ops fm0)" using assms(3) by (blast intro: okx_keys_run)
  from okx_unprofitable [OF this assms(5,6)] show ?thesis
    by (simp add: cross_event_def intra_event_def Let_def assms(4))
qed

section \<open>Witness\<close>

definition okx_swap_row :: okx_ticker where
  "okx_swap_row = \<lparr>ot_inst_id = ''BTC-USDT-SWAP'', ot_last = ''100'', ot_bid = ''99'', ot_ask = ''101'', ot_volume = ''2'',
     ot_funding_rate = ''0.0001'', ot_next_funding = 5, ot_ts = 7\<rparr>"

lemma okx_swap_tick: "okx_to_market_tick sample_lib okx_swap_row MarketTypeFutures 7 8 =
    Some (tick_of ''OKX'' ''BTCUSDT'' MarketTypeFutures (99, 101) 200 7 8)"
  by (simp add: okx_to_market_tick_def okx_normalize_symbol_def okx_swap_row_def MarketTypeSpot_def MarketTypeFutures_def
      has_suffix_def trim_suffix_def remove_chars_def read_quote_def usable_quote_def read_volume_def sample_lib_def
      sample_parse_def digit_value_def Let_def)

theorem okx_never_traded_witness:
  "\<exists>fm0 fm. new_funding_manager default_funding_config = Inr fm0
     \<and> fm = fold okx_feed_step [OkxFrame sample_lib 9 9 [okx_swap_row]] fm0
     \<and> get_funding fm ''OKX'' ''BTC-USDT-SWAP'' \<noteq> None
     \<and> intra_event (sample_env\<lparr>ae_funding := Some fm\<rparr>) ''BTCUSDT'' 9 ''OKX'' okx_quote mexc_quote = None"
proof -
  obtain fm0 where fm0: "new_funding_manager default_funding_config = Inr fm0"
    by (simp add: new_funding_manager_def config_normalize_def config_validate_def default_funding_config_def
        nano_second_def nano_minute_def)
  let ?ops = "[OkxFrame sample_lib 9 9 [okx_swap_row]]"
  let ?fm = "fold okx_feed_step ?ops fm0"
  have i: "okx_raw_swap_symbols ''0'' [\<lparr>oi_inst_id = ''BTC-USDT-SWAP'', oi_state = ''live'', oi_quote = []\<rparr>] = Some [''BTC-USDT-SWAP'']"
    by (simp add: okx_raw_swap_symbols_def has_suffix_def)
  have o: "\<forall>x\<in>set ?ops. okx_feed_ok [''BTC-USDT-SWAP''] x" by (simp add: okx_swap_row_def)
  have n: "''BTCUSDT'' = normalize_symbol (mt_symbol (tick_of ''OKX'' ''BTCUSDT'' MarketTypeFutures (99, 101) 200 7 8))"
    by (simp add: normalize_symbol_def remove_chars_def string_eval upper_char_def)
  have r: "lib_parse sample_lib ''0.0001'' = Some (1 / 10000)" by (simp add: sample_lib_def sample_parse_def digit_value_def)
  have g: "get_funding ?fm ''OKX'' ''BTC-USDT-SWAP'' \<noteq> None"
    using fm0 by (simp add: okx_funding_frame_def okx_funding_row_def okx_swap_row_def r sink_funding_def update_funding_def
        Let_def normalize_funding_key_def sample_names remove_chars_def string_eval upper_char_def new_funding_manager_def
        get_funding_def map_of_mput split: option.splits)
  have "ae_funding (sample_env\<lparr>ae_funding := Some ?fm\<rparr>) = Some ?fm" by simp
  from okx_never_traded [OF fm0 i o this okx_swap_tick n]
  have "intra_event (sample_env\<lparr>ae_funding := Some ?fm\<rparr>) ''BTCUSDT'' 9 ''OKX'' okx_quote mexc_quote = None" by blast
  with fm0 g show ?thesis by blast
qed

text \<open>
  The ticker loop of the spot market, in seconds: two dials fail, the third connection reads from 9 to 49 and breaks, the
  dial after it fails.
\<close>

abbreviation okx_try :: "int \<Rightarrow> bool \<Rightarrow> (okx_ticker_text, unit) ws_event list
    \<Rightarrow> ((string \<times> okx_instrument list) option \<times> (okx_ticker_text, unit) session_script) attempt" where
  "okx_try t dials es \<equiv> \<lparr>at_started = t * nano_second,
     at_world = (Some (''0'', [\<lparr>oi_inst_id = ''BTC-USDT'', oi_state = ''live'', oi_quote = ''USDT''\<rparr>]),
       \<lparr>sc_dial = dials, sc_write_fails = None, sc_armed = True, sc_opened = t * nano_second, sc_events = es\<rparr>),
     at_jitter = id\<rparr>"

definition okx_tries :: "((string \<times> okx_instrument list) option \<times> (okx_ticker_text, unit) session_script) attempt list" where
  "okx_tries = [okx_try 0 False [], okx_try 3 False [], okx_try 9 True [Message (30 * nano_second) OkxPong, Broken (49 * nano_second)]]"

lemma okx_tries_turns:
  "done_at cancel (49 * nano_second) \<longleftrightarrow> False \<Longrightarrow>
   loop_turns cancel (okx_connect_and_read sample_lib ''SPOT'' MarketTypeSpot cancel) id (okx_tries @ rest) () =
     [(Lasted 0, id), (Lasted 0, id), (Lasted (40 * nano_second), id)]
     @ loop_turns cancel (okx_connect_and_read sample_lib ''SPOT'' MarketTypeSpot cancel) id rest ()"
  by (simp add: okx_tries_def okx_connect_and_read_def okx_ticker_inst_ids_def run_session_def open_session_def write_fails_def
      okx_link_def message_link_def read_failed_def nano_second_def)

theorem reconnect_delays_witness:
  "fst (snd (snd (okx_listen sample_lib ''SPOT'' MarketTypeSpot None (okx_tries @ [okx_try 52 False []]))))
   = map ((*) nano_second) [3, 6, 3, 6]"
proof -
  obtain s' out ds over where l: "okx_listen sample_lib ''SPOT'' MarketTypeSpot None (okx_tries @ [okx_try 52 False []]) = (s', out, ds, over)"
    by (metis prod_cases4)
  have "\<not> over" using supervise_alive l unfolding okx_listen_def by (metis snd_conv)
  moreover have "length (okx_tries @ [okx_try 52 False []]) < 2 ^ 32" by (simp add: okx_tries_def)
  ultimately have "ds = due_delays ticker_loop 0 (loop_turns None (okx_connect_and_read sample_lib ''SPOT'' MarketTypeSpot None) id
      (okx_tries @ [okx_try 52 False []]) ())"
    using reconnect_delays [OF l [unfolded okx_listen_def]] by blast
  also have "\<dots> = map ((*) nano_second) [3, 6, 3, 6]"
    by (subst okx_tries_turns) (simp_all add: done_at_def okx_connect_and_read_def ticker_loop_def Let_def nano_second_def)
  finally show ?thesis by (simp add: l)
qed


end
