(* ===== verification/Bitget.thy ===== *)
theory Bitget
  imports Adapter_Base
begin

text \<open>
  internal/adapters/bitget/bitget.go: symbols, tickers with funding rates, and candles of Bitget with their connections.
  Instruments are called BTCUSDT on both markets.
\<close>

section \<open>Symbols\<close>

record bitget_info =
  gi_symbol :: string
  gi_quote_coin :: string
  gi_status :: string

definition bitget_spot_symbols :: "string \<Rightarrow> bitget_info list \<Rightarrow> string list option" where
  "bitget_spot_symbols code rows =
     (if code \<noteq> ''00000'' then None
      else Some (map gi_symbol (filter (\<lambda>v. gi_status v = ''online'' \<and> gi_quote_coin v = ''USDT'') rows)))"

definition bitget_futures_symbols :: "string \<Rightarrow> bitget_info list \<Rightarrow> string list option" where
  "bitget_futures_symbols code rows =
     (if code \<noteq> ''00000'' then None else Some (map gi_symbol (filter (\<lambda>v. gi_status v = ''normal'') rows)))"

section \<open>Tickers\<close>

record bitget_ticker =
  gt_inst_id :: string
  gt_bid :: string
  gt_ask :: string
  gt_volume :: string
  gt_ts :: int
  gt_funding_rate :: string
  gt_next_funding :: int

definition bitget_to_market_tick ::
  "dec_lib \<Rightarrow> bitget_ticker \<Rightarrow> market_type \<Rightarrow> gtime \<Rightarrow> gtime \<Rightarrow> market_tick option" where
  "bitget_to_market_tick D d m ts received =
     (case read_quote D (gt_bid d) (gt_ask d) of
        None \<Rightarrow> None
      | Some q \<Rightarrow> (case lib_parse D (gt_volume d) of
          None \<Rightarrow> None
        | Some v \<Rightarrow> Some (tick_of ''BITGET'' (remove_chars ''-_'' (gt_inst_id d)) m q v ts received)))"

text \<open>The times of the exchange, of the row or of the message, with the local time as the last resort.\<close>

definition bitget_event_time :: "gtime \<Rightarrow> int \<Rightarrow> int \<Rightarrow> gtime" where
  "bitget_event_time now row_ts message_ts =
     (if row_ts > 0 then unix_milli row_ts else if message_ts > 0 then unix_milli message_ts else now)"

text \<open>On the futures market a row may carry a funding rate. A failed update ends the connection before the
  tick of its row is submitted.\<close>

definition bitget_funding_row ::
  "dec_lib \<Rightarrow> gtime \<Rightarrow> market_type \<Rightarrow> bool \<Rightarrow> bitget_ticker \<Rightarrow> gtime \<Rightarrow> funding_manager \<Rightarrow> funding_manager \<times> bool" where
  "bitget_funding_row D clock m has_sink d ts fm =
     (if m = MarketTypeFutures \<and> has_sink \<and> gt_funding_rate d \<noteq> [] then
        (case lib_parse D (gt_funding_rate d) of
           None \<Rightarrow> (fm, False)
         | Some rate \<Rightarrow> sink_funding clock ''BITGET'' (gt_inst_id d) rate (unix_milli (gt_next_funding d)) ts fm)
      else (fm, False))"

fun bitget_rows ::
  "dec_lib \<Rightarrow> gtime \<Rightarrow> gtime \<Rightarrow> (bitget_ticker \<Rightarrow> gtime) \<Rightarrow> market_type \<Rightarrow> bool \<Rightarrow> int \<Rightarrow> bitget_ticker list
   \<Rightarrow> funding_manager \<Rightarrow> market_tick list \<times> funding_manager \<times> bool" where
  "bitget_rows D clock now received m has_sink message_ts [] fm = ([], fm, False)"
| "bitget_rows D clock now received m has_sink message_ts (d # ds) fm =
     (let ts = bitget_event_time now (gt_ts d) message_ts in
      case bitget_funding_row D clock m has_sink d ts fm of (fm1, err) \<Rightarrow>
        if err then ([], fm1, True)
        else case bitget_rows D clock now received m has_sink message_ts ds fm1 of (out, fm2, err2) \<Rightarrow>
          ((case bitget_to_market_tick D d m ts (received d) of None \<Rightarrow> out | Some t \<Rightarrow> t # out), fm2, err2))"

definition bitget_ticker_frame ::
  "dec_lib \<Rightarrow> gtime \<Rightarrow> gtime \<Rightarrow> (bitget_ticker \<Rightarrow> gtime) \<Rightarrow> market_type \<Rightarrow> bool \<Rightarrow> string \<Rightarrow> string \<Rightarrow> int
   \<Rightarrow> bitget_ticker list \<Rightarrow> funding_manager \<Rightarrow> market_tick list \<times> funding_manager \<times> bool" where
  "bitget_ticker_frame D clock now received m has_sink event code message_ts rows fm =
     (if event \<noteq> [] then ([], fm, event = ''error'' \<or> (code \<noteq> [] \<and> code \<noteq> ''0''))
      else if rows = [] then ([], fm, False)
      else bitget_rows D clock now received m has_sink message_ts rows fm)"

section \<open>Candles\<close>

record bitget_candles =
  gc_event :: string
  gc_code :: string
  gc_inst_id :: string
  gc_rows :: "string list list"
  gc_ts :: int

definition bitget_candle :: "dec_lib \<Rightarrow> market_type \<Rightarrow> bitget_candles \<Rightarrow> string list \<Rightarrow> market_candle option" where
  "bitget_candle D m r d =
     (if length d < 8 then None
      else (let start = parse_int_value (d ! 0); q = (if d ! 7 = [] then d ! 6 else d ! 7) in
            case read_volume D q of
              None \<Rightarrow> None
            | Some v \<Rightarrow> Some (candle_of ''BITGET'' (gc_inst_id r) m (unix_milli start) (unix_milli (wrap64 (start + 59999))) v
                (unix_milli (gc_ts r)) False)))"

definition bitget_candle_frame ::
  "dec_lib \<Rightarrow> gtime \<Rightarrow> market_type \<Rightarrow> bitget_candles \<Rightarrow> volume_engine \<Rightarrow> volume_engine \<times> bool" where
  "bitget_candle_frame D clock m r ve =
     (if gc_event r = ''error'' \<or> (gc_code r \<noteq> [] \<and> gc_code r \<noteq> ''0'') then (ve, True)
      else if gc_rows r = [] \<or> gc_inst_id r = [] then (ve, False)
      else (fold (update_candle clock) (List.map_filter (bitget_candle D m r) (gc_rows r)) ve, False))"

section \<open>Connections\<close>

text \<open>A text of the ticker connection, \<open>None\<close> for a pong or a text that is no response: the clocks, the event, the
  code, the time and the rows.\<close>

type_synonym bitget_text = "(gtime \<times> gtime \<times> (bitget_ticker \<Rightarrow> gtime) \<times> string \<times> string \<times> int \<times> bitget_ticker list) option"

definition bitget_ticker_message :: "dec_lib \<Rightarrow> market_type \<Rightarrow> bool \<Rightarrow> (bitget_text, funding_manager, market_tick) handler" where
  "bitget_ticker_message D m has_sink text_frame fm =
     (case text_frame of
        None \<Rightarrow> (fm, [], False)
      | Some (clock, now, received, event, code, ts, rows) \<Rightarrow>
          (case bitget_ticker_frame D clock now received m has_sink event code ts rows fm of (out, fm', err) \<Rightarrow> (fm', out, err)))"

definition bitget_link :: link_policy where
  "bitget_link = message_link (25 * nano_second + 10 * nano_second)"

definition bitget_fetch_symbols :: "string \<Rightarrow> (string \<times> bitget_info list) option \<Rightarrow> string list option" where
  "bitget_fetch_symbols inst_type answer =
     (case answer of
        None \<Rightarrow> None
      | Some (code, rows) \<Rightarrow>
          if inst_type = ''USDT-FUTURES'' then bitget_futures_symbols code rows else bitget_spot_symbols code rows)"

text \<open>The requests hold at most 50 instruments.\<close>

definition bitget_requests :: "string list \<Rightarrow> string list list" where
  "bitget_requests symbols = slices 50 symbols"

text \<open>The symbols are fetched before the dial; \<open>t\<close> is the time of the answer.\<close>

definition bitget_connect_and_read ::
  "dec_lib \<Rightarrow> string \<Rightarrow> market_type \<Rightarrow> bool \<Rightarrow> gtime option \<Rightarrow> gtime
    \<Rightarrow> gtime \<times> (string \<times> bitget_info list) option \<times> (bitget_text, funding_manager) session_script
    \<Rightarrow> funding_manager \<Rightarrow> funding_manager \<times> market_tick list \<times> outcome" where
  "bitget_connect_and_read D inst_type m has_sink cancel started w fm =
     (let (t, answer, sc) = w in
      case bitget_fetch_symbols inst_type answer of
        None \<Rightarrow> (fm, [], Ended t (Some SymbolsFail))
      | Some symbols \<Rightarrow>
          if length symbols = 0 then (fm, [], Ended t (Some NoSymbols))
          else run_session bitget_link cancel (bitget_ticker_message D m has_sink) (length (bitget_requests symbols)) sc fm)"

definition bitget_listen where
  "bitget_listen D inst_type m has_sink cancel attempts fm =
     supervise ticker_loop cancel (bitget_connect_and_read D inst_type m has_sink cancel) id reconnect_backoff attempts fm"

text \<open>\<open>has_sink\<close>: the funding stream has stored its sink, which the futures stream waits for.\<close>

definition bitget_connect_spot where
  "bitget_connect_spot D has_sink cancel attempts fm = bitget_listen D ''SPOT'' MarketTypeSpot has_sink cancel attempts fm"

definition bitget_connect_futures where
  "bitget_connect_futures D has_sink cancel attempts fm =
     (if has_sink then bitget_listen D ''USDT-FUTURES'' MarketTypeFutures has_sink cancel attempts fm
      else (fm, [], [], cancel \<noteq> None))"

text \<open>The funding stream stores the sink and waits; its result tells that it has returned, \<open>None\<close> is the error for
  a missing sink.\<close>

definition bitget_connect_funding :: "bool \<Rightarrow> gtime option \<Rightarrow> bool option" where
  "bitget_connect_funding has_sink cancel = (if \<not> has_sink then None else Some (cancel \<noteq> None))"

definition bitget_keep_alive :: "ping_tick list \<Rightarrow> string list \<times> bool" where
  "bitget_keep_alive ticks = keep_alive ''ping'' ticks"

text \<open>A text of the candle connection with the clock of the engine.\<close>

definition bitget_candle_message ::
  "dec_lib \<Rightarrow> market_type \<Rightarrow> ((gtime \<times> bitget_candles) option, volume_engine, market_tick) handler" where
  "bitget_candle_message D m text_frame ve =
     (case text_frame of
        None \<Rightarrow> (ve, [], False)
      | Some (clock, r) \<Rightarrow> (case bitget_candle_frame D clock m r ve of (ve', err) \<Rightarrow> (ve', [], err)))"

definition bitget_read_candle_shard where
  "bitget_read_candle_shard D m cancel symbols sc ve =
     run_session candle_link cancel (bitget_candle_message D m) (length (bitget_requests symbols)) sc ve"

definition bitget_candle_turn ::
  "dec_lib \<Rightarrow> market_type \<Rightarrow> gtime option \<Rightarrow> gtime
    \<Rightarrow> gtime \<times> (string \<times> bitget_info list) option \<times> ((gtime \<times> bitget_candles) option, volume_engine) session_script
    \<Rightarrow> volume_engine \<Rightarrow> volume_engine \<times> market_tick list \<times> outcome" where
  "bitget_candle_turn D m cancel started w ve =
     (let (t, answer, sc) = w in
      case bitget_fetch_symbols (if m = MarketTypeSpot then ''SPOT'' else ''USDT-FUTURES'') answer of
        None \<Rightarrow> (ve, [], Unlisted t)
      | Some symbols \<Rightarrow> bitget_read_candle_shard D m cancel symbols sc ve)"

definition bitget_run_candle_feed where
  "bitget_run_candle_feed D m cancel attempts ve =
     supervise candle_loop cancel (bitget_candle_turn D m cancel) id reconnect_backoff attempts ve"

section \<open>The two interfaces\<close>

lemma bitget_tick_shape:
  assumes "bitget_to_market_tick D d m ts received = Some t"
  shows "\<exists>q v. read_quote D (gt_bid d) (gt_ask d) = Some q
    \<and> t = tick_of ''BITGET'' (remove_chars ''-_'' (gt_inst_id d)) m q v ts received"
  using assms by (auto simp: bitget_to_market_tick_def split: option.splits)

interpretation bitget_ticks: tick_source
  "\<lambda>(D, d, spot, ts, received). bitget_to_market_tick D d (market_of spot) ts received"
  "''BITGET''" "\<lambda>(D, d, spot, ts, received). received"
  by unfold_locales (auto simp: string_eval dest!: bitget_tick_shape intro: proper_tick_of)

interpretation bitget_feeds: aligned_feeds "''BITGET''" "contract_name []" "remove_chars ''-_''" id id
  by unfold_locales (simp_all add: feed_keys [of "[]" _ "''-_''"] plain_keys [of "[]"])

section \<open>Whole runs\<close>

lemma bitget_rows_keep:
  "funding_ok fm \<Longrightarrow> bitget_rows D clock now received m has_sink ts rows fm = (out, fm', err) \<Longrightarrow> funding_ok fm'"
proof (induction rows arbitrary: fm out fm' err)
  case (Cons d rows)
  let ?t = "bitget_event_time now (gt_ts d) ts"
  obtain fm1 e1 where f: "bitget_funding_row D clock m has_sink d ?t fm = (fm1, e1)" by fastforce
  have "funding_ok (fst (bitget_funding_row D clock m has_sink d ?t fm))"
    using Cons.prems(1) by (auto simp: bitget_funding_row_def funding_ok_sink split: option.split)
  then have ok: "funding_ok fm1" by (simp add: f)
  obtain out2 fm2 e2 where r: "bitget_rows D clock now received m has_sink ts rows fm1 = (out2, fm2, e2)"
    by (metis prod_cases3)
  show ?case using Cons.prems(2) Cons.IH [OF ok r] ok by (auto simp: Let_def f r split: if_splits)
qed simp

interpretation bitget_ticker_feed: feed "bitget_ticker_message D m has_sink" funding_ok "\<lambda>t. True" for D m has_sink
  by unfold_locales
    (auto simp: bitget_ticker_message_def bitget_ticker_frame_def list_all_iff split: option.splits prod.splits if_splits
      dest: bitget_rows_keep)

interpretation bitget_ticker_runs: feed_run "bitget_connect_and_read D inst_type m has_sink cancel"
  "\<lambda>(t, answer, sc). legal_events funding_ok (sc_events sc)" funding_ok "\<lambda>t. True" for D inst_type m has_sink cancel
  by unfold_locales
    (auto simp: bitget_connect_and_read_def Let_def split: if_splits option.splits dest: bitget_ticker_feed.session_keeps)

lemma bitget_listen_ok:
  assumes "list_all (\<lambda>a. legal_events funding_ok (sc_events (snd (snd (at_world a))))) attempts" and "funding_ok fm"
  shows "funding_ok (fst (bitget_listen D inst_type m has_sink cancel attempts fm))"
  unfolding bitget_listen_def using assms
  by (intro bitget_ticker_runs.supervise_result) (auto simp: list_all_iff case_prod_beta)

text \<open>The ticks need no assumption on the funding manager.\<close>

lemma bitget_rows_ticks:
  "bitget_rows D clock now received (market_of spot) has_sink ts rows fm = (out, fm', err) \<Longrightarrow> list_all (tick_from ''BITGET'') out"
proof (induction rows arbitrary: fm out fm' err)
  case (Cons d rows)
  let ?t = "bitget_event_time now (gt_ts d) ts"
  obtain fm1 e1 where f: "bitget_funding_row D clock (market_of spot) has_sink d ?t fm = (fm1, e1)" by fastforce
  obtain out2 fm2 e2 where r: "bitget_rows D clock now received (market_of spot) has_sink ts rows fm1 = (out2, fm2, e2)"
    by (metis prod_cases3)
  have "tick_from ''BITGET'' x" if "bitget_to_market_tick D d (market_of spot) ?t (received d) = Some x" for x
    using bitget_ticks.source_proper [of "(D, d, spot, ?t, received d)" x] that by (auto intro: tick_from_proper)
  then show ?case using Cons.prems Cons.IH [OF r]
    by (auto simp: Let_def f r split: if_splits option.splits)
qed simp

interpretation bitget_tick_feed: feed "bitget_ticker_message D (market_of spot) has_sink" "\<lambda>fm. True" "tick_from ''BITGET''"
  for D spot has_sink
  by unfold_locales
    (auto simp: bitget_ticker_message_def bitget_ticker_frame_def split: option.splits prod.splits if_splits dest: bitget_rows_ticks)

interpretation bitget_tick_runs: feed_run "bitget_connect_and_read D inst_type (market_of spot) has_sink cancel"
  "\<lambda>w. True" "\<lambda>fm. True" "tick_from ''BITGET''" for D inst_type spot has_sink cancel
  by unfold_locales
    (auto simp: bitget_connect_and_read_def Let_def split: if_splits option.splits
      dest: bitget_tick_feed.session_keeps [OF legal_trivial TrueI])

lemma bitget_listen_ticks:
  "list_all (tick_from ''BITGET'') (fst (snd (bitget_listen D inst_type (market_of spot) has_sink cancel attempts fm)))"
  unfolding bitget_listen_def by (rule bitget_tick_runs.supervise_result) (simp_all add: list_all_iff)

interpretation bitget_candle_feed: feed "bitget_candle_message D m" volume_ok "\<lambda>t. True" for D m
  by unfold_locales
    (auto simp: bitget_candle_message_def bitget_candle_frame_def list_all_iff volume_ok_candles split: option.splits if_splits)

interpretation bitget_candle_runs: feed_run "bitget_candle_turn D m cancel"
  "\<lambda>(t, answer, sc). legal_events volume_ok (sc_events sc)" volume_ok "\<lambda>t. True" for D m cancel
  by unfold_locales
    (auto simp: bitget_candle_turn_def bitget_read_candle_shard_def Let_def split: option.splits dest: bitget_candle_feed.session_keeps)

lemma bitget_candle_runs_ok:
  assumes "list_all (\<lambda>a. legal_events volume_ok (sc_events (snd (snd (at_world a))))) attempts" and "volume_ok ve"
  shows "volume_ok (fst (bitget_run_candle_feed D m cancel attempts ve))"
  unfolding bitget_run_candle_feed_def using assms
  by (intro bitget_candle_runs.supervise_result) (auto simp: list_all_iff case_prod_beta)

end
