(* ===== verification/Gateio.thy ===== *)
theory Gateio
  imports Adapter_Base
begin

text \<open>
  internal/adapters/gateio/gateio.go: the list of symbols with its five-minute cache, tickers, the volume of
  the futures market that arrives on a channel of its own, funding rates, candles and connections of Gate.io.
  Instruments are called \<open>BTC_USDT\<close> on both markets.
\<close>

section \<open>Symbols\<close>

record gate_spot_info =
  gs_id :: string
  gs_quote :: string
  gs_trade_status :: string

record gate_futures_info =
  gf_name :: string
  gf_type :: string
  gf_in_delisting :: bool
  gf_status :: string

definition gate_spot_names :: "gate_spot_info list \<Rightarrow> string list" where
  "gate_spot_names rows = map gs_id (filter (\<lambda>v. gs_quote v = ''USDT''
     \<and> (gs_trade_status v = ''tradable'' \<or> gs_trade_status v = ''trading'' \<or> gs_trade_status v = [])) rows)"

definition gate_futures_names :: "gate_futures_info list \<Rightarrow> string list" where
  "gate_futures_names rows = map gf_name (filter (\<lambda>v. gf_type v = ''direct'' \<and> \<not> gf_in_delisting v
     \<and> (gf_status v = ''open'' \<or> gf_status v = ''trading'' \<or> gf_status v = [])) rows)"

text \<open>One time of loading serves both lists. \<open>response\<close> is what the request returns, \<open>loaded\<close> the
  reading of the clock after it.\<close>

record gate_symbols =
  sy_spot :: "string list"
  sy_futures :: "string list"
  sy_loaded_at :: gtime

definition gate_get_symbols ::
  "gtime \<Rightarrow> gtime \<Rightarrow> (gate_spot_info list option) \<Rightarrow> (gate_futures_info list option) \<Rightarrow> bool \<Rightarrow> gate_symbols
   \<Rightarrow> gate_symbols \<times> string list option" where
  "gate_get_symbols now loaded spot_response futures_response spot a =
     (if time_sub now (sy_loaded_at a) < 5 * nano_minute \<and> spot \<and> sy_spot a \<noteq> [] then (a, Some (sy_spot a))
      else if time_sub now (sy_loaded_at a) < 5 * nano_minute \<and> \<not> spot \<and> sy_futures a \<noteq> [] then (a, Some (sy_futures a))
      else case (if spot then map_option gate_spot_names spot_response
                 else map_option gate_futures_names futures_response) of
        None \<Rightarrow> (a, None)
      | Some symbols \<Rightarrow>
          if symbols = [] then (a, None)
          else ((if spot then a\<lparr>sy_spot := symbols\<rparr> else a\<lparr>sy_futures := symbols\<rparr>)\<lparr>sy_loaded_at := loaded\<rparr>, Some symbols))"

section \<open>Tickers\<close>

record gate_ticker =
  gk_pair :: string
  gk_bid :: string
  gk_ask :: string
  gk_volume :: string

definition gate_spot_ticker_to_tick :: "dec_lib \<Rightarrow> gate_ticker \<Rightarrow> gtime \<Rightarrow> gtime \<Rightarrow> market_tick option" where
  "gate_spot_ticker_to_tick D d ts received =
     (case read_quote D (gk_bid d) (gk_ask d) of
        None \<Rightarrow> None
      | Some q \<Rightarrow> (case lib_parse D (gk_volume d) of
          None \<Rightarrow> None
        | Some v \<Rightarrow> Some (tick_of ''GATEIO'' (remove_chars ''_-'' (gk_pair d)) MarketTypeSpot q v ts received)))"

definition gate_spot_frame ::
  "dec_lib \<Rightarrow> gtime \<Rightarrow> gtime \<Rightarrow> string \<Rightarrow> string \<Rightarrow> gate_ticker \<Rightarrow> market_tick option" where
  "gate_spot_frame D now received event channel d =
     (if event \<noteq> ''update'' \<or> channel \<noteq> ''spot.tickers'' \<or> gk_pair d = [] then None
      else gate_spot_ticker_to_tick D d now received)"

record gate_book_ticker =
  gb_contract :: string
  gb_bid :: string
  gb_ask :: string

definition gate_book_ticker_to_tick :: "dec_lib \<Rightarrow> gate_book_ticker \<Rightarrow> gtime \<Rightarrow> gtime \<Rightarrow> market_tick option" where
  "gate_book_ticker_to_tick D d ts received =
     (case read_quote D (gb_bid d) (gb_ask d) of
        None \<Rightarrow> None
      | Some q \<Rightarrow> Some (tick_of ''GATEIO'' (remove_chars ''_-'' (gb_contract d)) MarketTypeFutures q 0 ts received))"

text \<open>
  A message of the futures connection. The volumes of \<open>futures.tickers\<close> are kept by contract; a quote of
  \<open>futures.book_ticker\<close> leaves with the volume known so far.
\<close>

datatype gate_futures_message = GateVolumes "(string \<times> string) list" | GateBook gate_book_ticker | GateOther

definition gate_volume_row :: "dec_lib \<Rightarrow> string \<times> string \<Rightarrow> (string, dec) gomap \<Rightarrow> (string, dec) gomap" where
  "gate_volume_row D row vols =
     (case row of (contract, volume) \<Rightarrow>
        if contract = [] then vols
        else case read_volume D volume of None \<Rightarrow> vols | Some v \<Rightarrow> mput contract v vols)"

definition gate_futures_frame ::
  "dec_lib \<Rightarrow> gtime \<Rightarrow> gtime \<Rightarrow> gate_futures_message \<Rightarrow> (string, dec) gomap \<Rightarrow> (string, dec) gomap \<times> market_tick option" where
  "gate_futures_frame D now received msg vols =
     (case msg of
        GateVolumes rows \<Rightarrow> (fold (gate_volume_row D) rows vols, None)
      | GateBook b \<Rightarrow>
          (vols, if gb_contract b = [] then None
                 else case gate_book_ticker_to_tick D b now received of
                   None \<Rightarrow> None
                 | Some tick \<Rightarrow>
                     (let vol = (case map_of vols (gb_contract b) of None \<Rightarrow> 0 | Some v \<Rightarrow> v)
                      in Some (if vol \<noteq> 0 then tick\<lparr>mt_volume := vol\<rparr> else tick)))
      | GateOther \<Rightarrow> (vols, None))"

section \<open>Funding rates\<close>

record gate_contract =
  gn_name :: string
  gn_funding_rate :: string
  gn_next_apply :: int
  gn_status :: string

definition gate_funding_row ::
  "dec_lib \<Rightarrow> gtime \<Rightarrow> gtime \<Rightarrow> gate_contract \<Rightarrow> funding_manager \<Rightarrow> funding_manager \<times> bool" where
  "gate_funding_row D clock now row fm =
     (if gn_status row \<noteq> ''trading'' then (fm, False)
      else case lib_parse D (gn_funding_rate row) of
        None \<Rightarrow> (fm, False)
      | Some rate \<Rightarrow> sink_funding clock ''GATEIO'' (remove_chars ''_'' (gn_name row)) rate
          (unix_seconds (gn_next_apply row)) now fm)"

definition gate_poll_funding ::
  "dec_lib \<Rightarrow> gtime \<Rightarrow> gtime \<Rightarrow> gate_contract list option \<Rightarrow> funding_manager \<Rightarrow> funding_manager \<times> bool" where
  "gate_poll_funding D clock now response fm =
     (case response of None \<Rightarrow> (fm, True) | Some rows \<Rightarrow> feed_rows (gate_funding_row D clock now) rows fm)"

section \<open>Candles\<close>

text \<open>A spot candle is one object, a futures candle the first of an array; its name carries the interval
  before the first underscore.\<close>

record gate_candle =
  ga_time :: int
  ga_name :: string
  ga_quote :: string
  ga_closed :: bool

definition gate_candle_of :: "dec_lib \<Rightarrow> gtime \<Rightarrow> market_type \<Rightarrow> int \<Rightarrow> gate_candle \<Rightarrow> market_candle option" where
  "gate_candle_of D now m time_ms d =
     (if ga_name d = [] \<or> ga_time d = 0 then None
      else case read_volume D (ga_quote d) of
        None \<Rightarrow> None
      | Some v \<Rightarrow> (case split_two CHR ''_'' (ga_name d) of
          [_, sy] \<Rightarrow> Some (candle_of ''GATEIO'' (remove_chars ''_'' sy) m (unix_seconds (ga_time d))
             (minute_end (unix_seconds (ga_time d))) v (event_time_or now time_ms)
             (m = MarketTypeSpot \<and> ga_closed d))
        | _ \<Rightarrow> None))"

definition gate_candle_frame ::
  "dec_lib \<Rightarrow> gtime \<Rightarrow> gtime \<Rightarrow> market_type \<Rightarrow> string \<Rightarrow> bool \<Rightarrow> int \<Rightarrow> gate_candle list \<Rightarrow> volume_engine
   \<Rightarrow> volume_engine \<times> bool" where
  "gate_candle_frame D clock now m event own_channel time_ms ds ve =
     (if event = ''error'' then (ve, True)
      else if event \<noteq> ''update'' \<or> \<not> own_channel \<or> ds = [] then (ve, False)
      else case gate_candle_of D now m time_ms (hd ds) of
        None \<Rightarrow> (ve, False) | Some c \<Rightarrow> (update_candle clock c ve, False))"

section \<open>Connections\<close>

text \<open>What the adapter gets when it asks for symbols: the clock before and after, and the two responses.\<close>

type_synonym gate_answer = "gtime \<times> gtime \<times> gate_spot_info list option \<times> gate_futures_info list option"

definition gate_symbols_for :: "bool \<Rightarrow> gate_answer \<Rightarrow> gate_symbols \<Rightarrow> gate_symbols \<times> string list option" where
  "gate_symbols_for spot answer a =
     (case answer of (now, loaded, spot_response, futures_response) \<Rightarrow>
        gate_get_symbols now loaded spot_response futures_response spot a)"

definition gate_link :: link_policy where
  "gate_link = message_link (10 * nano_second + 10 * nano_second)"

text \<open>The requests of a connection hold at most 100 instruments. The futures connection sends each of them on
  two channels.\<close>

definition gate_spot_requests :: "string list \<Rightarrow> (string \<times> string list) list" where
  "gate_spot_requests symbols = map (Pair ''spot.tickers'') (slices 100 symbols)"

definition gate_futures_requests :: "string list \<Rightarrow> (string \<times> string list) list" where
  "gate_futures_requests symbols =
     concat (map (\<lambda>batch. [(''futures.book_ticker'', batch), (''futures.tickers'', batch)]) (slices 100 symbols))"

text \<open>A text is \<open>None\<close> when it cannot be decoded; otherwise the two clocks, the event, the channel and the row.\<close>

definition gate_spot_message ::
  "dec_lib \<Rightarrow> ((gtime \<times> gtime \<times> string \<times> string \<times> gate_ticker) option, gate_symbols, market_tick) handler" where
  "gate_spot_message D text_frame a =
     (case text_frame of
        None \<Rightarrow> (a, [], False)
      | Some (now, received, event, channel, d) \<Rightarrow>
          (a, case gate_spot_frame D now received event channel d of None \<Rightarrow> [] | Some t \<Rightarrow> [t], False))"

text \<open>The state of the connection is the map of volumes.\<close>

definition gate_futures_text ::
  "dec_lib \<Rightarrow> (gtime \<times> gtime \<times> gate_futures_message, (string, dec) gomap \<times> gate_symbols, market_tick) handler" where
  "gate_futures_text D text_frame s =
     (case text_frame of (now, received, msg) \<Rightarrow>
        (case gate_futures_frame D now received msg (fst s) of (vols, tick) \<Rightarrow>
           ((vols, snd s), case tick of None \<Rightarrow> [] | Some t \<Rightarrow> [t], False)))"

text \<open>The symbols are asked for after the dial.\<close>

definition gate_connect_spot ::
  "dec_lib \<Rightarrow> gtime option \<Rightarrow> gtime
    \<Rightarrow> gate_answer \<times> ((gtime \<times> gtime \<times> string \<times> string \<times> gate_ticker) option, gate_symbols) session_script
    \<Rightarrow> gate_symbols \<Rightarrow> gate_symbols \<times> market_tick list \<times> outcome" where
  "gate_connect_spot D cancel started w a =
     (let (answer, sc) = w in
      if \<not> sc_dial sc then (a, [], Ended (sc_opened sc) (Some DialFails))
      else case gate_symbols_for True answer a of
        (a1, None) \<Rightarrow> (a1, [], Ended (sc_opened sc) (Some SymbolsFail))
      | (a1, Some symbols) \<Rightarrow>
          run_session gate_link cancel (gate_spot_message D) (length (gate_spot_requests symbols)) sc a1)"

definition gate_connect_futures ::
  "dec_lib \<Rightarrow> gtime option \<Rightarrow> gtime
    \<Rightarrow> gate_answer \<times> (gtime \<times> gtime \<times> gate_futures_message, (string, dec) gomap \<times> gate_symbols) session_script
    \<Rightarrow> gate_symbols \<Rightarrow> gate_symbols \<times> market_tick list \<times> outcome" where
  "gate_connect_futures D cancel started w a =
     (let (answer, sc) = w in
      if \<not> sc_dial sc then (a, [], Ended (sc_opened sc) (Some DialFails))
      else case gate_symbols_for False answer a of
        (a1, None) \<Rightarrow> (a1, [], Ended (sc_opened sc) (Some SymbolsFail))
      | (a1, Some symbols) \<Rightarrow>
          run_local_session gate_link cancel (gate_futures_text D) (length (gate_futures_requests symbols)) sc [] a1)"

definition gate_listen_spot where
  "gate_listen_spot D cancel attempts a =
     supervise ticker_loop_no_reset cancel (gate_connect_spot D cancel) id reconnect_backoff attempts a"

definition gate_listen_futures where
  "gate_listen_futures D cancel attempts a =
     supervise ticker_loop_no_reset cancel (gate_connect_futures D cancel) id reconnect_backoff attempts a"

definition gate_keep_alive :: "string \<Rightarrow> ping_tick list \<Rightarrow> (string \<times> string) list \<times> bool" where
  "gate_keep_alive channel ticks = keep_alive (channel, ''ping'') ticks"

text \<open>The funding rates are polled every ten seconds; without a sink the call is an error.\<close>

definition gate_connect_funding where
  "gate_connect_funding D has_sink polls fm =
     (if \<not> has_sink then None
      else Some (poll_loop (\<lambda>(clock, now, response) fm. fst (gate_poll_funding D clock now response fm)) polls fm))"

text \<open>A candle connection sends one request per symbol. A text: the clocks, the event, whether the channel
  is that of the connection, the time and the decoded candles.\<close>

definition gate_candle_message ::
  "dec_lib \<Rightarrow> market_type
    \<Rightarrow> ((gtime \<times> gtime \<times> string \<times> bool \<times> int \<times> gate_candle list) option, gate_symbols \<times> volume_engine, market_tick) handler" where
  "gate_candle_message D m text_frame s =
     (case text_frame of
        None \<Rightarrow> (s, [], False)
      | Some (clock, now, event, own_channel, time_ms, ds) \<Rightarrow>
          (case gate_candle_frame D clock now m event own_channel time_ms ds (snd s) of (ve, err) \<Rightarrow> ((fst s, ve), [], err)))"

definition gate_read_candle_shard where
  "gate_read_candle_shard D m cancel symbols sc s =
     run_session candle_link cancel (gate_candle_message D m) (length (symbols :: string list)) sc s"

definition gate_candle_turn ::
  "dec_lib \<Rightarrow> bool \<Rightarrow> gtime option \<Rightarrow> gtime
    \<Rightarrow> gtime \<times> gate_answer \<times> ((gtime \<times> gtime \<times> string \<times> bool \<times> int \<times> gate_candle list) option, gate_symbols \<times> volume_engine) session_script
    \<Rightarrow> gate_symbols \<times> volume_engine \<Rightarrow> (gate_symbols \<times> volume_engine) \<times> market_tick list \<times> outcome" where
  "gate_candle_turn D spot cancel started w s =
     (let (t, answer, sc) = w in
      case gate_symbols_for spot answer (fst s) of
        (a1, None) \<Rightarrow> ((a1, snd s), [], Unlisted t)
      | (a1, Some symbols) \<Rightarrow> gate_read_candle_shard D (market_of spot) cancel symbols sc (a1, snd s))"

definition gate_run_candle_feed where
  "gate_run_candle_feed D spot cancel attempts s =
     supervise candle_loop cancel (gate_candle_turn D spot cancel) id reconnect_backoff attempts s"

section \<open>The two interfaces\<close>

lemma gate_spot_shape:
  assumes "gate_spot_ticker_to_tick D d ts received = Some t"
  shows "\<exists>q v. read_quote D (gk_bid d) (gk_ask d) = Some q
    \<and> t = tick_of ''GATEIO'' (remove_chars ''_-'' (gk_pair d)) (market_of True) q v ts received"
  using assms by (auto simp: gate_spot_ticker_to_tick_def market_of_def split: option.splits)

lemma gate_book_shape:
  assumes "gate_book_ticker_to_tick D d ts received = Some t"
  shows "\<exists>q. read_quote D (gb_bid d) (gb_ask d) = Some q
    \<and> t = tick_of ''GATEIO'' (remove_chars ''_-'' (gb_contract d)) (market_of False) q 0 ts received"
  using assms by (auto simp: gate_book_ticker_to_tick_def market_of_def split: option.splits)

lemma proper_tick_volume [simp]: "proper_tick ex rc (t\<lparr>mt_volume := v\<rparr>) = proper_tick ex rc t"
  by (simp add: proper_tick_def)

lemma gate_book_proper:
  "gate_book_ticker_to_tick D d ts received = Some t \<Longrightarrow> proper_tick ''GATEIO'' received t"
  by (auto dest!: gate_book_shape intro: proper_tick_of)

interpretation gate_spot_ticks: tick_source
  "\<lambda>(D, d, ts, received). gate_spot_ticker_to_tick D d ts received" "''GATEIO''" "\<lambda>(D, d, ts, received). received"
  by unfold_locales (auto simp: string_eval dest!: gate_spot_shape intro: proper_tick_of)

lemma gate_frame_proper:
  assumes "snd (gate_futures_frame D now received msg vols) = Some t"
  shows "proper_tick ''GATEIO'' received t"
proof -
  obtain b t0 where "gate_book_ticker_to_tick D b now received = Some t0" and "t = t0 \<or> (\<exists>v. t = t0\<lparr>mt_volume := v\<rparr>)"
    using assms by (auto simp: gate_futures_frame_def Let_def split: gate_futures_message.splits option.splits if_splits)
  then show ?thesis using gate_book_proper by auto
qed

interpretation gate_futures_ticks: tick_source
  "\<lambda>(D, now, received, msg, vols). snd (gate_futures_frame D now received msg vols)" "''GATEIO''"
  "\<lambda>(D, now, received, msg, vols). received"
  by unfold_locales (simp_all add: string_eval split_paired_all gate_frame_proper)

text \<open>The candle of the one-minute channel of a contract.\<close>

definition gate_candle_symbol :: "string \<Rightarrow> string" where
  "gate_candle_symbol raw = (case split_two CHR ''_'' (''1m_'' @ raw) of [_, sy] \<Rightarrow> remove_chars ''_'' sy | _ \<Rightarrow> [])"

lemma gate_candle_symbol_eq: "gate_candle_symbol raw = remove_chars ''_'' raw"
  by (simp add: gate_candle_symbol_def)

interpretation gate_feeds: aligned_feeds "''GATEIO''" "contract_name ''_''" "remove_chars ''_-''" "remove_chars ''_''" gate_candle_symbol
  by unfold_locales (simp_all add: gate_candle_symbol_eq feed_keys [of "''_''" _ "''_-''"] feed_keys [of "''_''" _ "''_''"])

section \<open>Volumes of the futures market\<close>

text \<open>The last readable volume of a contract in a list of messages.\<close>

definition gate_volumes :: "dec_lib \<Rightarrow> string \<Rightarrow> gate_futures_message list \<Rightarrow> dec list" where
  "gate_volumes D contract msgs = List.map_filter (\<lambda>(c, v). if c = contract then read_volume D v else None)
     (concat (map (\<lambda>msg. case msg of GateVolumes rows \<Rightarrow> rows | _ \<Rightarrow> []) msgs))"

lemma gate_volume_rows:
  assumes "contract \<noteq> []"
  shows "map_of (fold (gate_volume_row D) rows vols) contract =
    (case List.map_filter (\<lambda>(c, v). if c = contract then read_volume D v else None) rows of
       [] \<Rightarrow> map_of vols contract | vs \<Rightarrow> Some (last vs))"
proof (induction rows rule: rev_induct)
  case (snoc row rows)
  obtain c v where row: "row = (c, v)" by (cases row)
  show ?case
  proof (cases "c = contract \<and> read_volume D v \<noteq> None")
    case True
    then show ?thesis using assms
      by (auto simp: row gate_volume_row_def map_of_mput map_filter_append List.map_filter_simps last_or)
  next
    case False
    then have "map_of (gate_volume_row D row m) contract = map_of m contract" for m
      by (auto simp: row gate_volume_row_def map_of_mput split: option.split)
    then show ?thesis using snoc False
      by (auto simp: row map_filter_append List.map_filter_simps last_or split: option.split)
  qed
qed (simp add: List.map_filter_simps)

lemma gate_volumes_run:
  assumes "contract \<noteq> []"
  shows "map_of (fold (\<lambda>msg vols. fst (gate_futures_frame D now received msg vols)) msgs vols0) contract =
    (case gate_volumes D contract msgs of [] \<Rightarrow> map_of vols0 contract | vs \<Rightarrow> Some (last vs))"
proof (induction msgs rule: rev_induct)
  case (snoc msg msgs)
  then show ?case
    by (cases msg)
      (auto simp: gate_futures_frame_def gate_volumes_def gate_volume_rows [OF assms] map_filter_append
        List.map_filter_simps last_or)
qed (simp add: gate_volumes_def List.map_filter_simps)

section \<open>Age of the lists\<close>

text \<open>
  The five minutes count from the last load of either list: a list of futures contracts loaded at \<open>t0\<close> is
  still served at \<open>t0 + 8\<close> minutes when the spot list was loaded at \<open>t0 + 4\<close>.
\<close>

lemma gate_list_outlives_cache:
  assumes "gate_futures_names rows \<noteq> []" and "gate_spot_names spots \<noteq> []" and "0 < t0"
    and "fst (gate_get_symbols t0 t0 None (Some rows) False \<lparr>sy_spot = [], sy_futures = [], sy_loaded_at = 0\<rparr>) = a"
    and "fst (gate_get_symbols (t0 + 4 * nano_minute) (t0 + 4 * nano_minute) (Some spots) None True a) = b"
  shows "snd (gate_get_symbols (t0 + 8 * nano_minute) (t0 + 8 * nano_minute) None (Some rows') False b)
    = Some (gate_futures_names rows)"
  using assms by (auto simp: gate_get_symbols_def nano_minute_def time_sub_def)

section \<open>Whole runs\<close>

lemma gate_spot_frame_tick:
  assumes "gate_spot_frame D now received event channel d = Some t"
  shows "tick_from ''GATEIO'' t"
proof -
  have "gate_spot_ticker_to_tick D d now received = Some t"
    using assms by (simp add: gate_spot_frame_def split: if_splits)
  then show ?thesis using gate_spot_ticks.source_proper [of "(D, d, now, received)" t] by (auto intro: tick_from_proper)
qed

interpretation gate_spot_feed: feed "gate_spot_message D" "\<lambda>a. True" "tick_from ''GATEIO''" for D
  by unfold_locales (auto simp: gate_spot_message_def split: option.splits dest: gate_spot_frame_tick)

interpretation gate_spot_runs: feed_run "gate_connect_spot D cancel" "\<lambda>w. True" "\<lambda>a. True" "tick_from ''GATEIO''" for D cancel
  by unfold_locales
    (auto simp: gate_connect_spot_def Let_def split: if_splits option.splits prod.splits
      dest: gate_spot_feed.session_keeps [OF legal_trivial TrueI])

interpretation gate_futures_feed: local_feed "gate_futures_text D" "\<lambda>a. True" "tick_from ''GATEIO''" for D
proof
  fix m and s s' :: "(string, dec) gomap \<times> gate_symbols" and out err
  assume m: "gate_futures_text D m s = (s', out, err)"
  obtain now received msg where t: "m = (now, received, msg)" by (metis prod_cases3)
  have "list_all (tick_from ''GATEIO'') out" using m
    by (auto simp: gate_futures_text_def t split: prod.splits option.splits
        intro!: tick_from_proper [OF gate_frame_proper [of D now received msg "fst s"]])
  then show "(case s' of (c, a) \<Rightarrow> True) \<and> list_all (tick_from ''GATEIO'') out" by (simp add: case_prod_beta)
qed

interpretation gate_futures_runs: feed_run "gate_connect_futures D cancel" "\<lambda>w. True" "\<lambda>a. True" "tick_from ''GATEIO''" for D cancel
  by unfold_locales
    (auto simp: gate_connect_futures_def Let_def split: if_splits option.splits prod.splits
      dest: gate_futures_feed.local_session_keeps [OF legal_pair TrueI])

lemma gate_listen_ticks:
  "list_all (tick_from ''GATEIO'') (fst (snd (gate_listen_spot D cancel attempts a)))"
  "list_all (tick_from ''GATEIO'') (fst (snd (gate_listen_futures D cancel attempts2 a)))"
  unfolding gate_listen_spot_def gate_listen_futures_def
  by (rule gate_spot_runs.supervise_result gate_futures_runs.supervise_result; simp add: list_all_iff)+

lemma gate_funding_ok:
  assumes "funding_ok fm" and "gate_connect_funding D has_sink polls fm = Some (fm', over)"
  shows "funding_ok fm'"
proof -
  have row: "funding_ok fm \<Longrightarrow> funding_ok (fst (gate_funding_row D clock now row fm))" for clock now row fm
    by (auto simp: gate_funding_row_def funding_ok_sink split: option.split)
  have "funding_ok (fst (poll_loop (\<lambda>(clock, now, response) fm. fst (gate_poll_funding D clock now response fm)) polls fm))"
    using assms(1) by (rule poll_loop_keeps [rotated])
      (auto simp: gate_poll_funding_def funding_ok_rows row split: option.split)
  then show ?thesis using assms(2) by (simp add: gate_connect_funding_def split: if_splits)
qed

interpretation gate_candle_feed: feed "gate_candle_message D m" "volume_ok \<circ> snd" "\<lambda>t. True" for D m
  by unfold_locales
    (auto simp: gate_candle_message_def gate_candle_frame_def list_all_iff volume_ok_update
      split: option.splits if_splits prod.splits)

interpretation gate_candle_runs: feed_run "gate_candle_turn D spot cancel"
  "\<lambda>(t, answer, sc). legal_events (volume_ok \<circ> snd) (sc_events sc)" "volume_ok \<circ> snd" "\<lambda>t. True" for D spot cancel
proof
  fix w and s s' :: "gate_symbols \<times> volume_engine" and out r t
  assume l: "case w of (t, answer, sc) \<Rightarrow> legal_events (volume_ok \<circ> snd) (sc_events sc)" and s: "(volume_ok \<circ> snd) s"
    and run: "gate_candle_turn D spot cancel t w s = (s', out, r)"
  obtain u answer sc where w: "w = (u, answer, sc)" by (metis prod_cases3)
  obtain a1 symbols where g: "gate_symbols_for spot answer (fst s) = (a1, symbols)" by fastforce
  have "(volume_ok \<circ> snd) (a1, snd s)" using s by simp
  from gate_candle_feed.session_keeps [OF _ this] show "(volume_ok \<circ> snd) s' \<and> list_all (\<lambda>t. True) out" using run l s
    by (cases symbols) (auto simp: gate_candle_turn_def gate_read_candle_shard_def Let_def w g)
qed

lemma gate_candle_runs_ok:
  assumes "list_all (\<lambda>a. legal_events (volume_ok \<circ> snd) (sc_events (snd (snd (at_world a))))) attempts" and "volume_ok (snd s)"
  shows "volume_ok (snd (fst (gate_run_candle_feed D spot cancel attempts s)))"
  unfolding gate_run_candle_feed_def using assms gate_candle_runs.supervise_result(1) [of attempts s id]
  by (auto simp: list_all_iff case_prod_beta)

end
