(* ===== verification/Kucoin.thy ===== *)
theory Kucoin
  imports Adapter_Base
begin

text \<open>
  internal/adapters/kucoin/kucoin.go: tickers of both markets, funding rates by polling, the address of the
  stream, candles and connections of KuCoin. An instrument is called BTC-USDT on the spot market and XBTUSDTM on the
  futures market; only the tickers translate the second form.
\<close>

section \<open>Names\<close>

definition kucoin_normalize_symbol :: "string \<Rightarrow> market_type \<Rightarrow> string option" where
  "kucoin_normalize_symbol s m =
     (if m = MarketTypeSpot then Some (remove_chars ''-'' s)
      else if \<not> has_suffix s ''USDTM'' \<and> \<not> has_suffix s ''USDM'' then None
      else (let s1 = trim_suffix s ''M'' in
            if has_prefix s1 ''XBT'' then Some (''BTC'' @ drop 3 s1) else Some s1))"

section \<open>Tickers\<close>

record kucoin_ticker =
  kt_symbol :: string
  kt_bid :: string
  kt_ask :: string
  kt_bid_price :: string
  kt_ask_price :: string
  kt_vol_value :: string
  kt_turnover :: string
  kt_turnover24h :: string

definition kucoin_bid :: "market_type \<Rightarrow> kucoin_ticker \<Rightarrow> string" where
  "kucoin_bid m d = (if m = MarketTypeFutures \<and> (kt_bid d = [] \<or> kt_bid d = ''0'') then kt_bid_price d else kt_bid d)"

definition kucoin_ask :: "market_type \<Rightarrow> kucoin_ticker \<Rightarrow> string" where
  "kucoin_ask m d = (if m = MarketTypeFutures \<and> (kt_ask d = [] \<or> kt_ask d = ''0'') then kt_ask_price d else kt_ask d)"

text \<open>The volume of the first field that is not empty, zero when all are; \<open>None\<close> when it is no number.\<close>

definition kucoin_volume :: "dec_lib \<Rightarrow> kucoin_ticker \<Rightarrow> dec option" where
  "kucoin_volume D d =
     (let s1 = kt_vol_value d;
          s2 = (if s1 = [] then kt_turnover24h d else s1);
          s3 = (if s2 = [] then kt_turnover d else s2)
      in if s3 \<noteq> [] then lib_parse D s3 else Some 0)"

text \<open>The tick has no \<open>Timestamp\<close>; one reading of the clock gives the two other times.\<close>

definition kucoin_to_market_tick :: "dec_lib \<Rightarrow> kucoin_ticker \<Rightarrow> market_type \<Rightarrow> gtime \<Rightarrow> market_tick option" where
  "kucoin_to_market_tick D d m now =
     (case lib_parse D (kucoin_bid m d) of
        None \<Rightarrow> None
      | Some bid \<Rightarrow>
          if bid = 0 then None
          else case lib_parse D (kucoin_ask m d) of
            None \<Rightarrow> None
          | Some ask \<Rightarrow>
              if ask = 0 then None
              else case kucoin_normalize_symbol (kt_symbol d) m of
                None \<Rightarrow> None
              | Some symbol \<Rightarrow> (case kucoin_volume D d of
                  None \<Rightarrow> None
                | Some v \<Rightarrow>
                    if bid > ask then None
                    else Some \<lparr>mt_exchange = ''KUCOIN'', mt_symbol = symbol, mt_market = m, mt_bid = bid, mt_ask = ask,
                      mt_volume = v, mt_event_time = now, mt_received_at = now, mt_timestamp = 0\<rparr>))"

definition kucoin_ticker_frame ::
  "dec_lib \<Rightarrow> gtime \<Rightarrow> market_type \<Rightarrow> string \<Rightarrow> kucoin_ticker \<Rightarrow> market_tick option" where
  "kucoin_ticker_frame D now m msg_type d =
     (if msg_type \<noteq> ''message'' then None else kucoin_to_market_tick D d m now)"

section \<open>Funding rates\<close>

record kucoin_funding =
  kf_symbol :: string
  kf_rate :: dec
  kf_time :: int

definition kucoin_funding_row ::
  "gtime \<Rightarrow> gtime \<Rightarrow> kucoin_funding \<Rightarrow> funding_manager \<Rightarrow> funding_manager \<times> bool" where
  "kucoin_funding_row clock now v fm =
     sink_funding clock ''KUCOIN'' (remove_chars ''-'' (kf_symbol v)) (kf_rate v) (unix_milli (kf_time v)) now fm"

text \<open>\<open>None\<close> is a failed request; a code other than 200000 is an error too.\<close>

definition kucoin_poll_funding ::
  "gtime \<Rightarrow> gtime \<Rightarrow> (string \<times> kucoin_funding list) option \<Rightarrow> funding_manager \<Rightarrow> funding_manager \<times> bool" where
  "kucoin_poll_funding clock now response fm =
     (case response of
        None \<Rightarrow> (fm, True)
      | Some (code, rows) \<Rightarrow>
          if code \<noteq> ''200000'' then (fm, True) else feed_rows (kucoin_funding_row clock now) rows fm)"

section \<open>The address of the stream\<close>

record kucoin_server =
  ks_endpoint :: string
  ks_ping_interval :: int

text \<open>The token and the servers of the answer; the interval of the keepalive is in nanoseconds and the
  product wraps at 64 bits.\<close>

definition kucoin_ws_endpoint :: "(string \<times> kucoin_server list) option \<Rightarrow> (string \<times> string \<times> gdur) option" where
  "kucoin_ws_endpoint response =
     (case response of
        None \<Rightarrow> None
      | Some (token, servers) \<Rightarrow>
          (case servers of
             [] \<Rightarrow> None
           | srv # _ \<Rightarrow>
               if ks_ping_interval srv \<le> 0 then Some (ks_endpoint srv, token, 18 * nano_second)
               else Some (ks_endpoint srv, token, wrap64 (ks_ping_interval srv * 10 ^ 6))))"

section \<open>Candles\<close>

record kucoin_info =
  ki_symbol :: string
  ki_quote :: string
  ki_enabled :: bool

definition kucoin_candle_symbols :: "market_type \<Rightarrow> kucoin_info list option \<Rightarrow> string list option" where
  "kucoin_candle_symbols m response =
     (case response of
        None \<Rightarrow> None
      | Some rows \<Rightarrow>
          Some (map ki_symbol (filter (\<lambda>v. ki_quote v = ''USDT'' \<and> (m = MarketTypeSpot \<longrightarrow> ki_enabled v)) rows)))"

text \<open>The symbols of one connection, and its topics.\<close>

definition kucoin_candle_shards :: "string list \<Rightarrow> string list list" where
  "kucoin_candle_shards symbols = slices 100 symbols"

definition kucoin_candle_topic :: "market_type \<Rightarrow> string \<Rightarrow> string" where
  "kucoin_candle_topic m s =
     (if m = MarketTypeFutures then ''/contractMarket/limitCandle:'' @ s @ ''_1min''
      else ''/market/candles:'' @ s @ ''_1min'')"

record kucoin_candle =
  kc_type :: string
  kc_code :: string
  kc_symbol :: string
  kc_candles :: "string list"
  kc_time :: int

definition kucoin_candle_of :: "dec_lib \<Rightarrow> gtime \<Rightarrow> market_type \<Rightarrow> kucoin_candle \<Rightarrow> market_candle option" where
  "kucoin_candle_of D now m r =
     (case atoi (kc_candles r ! 0) of
        None \<Rightarrow> None
      | Some start \<Rightarrow> (case read_volume D (kc_candles r ! 6) of
          None \<Rightarrow> None
        | Some v \<Rightarrow> Some (candle_of ''KUCOIN'' (remove_chars ''-'' (kc_symbol r)) m (unix_seconds start)
            (minute_end (unix_seconds start)) v
            (if kc_time r > 0 then unix_epoch + wrap64 (kc_time r * 1000) else now) False)))"

definition kucoin_candle_frame ::
  "dec_lib \<Rightarrow> gtime \<Rightarrow> gtime \<Rightarrow> market_type \<Rightarrow> kucoin_candle \<Rightarrow> volume_engine \<Rightarrow> volume_engine \<times> bool" where
  "kucoin_candle_frame D clock now m r ve =
     (if kc_type r = ''error'' \<or> (kc_code r \<noteq> [] \<and> kc_code r \<noteq> ''200000'') then (ve, True)
      else if kc_type r \<noteq> ''message'' \<or> length (kc_candles r) < 7 then (ve, False)
      else case kucoin_candle_of D now m r of
        None \<Rightarrow> (ve, False) | Some c \<Rightarrow> (update_candle clock c ve, False))"

section \<open>Connections\<close>

type_synonym kucoin_answer = "(string \<times> kucoin_server list) option"

text \<open>The deadline of a ticker connection depends on the interval the server names.\<close>

definition kucoin_link :: "gdur \<Rightarrow> link_policy" where
  "kucoin_link ping = message_link (wrap64 (ping + 10 * nano_second))"

definition kucoin_topic :: "market_type \<Rightarrow> string" where
  "kucoin_topic m = (if m = MarketTypeFutures then ''/contractMarket/ticker:all'' else ''/market/ticker:all'')"

text \<open>A text is \<open>None\<close> when it cannot be decoded; otherwise the clock, the type and the ticker.\<close>

definition kucoin_ticker_message ::
  "dec_lib \<Rightarrow> market_type \<Rightarrow> ((gtime \<times> string \<times> kucoin_ticker) option, unit, market_tick) handler" where
  "kucoin_ticker_message D m text_frame u =
     (case text_frame of
        None \<Rightarrow> (u, [], False)
      | Some (now, msg_type, d) \<Rightarrow>
          (u, case kucoin_ticker_frame D now m msg_type d of None \<Rightarrow> [] | Some t \<Rightarrow> [t], False))"

text \<open>The address is asked for before the dial; \<open>t\<close> is the time of the answer. One topic is subscribed to.\<close>

definition kucoin_connect_and_read ::
  "dec_lib \<Rightarrow> market_type \<Rightarrow> gtime option \<Rightarrow> gtime
    \<Rightarrow> gtime \<times> kucoin_answer \<times> ((gtime \<times> string \<times> kucoin_ticker) option, unit) session_script
    \<Rightarrow> unit \<Rightarrow> unit \<times> market_tick list \<times> outcome" where
  "kucoin_connect_and_read D m cancel started w u =
     (let (t, answer, sc) = w in
      case kucoin_ws_endpoint answer of
        None \<Rightarrow> (u, [], Ended t (Some SymbolsFail))
      | Some (endpoint, token, ping) \<Rightarrow>
          run_session (kucoin_link ping) cancel (kucoin_ticker_message D m) (length [kucoin_topic m]) sc u)"

definition kucoin_listen where
  "kucoin_listen D m cancel attempts =
     supervise ticker_loop cancel (kucoin_connect_and_read D m cancel) id reconnect_backoff attempts ()"

definition kucoin_keep_alive :: "ping_tick list \<Rightarrow> string list \<times> bool" where
  "kucoin_keep_alive ticks = keep_alive ''ping'' ticks"

definition kucoin_connect_funding where
  "kucoin_connect_funding has_sink polls fm =
     (if \<not> has_sink then None
      else Some (poll_loop (\<lambda>(clock, now, response) fm. fst (kucoin_poll_funding clock now response fm)) polls fm))"

definition kucoin_candle_message ::
  "dec_lib \<Rightarrow> market_type \<Rightarrow> ((gtime \<times> gtime \<times> kucoin_candle) option, volume_engine, market_tick) handler" where
  "kucoin_candle_message D m text_frame ve =
     (case text_frame of
        None \<Rightarrow> (ve, [], False)
      | Some (clock, now, r) \<Rightarrow> (case kucoin_candle_frame D clock now m r ve of (ve', err) \<Rightarrow> (ve', [], err)))"

definition kucoin_read_candle_shard ::
  "dec_lib \<Rightarrow> market_type \<Rightarrow> gtime option \<Rightarrow> string list \<Rightarrow> gtime
    \<Rightarrow> gtime \<times> kucoin_answer \<times> ((gtime \<times> gtime \<times> kucoin_candle) option, volume_engine) session_script
    \<Rightarrow> volume_engine \<Rightarrow> volume_engine \<times> market_tick list \<times> outcome" where
  "kucoin_read_candle_shard D m cancel symbols started w ve =
     (let (t, answer, sc) = w in
      case kucoin_ws_endpoint answer of
        None \<Rightarrow> (ve, [], Ended t (Some SymbolsFail))
      | Some (endpoint, token, ping) \<Rightarrow>
          run_session candle_link cancel (kucoin_candle_message D m) (length (map (kucoin_candle_topic m) symbols)) sc ve)"

text \<open>A shard of the candle feed, with a loop of its own, and the loop that starts the shards.\<close>

definition run_kucoin_candle_shard where
  "run_kucoin_candle_shard D m cancel symbols attempts ve =
     supervise candle_loop cancel (kucoin_read_candle_shard D m cancel symbols) id reconnect_backoff attempts ve"

definition kucoin_run_candle_feed where
  "kucoin_run_candle_feed m cancel attempts =
     supervise candle_loop cancel
       (\<lambda>started (t, response, returned) u.
          case kucoin_candle_symbols m response of
            None \<Rightarrow> (u, [], Unlisted t)
          | Some symbols \<Rightarrow> run_shards t returned (kucoin_candle_shards symbols) u)
       id reconnect_backoff attempts ()"

section \<open>Ticks\<close>

lemma kucoin_tick_proper:
  assumes "kucoin_to_market_tick D d (market_of spot) now = Some t"
  shows "proper_tick ''KUCOIN'' now t"
proof -
  have "market_of spot = MarketTypeSpot \<or> market_of spot = MarketTypeFutures" by (simp add: market_of_def)
  then show ?thesis using assms
    by (auto simp: kucoin_to_market_tick_def proper_tick_def split: option.splits if_splits)
qed

interpretation kucoin_ticks: tick_source
  "\<lambda>(D, d, spot, now). kucoin_to_market_tick D d (market_of spot) now" "''KUCOIN''" "\<lambda>(D, d, spot, now). now"
  by unfold_locales (simp_all add: string_eval split_paired_all kucoin_tick_proper)

section \<open>Whole runs\<close>

lemma kucoin_frame_tick:
  assumes "kucoin_ticker_frame D now (market_of spot) msg_type d = Some t"
  shows "tick_from ''KUCOIN'' t"
  using assms by (auto simp: kucoin_ticker_frame_def intro: tick_from_proper kucoin_tick_proper split: if_splits)

interpretation kucoin_ticker_feed: feed "kucoin_ticker_message D (market_of spot)" "\<lambda>u. True" "tick_from ''KUCOIN''" for D spot
  by unfold_locales (auto simp: kucoin_ticker_message_def split: option.splits dest: kucoin_frame_tick)

interpretation kucoin_ticker_runs: feed_run "kucoin_connect_and_read D (market_of spot) cancel" "\<lambda>w. True" "\<lambda>u. True"
  "tick_from ''KUCOIN''" for D spot cancel
  by unfold_locales
    (auto simp: kucoin_connect_and_read_def Let_def split: option.splits
      dest: kucoin_ticker_feed.session_keeps [OF legal_trivial TrueI])

lemma kucoin_listen_ticks:
  "list_all (tick_from ''KUCOIN'') (fst (snd (kucoin_listen D (market_of spot) cancel attempts)))"
  unfolding kucoin_listen_def by (rule kucoin_ticker_runs.supervise_result) (simp_all add: list_all_iff)

lemma kucoin_funding_ok:
  assumes "funding_ok fm" and "kucoin_connect_funding has_sink polls fm = Some (fm', over)"
  shows "funding_ok fm'"
proof -
  have "funding_ok (fst (poll_loop (\<lambda>(clock, now, response) fm. fst (kucoin_poll_funding clock now response fm)) polls fm))"
    using assms(1) by (rule poll_loop_keeps [rotated])
      (auto simp: kucoin_poll_funding_def kucoin_funding_row_def funding_ok_rows funding_ok_sink split: option.split)
  then show ?thesis using assms(2) by (simp add: kucoin_connect_funding_def split: if_splits)
qed

interpretation kucoin_candle_feed: feed "kucoin_candle_message D m" volume_ok "\<lambda>t. True" for D m
  by unfold_locales
    (auto simp: kucoin_candle_message_def kucoin_candle_frame_def list_all_iff volume_ok_update
      split: option.splits if_splits)

interpretation kucoin_candle_runs: feed_run "kucoin_read_candle_shard D m cancel symbols"
  "\<lambda>(t, answer, sc). legal_events volume_ok (sc_events sc)" volume_ok "\<lambda>t. True" for D m cancel symbols
  by unfold_locales
    (auto simp: kucoin_read_candle_shard_def Let_def split: option.splits dest: kucoin_candle_feed.session_keeps)

lemma kucoin_candle_runs_ok:
  assumes "list_all (\<lambda>a. legal_events volume_ok (sc_events (snd (snd (at_world a))))) attempts" and "volume_ok ve"
  shows "volume_ok (fst (run_kucoin_candle_shard D m cancel symbols attempts ve))"
  unfolding run_kucoin_candle_shard_def using assms
  by (intro kucoin_candle_runs.supervise_result) (auto simp: list_all_iff case_prod_beta)

section \<open>The futures feeds disagree\<close>

lemma length_normalize_unspaced:
  "unspaced s \<Longrightarrow> length (normalize_symbol s) = length (remove_chars ''-_/'' s)"
  by (simp add: normalize_plain to_upper_def)

lemma kucoin_length:
  assumes "kucoin_normalize_symbol c MarketTypeFutures = Some s" and "unspaced c"
  shows "unspaced s" and "length (remove_chars ''-_/'' c) = Suc (length (remove_chars ''-_/'' s))"
proof -
  have "has_suffix c ''USDTM'' \<or> has_suffix c ''USDM''"
    using assms(1) by (simp add: kucoin_normalize_symbol_def MarketTypeSpot_def MarketTypeFutures_def split: if_splits)
  then have "\<exists>a. c = a @ ''M''" unfolding has_suffix_iff
    by (metis append.assoc append_Cons append_Nil)
  then obtain a where c: "c = a @ ''M''" ..
  have "s = (if has_prefix a ''XBT'' then ''BTC'' @ drop 3 a else a)"
    using assms(1) by (simp add: kucoin_normalize_symbol_def c Let_def MarketTypeSpot_def MarketTypeFutures_def split: if_splits)
  moreover have "a = ''XBT'' @ drop 3 a" if "has_prefix a ''XBT''"
    using that append_take_drop_id [of "length ''XBT''" a] by (simp only: has_prefix_def) (simp add: numeral_3_eq_3)
  ultimately have s: "s = a \<or> (\<exists>b. a = ''XBT'' @ b \<and> s = ''BTC'' @ b)" by (metis (full_types))
  then show "unspaced s" using assms(2) by (auto simp: c unspaced_def is_space_def)
  show "length (remove_chars ''-_/'' c) = Suc (length (remove_chars ''-_/'' s))"
    using s by (auto simp: c remove_chars_def)
qed

text \<open>
  The keys under which the funding rate and the candle of a futures contract are stored, from its name,
  are never the keys that the routes of its ticks look up.
\<close>

lemma kucoin_keys_differ:
  assumes "kucoin_normalize_symbol c MarketTypeFutures = Some s" and "unspaced c"
  shows "normalize_funding_key ''KUCOIN'' (remove_chars ''-'' c) \<noteq> normalize_funding_key ''KUCOIN'' (normalize_symbol s)"
    and "volume_key ''KUCOIN'' (remove_chars ''-'' c) MarketTypeFutures
      \<noteq> volume_key ''KUCOIN'' (normalize_symbol s) MarketTypeFutures"
proof -
  note l = kucoin_length [OF assms]
  have u: "unspaced (remove_chars ''-'' c)" using assms(2) by (rule unspaced_remove)
  have k: "remove_chars ''-_/'' (remove_chars ''-'' c) = remove_chars ''-_/'' c" by (rule remove_chars_subset) simp
  have "to_upper (remove_chars ''-_/'' c) \<noteq> to_upper (remove_chars ''-_/'' s)"
  proof
    assume "to_upper (remove_chars ''-_/'' c) = to_upper (remove_chars ''-_/'' s)"
    then have "length (to_upper (remove_chars ''-_/'' c)) = length (to_upper (remove_chars ''-_/'' s))" by simp
    then show False using l(2) by (simp add: to_upper_def)
  qed
  then show "normalize_funding_key ''KUCOIN'' (remove_chars ''-'' c) \<noteq> normalize_funding_key ''KUCOIN'' (normalize_symbol s)"
    by (simp only: funding_key_normal [OF l(1)] funding_key_plain [OF u] funding_key_plain [OF l(1)] k prod.inject simp_thms not_False_eq_True)
  have "length (to_upper (remove_chars ''-'' c)) \<noteq> length (to_upper (normalize_symbol s))"
  proof -
    have "length (remove_chars ''-_/'' c) \<le> length (remove_chars ''-'' c)"
      using k by (metis length_filter_le remove_chars_def)
    then show ?thesis using l by (simp add: to_upper_def length_normalize_unspaced)
  qed
  then show "volume_key ''KUCOIN'' (remove_chars ''-'' c) MarketTypeFutures
      \<noteq> volume_key ''KUCOIN'' (normalize_symbol s) MarketTypeFutures"
    unfolding volume_key_def by auto
qed

end
