(* ===== verification/Bingx.thy ===== *)
theory Bingx
  imports Adapter_Base
begin

text \<open>
  internal/adapters/bingx/bingx.go: symbols, tickers whose prices and volumes arrive on two channels, funding
  rates by polling, candles and connections of BingX. Instruments are called BTC-USDT on both markets.
\<close>

section \<open>Symbols\<close>

record bingx_info =
  xi_symbol :: string
  xi_status :: int

text \<open>\<open>None\<close> is an error, as is a code that is not zero.\<close>

definition bingx_candle_symbols :: "(int \<times> bingx_info list) option \<Rightarrow> string list option" where
  "bingx_candle_symbols response =
     (case response of
        None \<Rightarrow> None
      | Some (code, rows) \<Rightarrow>
          if code \<noteq> 0 then None else Some (map xi_symbol (filter (\<lambda>v. xi_status v = 1) rows)))"

definition bingx_ticker_symbols :: "bool \<Rightarrow> (int \<times> bingx_info list) option \<Rightarrow> string list option" where
  "bingx_ticker_symbols spot response =
     (if \<not> spot then
        (case bingx_candle_symbols response of
           None \<Rightarrow> None | Some xs \<Rightarrow> Some (filter (\<lambda>s. has_suffix s ''-USDT'') xs))
      else case response of
        None \<Rightarrow> None
      | Some (code, rows) \<Rightarrow>
          if code \<noteq> 0 then None
          else Some (map xi_symbol (filter (\<lambda>v. xi_status v = 1 \<and> has_suffix (xi_symbol v) ''-USDT'') rows)))"

text \<open>The symbols of one connection, and the channels it subscribes to in order.\<close>

definition bingx_ticker_shards :: "string list \<Rightarrow> string list list" where
  "bingx_ticker_shards symbols = slices 100 symbols"

definition bingx_ticker_topics :: "string list \<Rightarrow> string list" where
  "bingx_ticker_topics symbols = concat (map (\<lambda>s. map (\<lambda>c. s @ ''@'' @ c) [''bookTicker'', ''ticker'']) symbols)"

definition bingx_candle_shards :: "string list \<Rightarrow> string list list" where
  "bingx_candle_shards symbols = slices 50 symbols"

definition bingx_candle_topic :: "bool \<Rightarrow> string \<Rightarrow> string" where
  "bingx_candle_topic spot s = s @ ''@kline_'' @ (if spot then ''1min'' else ''1m'')"

section \<open>Tickers\<close>

record bingx_book =
  xb_symbol :: string
  xb_bid :: dec
  xb_ask :: dec

definition bingx_bbo_to_tick :: "bingx_book \<Rightarrow> market_type \<Rightarrow> gtime \<Rightarrow> dec \<Rightarrow> gtime \<Rightarrow> market_tick option" where
  "bingx_bbo_to_tick b m ts vol received =
     (if xb_symbol b = [] \<or> xb_bid b = 0 \<or> xb_ask b = 0 \<or> xb_bid b > xb_ask b then None
      else (let symbol = remove_chars ''-'' (xb_symbol b) in
            if \<not> has_suffix (to_upper symbol) ''USDT'' then None
            else Some (tick_of ''BINGX'' symbol m (xb_bid b, xb_ask b) vol ts received)))"

text \<open>The messages of a ticker connection by the suffix of their channel.\<close>

datatype bingx_message = BingxBook bingx_book | BingxDay string dec | BingxPing | BingxOther

text \<open>The volumes of the connection, the tick and whether a Pong is sent.\<close>

definition bingx_ticker_frame ::
  "market_type \<Rightarrow> gtime \<Rightarrow> gtime \<Rightarrow> bingx_message \<Rightarrow> (string, dec) gomap \<Rightarrow> (string, dec) gomap \<times> market_tick option \<times> bool" where
  "bingx_ticker_frame m now received msg vols =
     (case msg of
        BingxPing \<Rightarrow> (vols, None, True)
      | BingxBook b \<Rightarrow>
          (vols, bingx_bbo_to_tick b m now (case map_of vols (xb_symbol b) of None \<Rightarrow> 0 | Some v \<Rightarrow> v) received, False)
      | BingxDay symbol v \<Rightarrow> (if symbol = [] then vols else mput symbol v vols, None, False)
      | BingxOther \<Rightarrow> (vols, None, False))"

section \<open>Funding rates\<close>

record bingx_funding =
  xf_symbol :: string
  xf_rate :: string
  xf_next :: int

definition bingx_funding_row ::
  "dec_lib \<Rightarrow> gtime \<Rightarrow> gtime \<Rightarrow> bingx_funding \<Rightarrow> funding_manager \<Rightarrow> funding_manager \<times> bool" where
  "bingx_funding_row D clock now v fm =
     (case lib_parse D (xf_rate v) of
        None \<Rightarrow> (fm, False)
      | Some rate \<Rightarrow> sink_funding clock ''BINGX'' (remove_chars ''-'' (xf_symbol v)) rate (unix_milli (xf_next v)) now fm)"

text \<open>The answer holds an array of rows or a single one.\<close>

definition bingx_poll_funding ::
  "dec_lib \<Rightarrow> gtime \<Rightarrow> gtime \<Rightarrow> (int \<times> (bingx_funding + bingx_funding list)) option \<Rightarrow> funding_manager
   \<Rightarrow> funding_manager \<times> bool" where
  "bingx_poll_funding D clock now response fm =
     (case response of
        None \<Rightarrow> (fm, True)
      | Some (code, data) \<Rightarrow>
          if code \<noteq> 0 then (fm, True)
          else feed_rows (bingx_funding_row D clock now) (case data of Inl one \<Rightarrow> [one] | Inr rows \<Rightarrow> rows) fm)"

section \<open>Candles\<close>

record bingx_candle =
  xc_code :: int
  xc_event_time :: int
  xc_symbol :: string
  xc_start :: int
  xc_end :: int
  xc_quote :: string

definition bingx_candle_frame ::
  "dec_lib \<Rightarrow> gtime \<Rightarrow> bool \<Rightarrow> bingx_candle \<Rightarrow> volume_engine \<Rightarrow> volume_engine \<times> bool" where
  "bingx_candle_frame D clock spot r ve =
     (if xc_code r \<noteq> 0 then (ve, True)
      else if xc_symbol r = [] then (ve, False)
      else case read_volume D (xc_quote r) of
        None \<Rightarrow> (ve, False)
      | Some q \<Rightarrow> (update_candle clock (candle_of ''BINGX'' (remove_chars ''-'' (xc_symbol r))
          (if spot then MarketTypeSpot else MarketTypeFutures) (unix_milli (xc_start r)) (unix_milli (xc_end r)) q
          (unix_milli (xc_event_time r)) False) ve, False))"

section \<open>Connections\<close>

definition bingx_link :: link_policy where
  "bingx_link = message_link (5 * nano_second + 10 * nano_second)"

text \<open>A message with the two clocks and whether the answer to a ping can be written. The state of the
  connection is the map of volumes.\<close>

definition bingx_ticker_text ::
  "market_type \<Rightarrow> (gtime \<times> gtime \<times> bingx_message \<times> bool, (string, dec) gomap \<times> unit, market_tick) handler" where
  "bingx_ticker_text m text_frame s =
     (case text_frame of (now, received, msg, pong_ok) \<Rightarrow>
        (case bingx_ticker_frame m now received msg (fst s) of (vols, tick, pong) \<Rightarrow>
           ((vols, snd s), case tick of None \<Rightarrow> [] | Some t \<Rightarrow> [t], pong \<and> \<not> pong_ok)))"

definition bingx_read_ticker_shard ::
  "market_type \<Rightarrow> gtime option \<Rightarrow> string list \<Rightarrow> gtime
    \<Rightarrow> (gtime \<times> gtime \<times> bingx_message \<times> bool, (string, dec) gomap \<times> unit) session_script
    \<Rightarrow> unit \<Rightarrow> unit \<times> market_tick list \<times> outcome" where
  "bingx_read_ticker_shard m cancel symbols started sc u =
     run_local_session bingx_link cancel (bingx_ticker_text m) (length (bingx_ticker_topics symbols)) sc [] u"

definition bingx_run_ticker_shard where
  "bingx_run_ticker_shard m cancel symbols attempts =
     supervise shard_loop cancel (bingx_read_ticker_shard m cancel symbols) id reconnect_backoff attempts ()"

text \<open>The loop that starts the shards: \<open>t\<close> is the time of the response, \<open>returned\<close> the time at which the last
  shard has returned.\<close>

definition bingx_run_ticker_feed where
  "bingx_run_ticker_feed spot cancel attempts =
     supervise shards_loop cancel
       (\<lambda>started (t, response, returned) u.
          case bingx_ticker_symbols spot response of
            None \<Rightarrow> (u, [], Ended t (Some SymbolsFail))
          | Some symbols \<Rightarrow> run_shards t returned (bingx_ticker_shards symbols) u)
       id reconnect_backoff attempts ()"

definition bingx_connect_funding where
  "bingx_connect_funding D has_sink polls fm =
     (if \<not> has_sink then None
      else Some (poll_loop (\<lambda>(clock, now, response) fm. fst (bingx_poll_funding D clock now response fm)) polls fm))"

text \<open>The candle loop moves its deadline for pong frames only. A text that asks for a pong is no candle: it
  is not answered.\<close>

definition bingx_candle_link :: link_policy where
  "bingx_candle_link = start_heartbeat (60 * nano_second) None"

definition bingx_candle_message ::
  "dec_lib \<Rightarrow> bool \<Rightarrow> ((gtime \<times> bingx_candle) option, volume_engine, market_tick) handler" where
  "bingx_candle_message D spot text_frame ve =
     (case text_frame of
        None \<Rightarrow> (ve, [], False)
      | Some (clock, r) \<Rightarrow> (case bingx_candle_frame D clock spot r ve of (ve', err) \<Rightarrow> (ve', [], err)))"

definition bingx_read_candle_shard ::
  "dec_lib \<Rightarrow> bool \<Rightarrow> gtime option \<Rightarrow> string list \<Rightarrow> gtime
    \<Rightarrow> ((gtime \<times> bingx_candle) option, volume_engine) session_script
    \<Rightarrow> volume_engine \<Rightarrow> volume_engine \<times> market_tick list \<times> outcome" where
  "bingx_read_candle_shard D spot cancel symbols started sc ve =
     run_session bingx_candle_link cancel (bingx_candle_message D spot) (length (map (bingx_candle_topic spot) symbols)) sc ve"

definition bingx_run_candle_shard where
  "bingx_run_candle_shard D spot cancel symbols attempts ve =
     supervise candle_loop cancel (bingx_read_candle_shard D spot cancel symbols) id reconnect_backoff attempts ve"

definition bingx_run_candle_feed where
  "bingx_run_candle_feed cancel attempts =
     supervise candle_loop cancel
       (\<lambda>started (t, response, returned) u.
          case bingx_candle_symbols response of
            None \<Rightarrow> (u, [], Unlisted t)
          | Some symbols \<Rightarrow> run_shards t returned (bingx_candle_shards symbols) u)
       id reconnect_backoff attempts ()"

section \<open>The two interfaces\<close>

lemma bingx_frame_proper:
  assumes "fst (snd (bingx_ticker_frame (market_of spot) now received msg vols)) = Some t"
  shows "proper_tick ''BINGX'' received t"
  using assms
  by (auto simp: bingx_ticker_frame_def bingx_bbo_to_tick_def proper_tick_def market_of_def Let_def
      split: bingx_message.splits if_splits)

interpretation bingx_ticks: tick_source
  "\<lambda>(spot, now, received, msg, vols). fst (snd (bingx_ticker_frame (market_of spot) now received msg vols))"
  "''BINGX''" "\<lambda>(spot, now, received, msg, vols). received"
  by unfold_locales (simp_all add: string_eval split_paired_all bingx_frame_proper)

interpretation bingx_feeds: aligned_feeds "''BINGX''" "contract_name ''-''" "remove_chars ''-''" "remove_chars ''-''" "remove_chars ''-''"
  by unfold_locales (simp_all add: feed_keys [of "''-''" _ "''-''"])

section \<open>Volumes\<close>

text \<open>A tick carries the last volume received for its symbol, zero before the first.\<close>

lemma bingx_volume:
  "map_of (fold (\<lambda>msg vols. fst (bingx_ticker_frame m now received msg vols)) msgs []) symbol =
    (case List.map_filter (\<lambda>msg. case msg of BingxDay s v \<Rightarrow> if s = symbol \<and> s \<noteq> [] then Some v else None | _ \<Rightarrow> None) msgs of
       [] \<Rightarrow> None | vs \<Rightarrow> Some (last vs))"
proof (induction msgs rule: rev_induct)
  case (snoc msg msgs)
  from snoc show ?case
    by (cases msg) (auto simp: bingx_ticker_frame_def map_of_mput map_filter_append last_or List.map_filter_simps)
qed (simp add: List.map_filter_simps)

text \<open>The symbols of the tickers are those of the candles that are quoted in USDT.\<close>

lemma bingx_symbols_agree:
  "bingx_ticker_symbols spot response = map_option (filter (\<lambda>s. has_suffix s ''-USDT'')) (bingx_candle_symbols response)"
  by (auto simp: bingx_ticker_symbols_def bingx_candle_symbols_def filter_map comp_def split: option.split
      intro!: arg_cong [where f = "map xi_symbol"] filter_cong)

section \<open>Whole runs\<close>

interpretation bingx_ticker_feed: local_feed "bingx_ticker_text (market_of spot)" "\<lambda>u. True" "tick_from ''BINGX''" for spot
proof
  fix msg and s s' :: "(string, dec) gomap \<times> unit" and out err
  assume run: "bingx_ticker_text (market_of spot) msg s = (s', out, err)"
  obtain now received m pong_ok where t: "msg = (now, received, m, pong_ok)" by (metis prod_cases4)
  have "tick_from ''BINGX'' x" if "fst (snd (bingx_ticker_frame (market_of spot) now received m (fst s))) = Some x" for x
    using tick_from_proper [OF bingx_frame_proper [OF that]] .
  then show "(case s' of (c, s) \<Rightarrow> True) \<and> list_all (tick_from ''BINGX'') out" using run
    by (auto simp: bingx_ticker_text_def t split: prod.splits option.splits)
qed

interpretation bingx_ticker_runs: feed_run "bingx_read_ticker_shard (market_of spot) cancel symbols" "\<lambda>w. True" "\<lambda>u. True"
  "tick_from ''BINGX''" for spot cancel symbols
  unfolding bingx_read_ticker_shard_def
  by unfold_locales (rule bingx_ticker_feed.local_session_keeps [OF legal_pair TrueI])

lemma bingx_shard_ticks:
  "list_all (tick_from ''BINGX'') (fst (snd (bingx_run_ticker_shard (market_of spot) cancel symbols attempts)))"
  unfolding bingx_run_ticker_shard_def by (rule bingx_ticker_runs.supervise_result) (simp_all add: list_all_iff)

lemma bingx_funding_ok:
  assumes "funding_ok fm" and "bingx_connect_funding D has_sink polls fm = Some (fm', over)"
  shows "funding_ok fm'"
proof -
  have row: "funding_ok fm \<Longrightarrow> funding_ok (fst (bingx_funding_row D clock now row fm))" for clock now row fm
    by (auto simp: bingx_funding_row_def funding_ok_sink split: option.split)
  have "funding_ok (fst (poll_loop (\<lambda>(clock, now, response) fm. fst (bingx_poll_funding D clock now response fm)) polls fm))"
    using assms(1) by (rule poll_loop_keeps [rotated])
      (auto simp: bingx_poll_funding_def funding_ok_rows row split: option.split)
  then show ?thesis using assms(2) by (simp add: bingx_connect_funding_def split: if_splits)
qed

interpretation bingx_candle_feed: feed "bingx_candle_message D spot" volume_ok "\<lambda>t. True" for D spot
  by unfold_locales
    (auto simp: bingx_candle_message_def bingx_candle_frame_def list_all_iff volume_ok_update split: option.splits if_splits)

interpretation bingx_candle_runs: feed_run "bingx_read_candle_shard D spot cancel symbols"
  "\<lambda>sc. legal_events volume_ok (sc_events sc)" volume_ok "\<lambda>t. True" for D spot cancel symbols
  by unfold_locales (auto simp: bingx_read_candle_shard_def dest: bingx_candle_feed.session_keeps)

lemma bingx_candle_runs_ok:
  assumes "list_all (\<lambda>a. legal_events volume_ok (sc_events (at_world a))) attempts" and "volume_ok ve"
  shows "volume_ok (fst (bingx_run_candle_shard D spot cancel symbols attempts ve))"
  unfolding bingx_run_candle_shard_def using assms by (intro bingx_candle_runs.supervise_result) auto

text \<open>With no pong frame a candle connection shows no sign of life.\<close>

lemma bingx_no_signs:
  "\<forall>e\<in>set es. \<forall>t. e \<noteq> PongFrame t \<Longrightarrow> signs_of_life bingx_candle_link es = []"
proof (induction es)
  case (Cons e es)
  then show ?case by (cases e) (auto simp: bingx_candle_link_def start_heartbeat_def Let_def)
qed simp

section \<open>Properties\<close>

text \<open>
  A candle connection of BingX lives on pong frames alone: without one it is over 60 seconds after its
  deadline was set, however many candles arrive in between.
\<close>

theorem bingx_candles_need_pongs:
  assumes "\<forall>e\<in>set (sc_events sc). \<forall>t. e \<noteq> PongFrame t"
    and "open_session bingx_candle_link (length symbols) sc = None"
    and "bingx_read_candle_shard D spot cancel symbols started sc ve = (ve', out, r)"
  shows "case r of Reading d \<Rightarrow> d \<le> sc_opened sc + 60 * nano_second
    | Ended t err \<Rightarrow> t \<le> sc_opened sc + 60 * nano_second | Unlisted t \<Rightarrow> False"
proof -
  have l: "link_within bingx_candle_link (60 * nano_second)"
    by (simp add: link_within_def bingx_candle_link_def start_heartbeat_def nano_second_def)
  have d: "sc_opened sc + lp_open bingx_candle_link \<le> sc_opened sc + 60 * nano_second"
    using l by (simp add: link_within_def)
  from assms(2,3) obtain k where k: "ends_within bingx_candle_link (60 * nano_second) (sc_opened sc) (take k (sc_events sc)) r"
    using read_loop_silence [OF l d] by (fastforce simp: bingx_read_candle_shard_def run_session_def)
  have "signs_of_life bingx_candle_link (take k (sc_events sc)) = []"
    using assms(1) by (intro bingx_no_signs) (meson in_set_takeD)
  with k show ?thesis by (cases r) (simp_all add: ends_within_def)
qed

text \<open>
  The list of symbols of the ticker feed is loaded once. A shard returns only under a context that is
  done, so when the shards of a turn have returned the feed ends: in a whole run, whatever the answers of the
  exchange, the shards that are started are those of one answer.
\<close>

theorem bingx_shards_started_once:
  assumes "\<forall>a\<in>set attempts. \<forall>t. snd (snd (at_world a)) = Some t \<longrightarrow> done_at cancel t"
    and "fst (snd (bingx_run_ticker_feed spot cancel attempts)) \<noteq> []"
  shows "\<exists>a\<in>set attempts. \<exists>symbols. bingx_ticker_symbols spot (fst (snd (at_world a))) = Some symbols
    \<and> fst (snd (bingx_run_ticker_feed spot cancel attempts)) = bingx_ticker_shards symbols"
proof -
  let ?run = "\<lambda>started (t, response, returned) u.
    case bingx_ticker_symbols spot response of
      None \<Rightarrow> (u, [], Ended t (Some SymbolsFail))
    | Some symbols \<Rightarrow> run_shards t returned (bingx_ticker_shards symbols) u"
  have turn: "fst (snd (?run st w u)) = [] \<or> (\<exists>d. snd (snd (?run st w u)) = Reading d)
      \<or> (\<exists>t. snd (snd (?run st w u)) = Ended t None \<and> done_at cancel t)"
    if "\<forall>t. snd (snd w) = Some t \<longrightarrow> done_at cancel t" for st w u
    using that by (auto simp: run_shards_def case_prod_beta split: option.split)
  have "\<exists>a\<in>set attempts. \<exists>u. fst (snd (bingx_run_ticker_feed spot cancel attempts)) = fst (snd (?run (at_started a) (at_world a) u))"
    using supervise_once [where run = ?run and L = shards_loop and cancel = cancel and attempts = attempts and after_error = id
        and b = reconnect_backoff and s = "()"] turn assms
    by (auto simp: bingx_run_ticker_feed_def shards_loop_def)
  then obtain a u where a: "a \<in> set attempts"
      "fst (snd (bingx_run_ticker_feed spot cancel attempts)) = fst (snd (?run (at_started a) (at_world a) u))" by blast
  obtain t response returned where w: "at_world a = (t, response, returned)" by (metis prod_cases3)
  then show ?thesis using a assms(2)
    by (cases "bingx_ticker_symbols spot response") (auto simp: run_shards_def intro!: bexI [of _ a])
qed

section \<open>Witnesses\<close>

definition bingx_sample_candles :: "((gtime \<times> bingx_candle) option, volume_engine) session_script" where
  "bingx_sample_candles = \<lparr>sc_dial = True, sc_write_fails = None, sc_armed = True, sc_opened = 0,
     sc_events = [Message (50 * nano_second) None, Message (59 * nano_second) None, Message (61 * nano_second) None]\<rparr>"

theorem bingx_candles_need_pongs_witness:
  "snd (snd (bingx_read_candle_shard sample_lib True None [''BTC-USDT''] 0 bingx_sample_candles new_volume_engine))
     = Ended (60 * nano_second) (Some ReadFails)
   \<and> 60 * nano_second \<le> (60 * nano_second :: int)"
proof -
  have o: "open_session bingx_candle_link (length [''BTC-USDT'']) bingx_sample_candles = None"
    by (simp add: open_session_def write_fails_def bingx_sample_candles_def)
  have r: "bingx_read_candle_shard sample_lib True None [''BTC-USDT''] 0 bingx_sample_candles new_volume_engine
      = (new_volume_engine, [], Ended (60 * nano_second) (Some ReadFails))"
    using o by (simp add: bingx_read_candle_shard_def run_session_def)
      (simp add: bingx_sample_candles_def bingx_candle_link_def start_heartbeat_def bingx_candle_message_def read_failed_def
        done_at_def nano_second_def)
  have "\<forall>e\<in>set (sc_events bingx_sample_candles). \<forall>t. e \<noteq> PongFrame t" by (simp add: bingx_sample_candles_def)
  from bingx_candles_need_pongs [OF this o r] have "60 * nano_second \<le> sc_opened bingx_sample_candles + 60 * nano_second" by simp
  moreover have "sc_opened bingx_sample_candles = 0" by (simp add: bingx_sample_candles_def)
  ultimately show ?thesis by (simp add: r)
qed

theorem bingx_shards_started_once_witness:
  "fst (snd (bingx_run_ticker_feed True (Some 5000000000)
     [\<lparr>at_started = 0, at_world = (1, None, None), at_jitter = id\<rparr>,
      \<lparr>at_started = 4, at_world = (5, Some (0, [\<lparr>xi_symbol = ''BTC-USDT'', xi_status = 1\<rparr>]), Some 6000000000), at_jitter = id\<rparr>]))
   = bingx_ticker_shards [''BTC-USDT'']"
proof -
  let ?as = "[\<lparr>at_started = 0, at_world = (1, None, None), at_jitter = id\<rparr>,
      \<lparr>at_started = 4, at_world = (5, Some (0, [\<lparr>xi_symbol = ''BTC-USDT'', xi_status = 1\<rparr>]), Some 6000000000), at_jitter = id\<rparr>]
      :: (gtime \<times> (int \<times> bingx_info list) option \<times> gtime option) attempt list"
  have s: "bingx_ticker_symbols True (Some (0, [\<lparr>xi_symbol = ''BTC-USDT'', xi_status = 1\<rparr>])) = Some [''BTC-USDT'']"
    "bingx_ticker_symbols True None = None" by (simp_all add: bingx_ticker_symbols_def has_suffix_def)
  have b: "\<And>j f. fst (snd (backoff_wait j f reconnect_backoff)) = j (3 * nano_second)"
    by (simp add: backoff_wait_def reconnect_backoff_def new_backoff_def Let_def nano_second_def)
  have sl: "bingx_ticker_shards [''BTC-USDT''] = [[''BTC-USDT'']]"
    by (simp add: bingx_ticker_shards_def slices.simps)
  have "fst (snd (bingx_run_ticker_feed True (Some 5000000000) ?as)) \<noteq> []"
    using b by (simp add: bingx_run_ticker_feed_def s sl run_shards_def shards_loop_def done_at_def nano_second_def case_prod_beta Let_def)
  from bingx_shards_started_once [OF _ this] show ?thesis by (auto simp: done_at_def s)
qed

end
