(* ===== verification/Mexc_Proto.thy ===== *)
theory Mexc_Proto
  imports Go_Lib "HOL-Library.Word"
begin

unbundle bit_operations_syntax

text \<open>
  internal/adapters/mexc/proto.go: the hand-written decoder of the protobuf frames in which MEXC
  sends spot candles. Bytes are \<open>8 word\<close>, values of the wire format \<open>64 word\<close>, read as
  \<open>int64\<close> with \<open>sint\<close>. The errors keep their kind, not their text. The loops consume at least one
  byte per turn, which is their termination proof. The specification is the wire format itself: a message
  is a list of fields, its encoding their concatenation.
\<close>

type_synonym bytes = "8 word list"

record mexc_spot_kline =
  mk_channel :: string
  mk_symbol :: string
  mk_create_time :: int
  mk_send_time :: int
  mk_interval :: string
  mk_window_start :: int
  mk_amount :: string
  mk_window_end :: int

definition empty_kline :: mexc_spot_kline where
  "empty_kline = \<lparr>mk_channel = [], mk_symbol = [], mk_create_time = 0, mk_send_time = 0, mk_interval = [],
     mk_window_start = 0, mk_amount = [], mk_window_end = 0\<rparr>"

definition string_of_bytes :: "bytes \<Rightarrow> string" where
  "string_of_bytes bs = map (\<lambda>b. char_of (unat b)) bs"

datatype proto_error = VarintTooLong | VarintTruncated | InvalidField | LengthExceeds | FixedTruncated nat
  | UnsupportedWire nat nat | NoKline

section \<open>Primitive readers\<close>

text \<open>The loop of \<open>readProtoVarint\<close> from its turn \<open>i\<close> on.\<close>

fun varint_loop :: "nat \<Rightarrow> 64 word \<Rightarrow> bytes \<Rightarrow> proto_error + 64 word \<times> nat" where
  "varint_loop i acc [] = Inl VarintTruncated"
| "varint_loop i acc (b # bs) =
     (if i \<ge> 10 then Inl VarintTooLong
      else let acc' = acc OR push_bit (7 * i) (ucast (b AND 0x7f))
           in if b < 0x80 then Inr (acc', i + 1) else varint_loop (i + 1) acc' bs)"

definition read_varint :: "bytes \<Rightarrow> proto_error + 64 word \<times> nat" where
  "read_varint data = varint_loop 0 0 data"

definition read_key :: "bytes \<Rightarrow> proto_error + nat \<times> nat \<times> nat" where
  "read_key data =
     (case read_varint data of
        Inl e \<Rightarrow> Inl e
      | Inr (value, n) \<Rightarrow>
          (let field = unat (drop_bit 3 value); wire = unat (value AND 7)
           in if field = 0 then Inl InvalidField else Inr (field, wire, n)))"

definition read_bytes :: "bytes \<Rightarrow> proto_error + bytes \<times> nat" where
  "read_bytes data =
     (case read_varint data of
        Inl e \<Rightarrow> Inl e
      | Inr (len, n) \<Rightarrow>
          if unat len > length data - n then Inl LengthExceeds
          else Inr (take (unat len) (drop n data), n + unat len))"

definition skip_bytes :: "bytes \<Rightarrow> proto_error + bytes" where
  "skip_bytes data = (case read_bytes data of Inl e \<Rightarrow> Inl e | Inr (_, n) \<Rightarrow> Inr (drop n data))"

section \<open>The two decoders\<close>

text \<open>What one field of the wrapper does to the message and the payload seen so far; the second
  result is the rest of the input.\<close>

definition wrapper_field ::
  "nat \<Rightarrow> nat \<Rightarrow> bytes \<Rightarrow> mexc_spot_kline \<times> bytes \<Rightarrow> proto_error + (mexc_spot_kline \<times> bytes) \<times> bytes" where
  "wrapper_field field wire data st =
     (case st of (out, payload) \<Rightarrow>
        if wire = 0 then
          (case read_varint data of
             Inl e \<Rightarrow> Inl e
           | Inr (value, n) \<Rightarrow>
               Inr (((if field = 5 then out\<lparr>mk_create_time := sint value\<rparr>
                      else if field = 6 then out\<lparr>mk_send_time := sint value\<rparr> else out), payload), drop n data))
        else if wire = 2 then
          (if field = 1 then
             (case read_bytes data of
                Inl e \<Rightarrow> Inl e | Inr (v, n) \<Rightarrow> Inr ((out\<lparr>mk_channel := string_of_bytes v\<rparr>, payload), drop n data))
           else if field = 3 \<or> field = 4 then
             (case read_bytes data of
                Inl e \<Rightarrow> Inl e
              | Inr (v, n) \<Rightarrow> Inr ((if field = 3 then out\<lparr>mk_symbol := string_of_bytes v\<rparr> else out, payload), drop n data))
           else if field = 308 then
             (case read_bytes data of Inl e \<Rightarrow> Inl e | Inr (v, n) \<Rightarrow> Inr ((out, v), drop n data))
           else (case skip_bytes data of Inl e \<Rightarrow> Inl e | Inr rest \<Rightarrow> Inr ((out, payload), rest)))
        else if wire = 1 then (if length data < 8 then Inl (FixedTruncated 64) else Inr ((out, payload), drop 8 data))
        else if wire = 5 then (if length data < 4 then Inl (FixedTruncated 32) else Inr ((out, payload), drop 4 data))
        else Inl (UnsupportedWire wire field))"

lemma varint_loop_consumed: "varint_loop i acc data = Inr (v, n) \<Longrightarrow> i < n \<and> n \<le> i + length data"
  by (induction i acc data rule: varint_loop.induct) (fastforce simp: Let_def split: if_splits)+

lemma read_varint_consumed: "read_varint data = Inr (v, n) \<Longrightarrow> 0 < n \<and> n \<le> length data"
  using varint_loop_consumed [of 0 0 data v n] by (simp add: read_varint_def)

lemma read_key_consumed: "read_key data = Inr (field, wire, n) \<Longrightarrow> 0 < n \<and> n \<le> length data"
  using read_varint_consumed by (auto simp: read_key_def Let_def split: sum.splits prod.splits if_splits)

lemma read_bytes_consumed: "read_bytes data = Inr (v, n) \<Longrightarrow> 0 < n \<and> n \<le> length data"
  by (auto simp: read_bytes_def dest!: read_varint_consumed split: sum.splits prod.splits if_splits)

lemma wrapper_field_rest: "wrapper_field field wire data st = Inr (st', rest) \<Longrightarrow> length rest \<le> length data"
  by (auto simp: wrapper_field_def skip_bytes_def split: sum.splits prod.splits if_splits)

function wrapper_loop :: "bytes \<Rightarrow> mexc_spot_kline \<times> bytes \<Rightarrow> proto_error + mexc_spot_kline \<times> bytes" where
  "wrapper_loop data st =
     (if length data = 0 then Inr st
      else case read_key data of
        Inl e \<Rightarrow> Inl e
      | Inr (field, wire, n) \<Rightarrow>
          (case wrapper_field field wire (drop n data) st of
             Inl e \<Rightarrow> Inl e | Inr (st', rest) \<Rightarrow> wrapper_loop rest st'))"
  by pat_completeness auto
termination
  by (relation "measure (\<lambda>(data, st). length data)") (auto dest!: wrapper_field_rest read_key_consumed)

declare wrapper_loop.simps [simp del]

text \<open>One field of the kline payload, and the loop over it.\<close>

definition payload_field :: "nat \<Rightarrow> nat \<Rightarrow> bytes \<Rightarrow> mexc_spot_kline \<Rightarrow> proto_error + mexc_spot_kline \<times> bytes" where
  "payload_field field wire data out =
     (if wire = 0 then
        (case read_varint data of
           Inl e \<Rightarrow> Inl e
         | Inr (v, n) \<Rightarrow>
             Inr ((if field = 2 then out\<lparr>mk_window_start := sint v\<rparr>
                   else if field = 9 then out\<lparr>mk_window_end := sint v\<rparr> else out), drop n data))
      else if wire \<noteq> 2 then Inl (UnsupportedWire wire field)
      else (case read_bytes data of
              Inl e \<Rightarrow> Inl e
            | Inr (v, n) \<Rightarrow>
                Inr ((if field = 1 then out\<lparr>mk_interval := string_of_bytes v\<rparr>
                      else if field = 8 then out\<lparr>mk_amount := string_of_bytes v\<rparr> else out), drop n data)))"

lemma payload_field_rest: "payload_field field wire data out = Inr (out', rest) \<Longrightarrow> length rest \<le> length data"
  by (auto simp: payload_field_def split: sum.splits prod.splits if_splits)

function payload_loop :: "bytes \<Rightarrow> mexc_spot_kline \<Rightarrow> proto_error + mexc_spot_kline" where
  "payload_loop data out =
     (if length data = 0 then Inr out
      else case read_key data of
        Inl e \<Rightarrow> Inl e
      | Inr (field, wire, n) \<Rightarrow>
          (case payload_field field wire (drop n data) out of
             Inl e \<Rightarrow> Inl e | Inr (out', rest) \<Rightarrow> payload_loop rest out'))"
  by pat_completeness auto
termination
  by (relation "measure (\<lambda>(data, out). length data)") (auto dest!: payload_field_rest read_key_consumed)

declare payload_loop.simps [simp del]

definition decode_spot_kline :: "bytes \<Rightarrow> proto_error + mexc_spot_kline" where
  "decode_spot_kline data =
     (case wrapper_loop data (empty_kline, []) of
        Inl e \<Rightarrow> Inl e
      | Inr (out, payload) \<Rightarrow> if length payload = 0 then Inl NoKline else payload_loop payload out)"

section \<open>The wire format\<close>

text \<open>Little-endian groups of seven bits, the high bit set on all but the last.\<close>

fun put_varint :: "nat \<Rightarrow> bytes" where
  "put_varint v = (if v < 128 then [of_nat v] else of_nat (v mod 128 + 128) # put_varint (v div 128))"

declare put_varint.simps [simp del]

datatype wire_field = FVarint nat nat | FBytes nat bytes | FFixed64 nat bytes | FFixed32 nat bytes

fun encode_field :: "wire_field \<Rightarrow> bytes" where
  "encode_field (FVarint k v) = put_varint (8 * k) @ put_varint v"
| "encode_field (FBytes k bs) = put_varint (8 * k + 2) @ put_varint (length bs) @ bs"
| "encode_field (FFixed64 k bs) = put_varint (8 * k + 1) @ bs"
| "encode_field (FFixed32 k bs) = put_varint (8 * k + 5) @ bs"

definition encode_fields :: "wire_field list \<Rightarrow> bytes" where
  "encode_fields fs = concat (map encode_field fs)"

fun field_fits :: "wire_field \<Rightarrow> bool" where
  "field_fits (FVarint k v) \<longleftrightarrow> 0 < k \<and> k < 2 ^ 29 \<and> v < 2 ^ 64"
| "field_fits (FBytes k bs) \<longleftrightarrow> 0 < k \<and> k < 2 ^ 29 \<and> length bs < 2 ^ 64"
| "field_fits (FFixed64 k bs) \<longleftrightarrow> 0 < k \<and> k < 2 ^ 29 \<and> length bs = 8"
| "field_fits (FFixed32 k bs) \<longleftrightarrow> 0 < k \<and> k < 2 ^ 29 \<and> length bs = 4"

lemma seven_bits: "(0x7f :: 8 word) = mask 7"
  by (simp add: mask_eq_exp_minus_1)

lemma group_low:
  assumes "g < 128"
  shows "(of_nat g :: 8 word) AND 0x7f = of_nat g" "(of_nat (g + 128) :: 8 word) AND 0x7f = of_nat g"
    "(of_nat g :: 8 word) < 0x80" "\<not> (of_nat (g + 128) :: 8 word) < 0x80"
proof -
  have t: "take_bit 7 g = g" "take_bit 7 (g + 128) = g" using assms by (simp_all add: take_bit_eq_mod)
  show "(of_nat g :: 8 word) AND 0x7f = of_nat g" "(of_nat (g + 128) :: 8 word) AND 0x7f = of_nat g"
    unfolding seven_bits by (metis of_nat_take_bit take_bit_eq_mask t(1), metis of_nat_take_bit take_bit_eq_mask t(2))
  show "(of_nat g :: 8 word) < 0x80" "\<not> (of_nat (g + 128) :: 8 word) < 0x80"
  proof -
    have u: "unat (of_nat n :: 8 word) = n" if "n < 256" for n using that by (simp add: unat_of_nat)
    have e: "unat (0x80 :: 8 word) = 128" by simp
    show "(of_nat g :: 8 word) < 0x80" unfolding word_less_nat_alt e using u [of g] assms by simp
    show "\<not> (of_nat (g + 128) :: 8 word) < 0x80" unfolding word_less_nat_alt e using u [of "g + 128"] assms by (simp del: of_nat_add)
  qed
qed

lemma or_shifted:
  fixes acc :: "64 word"
  assumes "unat acc < 2 ^ k"
  shows "acc OR push_bit k w = acc + push_bit k w"
proof -
  have "\<not> (bit acc n \<and> bit (push_bit k w) n)" for n
  proof (cases "n < k")
    case False
    have "take_bit k (unat acc) = unat acc" using assms by (simp add: take_bit_nat_eq_self)
    then have "bit (unat acc) n \<Longrightarrow> n < k" by (metis bit_take_bit_iff)
    moreover have "bit acc n \<Longrightarrow> bit (unat acc) n" by (simp add: bit_unsigned_iff bit_imp_possible_bit)
    ultimately show ?thesis using False by blast
  qed (simp add: bit_push_bit_iff)
  then have "acc AND push_bit k w = 0" by (auto simp: bit_eq_iff bit_and_iff)
  then show ?thesis by (simp add: disjunctive_add_eq_or)
qed

lemma varint_step:
  fixes acc :: "64 word"
  assumes "unat acc < 2 ^ (7 * i)" "g < 128"
  shows "acc OR push_bit (7 * i) (ucast (of_nat g :: 8 word)) = acc + of_nat (g * 2 ^ (7 * i))"
proof -
  have "(ucast (of_nat g :: 8 word) :: 64 word) = of_nat g"
    using assms(2) by (simp add: unsigned_of_nat take_bit_nat_eq_self)
  then show ?thesis unfolding or_shifted [OF assms(1)]
    by (simp only: push_bit_of_nat) (simp add: push_bit_eq_mult)
qed

text \<open>Reading what was written, from any turn of the loop.\<close>

text \<open>One group of seven bits: the rest of the number stands one place higher, and the value read so far still
  fits below it.\<close>

lemma group_split: "v mod 128 * 2 ^ (7 * i) + v div 128 * 2 ^ (7 * (i + 1)) = (v * 2 ^ (7 * i) :: nat)"
proof -
  have "v div 128 * 2 ^ (7 * (i + 1)) = v div 128 * 128 * 2 ^ (7 * i)" by (simp add: power_add)
  then have "v mod 128 * 2 ^ (7 * i) + v div 128 * 2 ^ (7 * (i + 1)) = (v mod 128 + v div 128 * 128) * 2 ^ (7 * i)"
    by (simp only: distrib_right)
  then show ?thesis by (simp only: mod_div_mult_eq)
qed

lemma group_below:
  fixes acc :: "64 word"
  assumes "unat acc < 2 ^ (7 * i)"
  shows "unat (acc + of_nat (v mod 128 * 2 ^ (7 * i))) < 2 ^ (7 * (i + 1))"
proof -
  let ?g = "v mod 128 * 2 ^ (7 * i)"
  have "v mod 128 < 128" by simp
  then have "?g \<le> 127 * 2 ^ (7 * i)" by simp
  then have "unat acc + ?g < 128 * 2 ^ (7 * i)" using assms by linarith
  moreover have "unat (acc + of_nat ?g) \<le> unat acc + unat (of_nat ?g :: 64 word)" by (simp only: unat_word_ariths mod_less_eq_dividend)
  moreover have "unat (of_nat ?g :: 64 word) \<le> ?g" by (simp only: unat_of_nat mod_less_eq_dividend)
  moreover have "128 * 2 ^ (7 * i) = (2 ^ (7 * (i + 1)) :: nat)" by (simp add: power_add)
  ultimately show ?thesis by linarith
qed

lemma varint_loop_put:
  assumes "unat acc < 2 ^ (7 * i)" and "v * 2 ^ (7 * i) < 2 ^ 64" and "i < 10"
  shows "varint_loop i acc (put_varint v @ rest) = Inr (acc + of_nat (v * 2 ^ (7 * i)), i + length (put_varint v))"
  using assms
proof (induction v arbitrary: i acc rule: put_varint.induct)
  case (1 v)
  show ?case
  proof (cases "v < 128")
    case True
    then show ?thesis using 1(2) group_low [OF True] varint_step [OF 1(2) True]
      by (simp add: put_varint.simps [of v] Let_def 1(4) not_le)
  next
    case False
    let ?g = "v mod 128" and ?acc = "acc + of_nat (v mod 128 * 2 ^ (7 * i))"
    have g: "?g < 128" by simp
    have i: "i + 1 < 10"
    proof (rule ccontr)
      assume "\<not> i + 1 < 10"
      then have "i = 9" using 1(4) by simp
      with 1(3) False show False by simp
    qed
    note up = group_below [OF 1(2), of v]
    have lt: "v div 128 * 2 ^ (7 * (i + 1)) < 2 ^ 64" using group_split [of v i] 1(3) by linarith
    have "varint_loop i acc (put_varint v @ rest) = varint_loop (i + 1) ?acc (put_varint (v div 128) @ rest)"
      using False group_low [OF g] varint_step [OF 1(2) g] 1(4)
      by (simp add: put_varint.simps [of v] Let_def)
    also have "\<dots> = Inr (?acc + of_nat (v div 128 * 2 ^ (7 * (i + 1))), i + 1 + length (put_varint (v div 128)))"
      by (rule 1(1) [OF False up lt i])
    also have "?acc + of_nat (v div 128 * 2 ^ (7 * (i + 1))) = acc + of_nat (v * 2 ^ (7 * i))"
      by (simp only: add.assoc of_nat_add [symmetric] group_split)
    finally show ?thesis using False by (simp add: put_varint.simps [of v])
  qed
qed

lemma read_varint_put:
  "v < 2 ^ 64 \<Longrightarrow> read_varint (put_varint v @ rest) = Inr (of_nat v, length (put_varint v))"
  using varint_loop_put [of 0 0 v rest] by (simp add: read_varint_def)

lemma put_varint_nonempty: "put_varint v \<noteq> []"
  by (simp add: put_varint.simps [of v])

lemma read_key_put:
  assumes "0 < k" "k < 2 ^ 29" "w < 8"
  shows "read_key (put_varint (8 * k + w) @ rest) = Inr (k, w, length (put_varint (8 * k + w)))"
proof -
  let ?m = "8 * k + w"
  have m: "?m < 2 ^ 64" using assms by simp
  have u: "unat (of_nat ?m :: 64 word) = ?m" using m by (simp only: unat_of_nat) simp
  have t: "take_bit LENGTH(64) ?m = ?m" using m by (simp only: take_bit_nat_eq_self_iff) simp
  have "unat (drop_bit 3 (of_nat ?m :: 64 word)) = drop_bit 3 ?m" by (simp only: unsigned_drop_bit_eq u t)
  then have f: "unat (drop_bit 3 (of_nat ?m :: 64 word)) = k" using assms(3) by (simp add: drop_bit_eq_div)
  have "unat ((of_nat ?m :: 64 word) AND 7) = ?m AND 7" by (simp only: unsigned_and_eq u) simp
  also have "\<dots> = take_bit 3 ?m" by (simp add: take_bit_eq_mask mask_eq_exp_minus_1)
  finally have "unat ((of_nat ?m :: 64 word) AND 7) = w" using assms(3) by (simp add: take_bit_eq_mod)
  then show ?thesis using f assms(1) read_varint_put [OF m, of rest] by (simp add: read_key_def Let_def del: of_nat_add of_nat_mult)
qed

lemma read_bytes_put:
  assumes "length bs < 2 ^ 64"
  shows "read_bytes (put_varint (length bs) @ bs @ rest) = Inr (bs, length (put_varint (length bs)) + length bs)"
proof -
  have "unat (of_nat (length bs) :: 64 word) = length bs" using assms by (simp add: unat_of_nat)
  then show ?thesis using read_varint_put [OF assms, of "bs @ rest"] by (simp add: read_bytes_def)
qed

text \<open>An unsigned value of the wire read as \<open>int64\<close>.\<close>

definition int64_of :: "nat \<Rightarrow> int" where
  "int64_of v = (if v < 2 ^ 63 then int v else int v - 2 ^ 64)"

lemma sint_of_nat64: "v < 2 ^ 64 \<Longrightarrow> sint (of_nat v :: 64 word) = int64_of v"
proof -
  assume v: "v < 2 ^ 64"
  have "sint (of_nat v :: 64 word) = signed_take_bit 63 (int v)"
    by (simp only: signed_of_nat) simp
  also have "\<dots> = int64_of v"
  proof (cases "v < 2 ^ 63")
    case True
    have "signed_take_bit 63 (int v) = int v" by (rule signed_take_bit_int_eq_self) (use True in simp_all)
    with True show ?thesis by (simp add: int64_of_def)
  next
    case False
    have "signed_take_bit 63 (int v) = signed_take_bit 63 (int v - 2 ^ 64)"
      unfolding signed_take_bit_eq_iff_take_bit_eq take_bit_eq_mod by simp
    also have "\<dots> = int v - 2 ^ 64"
      by (rule signed_take_bit_int_eq_self) (use False v in \<open>simp_all add: not_less\<close>)
    finally show ?thesis using False by (simp add: int64_of_def)
  qed
  finally show ?thesis .
qed

text \<open>What the fields of a message mean: each field sets its own part, the last one wins, and
  unknown fields change nothing.\<close>

fun wrapper_set :: "wire_field \<Rightarrow> mexc_spot_kline \<times> bytes \<Rightarrow> mexc_spot_kline \<times> bytes" where
  "wrapper_set (FVarint k v) (out, p) =
     ((if k = 5 then out\<lparr>mk_create_time := int64_of v\<rparr> else if k = 6 then out\<lparr>mk_send_time := int64_of v\<rparr> else out), p)"
| "wrapper_set (FBytes k bs) (out, p) =
     (if k = 1 then (out\<lparr>mk_channel := string_of_bytes bs\<rparr>, p)
      else if k = 3 then (out\<lparr>mk_symbol := string_of_bytes bs\<rparr>, p)
      else if k = 308 then (out, bs) else (out, p))"
| "wrapper_set (FFixed64 k bs) st = st"
| "wrapper_set (FFixed32 k bs) st = st"

fun payload_set :: "wire_field \<Rightarrow> mexc_spot_kline \<Rightarrow> mexc_spot_kline" where
  "payload_set (FVarint k v) out =
     (if k = 2 then out\<lparr>mk_window_start := int64_of v\<rparr> else if k = 9 then out\<lparr>mk_window_end := int64_of v\<rparr> else out)"
| "payload_set (FBytes k bs) out =
     (if k = 1 then out\<lparr>mk_interval := string_of_bytes bs\<rparr> else if k = 8 then out\<lparr>mk_amount := string_of_bytes bs\<rparr> else out)"
| "payload_set _ out = out"

fun field_key :: "wire_field \<Rightarrow> nat \<times> nat" where
  "field_key (FVarint k v) = (k, 0)"
| "field_key (FBytes k bs) = (k, 2)"
| "field_key (FFixed64 k bs) = (k, 1)"
| "field_key (FFixed32 k bs) = (k, 5)"

fun field_body :: "wire_field \<Rightarrow> bytes" where
  "field_body (FVarint k v) = put_varint v"
| "field_body (FBytes k bs) = put_varint (length bs) @ bs"
| "field_body (FFixed64 k bs) = bs"
| "field_body (FFixed32 k bs) = bs"

lemma encode_field_parts: "encode_field f = put_varint (8 * fst (field_key f) + snd (field_key f)) @ field_body f"
  by (cases f) simp_all

lemma encode_field_key:
  assumes "field_fits f"
  shows "read_key (encode_field f @ rest) = Inr (fst (field_key f), snd (field_key f), length (encode_field f) - length (field_body f))"
    and "encode_field f \<noteq> []"
proof -
  have k: "0 < fst (field_key f)" "fst (field_key f) < 2 ^ 29" "snd (field_key f) < 8"
    using assms by (cases f; simp)+
  show "read_key (encode_field f @ rest) = Inr (fst (field_key f), snd (field_key f), length (encode_field f) - length (field_body f))"
    using read_key_put [OF k, of "field_body f @ rest"] by (simp add: encode_field_parts)
  show "encode_field f \<noteq> []" by (simp add: encode_field_parts put_varint_nonempty)
qed

lemma wrapper_field_body:
  assumes "field_fits f"
  shows "wrapper_field (fst (field_key f)) (snd (field_key f)) (field_body f @ rest) st = Inr (wrapper_set f st, rest)"
  using assms read_bytes_put
  by (cases f; cases st)
    (auto simp: wrapper_field_def read_varint_put sint_of_nat64 skip_bytes_def)

lemma payload_field_body:
  assumes "field_fits f" and "snd (field_key f) \<in> {0, 2}"
  shows "payload_field (fst (field_key f)) (snd (field_key f)) (field_body f @ rest) out = Inr (payload_set f out, rest)"
  using assms read_bytes_put
  by (cases f) (auto simp: payload_field_def read_varint_put sint_of_nat64)

lemma wrapper_loop_encode:
  "\<forall>f\<in>set fs. field_fits f \<Longrightarrow> wrapper_loop (encode_fields fs) st = Inr (fold wrapper_set fs st)"
proof (induction fs arbitrary: st)
  case Nil
  then show ?case by (simp add: encode_fields_def wrapper_loop.simps [of "[]"])
next
  case (Cons f fs)
  have f: "field_fits f" using Cons.prems by simp
  have d: "drop (length (encode_field f) - length (field_body f)) (encode_field f @ encode_fields fs) = field_body f @ encode_fields fs"
    by (simp add: encode_field_parts)
  have "encode_fields (f # fs) = encode_field f @ encode_fields fs" by (simp add: encode_fields_def)
  then have "wrapper_loop (encode_fields (f # fs)) st = wrapper_loop (encode_fields fs) (wrapper_set f st)"
    using encode_field_key [OF f] wrapper_field_body [OF f, of "encode_fields fs" st] d
    by (simp add: wrapper_loop.simps [of "encode_field f @ encode_fields fs"])
  with Cons show ?case by simp
qed

lemma payload_loop_encode:
  "\<forall>f\<in>set fs. field_fits f \<and> snd (field_key f) \<in> {0, 2} \<Longrightarrow> payload_loop (encode_fields fs) out = Inr (fold payload_set fs out)"
proof (induction fs arbitrary: out)
  case Nil
  then show ?case by (simp add: encode_fields_def payload_loop.simps [of "[]"])
next
  case (Cons f fs)
  have f: "field_fits f" "snd (field_key f) \<in> {0, 2}" using Cons.prems by simp_all
  have d: "drop (length (encode_field f) - length (field_body f)) (encode_field f @ encode_fields fs) = field_body f @ encode_fields fs"
    by (simp add: encode_field_parts)
  have "encode_fields (f # fs) = encode_field f @ encode_fields fs" by (simp add: encode_fields_def)
  then have "payload_loop (encode_fields (f # fs)) out = payload_loop (encode_fields fs) (payload_set f out)"
    using encode_field_key [OF f(1)] payload_field_body [OF f, of "encode_fields fs" out] d
    by (simp add: payload_loop.simps [of "encode_field f @ encode_fields fs"])
  with Cons show ?case by simp
qed

section \<open>The varint reader on any input\<close>

lemma low_bits: "(b :: 8 word) AND 0x7f = of_nat (unat b mod 128)"
proof -
  have "b AND mask 7 = of_nat (unat (take_bit 7 b))" by (simp add: take_bit_eq_mask)
  then show ?thesis by (simp only: unsigned_take_bit_eq seven_bits) (simp add: take_bit_eq_mod)
qed

abbreviation groups :: "nat \<Rightarrow> bytes \<Rightarrow> nat \<Rightarrow> nat" where
  "groups i data n \<equiv> \<Sum>j\<le>n. unat (data ! j) mod 128 * 2 ^ (7 * (i + j))"

lemma varint_loop_exact:
  assumes "A < 2 ^ (7 * i)" and "i \<le> 10"
  shows "varint_loop i (of_nat A) data =
    (let n = length (takeWhile (\<lambda>b. 128 \<le> unat b) data) in
     if n < length data \<and> i + n < 10 then Inr (of_nat (A + groups i data n), i + n + 1)
     else if i + length data > 10 then Inl VarintTooLong else Inl VarintTruncated)"
  using assms
proof (induction data arbitrary: i A)
  case (Cons b data)
  show ?case
  proof (cases "i \<ge> 10")
    case False
    let ?g = "unat b mod 128"
    have "unat (of_nat A :: 64 word) \<le> A" by (simp only: unat_of_nat mod_less_eq_dividend)
    then have "unat (of_nat A :: 64 word) < 2 ^ (7 * i)" using Cons.prems(1) by linarith
    from varint_step [OF this, of ?g] have acc: "of_nat A OR push_bit (7 * i) (ucast (b AND 0x7f)) = (of_nat (A + ?g * 2 ^ (7 * i)) :: 64 word)"
      by (simp add: low_bits)
    have lt: "b < 0x80 \<longleftrightarrow> unat b < 128" by (simp add: word_less_nat_alt)
    show ?thesis
    proof (cases "unat b < 128")
      case True
      with False acc lt show ?thesis by (simp add: Let_def del: of_nat_add of_nat_mult)
    next
      case big: False
      have "?g * 2 ^ (7 * i) \<le> 127 * 2 ^ (7 * i)" by simp
      moreover have "(2 :: nat) ^ (7 * (i + 1)) = 128 * 2 ^ (7 * i)" by (simp add: power_add)
      ultimately have A: "A + ?g * 2 ^ (7 * i) < 2 ^ (7 * (i + 1))" using Cons.prems(1) by linarith
      have sum: "A + ?g * 2 ^ (7 * i) + groups (i + 1) data n = A + groups i (b # data) (Suc n)" for n
        by (simp only: sum.atMost_Suc_shift) (simp add: add.assoc)
      have "varint_loop i (of_nat A) (b # data) = varint_loop (i + 1) (of_nat (A + ?g * 2 ^ (7 * i))) data"
        using False big acc lt by (simp add: Let_def del: of_nat_add of_nat_mult)
      also have "\<dots> = (let n = length (takeWhile (\<lambda>b. 128 \<le> unat b) data) in
          if n < length data \<and> i + 1 + n < 10 then Inr (of_nat (A + groups i (b # data) (Suc n)), i + 1 + n + 1)
          else if i + 1 + length data > 10 then Inl VarintTooLong else Inl VarintTruncated)"
        using Cons.IH [OF A] False by (simp only: sum)
      finally show ?thesis using big by (simp add: Let_def del: of_nat_add of_nat_mult sum.atMost_Suc)
    qed
  qed (use Cons.prems in simp)
qed simp

section \<open>Properties\<close>

text \<open>
  The varint reader on any bytes: it succeeds exactly when one of the first ten bytes has its
  high bit clear, consumes the bytes up to the first such one, and returns the sum of their
  seven-bit groups modulo 2^64; more than ten bytes without an end are too long, otherwise
  the input is truncated.
\<close>

theorem varint_exact:
  "read_varint data =
    (let n = length (takeWhile (\<lambda>b. 128 \<le> unat b) data) in
     if n < length data \<and> n < 10 then Inr (of_nat (\<Sum>j\<le>n. unat (data ! j) mod 128 * 2 ^ (7 * j)), n + 1)
     else if length data > 10 then Inl VarintTooLong else Inl VarintTruncated)"
  using varint_loop_exact [of 0 0 data] by (simp add: read_varint_def Let_def)

text \<open>
  C22. Frames are decoded as written: a frame made of any fields of the wire format, in any order,
  decodes to the message its fields describe, the last occurrence of a field winning and unknown
  fields (of every wire type in the wrapper) being skipped; the kline payload is that of field 308.
\<close>

theorem frames_decoded:
  assumes "\<forall>f\<in>set fs. field_fits f" and "fold wrapper_set fs (empty_kline, []) = (out, encode_fields gs)"
    and "gs \<noteq> []" and "\<forall>g\<in>set gs. field_fits g \<and> snd (field_key g) \<in> {0, 2}"
  shows "decode_spot_kline (encode_fields fs) = Inr (fold payload_set gs out)"
proof -
  obtain g gs' where "gs = g # gs'" using assms(3) by (cases gs) auto
  then have "encode_fields gs \<noteq> []" using encode_field_key(2) [of g] assms(4) by (simp add: encode_fields_def)
  then show ?thesis
    using wrapper_loop_encode [OF assms(1)] payload_loop_encode [OF assms(4)] assms(2) by (simp add: decode_spot_kline_def)
qed

section \<open>Witnesses\<close>

abbreviation sample_payload :: "wire_field list" where
  "sample_payload \<equiv> [FBytes 1 [0x4d], FVarint 2 1700000000, FBytes 8 [0x35, 0x30], FVarint 9 1700000060]"

theorem frames_decoded_witness:
  "decode_spot_kline (encode_fields [FBytes 1 [0x63], FBytes 3 [0x42, 0x54], FVarint 6 5, FFixed32 7 [1, 2, 3, 4],
      FBytes 308 (encode_fields sample_payload)])
    = Inr \<lparr>mk_channel = ''c'', mk_symbol = ''BT'', mk_create_time = 0, mk_send_time = 5, mk_interval = ''M'',
        mk_window_start = 1700000000, mk_amount = ''50'', mk_window_end = 1700000060\<rparr>"
proof -
  have "length (encode_fields sample_payload) < 2 ^ 64" by (simp add: encode_fields_def put_varint.simps)
  then show ?thesis
    by (subst frames_decoded [where gs = sample_payload])
      (simp_all add: empty_kline_def int64_of_def string_of_bytes_def char_of_def bit_Suc_0_iff,
       simp only: mexc_spot_kline.update_convs)
qed

end
