(* ===== verification/Mexc.thy ===== *)
theory Mexc
  imports Adapter_Base Mexc_Proto
begin

text \<open>
  internal/adapters/mexc/mexc.go: tickers of both markets, the sizes of the futures contracts, the round of
  funding requests, symbols, candles and connections of MEXC. Instruments are called BTCUSDT on the spot market and
  BTC_USDT on the futures market. The binary spot candles are decoded by \<open>Mexc_Proto\<close>.
\<close>

section \<open>Contracts\<close>

record mexc_contract =
  mx_symbol :: string
  mx_quote :: string
  mx_size :: dec
  mx_state :: int

text \<open>The decoded answer is a success flag, a code and the rows; \<open>None\<close> is a failed request.\<close>

type_synonym mexc_detail = "(bool \<times> int \<times> mexc_contract list) option"

record mexc_sizes =
  ms_size :: "(string, dec) gomap"
  ms_at :: gtime

definition mexc_size_row :: "mexc_contract \<Rightarrow> (string, dec) gomap \<Rightarrow> (string, dec) gomap" where
  "mexc_size_row v m =
     (if mx_state v \<noteq> 0 \<or> mx_quote v \<noteq> ''USDT'' \<or> \<not> mx_size v > 0 then m
      else mput (to_upper (trim_space (mx_symbol v))) (mx_size v) m)"

definition mexc_size_map :: "mexc_contract list \<Rightarrow> (string, dec) gomap" where
  "mexc_size_map rows = fold mexc_size_row rows []"

text \<open>The second component tells that the call failed.\<close>

definition ensure_contract_sizes :: "gtime \<Rightarrow> mexc_detail \<Rightarrow> mexc_sizes \<Rightarrow> mexc_sizes \<times> bool" where
  "ensure_contract_sizes now response a =
     (if ms_size a \<noteq> [] \<and> time_sub now (ms_at a) < 5 * nano_minute then (a, False)
      else case response of
        None \<Rightarrow> (a, True)
      | Some (success, code, rows) \<Rightarrow>
          if \<not> success \<or> code \<noteq> 0 then (a, True)
          else if mexc_size_map rows = [] then (a, True)
          else (\<lparr>ms_size = mexc_size_map rows, ms_at = now\<rparr>, False))"

record mexc_spot_info =
  mq_symbol :: string
  mq_status :: string
  mq_quote :: string

definition mexc_spot_symbols :: "mexc_spot_info list option \<Rightarrow> string list option" where
  "mexc_spot_symbols response =
     map_option (\<lambda>rows. map mq_symbol (filter (\<lambda>v. mq_quote v = ''USDT'' \<and> mq_status v = ''1'') rows)) response"

definition mexc_futures_symbols :: "mexc_detail \<Rightarrow> string list option" where
  "mexc_futures_symbols response =
     (case response of
        None \<Rightarrow> None
      | Some (success, code, rows) \<Rightarrow>
          if \<not> success \<or> code \<noteq> 0 then None
          else Some (map mx_symbol (filter (\<lambda>v. mx_quote v = ''USDT'' \<and> mx_state v = 0) rows)))"

section \<open>Tickers\<close>

record mexc_spot_ticker =
  mt4_symbol :: string
  mt4_bid :: string
  mt4_ask :: string
  mt4_volume :: string

definition mexc_spot_to_tick :: "dec_lib \<Rightarrow> mexc_spot_ticker \<Rightarrow> gtime \<Rightarrow> gtime \<Rightarrow> market_tick option" where
  "mexc_spot_to_tick D d ts received =
     (if \<not> has_suffix (to_upper (mt4_symbol d)) ''USDT'' then None
      else case read_quote D (mt4_bid d) (mt4_ask d) of
        None \<Rightarrow> None
      | Some q \<Rightarrow> (case lib_parse D (mt4_volume d) of
          None \<Rightarrow> None
        | Some v \<Rightarrow> Some (tick_of ''MEXC'' (mt4_symbol d) MarketTypeSpot q v ts received)))"

definition mexc_spot_frame ::
  "dec_lib \<Rightarrow> gtime \<Rightarrow> (mexc_spot_ticker \<Rightarrow> gtime) \<Rightarrow> mexc_spot_ticker list \<Rightarrow> market_tick list" where
  "mexc_spot_frame D now received rows = List.map_filter (\<lambda>d. mexc_spot_to_tick D d now (received d)) rows"

text \<open>A raw JSON value as a decimal.\<close>

definition raw_decimal :: "dec_lib \<Rightarrow> string \<Rightarrow> dec option" where
  "raw_decimal D raw =
     (let s = trim_space raw in if length s = 0 \<or> s = ''null'' then None else lib_parse D s)"

record mexc_futures_ticker =
  mu_symbol :: string
  mu_last :: string
  mu_bid :: string
  mu_ask :: string
  mu_volume :: string

text \<open>The volume counts contracts; it is converted with the size of the contract and the last price.\<close>

definition mexc_last_price :: "dec_lib \<Rightarrow> string \<Rightarrow> dec \<Rightarrow> dec \<Rightarrow> dec" where
  "mexc_last_price D raw bid ask =
     (case raw_decimal D raw of Some l \<Rightarrow> if l > 0 then l else lib_div D (bid + ask) 2 | None \<Rightarrow> lib_div D (bid + ask) 2)"

definition mexc_futures_to_tick :: "dec_lib \<Rightarrow> mexc_sizes \<Rightarrow> mexc_futures_ticker \<Rightarrow> gtime \<Rightarrow> market_tick option" where
  "mexc_futures_to_tick D a d now =
     (case raw_decimal D (mu_bid d) of
        None \<Rightarrow> None
      | Some bid \<Rightarrow>
          if \<not> bid > 0 then None
          else case raw_decimal D (mu_ask d) of
            None \<Rightarrow> None
          | Some ask \<Rightarrow>
              if \<not> ask > 0 \<or> bid > ask then None
              else case raw_decimal D (mu_volume d) of
                None \<Rightarrow> None
              | Some contracts \<Rightarrow>
                  if contracts < 0 then None
                  else (let symbol = remove_chars ''_-'' (mu_symbol d) in
                    if \<not> has_suffix (to_upper symbol) ''USDT'' then None
                    else case map_of (ms_size a) (to_upper (trim_space (mu_symbol d))) of
                      None \<Rightarrow> None
                    | Some sz \<Rightarrow>
                        if \<not> sz > 0 then None
                        else Some (tick_of ''MEXC'' symbol MarketTypeFutures (bid, ask)
                          (contracts * sz * mexc_last_price D (mu_last d) bid ask) now now)))"

definition mexc_futures_frame ::
  "dec_lib \<Rightarrow> mexc_sizes \<Rightarrow> gtime \<Rightarrow> string \<Rightarrow> mexc_futures_ticker \<Rightarrow> market_tick option" where
  "mexc_futures_frame D a now channel d = (if channel \<noteq> ''push.ticker'' then None else mexc_futures_to_tick D a d now)"

section \<open>Funding rates\<close>

record mexc_funding =
  mf_success :: bool
  mf_symbol :: string
  mf_rate :: dec
  mf_next :: int
  mf_ts :: int

text \<open>One request; an error is logged by the caller.\<close>

definition poll_one_funding :: "gtime \<Rightarrow> gtime \<Rightarrow> mexc_funding option \<Rightarrow> funding_manager \<Rightarrow> funding_manager" where
  "poll_one_funding clock now response fm =
     (case response of
        None \<Rightarrow> fm
      | Some x \<Rightarrow>
          if \<not> mf_success x then fm
          else fst (sink_funding clock ''MEXC'' (remove_chars ''_'' (mf_symbol x)) (mf_rate x) (unix_milli (mf_next x))
            (if mf_ts x = 0 then now else unix_milli (mf_ts x)) fm))"

text \<open>One turn of the loop of \<open>ConnectFunding\<close>: the symbols asked for and the next cursor.\<close>

definition funding_turn :: "string list \<Rightarrow> nat \<Rightarrow> string list \<times> nat" where
  "funding_turn symbols cursor =
     (let stop = min (cursor + 10) (length symbols) in
      (take (stop - cursor) (drop cursor symbols), if stop \<ge> length symbols then 0 else stop))"

definition ask_funding ::
  "(string \<Rightarrow> gtime \<times> gtime \<times> mexc_funding option) \<Rightarrow> string \<Rightarrow> funding_manager \<Rightarrow> funding_manager" where
  "ask_funding answer s fm = (case answer s of (clock, now, response) \<Rightarrow> poll_one_funding clock now response fm)"

definition funding_round ::
  "(string \<Rightarrow> gtime \<times> gtime \<times> mexc_funding option) \<Rightarrow> string list \<Rightarrow> nat \<times> funding_manager \<Rightarrow> nat \<times> funding_manager" where
  "funding_round answer symbols = (\<lambda>(cursor, fm).
     (snd (funding_turn symbols cursor),
      fold (ask_funding answer) (fst (funding_turn symbols cursor)) fm))"

section \<open>Candles\<close>

definition mexc_candle_shards :: "string list \<Rightarrow> string list list" where
  "mexc_candle_shards symbols = slices 30 symbols"

definition mexc_spot_candle_topic :: "string \<Rightarrow> string" where
  "mexc_spot_candle_topic s = ''spot@public.kline.v3.api.pb@'' @ s @ ''@Min1''"

record mexc_candle =
  mz_symbol :: string
  mz_time :: int
  mz_q :: string
  mz_amount :: string
  mz_ts :: int

text \<open>\<open>json_dec\<close> is \<open>json.Unmarshal\<close> of a raw value into a decimal. The second component tells that the connection ends.\<close>

definition mexc_futures_candle ::
  "(string \<Rightarrow> dec option) \<Rightarrow> gtime \<Rightarrow> gtime \<Rightarrow> mexc_candle \<Rightarrow> volume_engine \<Rightarrow> volume_engine \<times> bool" where
  "mexc_futures_candle json_dec clock now r ve =
     (let raw = (if mz_amount r = [] then mz_q r else mz_amount r) in
      if mz_symbol r = [] \<or> mz_time r = 0 \<or> raw = [] then (ve, False)
      else case json_dec raw of
        None \<Rightarrow> (ve, True)
      | Some v \<Rightarrow>
          if v < 0 then (ve, True)
          else (update_candle clock (candle_of ''MEXC'' (remove_chars ''_-'' (mz_symbol r)) MarketTypeFutures
            (unix_seconds (mz_time r)) (minute_end (unix_seconds (mz_time r))) v
            (if mz_ts r = 0 then now else unix_milli (mz_ts r)) False) ve, False))"

definition mexc_spot_candle ::
  "dec_lib \<Rightarrow> gtime \<Rightarrow> gtime \<Rightarrow> bytes \<Rightarrow> volume_engine \<Rightarrow> volume_engine \<times> bool" where
  "mexc_spot_candle D clock now msg ve =
     (case decode_spot_kline msg of
        Inl _ \<Rightarrow> (ve, True)
      | Inr k \<Rightarrow>
          if mk_symbol k = [] \<or> mk_window_start k = 0 \<or> mk_amount k = [] then (ve, False)
          else case lib_parse D (mk_amount k) of
            None \<Rightarrow> (ve, True)
          | Some v \<Rightarrow>
              if v < 0 then (ve, True)
              else (let t = (if mk_send_time k = 0 then unix_milli (mk_create_time k) else unix_milli (mk_send_time k));
                        event = (if is_zero_time t then now else t)
                    in (update_candle clock (candle_of ''MEXC'' (remove_chars ''_-'' (mk_symbol k)) MarketTypeSpot
                      (unix_seconds (mk_window_start k)) (unix_seconds (mk_window_end k)) v event False) ve, False)))"

text \<open>The frames of a candle connection. A text frame is decoded twice, as the answer to a subscription (its
  code and text) and as a candle; \<open>None\<close> when it cannot be.\<close>

datatype mexc_frame = MexcText "(int \<times> string) option" "mexc_candle option" | MexcBinary bytes | MexcOther

definition mexc_candle_frame ::
  "dec_lib \<Rightarrow> (string \<Rightarrow> dec option) \<Rightarrow> gtime \<Rightarrow> gtime \<Rightarrow> bool \<Rightarrow> mexc_frame \<Rightarrow> volume_engine \<Rightarrow> volume_engine \<times> bool" where
  "mexc_candle_frame D json_dec clock now spot frame ve =
     (case frame of
        MexcText answer candle \<Rightarrow>
          (let (code, msg) = (case answer of None \<Rightarrow> (0, []) | Some a \<Rightarrow> a) in
           if code \<noteq> 0 \<or> msg \<noteq> [] then (ve, code \<noteq> 0)
           else if \<not> spot then (case candle of None \<Rightarrow> (ve, False) | Some r \<Rightarrow> mexc_futures_candle json_dec clock now r ve)
           else (ve, False))
      | MexcBinary msg \<Rightarrow> if spot then mexc_spot_candle D clock now msg ve else (ve, False)
      | MexcOther \<Rightarrow> (ve, False))"

section \<open>Connections\<close>

definition mexc_link :: link_policy where
  "mexc_link = message_link (15 * nano_second + 20 * nano_second)"

text \<open>A text of the spot connection is \<open>None\<close> when it contains PONG or is no list of tickers. The subscription is one
  request.\<close>

definition mexc_spot_message ::
  "dec_lib \<Rightarrow> ((gtime \<times> (mexc_spot_ticker \<Rightarrow> gtime) \<times> mexc_spot_ticker list) option, unit, market_tick) handler" where
  "mexc_spot_message D text_frame u =
     (case text_frame of
        None \<Rightarrow> (u, [], False)
      | Some (now, received, rows) \<Rightarrow> (u, mexc_spot_frame D now received rows, False))"

definition mexc_connect_spot ::
  "dec_lib \<Rightarrow> gtime option \<Rightarrow> gtime
    \<Rightarrow> ((gtime \<times> (mexc_spot_ticker \<Rightarrow> gtime) \<times> mexc_spot_ticker list) option, unit) session_script
    \<Rightarrow> unit \<Rightarrow> unit \<times> market_tick list \<times> outcome" where
  "mexc_connect_spot D cancel started sc u =
     run_session mexc_link cancel (mexc_spot_message D) (length [''spot@public.miniTickers.v3.api'']) sc u"

definition mexc_listen_spot where
  "mexc_listen_spot D cancel attempts =
     supervise ticker_loop_no_reset cancel (mexc_connect_spot D cancel) id reconnect_backoff attempts ()"

text \<open>A text of the futures connection: a ping of the server with whether it can be answered, a text that is no
  response, a response with its clock.\<close>

datatype mexc_futures_text = MexcPing bool | MexcNoTicker | MexcTicker gtime string mexc_futures_ticker

fun mexc_futures_message :: "dec_lib \<Rightarrow> (mexc_futures_text, mexc_sizes, market_tick) handler" where
  "mexc_futures_message D (MexcPing pong_ok) a = (a, [], \<not> pong_ok)"
| "mexc_futures_message D MexcNoTicker a = (a, [], False)"
| "mexc_futures_message D (MexcTicker now channel d) a =
     (a, case mexc_futures_frame D a now channel d of None \<Rightarrow> [] | Some t \<Rightarrow> [t], False)"

definition mexc_futures_session ::
  "dec_lib \<Rightarrow> gtime option \<Rightarrow> gtime \<Rightarrow> (mexc_futures_text, mexc_sizes) session_script
    \<Rightarrow> mexc_sizes \<Rightarrow> mexc_sizes \<times> market_tick list \<times> outcome" where
  "mexc_futures_session D cancel started sc a =
     run_session mexc_link cancel (mexc_futures_message D) (length [''sub.ticker'']) sc a"

definition mexc_listen_futures where
  "mexc_listen_futures D cancel attempts a =
     supervise ticker_loop_no_reset cancel (mexc_futures_session D cancel) id reconnect_backoff attempts a"

definition mexc_spot_keep_alive :: "ping_tick list \<Rightarrow> string list \<times> bool" where
  "mexc_spot_keep_alive ticks = keep_alive ''{\"method\":\"PING\"}'' ticks"

definition mexc_futures_keep_alive :: "ping_tick list \<Rightarrow> string list \<times> bool" where
  "mexc_futures_keep_alive ticks = keep_alive ''{\"method\":\"ping\"}'' ticks"

text \<open>A failed write of a candle connection cancels its context, and with it the connection.\<close>

definition mexc_candle_keep_alive :: "bool \<Rightarrow> ping_tick list \<Rightarrow> string list \<times> bool" where
  "mexc_candle_keep_alive spot ticks =
     keep_alive (if spot then ''{\"method\":\"PING\"}'' else ''{\"method\":\"ping\"}'') ticks"

text \<open>The futures stream starts once the sizes of the contracts are known.\<close>

definition mexc_load_sizes :: "gtime option \<Rightarrow> (gtime \<times> mexc_detail) attempt list \<Rightarrow> mexc_sizes \<Rightarrow> mexc_sizes \<times> unit retried" where
  "mexc_load_sizes cancel tries a =
     retry_until cancel
       (\<lambda>t (now, response) a. case ensure_contract_sizes now response a of (a1, err) \<Rightarrow> (a1, if err then None else Some ()))
       reconnect_backoff tries a"

definition mexc_connect_futures where
  "mexc_connect_futures D cancel tries attempts a =
     (case mexc_load_sizes cancel tries a of
        (a1, Got _) \<Rightarrow> mexc_listen_futures D cancel attempts a1
      | (a1, GaveUp) \<Rightarrow> (a1, [], [], True)
      | (a1, Trying) \<Rightarrow> (a1, [], [], False))"

text \<open>The funding stream loads its symbols in the same way and asks for ten of them every second. \<open>None\<close> is
  the error for a missing sink.\<close>

definition mexc_funding_symbols :: "gtime option \<Rightarrow> mexc_detail attempt list \<Rightarrow> string list retried" where
  "mexc_funding_symbols cancel tries =
     snd (retry_until cancel
       (\<lambda>t response u. (u, case mexc_futures_symbols response of
          None \<Rightarrow> None | Some loaded \<Rightarrow> if length loaded > 0 then Some loaded else None))
       reconnect_backoff tries ())"

definition mexc_connect_funding where
  "mexc_connect_funding has_sink cancel tries rounds fm =
     (if \<not> has_sink then None
      else Some (case mexc_funding_symbols cancel tries of
        Got symbols \<Rightarrow>
          (case poll_loop (\<lambda>answer. funding_round answer symbols) rounds (0, fm) of ((cursor, fm'), over) \<Rightarrow> (fm', over))
      | GaveUp \<Rightarrow> (fm, True)
      | Trying \<Rightarrow> (fm, False)))"

text \<open>A frame of a candle connection with the clocks. The spot subscriptions are one request, the futures
  subscriptions one request per symbol; the deadline is set before.\<close>

definition mexc_candle_message ::
  "dec_lib \<Rightarrow> (string \<Rightarrow> dec option) \<Rightarrow> bool \<Rightarrow> (gtime \<times> gtime \<times> mexc_frame, volume_engine, market_tick) handler" where
  "mexc_candle_message D json_dec spot msg ve =
     (case msg of (clock, now, frame) \<Rightarrow>
        (case mexc_candle_frame D json_dec clock now spot frame ve of (ve', err) \<Rightarrow> (ve', [], err)))"

definition mexc_candle_link :: link_policy where
  "mexc_candle_link = mexc_link\<lparr>lp_open_first := True\<rparr>"

definition mexc_candle_requests :: "bool \<Rightarrow> string list \<Rightarrow> string list list" where
  "mexc_candle_requests spot symbols = (if spot then [map mexc_spot_candle_topic symbols] else map (\<lambda>s. [s]) symbols)"

definition mexc_read_candle_shard ::
  "dec_lib \<Rightarrow> (string \<Rightarrow> dec option) \<Rightarrow> bool \<Rightarrow> gtime option \<Rightarrow> string list \<Rightarrow> gtime
    \<Rightarrow> (gtime \<times> gtime \<times> mexc_frame, volume_engine) session_script
    \<Rightarrow> volume_engine \<Rightarrow> volume_engine \<times> market_tick list \<times> outcome" where
  "mexc_read_candle_shard D json_dec spot cancel symbols started sc ve =
     run_session mexc_candle_link cancel (mexc_candle_message D json_dec spot) (length (mexc_candle_requests spot symbols)) sc ve"

definition run_mexc_candle_shard where
  "run_mexc_candle_shard D json_dec spot cancel symbols attempts ve =
     supervise candle_loop cancel (mexc_read_candle_shard D json_dec spot cancel symbols) id reconnect_backoff attempts ve"

definition mexc_candle_symbols :: "bool \<Rightarrow> mexc_spot_info list option \<Rightarrow> mexc_detail \<Rightarrow> string list option" where
  "mexc_candle_symbols spot spot_response futures_response =
     (if spot then mexc_spot_symbols spot_response else mexc_futures_symbols futures_response)"

definition mexc_run_candle_feed where
  "mexc_run_candle_feed spot cancel attempts =
     supervise candle_loop cancel
       (\<lambda>started (t, spot_response, futures_response, returned) u.
          case mexc_candle_symbols spot spot_response futures_response of
            None \<Rightarrow> (u, [], Unlisted t)
          | Some symbols \<Rightarrow> run_shards t returned (mexc_candle_shards symbols) u)
       id reconnect_backoff attempts ()"

section \<open>The two interfaces\<close>

lemma mexc_spot_shape:
  assumes "mexc_spot_to_tick D d ts received = Some t"
  shows "\<exists>q v. read_quote D (mt4_bid d) (mt4_ask d) = Some q
    \<and> t = tick_of ''MEXC'' (mt4_symbol d) (market_of True) q v ts received"
  using assms by (auto simp: mexc_spot_to_tick_def market_of_def split: option.splits if_splits)

lemma mexc_futures_proper: "mexc_futures_to_tick D a d now = Some t \<Longrightarrow> proper_tick ''MEXC'' now t"
  by (auto simp: mexc_futures_to_tick_def Let_def proper_tick_def split: option.splits if_splits)

interpretation mexc_spot_ticks: tick_source
  "\<lambda>(D, d, ts, received). mexc_spot_to_tick D d ts received" "''MEXC''" "\<lambda>(D, d, ts, received). received"
  by unfold_locales (auto simp: string_eval dest!: mexc_spot_shape intro: proper_tick_of)

interpretation mexc_futures_ticks: tick_source
  "\<lambda>(D, a, d, now). mexc_futures_to_tick D a d now" "''MEXC''" "\<lambda>(D, a, d, now). now"
  by unfold_locales (simp_all add: string_eval split_paired_all mexc_futures_proper)

interpretation mexc_feeds: aligned_feeds "''MEXC''" "contract_name ''_''" "remove_chars ''_-''" "remove_chars ''_''" "remove_chars ''_-''"
  by unfold_locales (simp_all add: feed_keys [of "''_''" _ "''_-''"] feed_keys [of "''_''" _ "''_''"])

section \<open>Sizes\<close>

lemma mexc_size_row_positive:
  "\<forall>s v. map_of m s = Some v \<longrightarrow> 0 < v \<Longrightarrow> map_of (mexc_size_row r m) s = Some v \<Longrightarrow> 0 < v"
  by (auto simp: mexc_size_row_def map_of_mput split: if_splits)

lemma mexc_size_map_positive: "map_of (mexc_size_map rows) s = Some v \<Longrightarrow> 0 < v"
proof -
  have "\<forall>s v. map_of m s = Some v \<longrightarrow> 0 < v \<Longrightarrow> map_of (fold mexc_size_row rows m) s = Some v \<Longrightarrow> 0 < v" for m
  proof (induction rows arbitrary: m)
    case (Cons r rows)
    have "\<forall>s v. map_of (mexc_size_row r m) s = Some v \<longrightarrow> 0 < v"
      using mexc_size_row_positive [OF Cons.prems(1)] by blast
    from Cons.IH [OF this] Cons.prems(2) show ?case by simp
  qed simp
  from this [of "[]"] show "map_of (mexc_size_map rows) s = Some v \<Longrightarrow> 0 < v" by (simp add: mexc_size_map_def)
qed

text \<open>A failed refresh keeps the sizes, and an answer without a usable contract is a failure.\<close>

lemma ensure_failed: "ensure_contract_sizes now response a = (a', True) \<Longrightarrow> a' = a"
  by (auto simp: ensure_contract_sizes_def split: option.splits if_splits)

lemma ensure_nonempty: "ensure_contract_sizes now response a = (a', False) \<Longrightarrow> ms_size a' \<noteq> []"
  by (auto simp: ensure_contract_sizes_def split: option.splits if_splits)

section \<open>The round of requests\<close>

text \<open>Turn by turn the loop walks through the list and starts again.\<close>

lemma funding_turn_mid:
  "10 * k < length symbols \<Longrightarrow> funding_turn symbols (10 * k) =
    (take 10 (drop (10 * k) symbols), if length symbols \<le> 10 * Suc k then 0 else 10 * Suc k)"
  by (auto simp: funding_turn_def Let_def min_def)

fun funding_turns :: "nat \<Rightarrow> string list \<Rightarrow> nat \<Rightarrow> string list \<times> nat" where
  "funding_turns 0 symbols cursor = ([], cursor)"
| "funding_turns (Suc n) symbols cursor =
     (case funding_turn symbols cursor of (asked, c) \<Rightarrow>
        case funding_turns n symbols c of (rest, c') \<Rightarrow> (asked @ rest, c'))"

lemma funding_turns_rest:
  "10 * k < length symbols \<Longrightarrow> length symbols \<le> 10 * (k + n) \<Longrightarrow> 10 * (k + n) < length symbols + 10 \<Longrightarrow>
    funding_turns n symbols (10 * k) = (drop (10 * k) symbols, 0)"
proof (induction n arbitrary: k)
  case (Suc n)
  show ?case
  proof (cases "length symbols \<le> 10 * Suc k")
    case True
    then have "n = 0" using Suc.prems by simp
    with True Suc.prems(1) show ?thesis by (simp add: funding_turn_mid)
  next
    case False
    then have "funding_turns n symbols (10 * Suc k) = (drop (10 * Suc k) symbols, 0)"
      using Suc.prems by (intro Suc.IH) auto
    moreover have "take 10 (drop (10 * k) symbols) @ drop (10 * Suc k) symbols = drop (10 * k) symbols"
      using append_take_drop_id [of 10 "drop (10 * k) symbols"] by (simp add: add.commute)
    ultimately show ?thesis using False Suc.prems(1) by (simp add: funding_turn_mid)
  qed
qed simp

lemma funding_rounds:
  "(funding_round answer symbols ^^ n) (c, fm) =
    (snd (funding_turns n symbols c), fold (ask_funding answer) (fst (funding_turns n symbols c)) fm)"
  by (induction n arbitrary: c fm)
    (simp_all add: funding_round_def funpow_Suc_right split: prod.split del: funpow.simps)

section \<open>Whole runs\<close>

interpretation mexc_spot_feed: feed "mexc_spot_message D" "\<lambda>u. True" "tick_from ''MEXC''" for D
proof
  fix msg and s s' :: unit and out err
  assume run: "mexc_spot_message D msg s = (s', out, err)"
  have "list_all (tick_from ''MEXC'') (mexc_spot_frame D now received rows)" for now received rows
    using mexc_spot_ticks.source_proper by (auto simp: mexc_spot_frame_def intro!: tick_from_map_filter tick_from_proper)
  then show "True \<and> list_all (tick_from ''MEXC'') out" using run
    by (auto simp: mexc_spot_message_def split: option.splits)
qed

interpretation mexc_spot_runs: feed_run "mexc_connect_spot D cancel" "\<lambda>w. True" "\<lambda>u. True" "tick_from ''MEXC''" for D cancel
  by unfold_locales (auto simp: mexc_connect_spot_def dest: mexc_spot_feed.session_keeps [OF legal_trivial TrueI])

lemma mexc_futures_frame_tick: "mexc_futures_frame D a now channel d = Some t \<Longrightarrow> tick_from ''MEXC'' t"
  by (auto simp: mexc_futures_frame_def intro: tick_from_proper mexc_futures_proper split: if_splits)

interpretation mexc_futures_feed: feed "mexc_futures_message D" "\<lambda>a. True" "tick_from ''MEXC''" for D
proof
  fix msg and s s' :: mexc_sizes and out err
  assume "mexc_futures_message D msg s = (s', out, err)"
  then show "True \<and> list_all (tick_from ''MEXC'') out"
    by (cases msg) (auto split: option.splits dest: mexc_futures_frame_tick)
qed

interpretation mexc_futures_runs: feed_run "mexc_futures_session D cancel" "\<lambda>w. True" "\<lambda>a. True" "tick_from ''MEXC''" for D cancel
  by unfold_locales (auto simp: mexc_futures_session_def dest: mexc_futures_feed.session_keeps [OF legal_trivial TrueI])

lemma mexc_listen_ticks:
  "list_all (tick_from ''MEXC'') (fst (snd (mexc_listen_spot D cancel attempts)))"
  "list_all (tick_from ''MEXC'') (fst (snd (mexc_connect_futures D cancel tries attempts2 a)))"
proof -
  have "list_all (tick_from ''MEXC'') (fst (snd (mexc_listen_futures D cancel attempts2 a)))" for a
    unfolding mexc_listen_futures_def by (rule mexc_futures_runs.supervise_result) (simp_all add: list_all_iff)
  then show "list_all (tick_from ''MEXC'') (fst (snd (mexc_connect_futures D cancel tries attempts2 a)))"
    by (simp add: mexc_connect_futures_def split: prod.split retried.split)
  show "list_all (tick_from ''MEXC'') (fst (snd (mexc_listen_spot D cancel attempts)))"
    unfolding mexc_listen_spot_def by (rule mexc_spot_runs.supervise_result) (simp_all add: list_all_iff)
qed

lemma mexc_funding_ok:
  assumes "funding_ok fm" and "mexc_connect_funding has_sink cancel tries rounds fm = Some (fm', over)"
  shows "funding_ok fm'"
proof -
  have one: "funding_ok fm \<Longrightarrow> funding_ok (ask_funding answer s fm)" for answer s fm
    by (auto simp: ask_funding_def poll_one_funding_def funding_ok_sink split: prod.split option.split)
  have "funding_ok fm \<Longrightarrow> funding_ok (fold (ask_funding answer) xs fm)" for answer xs fm
    by (induction xs arbitrary: fm) (simp_all add: one)
  then have round: "(funding_ok \<circ> snd) x \<Longrightarrow> (funding_ok \<circ> snd) (funding_round answer symbols x)" for answer symbols x
    by (simp add: funding_round_def case_prod_beta)
  have "(funding_ok \<circ> snd) (fst (poll_loop (\<lambda>answer. funding_round answer symbols) rounds (0, fm)))" for symbols
    by (rule poll_loop_keeps [where ok = "funding_ok \<circ> snd", OF round]) (simp_all add: assms(1))
  then have "funding_ok (snd (fst (poll_loop (\<lambda>answer. funding_round answer symbols) rounds (0, fm))))" for symbols
    by simp
  then show ?thesis using assms
    by (cases "mexc_funding_symbols cancel tries") (auto simp: mexc_connect_funding_def case_prod_beta split: if_splits)
qed

lemma mexc_frame_keeps:
  "volume_ok ve \<Longrightarrow> volume_ok (fst (mexc_candle_frame D json_dec clock now spot frame ve))"
proof -
  assume ve: "volume_ok ve"
  then have f: "volume_ok (fst (mexc_futures_candle json_dec clock now r ve))" for r
    by (simp add: mexc_futures_candle_def Let_def volume_ok_update split: option.split)
  have "volume_ok (fst (mexc_spot_candle D clock now msg ve))" for msg
    using ve by (simp add: mexc_spot_candle_def Let_def volume_ok_update split: sum.split option.split)
  with ve f show ?thesis
    by (simp add: mexc_candle_frame_def case_prod_beta Let_def split: mexc_frame.split option.split)
qed

interpretation mexc_candle_feed: feed "mexc_candle_message D json_dec spot" volume_ok "\<lambda>t. True" for D json_dec spot
proof
  fix msg and ve ve' :: volume_engine and out :: "market_tick list" and err
  assume v: "volume_ok ve" and run: "mexc_candle_message D json_dec spot msg ve = (ve', out, err)"
  obtain clock now frame where m: "msg = (clock, now, frame)" by (metis prod_cases3)
  show "volume_ok ve' \<and> list_all (\<lambda>t. True) out"
    using mexc_frame_keeps [OF v, of D json_dec clock now spot frame] run
    by (auto simp: mexc_candle_message_def m list_all_iff split: prod.splits)
qed

interpretation mexc_candle_runs: feed_run "mexc_read_candle_shard D json_dec spot cancel symbols"
  "\<lambda>sc. legal_events volume_ok (sc_events sc)" volume_ok "\<lambda>t. True" for D json_dec spot cancel symbols
  by unfold_locales (auto simp: mexc_read_candle_shard_def dest: mexc_candle_feed.session_keeps)

lemma mexc_candle_runs_ok:
  assumes "list_all (\<lambda>a. legal_events volume_ok (sc_events (at_world a))) attempts" and "volume_ok ve"
  shows "volume_ok (fst (run_mexc_candle_shard D json_dec spot cancel symbols attempts ve))"
  unfolding run_mexc_candle_shard_def using assms by (intro mexc_candle_runs.supervise_result) auto

section \<open>Property\<close>

text \<open>
  C39. Every futures contract is asked for its funding rate: the turns of ten symbols, one in a second, ask for
  all symbols exactly once in their order and are back at the start after the least number of turns that
  can hold them; the funding manager is then updated with all the answers, failed requests left out.
\<close>

theorem mexc_funding_round:
  assumes "symbols \<noteq> []"
  shows "(funding_round answer symbols ^^ ((length symbols + 9) div 10)) (0, fm) = (0, fold (ask_funding answer) symbols fm)"
proof -
  have "0 < length symbols" using assms by simp
  then have "funding_turns ((length symbols + 9) div 10) symbols 0 = (symbols, 0)"
    using funding_turns_rest [of 0 symbols "(length symbols + 9) div 10"] by simp
  then show ?thesis by (simp add: funding_rounds)
qed

definition mexc_silent :: "string \<Rightarrow> gtime \<times> gtime \<times> mexc_funding option" where
  "mexc_silent s = (0, 0, if s = ''BTC_USDT'' then None
     else Some \<lparr>mf_success = True, mf_symbol = s, mf_rate = 1, mf_next = 5, mf_ts = 0\<rparr>)"

theorem mexc_funding_round_witness:
  "(funding_round mexc_silent (replicate 25 ''BTC_USDT'') ^^ 3) (0, projr (new_funding_manager default_funding_config))
    = (0, fold (ask_funding mexc_silent) (replicate 25 ''BTC_USDT'') (projr (new_funding_manager default_funding_config)))"
  using mexc_funding_round [of "replicate 25 ''BTC_USDT''"] by simp

end
