(* ===== verification/Adapters.thy ===== *)
theory Adapters
  imports Binance Bybit Okx Bitget Gateio Kucoin Bingx Mexc
begin

text \<open>
  The eight adapters side by side: the decoded message from which an adapter makes a tick, and what holds
  of every tick whichever adapter made it.
\<close>

text \<open>The flag tells the spot market from the futures market. Bybit makes its tick from the merged deltas.\<close>

datatype adapter_input =
    FromBinance bool binance_ticker
  | FromBybit bool bybit_ticker
  | FromOkx bool okx_ticker
  | FromBitget bool bitget_ticker
  | FromGateSpot gate_ticker
  | FromGateFutures gate_futures_message "(string, dec) gomap"
  | FromKucoin bool kucoin_ticker
  | FromBingx bool bingx_message "(string, dec) gomap"
  | FromMexcSpot mexc_spot_ticker
  | FromMexcFutures mexc_sizes mexc_futures_ticker

text \<open>\<open>ts\<close> is the time of the message, \<open>received\<close> the reading of the clock when the tick is made.\<close>

fun adapter_tick :: "dec_lib \<Rightarrow> gtime \<Rightarrow> gtime \<Rightarrow> adapter_input \<Rightarrow> market_tick option" where
  "adapter_tick D ts received (FromBinance spot p) = binance_to_market_tick D p (market_of spot) ts received"
| "adapter_tick D ts received (FromBybit spot p) = bybit_to_market_tick D p (market_of spot) ts received"
| "adapter_tick D ts received (FromOkx spot d) = okx_to_market_tick D d (market_of spot) ts received"
| "adapter_tick D ts received (FromBitget spot d) = bitget_to_market_tick D d (market_of spot) ts received"
| "adapter_tick D ts received (FromGateSpot d) = gate_spot_ticker_to_tick D d ts received"
| "adapter_tick D ts received (FromGateFutures msg vols) = snd (gate_futures_frame D ts received msg vols)"
| "adapter_tick D ts received (FromKucoin spot d) = kucoin_to_market_tick D d (market_of spot) received"
| "adapter_tick D ts received (FromBingx spot msg vols) = fst (snd (bingx_ticker_frame (market_of spot) ts received msg vols))"
| "adapter_tick D ts received (FromMexcSpot d) = mexc_spot_to_tick D d ts received"
| "adapter_tick D ts received (FromMexcFutures a d) = mexc_futures_to_tick D a d received"

fun adapter_name :: "adapter_input \<Rightarrow> string" where
  "adapter_name (FromBinance _ _) = ''BINANCE''"
| "adapter_name (FromBybit _ _) = ''BYBIT''"
| "adapter_name (FromOkx _ _) = ''OKX''"
| "adapter_name (FromBitget _ _) = ''BITGET''"
| "adapter_name (FromGateSpot _) = ''GATEIO''"
| "adapter_name (FromGateFutures _ _) = ''GATEIO''"
| "adapter_name (FromKucoin _ _) = ''KUCOIN''"
| "adapter_name (FromBingx _ _ _) = ''BINGX''"
| "adapter_name (FromMexcSpot _) = ''MEXC''"
| "adapter_name (FromMexcFutures _ _) = ''MEXC''"

lemma adapter_tick_proper:
  assumes "adapter_tick D ts received i = Some t"
  shows "proper_tick (adapter_name i) received t"
proof (cases i)
  case (FromBinance spot p)
  then show ?thesis using assms binance_ticks.source_proper [of "(D, p, spot, ts, received)" t] by simp
next
  case (FromBybit spot p)
  then show ?thesis using assms bybit_ticks.source_proper [of "(D, p, spot, ts, received)" t] by simp
next
  case (FromOkx spot d)
  then show ?thesis using assms okx_ticks.source_proper [of "(D, d, spot, ts, received)" t] by simp
next
  case (FromBitget spot d)
  then show ?thesis using assms bitget_ticks.source_proper [of "(D, d, spot, ts, received)" t] by simp
next
  case (FromGateSpot d)
  then show ?thesis using assms gate_spot_ticks.source_proper [of "(D, d, ts, received)" t] by simp
next
  case (FromGateFutures msg vols)
  then show ?thesis using assms gate_futures_ticks.source_proper [of "(D, ts, received, msg, vols)" t] by simp
next
  case (FromKucoin spot d)
  then show ?thesis using assms kucoin_ticks.source_proper [of "(D, d, spot, received)" t] by simp
next
  case (FromBingx spot msg vols)
  then show ?thesis using assms bingx_ticks.source_proper [of "(spot, ts, received, msg, vols)" t] by simp
next
  case (FromMexcSpot d)
  then show ?thesis using assms mexc_spot_ticks.source_proper [of "(D, d, ts, received)" t] by simp
next
  case (FromMexcFutures a d)
  then show ?thesis using assms mexc_futures_ticks.source_proper [of "(D, a, d, received)" t] by simp
qed

section \<open>Properties\<close>

text \<open>
  Whatever an exchange sends, a tick that leaves its adapter bears the name of the exchange, one of the two
  markets, two prices that are not crossed and the time of its receipt; the aggregator refuses such a tick
  exactly when a price is negative or the symbol is blank.
\<close>

theorem adapter_ticks_valid:
  assumes "adapter_tick D ts received i = Some t" and "received \<noteq> 0"
  shows "mt_exchange t = adapter_name i \<and> mt_bid t \<le> mt_ask t \<and> mt_received_at t = received
    \<and> (valid_tick t \<longleftrightarrow> 0 < mt_bid t \<and> trim_space (mt_symbol t) \<noteq> [])"
proof -
  have "trim_space (adapter_name i) \<noteq> []" by (cases i) (simp_all add: string_eval)
  then show ?thesis using adapter_tick_proper [OF assms(1)] assms(2)
    by (auto simp: proper_tick_def valid_tick_def is_zero_time_def)
qed

section \<open>Witness\<close>

theorem adapter_ticks_valid_witness:
  "map_option valid_tick (adapter_tick sample_lib 7 8 (FromKucoin False \<lparr>kt_symbol = ''XBTUSDTM'', kt_bid = ''0'',
     kt_ask = [], kt_bid_price = ''3'', kt_ask_price = ''4'', kt_vol_value = [], kt_turnover = [], kt_turnover24h = []\<rparr>))
   = Some True"
proof -
  let ?d = "\<lparr>kt_symbol = ''XBTUSDTM'', kt_bid = ''0'', kt_ask = [], kt_bid_price = ''3'', kt_ask_price = ''4'',
    kt_vol_value = [], kt_turnover = [], kt_turnover24h = []\<rparr>"
  have p: "lib_parse sample_lib ''3'' = Some 3" "lib_parse sample_lib ''4'' = Some 4"
    by (simp_all add: sample_lib_def sample_parse_def digit_value_def)
  have n: "kucoin_normalize_symbol ''XBTUSDTM'' MarketTypeFutures = Some ''BTCUSDT''"
    by (simp add: kucoin_normalize_symbol_def MarketTypeSpot_def MarketTypeFutures_def has_suffix_def trim_suffix_def
        has_prefix_def)
  have t: "adapter_tick sample_lib 7 8 (FromKucoin False ?d) = Some \<lparr>mt_exchange = ''KUCOIN'', mt_symbol = ''BTCUSDT'',
      mt_market = MarketTypeFutures, mt_bid = 3, mt_ask = 4, mt_volume = 0, mt_event_time = 8, mt_received_at = 8, mt_timestamp = 0\<rparr>"
    by (simp add: kucoin_to_market_tick_def kucoin_bid_def kucoin_ask_def kucoin_volume_def market_of_def p n)
  from adapter_ticks_valid [OF t] have "valid_tick \<lparr>mt_exchange = ''KUCOIN'', mt_symbol = ''BTCUSDT'',
      mt_market = MarketTypeFutures, mt_bid = 3, mt_ask = 4, mt_volume = 0, mt_event_time = 8, mt_received_at = 8, mt_timestamp = 0\<rparr>"
    by (simp add: string_eval)
  then show ?thesis unfolding t by simp
qed

end
