(* ===== verification/Feeds.thy ===== *)
theory Feeds
  imports Adapters
begin

text \<open>
  The feeds of the eight adapters over whole runs: what they send on, what they keep, and when their loops
  return. A run is a list of attempts, each with its script of the network (Connection.thy).
\<close>

section \<open>Loops without an end of the context\<close>

lemma retry_until_alive: "snd (retry_until None request b tries s) \<noteq> GaveUp"
proof (induction tries arbitrary: b s)
  case (Cons a tries)
  obtain s1 r where r: "request (at_started a) (at_world a) s = (s1, r)" by fastforce
  show ?case using Cons.IH by (cases r) (simp_all add: r Let_def case_prod_beta done_at_def)
qed simp

lemma mexc_futures_alive: "snd (snd (snd (mexc_connect_futures D None tries attempts a))) = False"
proof -
  obtain a1 r where r: "mexc_load_sizes None tries a = (a1, r)" by fastforce
  have "snd (mexc_load_sizes None tries a) \<noteq> GaveUp" unfolding mexc_load_sizes_def by (rule retry_until_alive)
  then show ?thesis by (cases r) (simp_all add: mexc_connect_futures_def r mexc_listen_futures_def supervise_alive)
qed

section \<open>Properties\<close>

text \<open>
  C29. Whatever the exchanges send and however often the connections break, every tick of every run of a
  ticker feed bears the name of its exchange, one of the two markets and two prices that are neither zero nor
  crossed.
\<close>

theorem feeds_send_proper_ticks:
  "list_all (tick_from ''BINANCE'') (fst (snd (binance_connect_futures D spot_only cancel runs1)))
   \<and> list_all (tick_from ''BINANCE'') (fst (snd (binance_run_spot_shard D cancel runs2)))
   \<and> list_all (tick_from ''BYBIT'') (fst (snd (bybit_listen D J env seeds (market_of spot) has_sink cancel runs3 s)))
   \<and> list_all (tick_from ''OKX'') (fst (snd (okx_connect_spot D cancel runs4)))
   \<and> list_all (tick_from ''OKX'') (fst (snd (okx_connect_futures D ready cancel runs5)))
   \<and> list_all (tick_from ''BITGET'') (fst (snd (bitget_connect_spot D has_sink cancel runs6 fm)))
   \<and> list_all (tick_from ''BITGET'') (fst (snd (bitget_connect_futures D has_sink cancel runs7 fm)))
   \<and> list_all (tick_from ''GATEIO'') (fst (snd (gate_listen_spot D cancel runs8 a)))
   \<and> list_all (tick_from ''GATEIO'') (fst (snd (gate_listen_futures D cancel runs9 a)))
   \<and> list_all (tick_from ''KUCOIN'') (fst (snd (kucoin_listen D (market_of spot) cancel runs10)))
   \<and> list_all (tick_from ''BINGX'') (fst (snd (bingx_run_ticker_shard (market_of spot) cancel symbols runs11)))
   \<and> list_all (tick_from ''MEXC'') (fst (snd (mexc_listen_spot D cancel runs12)))
   \<and> list_all (tick_from ''MEXC'') (fst (snd (mexc_connect_futures D cancel tries runs13 sizes)))"
proof -
  have m: "MarketTypeSpot = market_of True" "MarketTypeFutures = market_of False" by (simp_all add: market_of_def)
  have "list_all (tick_from ''BINANCE'') (fst (snd (binance_connect_futures D spot_only cancel runs1)))"
    using binance_run_ticks(1) [of D False] by (simp add: binance_connect_futures_def m)
  moreover have "list_all (tick_from ''OKX'') (fst (snd (okx_connect_futures D ready cancel runs5)))"
    using okx_listen_ticks [of D _ False] by (simp add: okx_connect_futures_def m)
  moreover have "list_all (tick_from ''BITGET'') (fst (snd (bitget_connect_futures D has_sink cancel runs7 fm)))"
    using bitget_listen_ticks [of D _ False] by (simp add: bitget_connect_futures_def m)
  moreover have "list_all (tick_from ''OKX'') (fst (snd (okx_connect_spot D cancel runs4)))"
    using okx_listen_ticks [of D _ True] by (simp add: okx_connect_spot_def m)
  moreover have "list_all (tick_from ''BITGET'') (fst (snd (bitget_connect_spot D has_sink cancel runs6 fm)))"
    using bitget_listen_ticks [of D _ True] by (simp add: bitget_connect_spot_def m)
  ultimately show ?thesis
    by (intro conjI binance_run_ticks bybit_listen_ticks gate_listen_ticks kucoin_listen_ticks bingx_shard_ticks mexc_listen_ticks)
qed

text \<open>
  No feed gives up: as long as the context lives, no loop of an adapter returns, whatever fails and
  however often: the ticker feeds, the funding feeds, the candle feeds and the loops that start their shards.
\<close>

theorem feeds_never_give_up:
  "\<not> snd (snd (snd (binance_listen D m None b1))) \<and> \<not> snd (snd (snd (binance_run_spot_shard D None b2)))
   \<and> \<not> snd (snd (snd (binance_run_spot_feed J None b3 files))) \<and> \<not> snd (snd (snd (binance_listen_funding D None b4 fm)))
   \<and> \<not> snd (snd (snd (run_binance_candle_shard D m None b5 ve))) \<and> \<not> snd (snd (snd (binance_run_candle_feed None b6)))
   \<and> \<not> snd (snd (snd (bybit_listen D J env seeds m sink None y1 s))) \<and> \<not> snd (snd (snd (bybit_run_candle_feed D J env seeds m None y2 c)))
   \<and> \<not> snd (snd (snd (okx_listen D inst m None o1))) \<and> \<not> snd (snd (snd (okx_listen_funding D json_len None o2 fm)))
   \<and> \<not> snd (snd (snd (okx_run_candle_feed D inst m None o3 ve)))
   \<and> \<not> snd (snd (snd (bitget_listen D inst m sink None t1 fm))) \<and> \<not> snd (snd (snd (bitget_run_candle_feed D m None t2 ve)))
   \<and> \<not> snd (snd (snd (gate_listen_spot D None g1 a))) \<and> \<not> snd (snd (snd (gate_listen_futures D None g2 a)))
   \<and> \<not> snd (snd (snd (gate_run_candle_feed D spot None g3 av)))
   \<and> \<not> snd (snd (snd (kucoin_listen D m None k1))) \<and> \<not> snd (snd (snd (run_kucoin_candle_shard D m None symbols k2 ve)))
   \<and> \<not> snd (snd (snd (kucoin_run_candle_feed m None k3)))
   \<and> \<not> snd (snd (snd (bingx_run_ticker_shard m None symbols x1))) \<and> \<not> snd (snd (snd (bingx_run_ticker_feed spot None x2)))
   \<and> \<not> snd (snd (snd (bingx_run_candle_shard D spot None symbols x3 ve))) \<and> \<not> snd (snd (snd (bingx_run_candle_feed None x4)))
   \<and> \<not> snd (snd (snd (mexc_listen_spot D None e1))) \<and> \<not> snd (snd (snd (mexc_connect_futures D None tries e2 sizes)))
   \<and> \<not> snd (snd (snd (run_mexc_candle_shard D json_dec spot None symbols e3 ve))) \<and> \<not> snd (snd (snd (mexc_run_candle_feed spot None e4)))"
  by (simp add: supervise_alive mexc_futures_alive binance_listen_def binance_run_spot_shard_def binance_run_spot_feed_def
      binance_listen_funding_def run_binance_candle_shard_def binance_run_candle_feed_def bybit_listen_def
      bybit_run_candle_feed_def okx_listen_def okx_listen_funding_def okx_run_candle_feed_def bitget_listen_def
      bitget_run_candle_feed_def gate_listen_spot_def gate_listen_futures_def gate_run_candle_feed_def kucoin_listen_def
      run_kucoin_candle_shard_def kucoin_run_candle_feed_def bingx_run_ticker_shard_def bingx_run_ticker_feed_def
      bingx_run_candle_shard_def bingx_run_candle_feed_def mexc_listen_spot_def run_mexc_candle_shard_def
      mexc_run_candle_feed_def)

end
