(* ===== verification/Bybit_Seed.thy ===== *)
theory Bybit_Seed
  imports Bybit "HOL-Library.Sublist"
begin

text \<open>
  internal/adapters/bybit/seed.go: the built-in lists of symbols, in the order of their liquidity, with which the
  Bybit adapter works when neither host answers and no list is on disk.
\<close>

section \<open>The lists\<close>

text \<open>Names that are not ASCII are given by their bytes.\<close>

definition seed_spot_symbols_1 :: "string list" where
  "seed_spot_symbols_1 = [
    ''USDCUSDT'', ''BTCUSDT'', ''ETHUSDT'', ''ZECUSDT'', ''SOLUSDT'', ''XRPUSDT'', ''USD1USDT'', ''BNBUSDT'',
    ''SUIUSDT'', ''LINKUSDT'', ''DOGEUSDT'', ''ARBUSDT'', ''WLDUSDT'', ''TAOUSDT'', ''PUMPUSDT'', ''UNIUSDT'',
    ''NEARUSDT'', ''MARSCOINUSDT'', ''AVAXUSDT'', ''LTCUSDT'', ''ADAUSDT'', ''DASHUSDT'', ''RLUSDUSDT'', ''ENAUSDT'',
    ''TRXUSDT'', ''FDUSDUSDT'', ''DOTUSDT'', ''XLMUSDT'', ''ICPUSDT'', ''SAHARAUSDT'', ''PEPEUSDT'', ''ASTERUSDT'',
    ''TRUMPUSDT'', ''UUSDT'', ''HEMIUSDT'', ''ONDOUSDT'', ''FETUSDT'', ''INJUSDT'', ''RAYUSDT'', ''FILUSDT'',
    ''PROMUSDT'', ''TIAUSDT'', ''XAUTUSDT'', ''AAVEUSDT'', ''EURUSDT'', ''ZKCUSDT'', ''PENGUUSDT'', ''ORCAUSDT'',
    ''BCHUSDT'', ''HBARUSDT'', ''CFGUSDT'', ''XPLUSDT'', ''CAKEUSDT'', ''VIRTUALUSDT'', ''BONKUSDT'', ''GRAMUSDT'',
    ''PAXGUSDT'', ''MSTRBUSDT'', ''JUPUSDT'', ''CRCLBUSDT'', ''SOLVUSDT'', ''ZENUSDT'', ''TONUSDT'', ''OPUSDT'',
    ''FIDAUSDT'', ''ACEUSDT'', ''CATIUSDT'', ''AEROUSDT'', ''JSTUSDT'', ''APTUSDT'', ''SOPHUSDT'', ''CRVUSDT'',
    ''ZAMAUSDT'', ''LUNAUSDT'', ''TUTUSDT'', ''COTIUSDT'', ''RENDERUSDT'', ''ZROUSDT'', ''SEIUSDT'', ''PENDLEUSDT'',
    ''CHIPUSDT'', ''XUSDUSDT'', ''IOSTUSDT'', ''JTOUSDT'', ''LUNCUSDT'', ''WLFIUSDT'', ''SNDKBUSDT'', ''GIGGLEUSDT'',
    ''STRKUSDT'', ''ETHFIUSDT'', ''SHIBUSDT'', ''MORPHOUSDT'', ''LDOUSDT'', ''QQQBUSDT'', ''POLUSDT'', ''NFPUSDT'',
    ''MUBUSDT'', ''WIFUSDT'', ''SOXLBUSDT'', ''ZKUSDT'', ''YGGUSDT'', ''METISUSDT'', ''STXUSDT'', ''MITOUSDT'',
    ''SUSHIUSDT'', ''ETCUSDT'', ''PYTHUSDT'', ''KAVAUSDT'', ''MUBARAKUSDT'', ''WBTCUSDT'', ''PLUMEUSDT'',
    ''FORMUSDT'', ''BICOUSDT'', ''DEXEUSDT'', ''EIGENUSDT'', ''BFUSDUSDT'', ''HFTUSDT'', ''VANRYUSDT'', ''ARKMUSDT'',
    ''SPCXBUSDT'', ''EPICUSDT'', ''ATOMUSDT'', ''JASMYUSDT'', ''KAITOUSDT'', ''ORDIUSDT'', ''ARUSDT'', ''ALGOUSDT'',
    ''MINAUSDT'', [CHR 0xE5, CHR 0xB8, CHR 0x81, CHR 0xE5, CHR 0xAE, CHR 0x89, CHR 0xE4, CHR 0xBA, CHR 0xBA, CHR 0xE7, CHR 0x94, CHR 0x9F] @ ''USDT'', ''GALAUSDT'', ''ZKPUSDT'', ''IOUSDT'', ''ENSUSDT'', ''NOMUSDT'', ''USDEUSDT'',
    ''FLOKIUSDT'', ''LAYERUSDT'', ''METUSDT'', ''REZUSDT'', ''BUSDUSDT'', ''DODOUSDT'', ''REUSDT'', ''ROSEUSDT'',
    ''TSTUSDT'', ''RNDRUSDT'', ''LINEAUSDT'', ''BOMEUSDT'', ''ONGUSDT'', ''COCOSUSDT'']"

definition seed_spot_symbols_2 :: "string list" where
  "seed_spot_symbols_2 = [
    ''TWTUSDT'', ''KITEUSDT'', ''SKHYBUSDT'', ''SCRTUSDT'', ''TUSDT'', ''POLYUSDT'', ''NIGHTUSDT'', ''MEGAUSDT'',
    ''VETUSDT'', ''ALLOUSDT'', ''USTCUSDT'', ''NEIROUSDT'', ''RUNEUSDT'', ''BROCCOLI714USDT'', ''FTMUSDT'',
    ''THETAUSDT'', ''GALUSDT'', ''INTCBUSDT'', ''ASTRUSDT'', ''1000CATUSDT'', ''DYDXUSDT'', ''EGLDUSDT'', ''FFUSDT'',
    ''BIGTIMEUSDT'', ''PEOPLEUSDT'', ''ENSOUSDT'', ''AVNTUSDT'', ''BANKUSDT'', ''OMNIUSDT'', ''YBUSDT'', ''SKYUSDT'',
    ''SANDUSDT'', ''TOMOUSDT'', ''KORUBUSDT'', ''MATICUSDT'', ''AXSUSDT'', ''0GUSDT'', ''PHAUSDT'', ''APEUSDT'',
    ''VICUSDT'', ''TVKUSDT'', ''ESPUSDT'', ''GRTUSDT'', ''CVXUSDT'', ''SENTUSDT'', ''PNUTUSDT'', ''EOSUSDT'',
    ''ADXUSDT'', ''SUSDT'', ''SNXXBUSDT'', ''DUSKUSDT'', ''LOKAUSDT'', ''STORJUSDT'', ''PORTALUSDT'', ''BMTUSDT'',
    ''DOGSUSDT'', ''SYRUPUSDT'', ''HEIUSDT'', ''GMXUSDT'', ''WUSDT'', ''TSLABUSDT'', ''TRBUSDT'', ''BLZUSDT'',
    ''HIFIUSDT'', ''LAUSDT'', ''KLAYUSDT'', ''HNTUSDT'', ''CHZUSDT'', ''AIGENSYNUSDT'', ''SIGNUSDT'', ''BETHUSDT'',
    ''BBUSDT'', ''AIXBTUSDT'', ''SPKUSDT'', ''ROBOUSDT'', ''CFXUSDT'', ''SPYBUSDT'', ''PLAUSDT'', ''OPENUSDT'',
    ''MOVRUSDT'', ''LITUSDT'', ''AGIXUSDT'', ''LPTUSDT'', ''DNTUSDT'', ''BNXUSDT'', ''DJTBUSDT'', ''1INCHUSDT'',
    ''YFIIUSDT'', ''EULUSDT'', ''DCRUSDT'', ''PYRUSDT'', ''MFTUSDT'', ''HOMEUSDT'', ''BEAMUSDT'', ''BIOUSDT'',
    ''OPNUSDT'', ''BTGUSDT'', ''DARUSDT'', ''BEAMXUSDT'', ''VELODROMEUSDT'', ''OOKIUSDT'', ''BARDUSDT'',
    ''BAKEUSDT'', ''SUPERUSDT'', ''BONDUSDT'', ''XTZUSDT'', ''FUSDT'', ''SOMIUSDT'', ''NILUSDT'', ''OMGUSDT'',
    ''EDUUSDT'', ''TREEUSDT'', ''NVDABUSDT'', ''BTCSTUSDT'', ''QNTUSDT'', ''HOODBUSDT'', ''ANCUSDT'', ''PROVEUSDT'',
    ''ADADOWNUSDT'', ''ONEUSDT'', ''ENJUSDT'', ''COMPUSDT'', ''ERNUSDT'', ''ELFUSDT'', ''SAGAUSDT'', ''AXTIBUSDT'',
    ''BNSOLUSDT'', ''MCUSDT'', ''BEBUSDT'', ''MANTRAUSDT'', ''2ZUSDT'', ''SCUSDT'', ''XVGUSDT'', ''MIRAUSDT'',
    ''NOTUSDT'', ''LOOMUSDT'', ''USUALUSDT'', ''MMTUSDT'', ''KSMUSDT'', ''SUNUSDT'', ''XMRUSDT'', ''FTTUSDT'',
    ''DRAMBUSDT'', ''IOTAUSDT'', ''AUTOUSDT'', ''OMUSDT'', ''AUCTIONUSDT'', ''BERAUSDT'', ''AIONUSDT'']"

definition seed_spot_symbols_3 :: "string list" where
  "seed_spot_symbols_3 = [
    ''NBSUSDT'', ''BSWUSDT'', ''WBETHUSDT'', ''PORTOUSDT'', ''ANTUSDT'', ''FRONTUSDT'', ''HOLOUSDT'', ''ILVUSDT'',
    ''DIAUSDT'', ''GTOUSDT'', ''PDAUSDT'', ''GFTUSDT'', ''MASKUSDT'', ''REDUSDT'', ''MIRUSDT'', ''FLOWUSDT'',
    ''NEBLUSDT'', ''VGXUSDT'', ''ALTUSDT'', ''ALICEUSDT'', ''WOOUSDT'', ''HMSTRUSDT'', ''TCTUSDT'', ''NEOUSDT'',
    ''JOEUSDT'', ''OGUSDT'', ''POLYXUSDT'', ''IMXUSDT'', ''ORNUSDT'', ''TORNUSDT'', ''WTCUSDT'', ''TRIBEUSDT'',
    ''RENUSDT'', ''TURBOUSDT'', ''REPUSDT'', ''SRMUSDT'', ''DOCKUSDT'', ''MBLUSDT'', ''STPTUSDT'', ''EWYBUSDT'',
    ''FXSUSDT'', ''SOXSBUSDT'', ''ETHUPUSDT'', ''AUDUSDT'', ''YFIUSDT'', ''PARTIUSDT'', ''PIXELUSDT'', ''HUMAUSDT'',
    ''MKRUSDT'', ''WAVESUSDT'', ''MBOXUSDT'', ''DGBUSDT'', ''PONSUSDT'', ''HYPEUSDT'', ''DGAIUSDT'', ''AKEUSDT'',
    ''USELESSUSDT'', [CHR 0xE9, CHR 0xBE, CHR 0x99, CHR 0xE8, CHR 0x99, CHR 0xBE] @ ''USDT'', ''FLOCKUSDT'', ''KASUSDT'', ''OKBUSDT'', ''DOODUSDT'', ''CASHCATUSDT'', ''UAIUSDT'',
    ''BTWUSDT'', ''ZEC3LUSDT'', ''RAINUSDT'', ''ZEC3SUSDT'', ''DOGE5SUSDT'', ''FARTCOINUSDT'', ''CPUSDT'',
    ''BEATUSDT'', [CHR 0xE7, CHR 0x89, CHR 0x9B, CHR 0xE6, CHR 0x9D, CHR 0xA5] @ ''USDT'', ''LINK5LUSDT'', ''DOGE5LUSDT'', ''SUI5LUSDT'', [CHR 0xE5, CHR 0x93, CHR 0x88, CHR 0xE5, CHR 0x9F, CHR 0xBA, CHR 0xE7, CHR 0xB1, CHR 0xB3] @ ''USDT'', ''SUI5SUSDT'',
    ''LINK5SUSDT'', ''XRP5SUSDT'', ''XANUSDT'', ''UNI3LUSDT'', ''LTC5LUSDT'', ''LTC5SUSDT'', ''WPAYUSDT'',
    ''XRP5LUSDT'', ''UNI5SUSDT'', ''SOL5LUSDT'', ''AVAX5SUSDT'', ''ETH5LUSDT'', ''UNI5LUSDT'', ''UNI3SUSDT'',
    ''ONDO3SUSDT'', ''SKHYNIX5SUSDT'', ''AVAX5LUSDT'', ''BCH5SUSDT'', ''FIL5SUSDT'', ''ETH5SUSDT'', ''DOGE3LUSDT'',
    ''LTC3SUSDT'', ''BTC5LUSDT'', ''NEAR5LUSDT'', ''SNDK5SUSDT'', ''VVVUSDT'', ''XRP3LUSDT'', ''SKRUSDT'',
    ''SOL5SUSDT'', ''BCH5LUSDT'', ''SNDK5LUSDT'', ''SUI3SUSDT'', ''SKHYNIX5LUSDT'', ''ANTFUNUSDT'', ''XRP3SUSDT'',
    ''SUI3LUSDT'', ''HYPE3LUSDT'', ''FIL5LUSDT'', ''CYSUSDT'', ''NEAR3LUSDT'', ''ONDO3LUSDT'', ''NAORISUSDT'',
    ''AVAX3SUSDT'', ''DOGE3SUSDT'', ''HYPE3SUSDT'', ''BCH3LUSDT'', ''BTC5SUSDT'', ''SNDK3LUSDT'', ''SNDK3SUSDT'',
    ''SOL3LUSDT'', ''XAU5SUSDT'', ''BTC3LUSDT'', ''FIL3SUSDT'', ''WLD5LUSDT'', ''BNB5LUSDT'', ''PEAQUSDT'',
    ''ETH3LUSDT'', ''PIEVERSEUSDT'', ''DOT5SUSDT'', ''XAG5SUSDT'', ''TAO3SUSDT'', ''XAU3SUSDT'', ''NEAR5SUSDT'',
    ''XAU3LUSDT'', ''ZIGUSDT'', ''MNTUSDT'', ''GTUSDT'', ''AVAX3LUSDT'', ''BTC3SUSDT'']"

definition seed_spot_symbols :: "string list" where
  "seed_spot_symbols = seed_spot_symbols_1 @ seed_spot_symbols_2 @ seed_spot_symbols_3"

definition seed_linear_symbols_1 :: "string list" where
  "seed_linear_symbols_1 = [
    ''USDCUSDT'', ''BTCUSDT'', ''ETHUSDT'', ''ZECUSDT'', ''SOLUSDT'', ''XRPUSDT'', ''BNBUSDT'', ''SUIUSDT'',
    ''LINKUSDT'', ''DOGEUSDT'', ''ARBUSDT'', ''WLDUSDT'', ''TAOUSDT'', ''PUMPUSDT'', ''UNIUSDT'', ''NEARUSDT'',
    ''MARSCOINUSDT'', ''AVAXUSDT'', ''LTCUSDT'', ''ADAUSDT'', ''DASHUSDT'', ''ENAUSDT'', ''TRXUSDT'', ''DOTUSDT'',
    ''XLMUSDT'', ''ICPUSDT'', ''SAHARAUSDT'', ''PEPEUSDT'', ''ASTERUSDT'', ''TRUMPUSDT'', ''ONDOUSDT'', ''FETUSDT'',
    ''INJUSDT'', ''RAYUSDT'', ''FILUSDT'', ''PROMUSDT'', ''TIAUSDT'', ''XAUTUSDT'', ''AAVEUSDT'', ''ZKCUSDT'',
    ''PENGUUSDT'', ''ORCAUSDT'', ''BCHUSDT'', ''HBARUSDT'', ''CFGUSDT'', ''XPLUSDT'', ''CAKEUSDT'', ''VIRTUALUSDT'',
    ''GRAMUSDT'', ''PAXGUSDT'', ''JUPUSDT'', ''ZENUSDT'', ''OPUSDT'', ''FIDAUSDT'', ''ACEUSDT'', ''CATIUSDT'',
    ''AEROUSDT'', ''JSTUSDT'', ''APTUSDT'', ''SOPHUSDT'', ''CRVUSDT'', ''ZAMAUSDT'', ''LUNAUSDT'', ''TUTUSDT'',
    ''COTIUSDT'', ''RENDERUSDT'', ''ZROUSDT'', ''SEIUSDT'', ''PENDLEUSDT'', ''CHIPUSDT'', ''IOSTUSDT'', ''JTOUSDT'',
    ''LUNCUSDT'', ''WLFIUSDT'', ''GIGGLEUSDT'', ''STRKUSDT'', ''ETHFIUSDT'', ''SHIBUSDT'', ''MORPHOUSDT'',
    ''LDOUSDT'', ''POLUSDT'', ''WIFUSDT'', ''ZKUSDT'', ''YGGUSDT'', ''METISUSDT'', ''STXUSDT'', ''SUSHIUSDT'',
    ''ETCUSDT'', ''PYTHUSDT'', ''KAVAUSDT'', ''MUBARAKUSDT'', ''PLUMEUSDT'', ''FORMUSDT'', ''BICOUSDT'',
    ''DEXEUSDT'', ''EIGENUSDT'', ''ARKMUSDT'', ''EPICUSDT'', ''ATOMUSDT'', ''JASMYUSDT'', ''KAITOUSDT'',
    ''ORDIUSDT'', ''ARUSDT'', ''ALGOUSDT'', ''MINAUSDT'', ''GALAUSDT'', ''ZKPUSDT'', ''IOUSDT'', ''ENSUSDT'',
    ''FLOKIUSDT'', ''LAYERUSDT'', ''METUSDT'', ''REZUSDT'', ''REUSDT'', ''ROSEUSDT'', ''LINEAUSDT'', ''BOMEUSDT'',
    ''ONGUSDT'', ''KITEUSDT'', ''TUSDT'', ''NIGHTUSDT'', ''MEGAUSDT'', ''VETUSDT'', ''ALLOUSDT'', ''USTCUSDT'',
    ''RUNEUSDT'', ''THETAUSDT'', ''ASTRUSDT'', ''1000CATUSDT'', ''DYDXUSDT'', ''EGLDUSDT'', ''FFUSDT'',
    ''BIGTIMEUSDT'', ''PEOPLEUSDT'', ''ENSOUSDT'', ''AVNTUSDT'', ''BANKUSDT'', ''YBUSDT'', ''SKYUSDT'', ''SANDUSDT'',
    ''AXSUSDT'', ''0GUSDT'', ''PHAUSDT'', ''APEUSDT'', ''ESPUSDT'', ''GRTUSDT'', ''CVXUSDT'', ''SENTUSDT'',
    ''PNUTUSDT'']"

definition seed_linear_symbols_2 :: "string list" where
  "seed_linear_symbols_2 = [
    ''SUSDT'', ''DOGSUSDT'', ''SYRUPUSDT'', ''GMXUSDT'', ''WUSDT'', ''TRBUSDT'', ''LAUSDT'', ''CHZUSDT'',
    ''SIGNUSDT'', ''BBUSDT'', ''AIXBTUSDT'', ''SPKUSDT'', ''ROBOUSDT'', ''CFXUSDT'', ''OPENUSDT'', ''MOVRUSDT'',
    ''LITUSDT'', ''LPTUSDT'', ''1INCHUSDT'', ''EULUSDT'', ''HOMEUSDT'', ''BEAMUSDT'', ''BIOUSDT'', ''OPNUSDT'',
    ''VELODROMEUSDT'', ''BARDUSDT'', ''SUPERUSDT'', ''XTZUSDT'', ''FUSDT'', ''SOMIUSDT'', ''NILUSDT'', ''TREEUSDT'',
    ''QNTUSDT'', ''PROVEUSDT'', ''ONEUSDT'', ''ENJUSDT'', ''COMPUSDT'', ''MANTRAUSDT'', ''2ZUSDT'', ''XVGUSDT'',
    ''MIRAUSDT'', ''NOTUSDT'', ''USUALUSDT'', ''MMTUSDT'', ''KSMUSDT'', ''SUNUSDT'', ''XMRUSDT'', ''IOTAUSDT'',
    ''AUCTIONUSDT'', ''BERAUSDT'', ''HOLOUSDT'', ''ILVUSDT'', ''DIAUSDT'', ''MASKUSDT'', ''REDUSDT'', ''ALTUSDT'',
    ''ALICEUSDT'', ''WOOUSDT'', ''NEOUSDT'', ''JOEUSDT'', ''OGUSDT'', ''POLYXUSDT'', ''IMXUSDT'', ''TURBOUSDT'',
    ''PARTIUSDT'', ''PIXELUSDT'', ''HUMAUSDT'', ''PONSUSDT'', ''HYPEUSDT'', ''DGAIUSDT'', ''AKEUSDT'',
    ''USELESSUSDT'', [CHR 0xE9, CHR 0xBE, CHR 0x99, CHR 0xE8, CHR 0x99, CHR 0xBE] @ ''USDT'', ''FLOCKUSDT'', ''KASUSDT'', ''DOODUSDT'', ''UAIUSDT'', ''BTWUSDT'',
    ''FARTCOINUSDT'', ''CPUSDT'', ''BEATUSDT'', [CHR 0xE7, CHR 0x89, CHR 0x9B, CHR 0xE6, CHR 0x9D, CHR 0xA5] @ ''USDT'', [CHR 0xE5, CHR 0x93, CHR 0x88, CHR 0xE5, CHR 0x9F, CHR 0xBA, CHR 0xE7, CHR 0xB1, CHR 0xB3] @ ''USDT'', ''XANUSDT'', ''VVVUSDT'', ''SKRUSDT'',
    ''CYSUSDT'', ''NAORISUSDT'', ''PIEVERSEUSDT'']"

definition seed_linear_symbols :: "string list" where
  "seed_linear_symbols = seed_linear_symbols_1 @ seed_linear_symbols_2"

definition bybit_seeds :: "market_type \<Rightarrow> string list" where
  "bybit_seeds m = (if m = MarketTypeSpot then seed_spot_symbols else seed_linear_symbols)"

section \<open>Facts about the lists\<close>

lemmas seed_defs = seed_spot_symbols_def seed_spot_symbols_1_def seed_spot_symbols_2_def seed_spot_symbols_3_def
  seed_linear_symbols_def seed_linear_symbols_1_def seed_linear_symbols_2_def

lemma seed_lengths: "length seed_spot_symbols = 445" "length seed_linear_symbols = 238"
  by (simp_all add: seed_defs)

lemma seed_heads_distinct: "distinct (take 100 seed_spot_symbols)" "distinct (take 100 seed_linear_symbols)"
  by (simp_all add: seed_defs)

lemma seed_head_lengths:
  "list_all (\<lambda>s. length s < 1500) (take 100 seed_spot_symbols)" "list_all (\<lambda>s. length s < 1500) (take 100 seed_linear_symbols)"
  by (simp_all add: seed_defs)

text \<open>For symbols of any reasonable length the limit of ten topics is the one that counts.\<close>

lemma shard_loop_slices:
  "length cur \<le> 10 \<Longrightarrow> sz \<le> 1600 * int (length cur) \<Longrightarrow> list_all (\<lambda>x. length x \<le> 1597) xs
    \<Longrightarrow> shard_loop 16000 10 cur sz xs = slices 10 (cur @ xs)"
proof (induction xs arbitrary: cur sz)
  case Nil
  then show ?case by (cases "cur = []") (simp_all add: slices.simps [of 10 cur] slices.simps [of 10 "[]"])
next
  case (Cons x xs)
  have x: "int (length x) + 3 \<le> 1600" using Cons.prems(3) by simp
  show ?case
  proof (cases "length cur = 10")
    case True
    have "slices 10 (cur @ x # xs) = cur # slices 10 (x # xs)"
      using True by (subst slices.simps) auto
    moreover have "shard_loop 16000 10 [x] (int (length x) + 3) xs = slices 10 ([x] @ xs)"
      using Cons.prems(3) x by (intro Cons.IH) simp_all
    ultimately show ?thesis using True by (simp add: Let_def)
  next
    case False
    then have l: "length cur < 10" using Cons.prems(1) by simp
    then have "int (length cur) \<le> 9" by simp
    then have "sz + (int (length x) + 3) \<le> 16000" using Cons.prems(2) x by linarith
    moreover have "shard_loop 16000 10 (cur @ [x]) (sz + (int (length x) + 3)) xs = slices 10 ((cur @ [x]) @ xs)"
      using Cons.prems l x by (intro Cons.IH) simp_all
    ultimately show ?thesis using l by (simp add: Let_def)
  qed
qed

lemma bybit_shards_slices:
  assumes "list_all (\<lambda>s. length s < 1500) symbols"
  shows "bybit_ticker_shards symbols = slices 10 (map (\<lambda>s. ''tickers.'' @ s) symbols)"
proof -
  have "list_all (\<lambda>x. length x \<le> 1597) (map (\<lambda>s. ''tickers.'' @ s) symbols)"
    using assms by (auto simp: list_all_iff)
  then have "shard_loop 16000 10 [] 0 (map (\<lambda>s. ''tickers.'' @ s) symbols) = slices 10 (map (\<lambda>s. ''tickers.'' @ s) symbols)"
    using shard_loop_slices [of "[]" 0] by simp
  then show ?thesis by (simp add: bybit_ticker_shards_def shard_args_max_def)
qed

lemma slices_lengths: "length xs = 10 * k \<Longrightarrow> map length (slices 10 xs) = replicate k 10"
proof (induction k arbitrary: xs)
  case (Suc k)
  then show ?case by (subst slices.simps) auto
qed (simp add: slices.simps)

lemma seed_head_shards:
  "map length (bybit_ticker_shards (take 100 seed_spot_symbols)) = replicate 10 10"
  "map length (bybit_ticker_shards (take 100 seed_linear_symbols)) = replicate 10 10"
  using seed_lengths
  by (simp_all add: bybit_shards_slices [OF seed_head_lengths(1)] bybit_shards_slices [OF seed_head_lengths(2)] slices_lengths [of _ 10])

lemma seed_subseq: "subseq seed_linear_symbols seed_spot_symbols"
  by code_simp

lemma seed_cap: "cap_bybit_symbols [] (bybit_seeds (market_of spot)) = take 100 (bybit_seeds (market_of spot))"
  by (simp add: cap_bybit_symbols_def bybit_symbol_limit_def bybit_seeds_def market_of_def seed_lengths string_eval)

section \<open>Property\<close>

text \<open>
  The last resort works: when both hosts refuse the request, no list is on disk and the limit is not
  configured, a market of Bybit starts with the hundred most liquid symbols of its built-in list, all
  different, on ten connections of ten topics, each within the limit of the exchange.
\<close>

theorem bybit_last_resort:
  assumes "load_symbols J (if spot then ''bybit-spot'' else ''bybit-linear'') files = Inl e"
    and "bybit_symbols_for J [] bybit_seeds (market_of spot) (how, None, None) files = (files', symbols)"
  shows "files' = files \<and> symbols = take 100 (bybit_seeds (market_of spot)) \<and> distinct symbols
    \<and> map length (bybit_ticker_shards symbols) = replicate 10 10"
proof -
  have m: "market_of spot = MarketTypeSpot \<longleftrightarrow> spot"
    by (simp add: market_of_def MarketTypeSpot_def MarketTypeFutures_def)
  have r: "files' = files \<and> symbols = take 100 (bybit_seeds (market_of spot))"
    using assms by (simp add: bybit_symbols_for_def bybit_symbols_with_fallback_def seed_cap m)
  then show ?thesis using seed_heads_distinct seed_head_shards by (simp add: bybit_seeds_def m)
qed

theorem bybit_last_resort_witness:
  "length (snd (bybit_symbols_for comma_json [] bybit_seeds (market_of True) (MkdirFails, None, None) [])) = 100"
proof -
  obtain files' symbols where r: "bybit_symbols_for comma_json [] bybit_seeds (market_of True) (MkdirFails, None, None) [] = (files', symbols)"
    by fastforce
  have "load_symbols comma_json (if True then ''bybit-spot'' else ''bybit-linear'') [] = Inl FileSystem"
    by (simp add: load_symbols_def)
  from bybit_last_resort [OF this r] have "symbols = take 100 (bybit_seeds (market_of True))" by blast
  then show ?thesis unfolding r by (simp add: bybit_seeds_def market_of_def seed_lengths)
qed

end
