(* ===== verification/Spec2Isabelle.thy ===== *)
theory Spec2Isabelle
  imports Stored_Signals Sample_Run Persistence_Pool Programs Feeds Bybit_Seed
begin

text \<open>
  A model of the crypto-screener, a Go program (src/) that listens to eight exchanges, searches the quotes
  of every symbol for an arbitrage between two exchanges or between the spot and the futures market of one,
  follows each route it finds from its opening to its closing, stores it in PostgreSQL and tells the
  subscribers of its Telegram bots.

  \<^bold>\<open>The program and its theories.\<close> Paths are under src/internal unless they begin with cmd.

    \<^item> \<open>Prelude\<close>, \<open>Go_Lib\<close>: Go maps and the arbitrary order of their loops, strings, instants and
      durations, CRC-32, 64-bit wrap-around; the locale \<open>machine\<close> (every operation keeps an invariant).
    \<^item> \<open>Market_Types\<close>, \<open>Screener_Config\<close>, \<open>Users\<close> (domain/*.go): ticks, candles, events and signals; the spread
      floor and the table of fees with its text form; the subscribers.
    \<^item> \<open>Funding\<close> (app/funding_manager.go): the funding rates, their age and health, the net spread of a pair.
    \<^item> \<open>Volume\<close> (app/volume_engine.go): minute buckets and the estimate of the volume of a window.
    \<^item> \<open>Market_Book\<close>, \<open>Aggregator\<close>, \<open>Lifecycle\<close>, \<open>Tick_Spec\<close> (app/sharded_aggregator.go): the search over the quotes
      of a symbol; the sharded state with \<open>process_tick\<close>, \<open>janitor\<close>, \<open>flush_active\<close>, \<open>revalidate_signal\<close>; the
      contract of the events it sends; the exact effect of a tick.
    \<^item> \<open>Coalescing\<close>: the interface of the three buffers that keep the newest value of a key.
    \<^item> \<open>Ingress\<close> (ingress/latest.go): the buffer between the adapters and the queue of ticks.
    \<^item> \<open>Tracker\<close> (app/tracker.go): the signals that the events open, update and close.
    \<^item> \<open>Router\<close> (app/notification_router.go): who is told of a signal, and what is still true when it is sent.
    \<^item> \<open>Persistence\<close>, \<open>Repo\<close> (app/signal_persistence_buffer.go, app/persistence_worker.go, adapters/postgres/repo.go):
      the buffer of snapshots with its batch worker, and the three tables; \<open>Persistence_Pool\<close>: the older worker with
      its four goroutines, which the program does not start.
    \<^item> \<open>Connectors\<close> (app/connector_manager.go): the running adapters, their replacement and shutdown.
    \<^item> \<open>Commands\<close>, \<open>Startup\<close>, \<open>System\<close> (app/app.go): the commands of the chats; \<open>Run\<close> up to the first command;
      the goroutines with the queues between them, and the shutdown. \<open>Flush_Worker\<close> joins the buffer of
      snapshots and the table over the life of the worker; \<open>Stored_Signals\<close> joins start, tracker, buffer, table
      and shutdown: which rows may be active. \<open>Sample_Run\<close> is a concrete run that opens and closes a route.
    \<^item> \<open>Telegram\<close> (adapters/telegram): one bot with its queues and retries, and the pool of bots.
    \<^item> \<open>Process_Config\<close>, \<open>Programs\<close> (config/config.go, cmd/screener/main.go, cmd/smoke/main.go, adapters/registry.go):
      from the environment to the running application and its end; the check of the hosts; the smoke program.
    \<^item> \<open>Observability\<close> (observability/observability.go): what the metrics read, the paths of the HTTP server,
      the status page and the webhook of Alertmanager.
    \<^item> \<open>Helpers\<close>, \<open>Connection\<close> (retry/backoff.go, symbolscache/symbolscache.go, wsutil/heartbeat.go): reconnection
      delays, lists of symbols on disk; the life of a WebSocket connection with its deadlines, the group of
      shards, the loop that reconnects.
    \<^item> \<open>Adapter_Base\<close>, \<open>Binance\<close>, \<open>Bybit\<close> with \<open>Bybit_Seed\<close>, \<open>Okx\<close>, \<open>Bitget\<close>, \<open>Gateio\<close>, \<open>Kucoin\<close>, \<open>Bingx\<close>, \<open>Mexc\<close> with
      \<open>Mexc_Proto\<close>, \<open>Adapters\<close>, \<open>Feeds\<close> (adapters/*): from the decoded message of an exchange to ticks, funding
      rates and candles; the connections, shards and loops of each feed; whole runs of all of them.

  \<^bold>\<open>How the parts interact.\<close> An adapter submits ticks to the ingress buffer; the dispatcher hands them to
  the worker of the symbol's shard; the aggregator stores the quote, searches, and returns opening, update
  and closing events; the tracker turns them into signals, puts snapshots into the persistence buffer and
  jobs into the router; the router revalidates a signal against the aggregator before it is sent through
  the pool of bots. Adapters report funding rates to the funding manager and candles to the volume engine,
  which the search reads. The interfaces between the parts are locales, interpreted on the model of the
  provider: \<open>lifecycle_source\<close> and \<open>lifecycle_consumer\<close> (aggregator and tracker, joined below by
  \<open>pipeline_agreement\<close> and with interleaving by \<open>running_agreement\<close>), \<open>coalescing\<close> and \<open>coalescing_queue\<close> (ingress,
  notifications, snapshots), \<open>machine\<close> (invariants of the stateful components), \<open>tick_source\<close> (what the
  aggregator may rely on in the ticks of an adapter), \<open>aligned_feeds\<close> (the three feeds of an exchange
  name an instrument alike), \<open>feed\<close>, \<open>local_feed\<close> and \<open>feed_run\<close> (what a handler of messages promises of
  one message holds of a connection, of a group of shards and of a whole run of the loop). Six exchanges satisfy the last one; for OKX and KuCoin the law is false, as
  \<open>okx_never_traded\<close> and \<open>kucoin_keys_differ\<close> show.

  \<^bold>\<open>Representation.\<close>

    \<^item> A struct is a record, an enumeration a datatype or string constants as in the code, an error a sum or
      an option, a mutex-protected method one step on the state, a goroutine a set of steps.
    \<^item> A decimal is a rational number: \<open>Add\<close>, \<open>Sub\<close>, \<open>Mul\<close> and comparisons are exact in the package.
      \<open>Div\<close>, \<open>IntPart\<close>, \<open>NewFromString\<close> and \<open>String\<close> belong to the package and are the fields of the parameter
      \<open>dec_lib\<close>; where a proof needs the precision of \<open>Div\<close>, \<open>div_ok\<close> states what the package documents.
    \<^item> An instant is the number of nanoseconds since the zero Time, a duration an integer; conversions that
      overflow at 64 bits are written out (\<open>wrap64\<close>, saturation in \<open>time_sub\<close>).
    \<^item> A string is a list of bytes; letters are changed in case as for ASCII.
    \<^item> A map is an association list without repeated keys. A loop over it takes its order as an argument;
      \<open>order_ok\<close>, which says that it is a permutation, is a hypothesis where the order could matter.
    \<^item> The clock, identifiers from the package uuid, jitter, answers of the Telegram API, of REST servers and
      of the file system are arguments. The database is the parameter \<open>pg_lib\<close> with an outcome for each
      statement that also covers a lost connection after the statement took effect.
    \<^item> Pointers that are shared are fields of one state (the funding manager is the sink of the connectors);
      the entries of the connector manager, which are compared by identity, live in a store. The version
      counter of the persistence buffer is a natural number.
    \<^item> The network is a script: for each attempt of a loop whether the dial and the subscriptions succeed,
      the messages and pongs with the times they arrive at, and what other goroutines do to shared state in
      between. A context is the time of its cancellation; a timer that is due at the same time loses.
    \<^item> Texts for users are data: the values shown, not the wording.

  \<^bold>\<open>What the groups of lemmas show.\<close>

    \<^item> The search finds exactly the profitable routes whose legs are fresh, in any order of the loops
      (\<open>cross_search_exact\<close>), its filters hide nothing a user would accept, revalidation agrees with it.
    \<^item> After a tick the active routes of the symbol are exactly the eligible candidates above their threshold
      (\<open>tick_active_routes\<close>), and the events of any run form lifecycles (\<open>route_lifecycles\<close>).
    \<^item> Nothing is lost or told too late: newest tick, newest snapshot, every opening and closing reaches the
      database buffer, no message about a signal after its closing.
    \<^item> Commands: who may change what, ranges of all settings, agreement of memory and table, restart.
    \<^item> Connectors: one per exchange, a removed one leaves nothing behind, shutdown is final.
    \<^item> Bots: bounded queues in order, the exact condition under which a reliable broadcast reports success.
    \<^item> Text and byte formats: the fee table, saved users, the protobuf frames of MEXC, the symbol cache.
    \<^item> Connections: a silent one ends, the delays between attempts, no end of a loop before the end of the
      context and a sure end after it, one failing shard ends its group.
    \<^item> Adapters: well-formed ticks over whole runs, merging of deltas, agreement of names, the round of funding requests.

  \<^bold>\<open>Loops, bounds and fuel.\<close> The loops over minutes and over byte strings are functions with measures. The
  loop of \<open>flush\<close> over batches has fuel one above the number of buffered signals, which
  \<open>flush_terminates\<close> shows to be enough; the loop of \<open>persist\<close> and the deliveries of a bot run over
  the list of the answers they get; the loop over the pages of Bybit has fuel, because it need
  not end (\<open>bybit_pages_cycle\<close>), and \<open>bybit_pages_all\<close> shows that one unit per page is enough. Channels are
  unbounded in \<open>System\<close>, where a full one blocks its sender and loses nothing, and bounded in \<open>Telegram\<close>,
  where a full one drops the message.

  \<^bold>\<open>Not modelled.\<close> The packages below the program: sockets, TLS, HTTP, JSON and gzip decoding (messages and
  answers enter decoded, a failed decoding is a case of the input), the Prometheus registry and its text format, the
  SQL engine beyond the statements and the column types, the pool of database connections. Log lines, and the
  moments at which the counters of observability are incremented by the other parts. Generated mocks; methods on nil
  receivers; data races, since a method under its mutex is one step.
\<close>

section \<open>Aggregator and tracker together\<close>

text \<open>
  The two ends of the event channel agree: whatever ticks, janitor turns and shutdown flushes the
  aggregator has processed, when the tracker has handled the events it sent, in order and
  with timestamps that do not go backwards, its active signals are exactly the active routes
  of the aggregator.
\<close>

theorem pipeline_agreement:
  assumes "\<forall>x\<in>set ops. agg_op_ok x" and "run_out agg_step ops empty_aggregator = (ag, evs)"
    and "map input_event cs = evs" and "\<forall>c\<in>set cs. proper_event (input_event c)"
    and "sorted (map (\<lambda>c. ev_timestamp (input_event c)) cs)"
  shows "tracked (fold tracker_step cs (new_tracker sink router)) = open_keys ag"
proof -
  have "life_run (map input_event cs) {} = Some (open_keys ag)"
    using agg_source.run_source [OF agg_ok_empty assms(1)] assms(2,3) by (simp add: open_keys_empty)
  with assms(4,5) show ?thesis by (rule tracker_tracks)
qed


section \<open>Witness\<close>

theorem pipeline_agreement_witness:
  "\<exists>ag. run_out agg_step [OpTick sample_env (sample_tick ''OKX'' okx_quote),
        OpTick sample_env (sample_tick ''MEXC'' mexc_quote)] empty_aggregator = (ag, [opened_route])
     \<and> tracked (fold tracker_step [(notice_tracker_env, ''s1'', True, opened_route)]
         (new_tracker None (Some (new_notification_router None)))) = open_keys ag"
proof -
  let ?ops = "[OpTick sample_env (sample_tick ''OKX'' okx_quote), OpTick sample_env (sample_tick ''MEXC'' mexc_quote)]"
  let ?cs = "[(notice_tracker_env, ''s1'', True, opened_route)]"
  obtain ag where r: "run_out agg_step ?ops empty_aggregator = (ag, [opened_route])"
    using first_tick [of "1 / 50" None] second_tick [of "1 / 50" None] by (simp add: market_env_sample)
  have "\<forall>c\<in>set ?cs. proper_event (input_event c)"
    by (simp add: input_event_def proper_event_def sample_route_def)
  then have "tracked (fold tracker_step ?cs (new_tracker None (Some (new_notification_router None)))) = open_keys ag"
    by (intro pipeline_agreement [OF sample_ops_ok r]) (simp_all add: input_event_def)
  with r show ?thesis by blast
qed

end
